(* ===== verification/Kernel_Prelude.thy ===== *)
theory Kernel_Prelude
  imports Main "HOL-Library.Word" "HOL-Library.Signed_Division"
begin

unbundle bit_operations_syntax

text \<open>
  Shared vocabulary of the kernel development.

  \<^item> the fixed-width integers of \<^verbatim>\<open>src/include/Type.hpp\<close> as word types;
  \<^item> the outcome of a kernel routine: \<open>Inr\<close> of a value and state when it returns, \<open>Inl\<close> of a
    \<open>kerror\<close> when it does not come back (\<^verbatim>\<open>panic\<close> of \<^verbatim>\<open>src/kernel/kerror.cpp\<close> prints a message
    and loops for ever, a pointer walk round a cycle never ends, a null pointer is followed);
  \<^item> chains: singly linked lists threaded through an array by index, the shape of the segment
    lists of the page frame allocator, of the run queues and of the timer list;
  \<^item> rounding of addresses to page boundaries.
\<close>

section \<open>Machine integers\<close>

type_synonym u8 = "8 word"
type_synonym u16 = "16 word"
type_synonym u32 = "32 word"

text \<open>Physical memory as the kernel reads and writes it, a 32-bit word at each address it uses.\<close>

type_synonym mem = "u32 \<Rightarrow> u32"

section \<open>Outcomes\<close>

datatype kerror =
    Panic string     \<comment> \<open>\<^verbatim>\<open>panic(msg)\<close>: prints and loops for ever\<close>
  | Hang             \<comment> \<open>a loop of the source that never leaves its body\<close>
  | Null_deref       \<comment> \<open>a field of the null pointer is read or written\<close>
  | Out_of_bounds    \<comment> \<open>an array is indexed past its end\<close>
  | Uninitialised    \<comment> \<open>a variable is read that was given no value\<close>
  | Div_zero         \<comment> \<open>an integer is divided by zero\<close>

type_synonym 'a kres = "kerror + 'a"

text \<open>Sequencing: a routine that does not come back ends its caller too.\<close>

definition rbind :: "'a kres \<Rightarrow> ('a \<Rightarrow> 'b kres) \<Rightarrow> 'b kres" where
  "rbind r f = (case r of Inl e \<Rightarrow> Inl e | Inr x \<Rightarrow> f x)"

named_theorems chain_simps "rewriting of chains after an update of the links"
named_theorems page_simps "arithmetic of page-aligned addresses"

lemma rbind_Inl [simp]: "rbind (Inl e) f = Inl e"
  by (simp add: rbind_def)

lemma rbind_Inr [simp]: "rbind (Inr x) f = f x"
  by (simp add: rbind_def)

lemma rbind_eq_Inr: "rbind r f = Inr y \<longleftrightarrow> (\<exists>x. r = Inr x \<and> f x = Inr y)"
  by (cases r) auto

lemma rbind_assoc: "rbind (rbind r f) g = rbind r (\<lambda>x. rbind (f x) g)"
  by (cases r) auto

text \<open>Indexing an array, with the bound written out.\<close>

definition elem_at :: "'a list \<Rightarrow> nat \<Rightarrow> 'a kres" where
  "elem_at xs i = (if i < length xs then Inr (xs ! i) else Inl Out_of_bounds)"

lemma elem_at_Inr [simp]: "elem_at xs i = Inr x \<longleftrightarrow> i < length xs \<and> xs ! i = x"
  by (simp add: elem_at_def)

lemma elem_at_in [simp]: "i < length xs \<Longrightarrow> elem_at xs i = Inr (xs ! i)"
  by (simp add: elem_at_def)

text \<open>
  \<open>ensures r P\<close>: when the routine returns, its result satisfies \<open>P\<close>. The rules below follow the shape of a
  routine, one call at a time.
\<close>

definition ensures :: "'a kres \<Rightarrow> ('a \<Rightarrow> bool) \<Rightarrow> bool" where
  "ensures r P \<longleftrightarrow> (\<forall>x. r = Inr x \<longrightarrow> P x)"

lemma ensures_simps [simp]: "ensures (Inl e) P" "ensures (Inr x) P \<longleftrightarrow> P x"
  by (simp_all add: ensures_def)

lemma ensures_bind: "ensures r Q \<Longrightarrow> (\<And>x. Q x \<Longrightarrow> ensures (f x) P) \<Longrightarrow> ensures (rbind r f) P"
  by (cases r) (auto simp: ensures_def)

lemma ensures_any: "(\<And>x. ensures (f x) P) \<Longrightarrow> ensures (rbind r f) P"
  by (cases r) (auto simp: ensures_def)

lemma ensures_conseq: "ensures r Q \<Longrightarrow> (\<And>x. Q x \<Longrightarrow> P x) \<Longrightarrow> ensures r P"
  by (auto simp: ensures_def)

lemma ensuresD: "ensures r P \<Longrightarrow> r = Inr x \<Longrightarrow> P x"
  by (simp add: ensures_def)

section \<open>Chains threaded through an array\<close>

text \<open>
  \<open>path nx p is q\<close>: starting from pointer \<open>p\<close> and following \<open>nx\<close>, the cells \<open>is\<close> are visited in
  order and the pointer left over is \<open>q\<close>. \<open>chain nx p is\<close> is a whole list: the pointer left over
  is \<open>None\<close>, the null pointer.
\<close>

primrec path :: "(nat \<Rightarrow> nat option) \<Rightarrow> nat option \<Rightarrow> nat list \<Rightarrow> nat option \<Rightarrow> bool" where
  "path nx p [] q \<longleftrightarrow> p = q"
| "path nx p (i # is) q \<longleftrightarrow> p = Some i \<and> path nx (nx i) is q"

definition chain :: "(nat \<Rightarrow> nat option) \<Rightarrow> nat option \<Rightarrow> nat list \<Rightarrow> bool" where
  "chain nx p is \<longleftrightarrow> path nx p is None"

lemma chain_Nil [simp]: "chain nx p [] \<longleftrightarrow> p = None"
  by (simp add: chain_def)

lemma chain_Cons [simp]: "chain nx p (i # is) \<longleftrightarrow> p = Some i \<and> chain nx (nx i) is"
  by (simp add: chain_def)

lemma chain_None [simp]: "chain nx None is \<longleftrightarrow> is = []"
  by (cases "is") auto

lemma chain_Some: "chain nx (Some i) is \<longleftrightarrow> (\<exists>js. is = i # js \<and> chain nx (nx i) js)"
  by (cases "is") auto

lemma path_append [simp]:
  "path nx p (is @ js) q \<longleftrightarrow> (\<exists>r. path nx p is r \<and> path nx r js q)"
  by (induction "is" arbitrary: p) auto

lemma chain_append: "chain nx p (is @ js) \<longleftrightarrow> (\<exists>r. path nx p is r \<and> chain nx r js)"
  by (simp add: chain_def)

lemma path_functional: "path nx p is q \<Longrightarrow> path nx p is q' \<Longrightarrow> q = q'"
  by (induction "is" arbitrary: p) auto

lemma path_cong: "(\<And>i. i \<in> set is \<Longrightarrow> nx i = nx' i) \<Longrightarrow> path nx p is q = path nx' p is q"
  by (induction "is" arbitrary: p) auto

lemma chain_cong: "(\<And>i. i \<in> set is \<Longrightarrow> nx i = nx' i) \<Longrightarrow> chain nx p is = chain nx' p is"
  by (simp add: chain_def path_cong [of "is" nx nx'])

lemma path_upd_other [chain_simps]:
  "j \<notin> set is \<Longrightarrow> path (nx(j := r)) p is q = path nx p is q"
  by (rule path_cong) auto

lemma chain_upd_other [chain_simps]:
  "j \<notin> set is \<Longrightarrow> chain (nx(j := r)) p is = chain nx p is"
  by (rule chain_cong) auto

lemma chain_if_other [chain_simps]:
  "j \<notin> set is \<Longrightarrow> chain (\<lambda>i. if i = j then r else nx i) p is = chain nx p is"
  by (rule chain_cong) auto

text \<open>Redirecting the last link of a path.\<close>

lemma path_snoc_upd:
  "path nx p (is @ [i]) r \<Longrightarrow> i \<notin> set is \<Longrightarrow> path (nx(i := q)) p (is @ [i]) q"
  by (auto simp: chain_simps)

lemma chain_unique: "chain nx p is \<Longrightarrow> chain nx p js \<Longrightarrow> is = js"
proof (induction "is" arbitrary: p js)
  case Nil
  then show ?case by simp
next
  case (Cons i "is")
  then show ?case by (cases js) auto
qed

lemma chain_distinct: "chain nx p is \<Longrightarrow> distinct is"
proof (induction "is" arbitrary: p)
  case Nil
  then show ?case by simp
next
  case (Cons i "is")
  have "i \<notin> set is"
  proof
    assume "i \<in> set is"
    then obtain xs ys where xs: "is = xs @ i # ys"
      by (auto simp: in_set_conv_decomp)
    with Cons.prems have "chain nx (nx i) ys" and "chain nx (nx i) is"
      by (auto simp: chain_append)
    then have "is = ys" by (metis chain_unique)
    with xs show False by simp
  qed
  with Cons show ?case by auto
qed

text \<open>Taking a cell out of a chain, and putting one in behind a given cell.\<close>

lemma chain_unlink:
  assumes "chain nx p (as @ a # c # bs)"
  shows "chain (nx(a := nx c)) p (as @ a # bs)"
  using assms chain_distinct [OF assms] by (auto simp: chain_append chain_simps)

lemma chain_insert:
  assumes "chain nx p (as @ a # bs)" and "c \<notin> set (as @ a # bs)"
  shows "chain (nx(c := nx a, a := Some c)) p (as @ a # c # bs)"
  using assms chain_distinct [OF assms(1)] by (auto simp: chain_append chain_simps)

lemma chain_link: "chain nx p (as @ a # bs) \<Longrightarrow> nx a = (case bs of [] \<Rightarrow> None | b # _ \<Rightarrow> Some b)"
  by (auto simp: chain_append split: list.splits)

text \<open>Following a pointer.\<close>

definition deref :: "nat option \<Rightarrow> nat kres" where
  "deref p = (case p of None \<Rightarrow> Inl Null_deref | Some i \<Rightarrow> Inr i)"

lemma deref_simps [simp]: "deref None = Inl Null_deref" "deref (Some i) = Inr i"
  by (simp_all add: deref_def)

lemma distinct_bounded_length:
  assumes "distinct is" and "set is \<subseteq> {..<n}"
  shows "length is \<le> n"
proof -
  have "length is = card (set is)" using assms(1) by (simp add: distinct_card)
  also have "\<dots> \<le> card {..<n}" using assms(2) by (intro card_mono) auto
  finally show ?thesis by simp
qed

text \<open>The cells visited by following at most \<open>n\<close> links: an executable reading of a chain.\<close>

fun walk :: "nat \<Rightarrow> (nat \<Rightarrow> nat option) \<Rightarrow> nat option \<Rightarrow> nat list" where
  "walk 0 nx p = []"
| "walk (Suc n) nx p = (case p of None \<Rightarrow> [] | Some i \<Rightarrow> i # walk n nx (nx i))"

lemma walk_chain: "chain nx p is \<Longrightarrow> length is \<le> n \<Longrightarrow> walk n nx p = is"
proof (induction "is" arbitrary: p n)
  case Nil
  then show ?case by (cases n) auto
next
  case (Cons i "is")
  then show ?case by (cases n) auto
qed

section \<open>Page-aligned addresses\<close>

text \<open>Clearing the low bits rounds down to a multiple of a power of two; keeping them is \<open>mod\<close>.\<close>

lemma and_not_mask_eq_shifts: "x AND NOT (mask n) = push_bit n (drop_bit n (x :: u32))"
  by (rule bit_word_eqI) (auto simp: bit_simps)

lemma unat_and_not_mask: "unat (x AND NOT (mask n) :: u32) = unat x div 2 ^ n * 2 ^ n"
proof -
  have lt: "unat x < 2 ^ 32" using unsigned_less [of x] by simp
  have "unat (x AND NOT (mask n) :: u32) = take_bit 32 (push_bit n (drop_bit n (unat x)))"
    using lt by (simp add: and_not_mask_eq_shifts unsigned_push_bit_eq unsigned_drop_bit_eq
        take_bit_nat_eq_self)
  also have "\<dots> = unat x div 2 ^ n * 2 ^ n"
  proof -
    have "unat x div 2 ^ n * 2 ^ n < 2 ^ 32"
      by (rule le_less_trans [OF _ lt]) simp
    then show ?thesis
      by (simp only: take_bit_eq_mod push_bit_eq_mult drop_bit_eq_div mod_less)
  qed
  finally show ?thesis .
qed

lemma unat_and_mask: "unat (x AND mask n :: u32) = unat x mod 2 ^ n"
proof -
  have "unat (x AND mask n) = unat (take_bit n x)" by (simp only: take_bit_eq_mask)
  also have "\<dots> = unat x mod 2 ^ n" by (subst unsigned_take_bit_eq) (simp only: take_bit_eq_mod)
  finally show ?thesis .
qed

lemma page_mask: "(0x1000 - 1 :: u32) = mask 12"
  by (simp add: mask_eq_exp_minus_1)

lemma unat_page_down [page_simps]:
  "unat (x AND NOT (0x1000 - 1) :: u32) = unat x div 4096 * 4096"
  unfolding page_mask by (simp add: unat_and_not_mask)

lemma unat_page_off [page_simps]: "unat (x AND 0xfff :: u32) = unat x mod 4096"
proof -
  have "(0xfff :: u32) = mask 12" by (simp add: mask_eq_exp_minus_1)
  then show ?thesis by (simp only: unat_and_mask) simp
qed

text \<open>Sums and products that stay below \<open>2 ^ 32\<close> are computed exactly.\<close>

lemma unat_add_exact: "unat x + unat y < 2 ^ 32 \<Longrightarrow> unat (x + y :: u32) = unat x + unat y"
  by (simp add: unat_word_ariths)

lemma unat_mult_exact: "unat x * unat y < 2 ^ 32 \<Longrightarrow> unat (x * y :: u32) = unat x * unat y"
  by (simp add: unat_word_ariths)

lemma unat_diff_exact: "y \<le> x \<Longrightarrow> unat (x - y :: u32) = unat x - unat y"
  by (simp add: unat_sub)

text \<open>Two numbers below \<open>2 ^ 32\<close>.\<close>

lemma of_nat_u32: "a < 2 ^ 32 \<Longrightarrow> b < 2 ^ 32 \<Longrightarrow> (of_nat a :: u32) = of_nat b \<longleftrightarrow> a = b"
  by (simp add: word_unat_eq_iff unsigned_of_nat take_bit_nat_eq_self)

lemma of_nat_u32_le: "a < 2 ^ 32 \<Longrightarrow> b < 2 ^ 32 \<Longrightarrow> (of_nat a :: u32) \<le> of_nat b \<longleftrightarrow> a \<le> b"
  by (simp add: word_le_nat_alt unsigned_of_nat take_bit_nat_eq_self)

lemma of_nat_u32_div_mod:
  assumes "a < 2 ^ 32" and "b < 2 ^ 32"
  shows "(of_nat a :: u32) div of_nat b = of_nat (a div b)" and "(of_nat a :: u32) mod of_nat b = of_nat (a mod b)"
proof -
  have "a div b < 2 ^ 32" "a mod b < 2 ^ 32" using assms(1) by (auto intro: le_less_trans [OF div_le_dividend] le_less_trans [OF mod_less_eq_dividend])
  then show "(of_nat a :: u32) div of_nat b = of_nat (a div b)" "(of_nat a :: u32) mod of_nat b = of_nat (a mod b)"
    using assms by (simp_all add: word_unat_eq_iff unat_div unat_mod unsigned_of_nat take_bit_nat_eq_self)
qed

text \<open>Signed and small numbers.\<close>

lemma unat_u32_less: "unat (x :: u32) < 2 ^ 32"
  by (rule order.strict_trans2 [OF unsigned_less]) simp

lemma sdiv_smod_nonneg: "0 \<le> k \<Longrightarrow> 0 < l \<Longrightarrow> k sdiv l = k div l" "0 \<le> k \<Longrightarrow> 0 < l \<Longrightarrow> k smod l = k mod l" for k l :: int
  by (simp_all add: signed_divide_int_def signed_modulo_int_def sgn_if minus_mult_div_eq_mod)

lemma sint_small: assumes "unat (x :: u32) < 2 ^ 31" shows "sint x = int (unat x)"
proof -
  have "int (unat x) < 2 ^ 31" using assms by (simp only: of_nat_less_numeral_power_cancel_iff)
  moreover have "- (2 ^ 31) \<le> int (unat x)" by (rule order.trans [OF _ of_nat_0_le_iff]) simp
  ultimately have "signed_take_bit 31 (int (unat x)) = int (unat x)" by (rule signed_take_bit_int_eq_self [rotated])
  then show ?thesis using sint_uint [of x] by simp
qed

lemma unat_small: "m < 2 ^ 32 \<Longrightarrow> unat (of_nat m :: u32) = m" "m < 2 ^ 8 \<Longrightarrow> unat (of_nat m :: u8) = m"
  by (simp_all add: unsigned_of_nat take_bit_nat_eq_self)

lemma sdiv_smod_nat: "0 < b \<Longrightarrow> int a sdiv int b = int (a div b)" "0 < b \<Longrightarrow> int a smod int b = int (a mod b)"
  by (simp_all add: sdiv_smod_nonneg zdiv_int zmod_int)

end
