(* ===== verification/PFAllocator.thy ===== *)
theory PFAllocator
  imports Kernel_Prelude
begin

unbundle bit_operations_syntax

text \<open>
  The page frame allocator, \<^verbatim>\<open>src/kernel/PFAllocator.cpp\<close> and \<^verbatim>\<open>src/include/os/PFAllocator.h\<close>.

  The allocator owns an array of 128 segment descriptors and threads two singly linked lists
  through it, the free segments and the used segments. The model keeps the array and the links:
  a pointer to a descriptor is its index, the null pointer is \<open>None\<close>, and a pointer to a pointer
  (\<^verbatim>\<open>Seg **\<close>) names the cell it points to, a list head or the \<open>np\<close> field of a descriptor. No loop
  changes the lists before its last iteration, so a walk of more than 128 steps has met the same
  descriptor twice and never ends: 129 steps of fuel tell exactly the walks that return.
\<close>

section \<open>State\<close>

definition MaxNumSeg :: nat where
  "MaxNumSeg = 128"

definition ChunkSize :: u32 where
  "ChunkSize = 0x1000"

record Seg =
  sfree :: bool
  sbegin :: u32
  sblocks :: u32
  snp :: "nat option"

record PFAllocator =
  segs :: "Seg list"
  seg_free :: "nat option"
  seg_used :: "nat option"

text \<open>What a \<^verbatim>\<open>Seg **\<close> may point to.\<close>

datatype segpp = At_seg_free | At_seg_used | At_np nat

fun pp_load :: "PFAllocator \<Rightarrow> segpp \<Rightarrow> nat option" where
  "pp_load a At_seg_free = seg_free a"
| "pp_load a At_seg_used = seg_used a"
| "pp_load a (At_np i) = snp (segs a ! i)"

definition upd_seg :: "PFAllocator \<Rightarrow> nat \<Rightarrow> (Seg \<Rightarrow> Seg) \<Rightarrow> PFAllocator" where
  "upd_seg a i f = a\<lparr>segs := (segs a)[i := f (segs a ! i)]\<rparr>"

fun pp_store :: "PFAllocator \<Rightarrow> segpp \<Rightarrow> nat option \<Rightarrow> PFAllocator" where
  "pp_store a At_seg_free p = a\<lparr>seg_free := p\<rparr>"
| "pp_store a At_seg_used p = a\<lparr>seg_used := p\<rparr>"
| "pp_store a (At_np i) p = upd_seg a i (\<lambda>s. s\<lparr>snp := p\<rparr>)"

section \<open>Operations\<close>

text \<open>The constructor; the object is a global, so the fields it leaves alone start as zero.\<close>

definition init_PFAllocator :: PFAllocator where
  "init_PFAllocator =
     \<lparr>segs = replicate MaxNumSeg \<lparr>sfree = True, sbegin = 0, sblocks = 0, snp = None\<rparr>,
      seg_free = None, seg_used = None\<rparr>"

fun first_free_seg :: "Seg list \<Rightarrow> nat \<Rightarrow> nat option" where
  "first_free_seg [] i = None"
| "first_free_seg (s # ss) i = (if sfree s then Some i else first_free_seg ss (Suc i))"

definition getSeg :: "PFAllocator \<Rightarrow> (nat \<times> PFAllocator) kres" where
  "getSeg a =
     (case first_free_seg (segs a) 0 of
        Some i \<Rightarrow> Inr (i, upd_seg a i (\<lambda>s. s\<lparr>sfree := False\<rparr>))
      | None \<Rightarrow> Inl (Panic ''PFAllocator:cannot find free segment''))"

definition freeSeg :: "PFAllocator \<Rightarrow> nat \<Rightarrow> PFAllocator" where
  "freeSeg a i = upd_seg a i (\<lambda>s. s\<lparr>sfree := True\<rparr>)"

text \<open>The end address of a segment, computed in 32 bits as the code does.\<close>

definition seg_end :: "Seg \<Rightarrow> u32" where
  "seg_end s = sbegin s + sblocks s * ChunkSize"

fun addChunk_loop :: "nat \<Rightarrow> PFAllocator \<Rightarrow> segpp \<Rightarrow> nat \<Rightarrow> PFAllocator kres" where
  "addChunk_loop 0 a cseg seg = Inl Hang"
| "addChunk_loop (Suc fuel) a cseg seg =
     (case pp_load a cseg of
        None \<Rightarrow> Inr (pp_store a cseg (Some seg))
      | Some c \<Rightarrow>
          (let sg = segs a ! seg; nseg = At_np c in
           case pp_load a nseg of
             Some n \<Rightarrow>
               if sbegin (segs a ! c) < sbegin sg \<and> sbegin sg < sbegin (segs a ! n) then
                 if seg_end (segs a ! c) = sbegin sg then
                   (let a1 = upd_seg a c (\<lambda>s. s\<lparr>sblocks := sblocks s + sblocks sg\<rparr>);
                        a2 = freeSeg a1 seg in
                    if seg_end (segs a2 ! c) = sbegin (segs a2 ! n) then
                      (let a3 = upd_seg a2 c (\<lambda>s. s\<lparr>sblocks := sblocks s + sblocks (segs a2 ! n)\<rparr>);
                           a4 = freeSeg a3 n
                       in Inr (upd_seg a4 c (\<lambda>s. s\<lparr>snp := snp (segs a4 ! n)\<rparr>)))
                    else Inr a2)
                 else if seg_end sg = sbegin (segs a ! n) then
                   (let a1 = upd_seg a n (\<lambda>s. s\<lparr>sblocks := sblocks s + sblocks sg\<rparr>);
                        a2 = upd_seg a1 n (\<lambda>s. s\<lparr>sbegin := sbegin sg\<rparr>)
                    in Inr (freeSeg a2 seg))
                 else
                   (let a1 = upd_seg a seg (\<lambda>s. s\<lparr>snp := Some n\<rparr>)
                    in Inr (upd_seg a1 c (\<lambda>s. s\<lparr>snp := Some seg\<rparr>)))
               else addChunk_loop fuel a nseg seg
           | None \<Rightarrow>
               if seg_end (segs a ! c) = sbegin sg then
                 (let a1 = upd_seg a c (\<lambda>s. s\<lparr>sblocks := sblocks s + sblocks sg\<rparr>)
                  in Inr (freeSeg a1 seg))
               else Inr (upd_seg a c (\<lambda>s. s\<lparr>snp := Some seg\<rparr>))))"

definition addChunk_seg :: "PFAllocator \<Rightarrow> nat \<Rightarrow> PFAllocator kres" where
  "addChunk_seg a seg = addChunk_loop (Suc MaxNumSeg) a At_seg_free seg"

definition addChunk :: "PFAllocator \<Rightarrow> u32 \<Rightarrow> u32 \<Rightarrow> PFAllocator kres" where
  "addChunk a bgn fin =
     (let B = bgn AND NOT (ChunkSize - 1);
          E = fin AND NOT (ChunkSize - 1);
          block = (E - B) div ChunkSize in
      rbind (getSeg a) (\<lambda>(seg, a1).
        addChunk_seg (upd_seg a1 seg (\<lambda>s. s\<lparr>sbegin := B, sblocks := block, snp := None\<rparr>)) seg))"

fun usedChunk_loop :: "nat \<Rightarrow> PFAllocator \<Rightarrow> segpp \<Rightarrow> nat \<Rightarrow> PFAllocator kres" where
  "usedChunk_loop 0 a cseg seg = Inl Hang"
| "usedChunk_loop (Suc fuel) a cseg seg =
     (case pp_load a cseg of
        None \<Rightarrow> Inr (pp_store a cseg (Some seg))
      | Some c \<Rightarrow>
          (let sg = segs a ! seg; nseg = At_np c in
           case pp_load a nseg of
             Some n \<Rightarrow>
               if sbegin (segs a ! c) < sbegin sg \<and> sbegin sg < sbegin (segs a ! n) then
                 (let a1 = upd_seg a seg (\<lambda>s. s\<lparr>snp := Some n\<rparr>)
                  in Inr (upd_seg a1 c (\<lambda>s. s\<lparr>snp := Some seg\<rparr>)))
               else usedChunk_loop fuel a nseg seg
           | None \<Rightarrow> Inr (upd_seg a c (\<lambda>s. s\<lparr>snp := Some seg\<rparr>))))"

definition usedChunk :: "PFAllocator \<Rightarrow> nat \<Rightarrow> PFAllocator kres" where
  "usedChunk a seg = usedChunk_loop (Suc MaxNumSeg) a At_seg_used seg"

fun allocChunk_loop :: "nat \<Rightarrow> PFAllocator \<Rightarrow> segpp \<Rightarrow> nat \<Rightarrow> u16 \<Rightarrow> (u32 \<times> PFAllocator) kres" where
  "allocChunk_loop 0 a pp useg n = Inl Hang"
| "allocChunk_loop (Suc fuel) a pp useg n =
     (case pp_load a pp of
        None \<Rightarrow> Inl (Panic ''PFAallocator::cannot allocate segment'')
      | Some c \<Rightarrow>
          if ucast n \<le> sblocks (segs a ! c) then
            (let a1 = upd_seg a useg (\<lambda>s. s\<lparr>sbegin := sbegin (segs a ! c), sblocks := ucast n,
                                            snp := None\<rparr>);
                 a2 = upd_seg a1 c (\<lambda>s. s\<lparr>sblocks := sblocks s - ucast n\<rparr>);
                 a3 = upd_seg a2 c (\<lambda>s. s\<lparr>sbegin := sbegin s + ucast n * ChunkSize\<rparr>);
                 a4 = (if sblocks (segs a3 ! c) = 0
                       then (let b = freeSeg a3 c in pp_store b pp (snp (segs b ! c)))
                       else a3)
             in rbind (usedChunk a4 useg) (\<lambda>a5. Inr (sbegin (segs a5 ! useg), a5)))
          else allocChunk_loop fuel a (At_np c) useg n)"

definition allocChunk :: "PFAllocator \<Rightarrow> u16 \<Rightarrow> (u32 \<times> PFAllocator) kres" where
  "allocChunk a seriesNum =
     rbind (getSeg a) (\<lambda>(useg, a1).
       allocChunk_loop (Suc MaxNumSeg) a1 At_seg_free useg seriesNum)"

text \<open>
  One iteration of \<^verbatim>\<open>removeChunk\<close> on the descriptor \<open>c\<close>: the part of the segment left of the removed
  range and the part right of it, the latter in a descriptor of its own when both are non-empty.
\<close>

definition removeChunk_step :: "PFAllocator \<Rightarrow> nat \<Rightarrow> u32 \<Rightarrow> u32 \<Rightarrow> PFAllocator kres" where
  "removeChunk_step a c bAddr_rm eAddr_rm =
     (let eAddr_chk = seg_end (segs a ! c);
          bAddr_chk = sbegin (segs a ! c) in
      if eAddr_rm \<ge> bAddr_chk then
        (let chk_b = (if bAddr_chk \<ge> bAddr_rm then bAddr_chk else bAddr_rm);
             chk_e = (if eAddr_chk \<le> eAddr_rm then eAddr_chk else eAddr_rm);
             lblk_begin = bAddr_chk; rblk_end = eAddr_chk;
             lblk_end = chk_b; rblk_begin = chk_e in
         if lblk_end > lblk_begin then
           if rblk_end > rblk_begin then
             rbind (getSeg a) (\<lambda>(r, a1).
               (let a2 = upd_seg a1 c (\<lambda>s. s\<lparr>sbegin := lblk_begin,
                                              sblocks := (lblk_end - lblk_begin) div ChunkSize\<rparr>);
                    a3 = upd_seg a2 r (\<lambda>s. s\<lparr>sbegin := rblk_begin,
                                              sblocks := (rblk_end - rblk_begin) div ChunkSize,
                                              snp := snp (segs a2 ! c)\<rparr>)
                in Inr (upd_seg a3 c (\<lambda>s. s\<lparr>snp := Some r\<rparr>))))
           else
             Inr (upd_seg a c (\<lambda>s. s\<lparr>sbegin := lblk_begin,
                                      sblocks := (lblk_end - lblk_begin) div ChunkSize\<rparr>))
         else
           if rblk_end > rblk_begin then
             Inr (upd_seg a c (\<lambda>s. s\<lparr>sbegin := rblk_begin,
                                      sblocks := (rblk_end - rblk_begin) div ChunkSize\<rparr>))
           else Inr a)
      else Inr a)"

text \<open>
  The walk of \<^verbatim>\<open>removeChunk\<close>. It also visits the descriptors it inserts, so the fuel is given by the
  caller; \<open>2 * MaxNumSeg + 1\<close> steps visit every descriptor the array can hold, twice.
\<close>

fun removeChunk_loop :: "nat \<Rightarrow> PFAllocator \<Rightarrow> segpp \<Rightarrow> u32 \<Rightarrow> u32 \<Rightarrow> PFAllocator kres" where
  "removeChunk_loop 0 a pp b e = Inl Hang"
| "removeChunk_loop (Suc fuel) a pp b e =
     (case pp_load a pp of
        None \<Rightarrow> Inr a
      | Some c \<Rightarrow>
          rbind (removeChunk_step a c b e) (\<lambda>a1. removeChunk_loop fuel a1 (At_np c) b e))"

definition removeChunk :: "PFAllocator \<Rightarrow> u32 \<Rightarrow> u32 \<Rightarrow> PFAllocator kres" where
  "removeChunk a bAddr_rm eAddr_rm =
     removeChunk_loop (2 * MaxNumSeg + 1) a At_seg_free
       (bAddr_rm AND NOT (ChunkSize - 1))
       ((eAddr_rm + (ChunkSize - 1)) AND NOT (ChunkSize - 1))"

fun freeChunk_loop :: "nat \<Rightarrow> PFAllocator \<Rightarrow> segpp \<Rightarrow> u32 \<Rightarrow> PFAllocator kres" where
  "freeChunk_loop 0 a pp addr = Inl Hang"
| "freeChunk_loop (Suc fuel) a pp addr =
     (case pp_load a pp of
        None \<Rightarrow> Inl (Panic ''PFAallocator::Ivalid Chunk freed'')
      | Some c \<Rightarrow>
          if sbegin (segs a ! c) = addr
          then addChunk_seg (pp_store a pp (snp (segs a ! c))) c
          else freeChunk_loop fuel a (At_np c) addr)"

definition freeChunk :: "PFAllocator \<Rightarrow> u32 \<Rightarrow> PFAllocator kres" where
  "freeChunk a addr = freeChunk_loop (Suc MaxNumSeg) a At_seg_used addr"

end
