(* ===== verification/PFAllocator_Spec.thy ===== *)
theory PFAllocator_Spec
  imports PFAllocator
begin

text \<open>
  What the page frame allocator promises, without pointers.

  An extent is a begin address and a number of blocks. The operations of the allocator are stated
  on lists of extents (\<open>free_insert\<close>, \<open>used_insert\<close>, \<open>take_first\<close>) and related to the set of
  page frames the lists stand for. \<^verbatim>\<open>PFAllocator_Correct\<close> shows that the linked lists implement them.
\<close>

section \<open>Extents and the frames they cover\<close>

type_synonym extent = "u32 \<times> u32"

fun ext_end :: "extent \<Rightarrow> u32" where
  "ext_end (b, n) = b + n * ChunkSize"

text \<open>The numbers of the page frames of an extent.\<close>

fun frames :: "extent \<Rightarrow> nat set" where
  "frames (b, n) = {unat b div 4096 ..< unat b div 4096 + unat n}"

definition all_frames :: "extent list \<Rightarrow> nat set" where
  "all_frames xs = (\<Union>x \<in> set xs. frames x)"

text \<open>Page aligned, and ending below the top of the 32-bit address space.\<close>

fun ext_ok :: "extent \<Rightarrow> bool" where
  "ext_ok (b, n) \<longleftrightarrow> unat b mod 4096 = 0 \<and> unat b + unat n * 4096 < 2 ^ 32"

fun ext_disjoint :: "extent list \<Rightarrow> bool" where
  "ext_disjoint [] \<longleftrightarrow> True"
| "ext_disjoint (x # xs) \<longleftrightarrow> frames x \<inter> all_frames xs = {} \<and> ext_disjoint xs"

definition exts_ok :: "extent list \<Rightarrow> bool" where
  "exts_ok xs \<longleftrightarrow> list_all ext_ok xs \<and> ext_disjoint xs"

section \<open>The operations on lists of extents\<close>

fun free_insert :: "extent \<Rightarrow> extent list \<Rightarrow> extent list" where
  "free_insert x [] = [x]"
| "free_insert x [c] = (if ext_end c = fst x then [(fst c, snd c + snd x)] else [c, x])"
| "free_insert x (c # d # es) =
     (if fst c < fst x \<and> fst x < fst d then
        if ext_end c = fst x then
          if ext_end (fst c, snd c + snd x) = fst d
          then (fst c, snd c + snd x + snd d) # es
          else (fst c, snd c + snd x) # d # es
        else if ext_end x = fst d then c # (fst x, snd d + snd x) # es
        else c # x # d # es
      else c # free_insert x (d # es))"

fun used_insert :: "extent \<Rightarrow> extent list \<Rightarrow> extent list" where
  "used_insert x [] = [x]"
| "used_insert x [c] = [c, x]"
| "used_insert x (c # d # es) =
     (if fst c < fst x \<and> fst x < fst d then c # x # d # es else c # used_insert x (d # es))"

fun take_first :: "u32 \<Rightarrow> extent list \<Rightarrow> (u32 \<times> extent list) option" where
  "take_first n [] = None"
| "take_first n (c # es) =
     (if n \<le> snd c then
        Some (fst c, if snd c - n = 0 then es else (fst c + n * ChunkSize, snd c - n) # es)
      else map_option (\<lambda>(b, es'). (b, c # es')) (take_first n es))"

section \<open>Laws of frames\<close>

lemma unat_ChunkSize [simp]: "unat ChunkSize = 4096"
  by (simp add: ChunkSize_def)

lemma all_frames_simps [simp]:
  "all_frames [] = {}" "all_frames (x # xs) = frames x \<union> all_frames xs"
  "all_frames (xs @ ys) = all_frames xs \<union> all_frames ys"
  by (auto simp: all_frames_def)

lemma ext_disjoint_append:
  "ext_disjoint (xs @ ys) \<longleftrightarrow> ext_disjoint xs \<and> ext_disjoint ys \<and> all_frames xs \<inter> all_frames ys = {}"
  by (induction xs) auto

lemma exts_ok_simps [simp]:
  "exts_ok []"
  "exts_ok (x # xs) \<longleftrightarrow> ext_ok x \<and> frames x \<inter> all_frames xs = {} \<and> exts_ok xs"
  "exts_ok (xs @ ys) \<longleftrightarrow> exts_ok xs \<and> exts_ok ys \<and> all_frames xs \<inter> all_frames ys = {}"
  by (auto simp: exts_ok_def ext_disjoint_append)

lemma unat_ext_end:
  assumes "ext_ok (b, n)"
  shows "unat (ext_end (b, n)) = unat b + unat n * 4096"
proof -
  have "unat (n * ChunkSize) = unat n * 4096"
    using assms by (subst unat_mult_exact) auto
  with assms show ?thesis by (auto simp: unat_add_exact)
qed

lemma frames_empty_iff [simp]: "frames (b, n) = {} \<longleftrightarrow> n = 0"
  by (simp add: unat_eq_0)

text \<open>Two adjacent extents are one extent.\<close>

lemma extent_merge:
  assumes "ext_ok (b, n)" and "ext_ok (b', n')" and "ext_end (b, n) = b'"
  shows "ext_ok (b, n + n')" and "frames (b, n + n') = frames (b, n) \<union> frames (b', n')"
proof -
  have b': "unat b' = unat b + unat n * 4096"
    using unat_ext_end [OF assms(1)] assms(3) by simp
  then have sum: "unat (n + n') = unat n + unat n'"
    using assms(1,2) by (intro unat_add_exact) auto
  show "ext_ok (b, n + n')" using assms(1,2) b' sum by simp
  have "unat b' div 4096 = unat b div 4096 + unat n" using b' by simp
  then show "frames (b, n + n') = frames (b, n) \<union> frames (b', n')"
    using sum by auto
qed

text \<open>The first \<open>n\<close> blocks of an extent and the rest of it.\<close>

lemma extent_split:
  assumes "ext_ok (b, m)" and "n \<le> m"
  shows "ext_ok (b, n)" and "ext_ok (b + n * ChunkSize, m - n)"
    and "frames (b, m) = frames (b, n) \<union> frames (b + n * ChunkSize, m - n)"
    and "frames (b, n) \<inter> frames (b + n * ChunkSize, m - n) = {}"
proof -
  have nm: "unat n \<le> unat m" using assms(2) by (simp add: word_le_nat_alt)
  then show n: "ext_ok (b, n)" using assms(1) by auto
  have e: "unat (b + n * ChunkSize) = unat b + unat n * 4096"
    using unat_ext_end [OF n] by simp
  have r: "unat (m - n) = unat m - unat n" using assms(2) by (rule unat_diff_exact)
  from nm have le: "unat n * 4096 \<le> unat m * 4096" by simp
  show "ext_ok (b + n * ChunkSize, m - n)" using assms(1) e r nm le
    by (simp add: diff_mult_distrib)
  have "unat (b + n * ChunkSize) div 4096 = unat b div 4096 + unat n" using e by simp
  then show "frames (b, m) = frames (b, n) \<union> frames (b + n * ChunkSize, m - n)"
    and "frames (b, n) \<inter> frames (b + n * ChunkSize, m - n) = {}"
    using nm r by auto
qed

section \<open>Correctness of the operations on lists\<close>

lemma free_insert_correct:
  assumes "exts_ok es" and "ext_ok x" and "frames x \<inter> all_frames es = {}"
  shows "exts_ok (free_insert x es) \<and> all_frames (free_insert x es) = frames x \<union> all_frames es"
  using assms
proof (induction x es rule: free_insert.induct)
  case (1 x)
  then show ?case by simp
next
  case (2 x c)
  obtain b n b' n' where [simp]: "x = (b', n')" "c = (b, n)" by (cases x, cases c) auto
  show ?case
  proof (cases "ext_end c = fst x")
    case True
    with "2.prems" have m: "ext_ok (b, n + n')" "frames (b, n + n') = frames (b, n) \<union> frames (b', n')"
      using extent_merge [of b n b' n'] by auto
    with True "2.prems" show ?thesis by (auto simp del: frames.simps)
  next
    case False
    with "2.prems" show ?thesis by (auto simp del: frames.simps)
  qed
next
  case (3 x c d es)
  obtain b n b' n' bd nd where [simp]: "x = (b', n')" "c = (b, n)" "d = (bd, nd)"
    by (cases x, cases c, cases d) auto
  show ?case
  proof (cases "fst c < fst x \<and> fst x < fst d")
    case False
    with 3 show ?thesis by (auto simp del: frames.simps)
  next
    case here: True
    show ?thesis
    proof (cases "ext_end c = fst x")
      case True
      with "3.prems" have m: "ext_ok (b, n + n')" "frames (b, n + n') = frames (b, n) \<union> frames (b', n')"
        using extent_merge [of b n b' n'] by auto
      show ?thesis
      proof (cases "ext_end (b, n + n') = bd")
        case merge: True
        with "3.prems" m have
          "ext_ok (b, n + n' + nd)" "frames (b, n + n' + nd) = frames (b, n + n') \<union> frames (bd, nd)"
          using extent_merge [of b "n + n'" bd nd] by auto
        with here True merge m "3.prems" show ?thesis by (auto simp del: frames.simps)
      next
        case False
        with here True m "3.prems" show ?thesis by (auto simp del: frames.simps)
      qed
    next
      case nleft: False
      show ?thesis
      proof (cases "ext_end x = fst d")
        case True
        with "3.prems" have
          "ext_ok (b', n' + nd)" "frames (b', n' + nd) = frames (b', n') \<union> frames (bd, nd)"
          using extent_merge [of b' n' bd nd] by auto
        with here nleft True "3.prems" show ?thesis
          by (auto simp del: frames.simps simp: add.commute [of nd])
      next
        case False
        with here nleft "3.prems" show ?thesis by (auto simp del: frames.simps)
      qed
    qed
  qed
qed

lemma used_insert_set: "set (used_insert x es) = insert x (set es)"
  by (induction x es rule: used_insert.induct) auto

lemma used_insert_mem [simp]: "x \<in> set (used_insert x es)"
  by (simp add: used_insert_set)

lemma used_insert_frames: "all_frames (used_insert x es) = frames x \<union> all_frames es"
  by (simp add: all_frames_def used_insert_set)

lemma used_insert_ok:
  assumes "exts_ok es" and "ext_ok x" and "frames x \<inter> all_frames es = {}"
  shows "exts_ok (used_insert x es)"
  using assms
proof (induction x es rule: used_insert.induct)
  case (3 x c d es)
  then show ?case by (auto simp: used_insert_frames simp del: frames.simps)
qed (auto simp del: frames.simps)

lemma take_first_correct:
  assumes "exts_ok es" and "take_first n es = Some (b, es')"
  shows "ext_ok (b, n) \<and> exts_ok es' \<and> frames (b, n) \<inter> all_frames es' = {} \<and>
    all_frames es = frames (b, n) \<union> all_frames es'"
  using assms
proof (induction es arbitrary: es')
  case Nil
  then show ?case by simp
next
  case (Cons c es)
  obtain cb cn where [simp]: "c = (cb, cn)" by (cases c) auto
  show ?case
  proof (cases "n \<le> cn")
    case True
    from Cons.prems have ok: "ext_ok (cb, cn)" by simp
    note s = extent_split [OF ok True]
    show ?thesis
    proof (cases "cn - n = 0")
      case z: True
      then have "frames (cb + n * ChunkSize, cn - n) = {}" by simp
      with True z Cons.prems s show ?thesis by (auto simp del: frames.simps)
    next
      case False
      with True Cons.prems s show ?thesis by (auto simp del: frames.simps)
    qed
  next
    case False
    with Cons.prems obtain es'' where t: "take_first n es = Some (b, es'')" "es' = c # es''"
      by auto
    with Cons show ?thesis by (auto simp del: frames.simps)
  qed
qed

lemma take_first_None: "take_first n es = None \<longleftrightarrow> \<not> (\<exists>(b, m) \<in> set es. n \<le> m)"
  by (induction es) auto

end
