(* ===== verification/PFAllocator_Correct.thy ===== *)
theory PFAllocator_Correct
  imports PFAllocator_Spec
begin

text \<open>
  The linked lists of the page frame allocator implement the operations on extents of
  \<^verbatim>\<open>PFAllocator_Spec\<close>: the refinement of \<^verbatim>\<open>addChunk\<close> and \<^verbatim>\<open>allocChunk\<close>, the invariant of the allocator and the
  properties of the two operations.
\<close>

section \<open>Reading the linked lists\<close>

definition seg_links :: "PFAllocator \<Rightarrow> nat \<Rightarrow> nat option" where
  "seg_links a i = snp (segs a ! i)"

definition seg_ext :: "PFAllocator \<Rightarrow> nat \<Rightarrow> extent" where
  "seg_ext a i = (sbegin (segs a ! i), sblocks (segs a ! i))"

lemma upd_seg_simps [simp]:
  "length (segs (upd_seg a i f)) = length (segs a)"
  "seg_free (upd_seg a i f) = seg_free a"
  "seg_used (upd_seg a i f) = seg_used a"
  by (simp_all add: upd_seg_def)

lemma segs_upd_seg [simp]:
  "i < length (segs a) \<Longrightarrow>
     segs (upd_seg a i f) ! j = (if j = i then f (segs a ! i) else segs a ! j)"
  by (simp add: upd_seg_def nth_list_update)

lemma seg_links_upd [simp]:
  "i < length (segs a) \<Longrightarrow> seg_links (upd_seg a i f) = (seg_links a)(i := snp (f (segs a ! i)))"
  by (auto simp: seg_links_def fun_eq_iff)

lemma seg_links_heads [simp]:
  "seg_links (a\<lparr>seg_free := p\<rparr>) = seg_links a" "seg_links (a\<lparr>seg_used := p\<rparr>) = seg_links a"
  by (auto simp: seg_links_def fun_eq_iff)

lemma seg_ext_heads [simp]:
  "seg_ext (a\<lparr>seg_free := p\<rparr>) = seg_ext a" "seg_ext (a\<lparr>seg_used := p\<rparr>) = seg_ext a"
  by (auto simp: seg_ext_def fun_eq_iff)

lemma freeSeg_simps [simp]:
  "length (segs (freeSeg a i)) = length (segs a)"
  "seg_free (freeSeg a i) = seg_free a"
  "seg_used (freeSeg a i) = seg_used a"
  by (simp_all add: freeSeg_def)

lemma segs_freeSeg [simp]:
  "i < length (segs a) \<Longrightarrow>
     segs (freeSeg a i) ! j = (if j = i then (segs a ! i)\<lparr>sfree := True\<rparr> else segs a ! j)"
  by (simp add: freeSeg_def)

lemma seg_links_freeSeg [simp]:
  "i < length (segs a) \<Longrightarrow> seg_links (freeSeg a i) = seg_links a"
  by (auto simp: freeSeg_def seg_links_def fun_eq_iff)

lemma seg_end_ext: "seg_end (segs a ! i) = ext_end (seg_ext a i)"
  by (simp add: seg_end_def seg_ext_def)

text \<open>
  What an insertion does to the array: only the descriptors of the walked list and the inserted one
  change, and afterwards exactly those of them that are not on the list are free.
\<close>

definition insert_frame :: "PFAllocator \<Rightarrow> PFAllocator \<Rightarrow> nat set \<Rightarrow> nat list \<Rightarrow> bool" where
  "insert_frame a a' S is' \<longleftrightarrow>
     length (segs a') = length (segs a) \<and>
     set is' \<subseteq> S \<and>
     (\<forall>i. i \<notin> S \<longrightarrow> segs a' ! i = segs a ! i) \<and>
     (\<forall>i \<in> S. sfree (segs a' ! i) \<longleftrightarrow> i \<notin> set is')"

section \<open>Insertion into the free list\<close>

lemma addChunk_loop_refines:
  assumes "pp_load a pp = Some c" and "chain (seg_links a) (Some c) (c # is)"
    and "seg \<notin> set (c # is)" and "insert seg (set (c # is)) \<subseteq> {..<length (segs a)}"
    and "snp (segs a ! seg) = None" and "length is < fuel"
    and "\<forall>i \<in> insert seg (set (c # is)). \<not> sfree (segs a ! i)"
  shows "\<exists>a' is'. addChunk_loop fuel a pp seg = Inr a' \<and>
     chain (seg_links a') (Some c) (c # is') \<and>
     map (seg_ext a') (c # is') = free_insert (seg_ext a seg) (map (seg_ext a) (c # is)) \<and>
     seg_free a' = seg_free a \<and> seg_used a' = seg_used a \<and>
     insert_frame a a' (insert seg (set (c # is))) (c # is')"
  using assms
proof (induction "is" arbitrary: c pp fuel)
  case Nil
  then obtain f where [simp]: "fuel = Suc f" by (cases fuel) auto
  show ?case
  proof (cases "seg_end (segs a ! c) = sbegin (segs a ! seg)")
    case True
    with Nil show ?thesis
      by (intro exI [of _ "freeSeg (upd_seg a c (\<lambda>s. s\<lparr>sblocks := sblocks s + sblocks (segs a ! seg)\<rparr>)) seg"]
            exI [of _ "[]"])
        (auto simp: seg_links_def seg_ext_def seg_end_def insert_frame_def)
  next
    case False
    with Nil show ?thesis
      by (intro exI [of _ "upd_seg a c (\<lambda>s. s\<lparr>snp := Some seg\<rparr>)"] exI [of _ "[seg]"])
        (auto simp: seg_links_def seg_ext_def seg_end_def insert_frame_def)
  qed
next
  case (Cons n "is")
  then obtain f where [simp]: "fuel = Suc f" by (cases fuel) auto
  have [simp]: "c < length (segs a)" "n < length (segs a)" "seg < length (segs a)"
    "snp (segs a ! c) = Some n" "pp_load a pp = Some c"
    "c \<noteq> n" "c \<noteq> seg" "n \<noteq> seg" "seg \<noteq> c" "seg \<noteq> n" "n \<noteq> c"
    "c \<notin> set is" "n \<notin> set is" "seg \<notin> set is"
    using Cons.prems chain_distinct [OF Cons.prems(2)] by (auto simp: seg_links_def)
  have "seg_links a n = snp (segs a ! n)" by (simp add: seg_links_def)
  with Cons.prems have rest: "chain (seg_links a) (snp (segs a ! n)) is" by simp
  let ?add = "\<lambda>i k a. upd_seg a i (\<lambda>s. s\<lparr>sblocks := sblocks s + sblocks (segs a ! k)\<rparr>)"
  let ?a2 = "freeSeg (?add c seg a) seg"
  show ?case
  proof (cases "sbegin (segs a ! c) < sbegin (segs a ! seg) \<and> sbegin (segs a ! seg) < sbegin (segs a ! n)")
    case here: True
    consider (both) "seg_end (segs a ! c) = sbegin (segs a ! seg)" "seg_end (segs ?a2 ! c) = sbegin (segs a ! n)"
      | (left) "seg_end (segs a ! c) = sbegin (segs a ! seg)" "seg_end (segs ?a2 ! c) \<noteq> sbegin (segs a ! n)"
      | (right) "seg_end (segs a ! c) \<noteq> sbegin (segs a ! seg)" "seg_end (segs a ! seg) = sbegin (segs a ! n)"
      | (neither) "seg_end (segs a ! c) \<noteq> sbegin (segs a ! seg)" "seg_end (segs a ! seg) \<noteq> sbegin (segs a ! n)"
      by blast
    then show ?thesis
    proof cases
      case both
      with here rest Cons.prems show ?thesis
        by (intro exI [of _ "upd_seg (freeSeg (?add c n ?a2) n) c (\<lambda>s. s\<lparr>snp := snp (segs a ! n)\<rparr>)"]
              exI [of _ "is"])
          (auto simp: Let_def seg_ext_def seg_end_def insert_frame_def chain_simps)
    next
      case left
      with here rest Cons.prems show ?thesis
        by (intro exI [of _ ?a2] exI [of _ "n # is"])
          (auto simp: Let_def seg_ext_def seg_end_def insert_frame_def chain_simps seg_links_def)
    next
      case right
      with here rest Cons.prems show ?thesis
        by (intro exI [of _ "freeSeg (upd_seg (?add n seg a) n (\<lambda>s. s\<lparr>sbegin := sbegin (segs a ! seg)\<rparr>)) seg"]
              exI [of _ "n # is"])
          (auto simp: Let_def seg_ext_def seg_end_def insert_frame_def chain_simps seg_links_def)
    next
      case neither
      with here rest Cons.prems show ?thesis
        by (intro exI [of _ "upd_seg (upd_seg a seg (\<lambda>s. s\<lparr>snp := Some n\<rparr>)) c (\<lambda>s. s\<lparr>snp := Some seg\<rparr>)"]
              exI [of _ "seg # n # is"])
          (auto simp: Let_def seg_ext_def seg_end_def insert_frame_def chain_simps)
    qed
  next
    case False
    have "\<exists>a' is'. addChunk_loop f a (At_np c) seg = Inr a' \<and>
        chain (seg_links a') (Some n) (n # is') \<and>
        map (seg_ext a') (n # is') = free_insert (seg_ext a seg) (map (seg_ext a) (n # is)) \<and>
        seg_free a' = seg_free a \<and> seg_used a' = seg_used a \<and>
        insert_frame a a' (insert seg (set (n # is))) (n # is')"
      using Cons.prems by (intro Cons.IH) auto
    then obtain a' is' where IH: "addChunk_loop f a (At_np c) seg = Inr a'"
      "chain (seg_links a') (Some n) (n # is')"
      "map (seg_ext a') (n # is') = free_insert (seg_ext a seg) (map (seg_ext a) (n # is))"
      "seg_free a' = seg_free a" "seg_used a' = seg_used a"
      "insert_frame a a' (insert seg (set (n # is))) (n # is')" by blast
    then have c: "segs a' ! c = segs a ! c" by (auto simp: insert_frame_def)
    have "addChunk_loop fuel a pp seg = Inr a'" using IH(1) False by (auto simp: Let_def)
    moreover have "chain (seg_links a') (Some c) (c # n # is')"
      using IH(2) c by (simp add: seg_links_def [of a' c])
    moreover have "map (seg_ext a') (c # n # is') =
        free_insert (seg_ext a seg) (map (seg_ext a) (c # n # is))"
      using IH(3) c False by (auto simp: seg_ext_def)
    moreover have "insert_frame a a' (insert seg (set (c # n # is))) (c # n # is')"
      using IH(6) c Cons.prems(7) by (auto simp: insert_frame_def)
    ultimately show ?thesis using IH(4,5) by blast
  qed
qed

section \<open>Insertion into the used list\<close>

lemma usedChunk_loop_refines:
  assumes "pp_load a pp = Some c" and "chain (seg_links a) (Some c) (c # is)"
    and "seg \<notin> set (c # is)" and "insert seg (set (c # is)) \<subseteq> {..<length (segs a)}"
    and "snp (segs a ! seg) = None" and "length is < fuel"
    and "\<forall>i \<in> insert seg (set (c # is)). \<not> sfree (segs a ! i)"
  shows "\<exists>a' is'. usedChunk_loop fuel a pp seg = Inr a' \<and>
     chain (seg_links a') (Some c) (c # is') \<and>
     map (seg_ext a') (c # is') = used_insert (seg_ext a seg) (map (seg_ext a) (c # is)) \<and>
     seg_free a' = seg_free a \<and> seg_used a' = seg_used a \<and>
     insert_frame a a' (insert seg (set (c # is))) (c # is') \<and> seg \<in> set is' \<and>
     set is \<subseteq> set is' \<and> seg_ext a' seg = seg_ext a seg"
  using assms
proof (induction "is" arbitrary: c pp fuel)
  case Nil
  then obtain f where [simp]: "fuel = Suc f" by (cases fuel) auto
  from Nil show ?case
    by (intro exI [of _ "upd_seg a c (\<lambda>s. s\<lparr>snp := Some seg\<rparr>)"] exI [of _ "[seg]"])
      (auto simp: seg_links_def seg_ext_def insert_frame_def)
next
  case (Cons n "is")
  then obtain f where [simp]: "fuel = Suc f" by (cases fuel) auto
  have [simp]: "c < length (segs a)" "n < length (segs a)" "seg < length (segs a)"
    "snp (segs a ! c) = Some n" "pp_load a pp = Some c"
    "c \<noteq> n" "c \<noteq> seg" "n \<noteq> seg" "seg \<noteq> c" "seg \<noteq> n" "n \<noteq> c"
    "c \<notin> set is" "n \<notin> set is" "seg \<notin> set is"
    using Cons.prems chain_distinct [OF Cons.prems(2)] by (auto simp: seg_links_def)
  show ?case
  proof (cases "sbegin (segs a ! c) < sbegin (segs a ! seg) \<and> sbegin (segs a ! seg) < sbegin (segs a ! n)")
    case True
    with Cons.prems show ?thesis
      by (intro exI [of _ "upd_seg (upd_seg a seg (\<lambda>s. s\<lparr>snp := Some n\<rparr>)) c (\<lambda>s. s\<lparr>snp := Some seg\<rparr>)"]
            exI [of _ "seg # n # is"])
        (auto simp: Let_def seg_ext_def insert_frame_def chain_simps)
  next
    case False
    have "\<exists>a' is'. usedChunk_loop f a (At_np c) seg = Inr a' \<and>
        chain (seg_links a') (Some n) (n # is') \<and>
        map (seg_ext a') (n # is') = used_insert (seg_ext a seg) (map (seg_ext a) (n # is)) \<and>
        seg_free a' = seg_free a \<and> seg_used a' = seg_used a \<and>
        insert_frame a a' (insert seg (set (n # is))) (n # is') \<and> seg \<in> set is' \<and>
        set is \<subseteq> set is' \<and> seg_ext a' seg = seg_ext a seg"
      using Cons.prems by (intro Cons.IH) auto
    then obtain a' is' where IH: "usedChunk_loop f a (At_np c) seg = Inr a'"
      "chain (seg_links a') (Some n) (n # is')"
      "map (seg_ext a') (n # is') = used_insert (seg_ext a seg) (map (seg_ext a) (n # is))"
      "seg_free a' = seg_free a" "seg_used a' = seg_used a"
      "insert_frame a a' (insert seg (set (n # is))) (n # is')" "seg \<in> set is'"
      "set is \<subseteq> set is'" "seg_ext a' seg = seg_ext a seg" by blast
    then have c: "segs a' ! c = segs a ! c" by (auto simp: insert_frame_def)
    have "usedChunk_loop fuel a pp seg = Inr a'" using IH(1) False by (auto simp: Let_def)
    moreover have "chain (seg_links a') (Some c) (c # n # is')"
      using IH(2) c by (simp add: seg_links_def [of a' c])
    moreover have "map (seg_ext a') (c # n # is') =
        used_insert (seg_ext a seg) (map (seg_ext a) (c # n # is))"
      using IH(3) c False by (auto simp: seg_ext_def)
    moreover have "insert_frame a a' (insert seg (set (c # n # is))) (c # n # is')"
      using IH(6) c Cons.prems(7) by (auto simp: insert_frame_def)
    ultimately show ?thesis using IH(4,5,7,8,9)
      by (intro exI [of _ a'] exI [of _ "n # is'"]) auto
  qed
qed

section \<open>Well-formed allocator states\<close>

text \<open>
  \<open>pfa_wf a X fs us\<close>: the free list visits the descriptors \<open>fs\<close>, the used list \<open>us\<close>, no descriptor is on
  both, and a descriptor is marked in use exactly when it is on a list or among \<open>X\<close>, the descriptors
  an operation holds in its hands.
\<close>

definition pfa_wf :: "PFAllocator \<Rightarrow> nat set \<Rightarrow> nat list \<Rightarrow> nat list \<Rightarrow> bool" where
  "pfa_wf a X fs us \<longleftrightarrow>
     length (segs a) = MaxNumSeg \<and>
     chain (seg_links a) (seg_free a) fs \<and> chain (seg_links a) (seg_used a) us \<and>
     set fs \<inter> set us = {} \<and> X \<inter> (set fs \<union> set us) = {} \<and>
     set fs \<union> set us \<union> X \<subseteq> {..<MaxNumSeg} \<and>
     (\<forall>i < MaxNumSeg. \<not> sfree (segs a ! i) \<longleftrightarrow> i \<in> set fs \<union> set us \<union> X)"

lemma pfa_wf_distinct: "pfa_wf a X fs us \<Longrightarrow> distinct fs \<and> distinct us"
  unfolding pfa_wf_def by (blast dest: chain_distinct)

lemma pfa_wf_lengths:
  assumes "pfa_wf a X fs us"
  shows "length fs \<le> MaxNumSeg" and "length us \<le> MaxNumSeg"
  using pfa_wf_distinct [OF assms] assms
  by (auto simp: pfa_wf_def intro!: distinct_bounded_length)

text \<open>An insertion into one list leaves the other list as it was.\<close>

lemma insert_frame_other_list:
  assumes "insert_frame a a' S is'" and "set js \<inter> S = {}"
  shows "chain (seg_links a') p js = chain (seg_links a) p js"
    and "map (seg_ext a') js = map (seg_ext a) js"
proof -
  have same: "segs a' ! i = segs a ! i" if "i \<in> set js" for i
    using that assms by (auto simp: insert_frame_def)
  then show "chain (seg_links a') p js = chain (seg_links a) p js"
    by (intro chain_cong) (simp add: seg_links_def)
  show "map (seg_ext a') js = map (seg_ext a) js"
    using same by (simp add: seg_ext_def)
qed

lemma insert_frame_sfree:
  assumes fr: "insert_frame a a' (insert seg (set is)) is'"
    and wf: "\<forall>i < MaxNumSeg. \<not> sfree (segs a ! i) \<longleftrightarrow> i \<in> set is \<union> set js \<union> {seg}"
    and dj: "set js \<inter> insert seg (set is) = {}"
  shows "\<forall>i < MaxNumSeg. \<not> sfree (segs a' ! i) \<longleftrightarrow> i \<in> set is' \<union> set js"
proof (intro allI impI)
  fix i assume i: "i < MaxNumSeg"
  show "\<not> sfree (segs a' ! i) \<longleftrightarrow> i \<in> set is' \<union> set js"
  proof (cases "i \<in> insert seg (set is)")
    case True
    with fr dj show ?thesis unfolding insert_frame_def by blast
  next
    case False
    with fr have "segs a' ! i = segs a ! i" and "i \<notin> set is'" unfolding insert_frame_def by auto
    with False wf i show ?thesis by auto
  qed
qed

lemma addChunk_seg_refines:
  assumes wf: "pfa_wf a {seg} fs us" and np: "snp (segs a ! seg) = None"
  shows "\<exists>a' fs'. addChunk_seg a seg = Inr a' \<and> pfa_wf a' {} fs' us \<and>
     map (seg_ext a') fs' = free_insert (seg_ext a seg) (map (seg_ext a) fs) \<and>
     map (seg_ext a') us = map (seg_ext a) us"
proof (cases fs)
  case Nil
  with assms show ?thesis
    by (intro exI [of _ "a\<lparr>seg_free := Some seg\<rparr>"] exI [of _ "[seg]"])
      (auto simp: addChunk_seg_def pfa_wf_def seg_links_def seg_ext_def)
next
  case (Cons c "is")
  have "\<exists>a' is'. addChunk_loop (Suc MaxNumSeg) a At_seg_free seg = Inr a' \<and>
     chain (seg_links a') (Some c) (c # is') \<and>
     map (seg_ext a') (c # is') = free_insert (seg_ext a seg) (map (seg_ext a) (c # is)) \<and>
     seg_free a' = seg_free a \<and> seg_used a' = seg_used a \<and>
     insert_frame a a' (insert seg (set (c # is))) (c # is')"
    using assms Cons pfa_wf_lengths(1) [OF wf]
    by (intro addChunk_loop_refines) (auto simp: pfa_wf_def)
  then obtain a' is' where r: "addChunk_loop (Suc MaxNumSeg) a At_seg_free seg = Inr a'"
    "chain (seg_links a') (Some c) (c # is')"
    "map (seg_ext a') (c # is') = free_insert (seg_ext a seg) (map (seg_ext a) (c # is))"
    "seg_free a' = seg_free a" "seg_used a' = seg_used a"
    "insert_frame a a' (insert seg (set (c # is))) (c # is')" by blast
  have dj: "set us \<inter> insert seg (set (c # is)) = {}" using wf Cons by (auto simp: pfa_wf_def)
  have "\<forall>i < MaxNumSeg. \<not> sfree (segs a' ! i) \<longleftrightarrow> i \<in> set (c # is') \<union> set us"
    using wf Cons by (intro insert_frame_sfree [OF r(6) _ dj]) (simp add: pfa_wf_def)
  moreover have "set (c # is') \<subseteq> insert seg (set (c # is))" and "length (segs a') = MaxNumSeg"
    using r(6) wf by (simp_all add: insert_frame_def pfa_wf_def)
  moreover have "set (c # is') \<inter> set us = {}" and "set (c # is') \<union> set us \<subseteq> {..<MaxNumSeg}"
    using calculation(2) dj wf Cons by (auto simp: pfa_wf_def)
  ultimately have "pfa_wf a' {} (c # is') us"
    using r(2,4,5) wf Cons insert_frame_other_list(1) [OF r(6) dj] by (simp add: pfa_wf_def)
  moreover note insert_frame_other_list(2) [OF r(6) dj]
  ultimately show ?thesis using r Cons
    by (intro exI [of _ a'] exI [of _ "c # is'"]) (simp add: addChunk_seg_def)
qed

lemma usedChunk_refines:
  assumes wf: "pfa_wf a {seg} fs us" and np: "snp (segs a ! seg) = None"
  shows "\<exists>a' us'. usedChunk a seg = Inr a' \<and> pfa_wf a' {} fs us' \<and>
     map (seg_ext a') us' = used_insert (seg_ext a seg) (map (seg_ext a) us) \<and>
     map (seg_ext a') fs = map (seg_ext a) fs \<and> seg_ext a' seg = seg_ext a seg"
proof (cases us)
  case Nil
  with assms show ?thesis
    by (intro exI [of _ "a\<lparr>seg_used := Some seg\<rparr>"] exI [of _ "[seg]"])
      (auto simp: usedChunk_def pfa_wf_def seg_links_def)
next
  case (Cons c "is")
  have "\<exists>a' is'. usedChunk_loop (Suc MaxNumSeg) a At_seg_used seg = Inr a' \<and>
     chain (seg_links a') (Some c) (c # is') \<and>
     map (seg_ext a') (c # is') = used_insert (seg_ext a seg) (map (seg_ext a) (c # is)) \<and>
     seg_free a' = seg_free a \<and> seg_used a' = seg_used a \<and>
     insert_frame a a' (insert seg (set (c # is))) (c # is') \<and> seg \<in> set is' \<and>
     set is \<subseteq> set is' \<and> seg_ext a' seg = seg_ext a seg"
    using assms Cons pfa_wf_lengths(2) [OF wf]
    by (intro usedChunk_loop_refines) (auto simp: pfa_wf_def)
  then obtain a' is' where r: "usedChunk_loop (Suc MaxNumSeg) a At_seg_used seg = Inr a'"
    "chain (seg_links a') (Some c) (c # is')"
    "map (seg_ext a') (c # is') = used_insert (seg_ext a seg) (map (seg_ext a) (c # is))"
    "seg_free a' = seg_free a" "seg_used a' = seg_used a"
    "insert_frame a a' (insert seg (set (c # is))) (c # is')"
    "seg \<in> set is'" "set is \<subseteq> set is'" "seg_ext a' seg = seg_ext a seg" by blast
  have dj: "set fs \<inter> insert seg (set (c # is)) = {}" using wf Cons by (auto simp: pfa_wf_def)
  have "\<forall>i < MaxNumSeg. \<not> sfree (segs a' ! i) \<longleftrightarrow> i \<in> set (c # is') \<union> set fs"
    using wf Cons by (intro insert_frame_sfree [OF r(6) _ dj]) (auto simp: pfa_wf_def)
  moreover have "set (c # is') \<subseteq> insert seg (set (c # is))" and "length (segs a') = MaxNumSeg"
    using r(6) wf by (simp_all add: insert_frame_def pfa_wf_def)
  moreover have "set fs \<inter> set (c # is') = {}" and "set (c # is') \<union> set fs \<subseteq> {..<MaxNumSeg}"
    using calculation(2) dj wf Cons by (auto simp: pfa_wf_def)
  ultimately have "pfa_wf a' {} fs (c # is')"
    using r(2,4,5) wf Cons insert_frame_other_list(1) [OF r(6) dj]
    by (simp add: pfa_wf_def Un_commute)
  moreover note insert_frame_other_list(2) [OF r(6) dj]
  ultimately show ?thesis using r Cons
    by (intro exI [of _ a'] exI [of _ "c # is'"]) (simp add: usedChunk_def)
qed

section \<open>Descriptors\<close>

lemma first_free_seg_Some:
  "first_free_seg ss k = Some i \<Longrightarrow> k \<le> i \<and> i < k + length ss \<and> sfree (ss ! (i - k))"
proof (induction ss arbitrary: k)
  case (Cons s ss)
  show ?case
  proof (cases "sfree s")
    case False
    with Cons.prems have "first_free_seg ss (Suc k) = Some i" by simp
    from Cons.IH [OF this] have "Suc k \<le> i" "i < k + length (s # ss)" "sfree (ss ! (i - Suc k))"
      by auto
    moreover from this have "i - k = Suc (i - Suc k)" by arith
    ultimately show ?thesis by simp
  qed (use Cons.prems in auto)
qed simp

lemma first_free_seg_None: "first_free_seg ss k = None \<longleftrightarrow> (\<forall>s \<in> set ss. \<not> sfree s)"
  by (induction ss arbitrary: k) auto

lemma getSeg_Inr:
  assumes wf: "pfa_wf a {} fs us" and g: "getSeg a = Inr (i, a1)"
  shows "pfa_wf a1 {i} fs us \<and> i < MaxNumSeg \<and> i \<notin> set fs \<union> set us \<and> seg_ext a1 = seg_ext a"
proof -
  from g have f: "first_free_seg (segs a) 0 = Some i"
    and a1: "a1 = upd_seg a i (\<lambda>s. s\<lparr>sfree := False\<rparr>)"
    by (auto simp: getSeg_def split: option.splits)
  from first_free_seg_Some [OF f] wf have i: "i < MaxNumSeg" "sfree (segs a ! i)"
    by (auto simp: pfa_wf_def)
  with wf have "i \<notin> set fs \<union> set us" by (auto simp: pfa_wf_def)
  moreover have "seg_links a1 = seg_links a" and "seg_ext a1 = seg_ext a"
    using i(1) wf by (auto simp: a1 pfa_wf_def seg_links_def seg_ext_def fun_eq_iff)
  ultimately show ?thesis using wf i by (auto simp: pfa_wf_def a1)
qed

lemma getSeg_cases:
  assumes wf: "pfa_wf a {} fs us"
  shows "(\<exists>i a1. getSeg a = Inr (i, a1)) \<longleftrightarrow> length fs + length us < MaxNumSeg"
    and "(\<forall>i a1. getSeg a \<noteq> Inr (i, a1)) \<Longrightarrow>
      getSeg a = Inl (Panic ''PFAllocator:cannot find free segment'')"
proof -
  have d: "distinct (fs @ us)" using pfa_wf_distinct [OF wf] wf by (auto simp: pfa_wf_def)
  have sub: "set (fs @ us) \<subseteq> {..<MaxNumSeg}" using wf by (auto simp: pfa_wf_def)
  have card: "card (set (fs @ us)) = length fs + length us"
    using distinct_card [OF d] by simp
  have "(\<exists>i a1. getSeg a = Inr (i, a1)) \<longleftrightarrow> (\<exists>s \<in> set (segs a). sfree s)"
    using first_free_seg_None [of "segs a" 0] by (auto simp: getSeg_def split: option.splits)
  also have "\<dots> \<longleftrightarrow> (\<exists>i < MaxNumSeg. sfree (segs a ! i))"
  proof -
    have "length (segs a) = MaxNumSeg" using wf by (simp add: pfa_wf_def)
    then show ?thesis unfolding set_conv_nth by auto
  qed
  also have "\<dots> \<longleftrightarrow> (\<exists>i < MaxNumSeg. i \<notin> set (fs @ us))"
    using wf by (simp add: pfa_wf_def) blast
  also have "\<dots> \<longleftrightarrow> set (fs @ us) \<noteq> {..<MaxNumSeg}" using sub by auto
  also have "\<dots> \<longleftrightarrow> length fs + length us < MaxNumSeg"
  proof
    assume "set (fs @ us) \<noteq> {..<MaxNumSeg}"
    with sub have "set (fs @ us) \<subset> {..<MaxNumSeg}" by blast
    then have "card (set (fs @ us)) < card {..<MaxNumSeg}" by (rule psubset_card_mono [rotated]) simp
    with card show "length fs + length us < MaxNumSeg" by simp
  next
    assume "length fs + length us < MaxNumSeg"
    with card show "set (fs @ us) \<noteq> {..<MaxNumSeg}" by (metis card_lessThan less_irrefl)
  qed
  finally show "(\<exists>i a1. getSeg a = Inr (i, a1)) \<longleftrightarrow> length fs + length us < MaxNumSeg" .
  show "(\<forall>i a1. getSeg a \<noteq> Inr (i, a1)) \<Longrightarrow>
      getSeg a = Inl (Panic ''PFAllocator:cannot find free segment'')"
    by (auto simp: getSeg_def split: option.splits)
qed

section \<open>Allocation\<close>

text \<open>
  \<open>link_after a pp pre\<close>: the \<^verbatim>\<open>Seg **\<close> walking the free list has passed the descriptors \<open>pre\<close>, so it
  points to the link that follows them.
\<close>

definition link_after :: "segpp \<Rightarrow> nat list \<Rightarrow> bool" where
  "link_after pp pre \<longleftrightarrow> pp = (if pre = [] then At_seg_free else At_np (last pre))"

lemma link_after_snoc: "link_after (At_np c) (pre @ [c])"
  by (simp add: link_after_def)

lemma link_after_load:
  assumes "link_after pp pre" and "chain (seg_links a) (seg_free a) (pre @ is)"
  shows "chain (seg_links a) (pp_load a pp) is"
proof (cases pre rule: rev_cases)
  case Nil
  with assms show ?thesis by (simp add: link_after_def)
next
  case (snoc xs x)
  with assms(2) have "chain (seg_links a) (seg_links a x) is" by (auto simp: chain_append)
  with snoc assms(1) show ?thesis by (simp add: link_after_def seg_links_def [of a x])
qed

text \<open>Unlinking the descriptor that follows \<open>pre\<close>.\<close>

lemma pp_store_unlink:
  assumes "link_after pp pre" and "chain (seg_links a) (seg_free a) (pre @ c # is)"
    and "distinct (pre @ c # is)" and "set pre \<subseteq> {..<length (segs a)}"
  shows "chain (seg_links (pp_store a pp (seg_links a c))) (seg_free (pp_store a pp (seg_links a c)))
    (pre @ is)"
proof (cases pre rule: rev_cases)
  case Nil
  with assms show ?thesis by (simp add: link_after_def)
next
  case (snoc xs x)
  with assms have "path (seg_links a) (seg_free a) (xs @ [x]) (Some c)"
    and "chain (seg_links a) (seg_links a c) is"
    by (auto simp: chain_append)
  with snoc assms show ?thesis
    by (auto simp: link_after_def chain_append chain_simps intro!: exI [of _ "seg_links a c"])
qed

lemma pp_store_simps:
  "length (segs (pp_store a pp q)) = length (segs a)"
  "seg_used (pp_store a pp q) = (if pp = At_seg_used then q else seg_used a)"
  by (cases pp; simp)+

lemma pp_store_segs:
  "link_after pp pre \<Longrightarrow> set pre \<subseteq> {..<length (segs a)} \<Longrightarrow>
    sfree (segs (pp_store a pp q) ! j) = sfree (segs a ! j) \<and>
    sbegin (segs (pp_store a pp q) ! j) = sbegin (segs a ! j) \<and>
    sblocks (segs (pp_store a pp q) ! j) = sblocks (segs a ! j) \<and>
    (j \<notin> set pre \<longrightarrow> segs (pp_store a pp q) ! j = segs a ! j)"
  by (cases pre rule: rev_cases) (auto simp: link_after_def)

text \<open>The state in which \<^verbatim>\<open>allocChunk\<close> calls \<^verbatim>\<open>usedChunk\<close>.\<close>

definition carve :: "PFAllocator \<Rightarrow> segpp \<Rightarrow> nat \<Rightarrow> nat \<Rightarrow> u32 \<Rightarrow> PFAllocator" where
  "carve a pp c useg n =
     (let a1 = upd_seg a useg (\<lambda>s. s\<lparr>sbegin := sbegin (segs a ! c), sblocks := n, snp := None\<rparr>);
          a2 = upd_seg a1 c (\<lambda>s. s\<lparr>sblocks := sblocks s - n\<rparr>);
          a3 = upd_seg a2 c (\<lambda>s. s\<lparr>sbegin := sbegin s + n * ChunkSize\<rparr>)
      in if sblocks (segs a3 ! c) = 0
         then (let b = freeSeg a3 c in pp_store b pp (snp (segs b ! c)))
         else a3)"

lemma allocChunk_loop_carve:
  assumes "pp_load a pp = Some c" and "ucast n \<le> sblocks (segs a ! c)"
  shows "allocChunk_loop (Suc fuel) a pp useg n =
    rbind (usedChunk (carve a pp c useg (ucast n)) useg) (\<lambda>a5. Inr (sbegin (segs a5 ! useg), a5))"
  using assms by (simp add: carve_def Let_def)

definition carved_list :: "PFAllocator \<Rightarrow> nat list \<Rightarrow> nat \<Rightarrow> nat list \<Rightarrow> u32 \<Rightarrow> nat list" where
  "carved_list a pre c is n = pre @ (if sblocks (segs a ! c) - n = 0 then is else c # is)"

lemma carve_wf:
  assumes wf: "pfa_wf a {useg} (pre @ c # is) us" and link: "link_after pp pre"
  shows "pfa_wf (carve a pp c useg n) {useg} (carved_list a pre c is n) us"
proof -
  define a3 where "a3 = upd_seg (upd_seg (upd_seg a useg
      (\<lambda>s. s\<lparr>sbegin := sbegin (segs a ! c), sblocks := n, snp := None\<rparr>))
      c (\<lambda>s. s\<lparr>sblocks := sblocks s - n\<rparr>)) c (\<lambda>s. s\<lparr>sbegin := sbegin s + n * ChunkSize\<rparr>)"
  have lt: "useg < length (segs a)" "c < length (segs a)" "set pre \<subseteq> {..<length (segs a)}"
    and ne: "useg \<noteq> c" "useg \<notin> set pre" "useg \<notin> set is" "useg \<notin> set us" "c \<notin> set us"
      "set pre \<inter> set us = {}" "set is \<inter> set us = {}"
    using wf by (auto simp: pfa_wf_def)
  have dist: "distinct (pre @ c # is)" using pfa_wf_distinct [OF wf] by blast
  have "c \<notin> set pre" "c \<notin> set is" using dist by auto
  have links: "seg_links a3 i = seg_links a i" if "i \<noteq> useg" for i
    using that lt ne by (simp add: a3_def seg_links_def)
  have heads: "seg_free a3 = seg_free a" "seg_used a3 = seg_used a" by (simp_all add: a3_def)
  have "chain (seg_links a3) p (pre @ c # is) = chain (seg_links a) p (pre @ c # is)" for p
    by (intro chain_cong links) (use ne in auto)
  with wf heads have fr: "chain (seg_links a3) (seg_free a3) (pre @ c # is)"
    by (simp add: pfa_wf_def)
  have "chain (seg_links a3) p us = chain (seg_links a) p us" for p
    by (intro chain_cong links) (use ne in auto)
  with wf heads have us: "chain (seg_links a3) (seg_used a3) us"
    by (simp add: pfa_wf_def)
  have wf3: "pfa_wf a3 {useg} (pre @ c # is) us"
    using wf fr us lt unfolding pfa_wf_def by (simp add: a3_def)
  show ?thesis
  proof (cases "sblocks (segs a ! c) - n = 0")
    case False
    then have "carve a pp c useg n = a3"
      using lt ne by (simp add: carve_def Let_def a3_def)
    with False wf3 show ?thesis by (simp add: carved_list_def)
  next
    case True
    define b where "b = freeSeg a3 c"
    have b: "length (segs b) = MaxNumSeg" "seg_links b = seg_links a3" "seg_free b = seg_free a3"
      "seg_used b = seg_used a3" "\<And>j. sfree (segs b ! j) = (j = c \<or> sfree (segs a3 ! j))"
      using wf3 by (auto simp: b_def pfa_wf_def)
    have c: "carve a pp c useg n = pp_store b pp (seg_links b c)"
      using True lt ne by (simp add: carve_def Let_def a3_def b_def seg_links_def)
    let ?d = "pp_store b pp (seg_links b c)"
    have pre: "set pre \<subseteq> {..<length (segs b)}" using lt wf b(1) by (simp add: pfa_wf_def)
    have "pp \<noteq> At_seg_used" using link by (simp add: link_after_def split: if_splits)
    have "chain (seg_links ?d) (seg_free ?d) (pre @ is)"
      using fr b dist pre by (intro pp_store_unlink [OF link]) auto
    moreover have "chain (seg_links ?d) (seg_used ?d) us"
    proof -
      have "seg_links ?d i = seg_links b i" if "i \<in> set us" for i
        using that ne pp_store_segs [OF link pre, of "seg_links b c" i] by (auto simp: seg_links_def)
      then show ?thesis using us b \<open>pp \<noteq> At_seg_used\<close>
        using chain_cong [of us "seg_links ?d" "seg_links b"] by (simp add: pp_store_simps)
    qed
    ultimately have "pfa_wf ?d {useg} (pre @ is) us"
      using wf3 b pp_store_segs [OF link pre] dist ne
      by (auto simp: pfa_wf_def pp_store_simps)
    with True c show ?thesis by (simp add: carved_list_def)
  qed
qed

lemma carve_exts:
  assumes wf: "pfa_wf a {useg} (pre @ c # is) us" and link: "link_after pp pre"
  shows "snp (segs (carve a pp c useg n) ! useg) = None"
    and "seg_ext (carve a pp c useg n) useg = (sbegin (segs a ! c), n)"
    and "seg_ext (carve a pp c useg n) c =
      (sbegin (segs a ! c) + n * ChunkSize, sblocks (segs a ! c) - n)"
    and "i \<noteq> useg \<Longrightarrow> i \<noteq> c \<Longrightarrow> seg_ext (carve a pp c useg n) i = seg_ext a i"
proof -
  have lt: "useg < length (segs a)" "c < length (segs a)" "set pre \<subseteq> {..<length (segs a)}"
    and ne: "useg \<noteq> c" "useg \<notin> set pre"
    using wf by (auto simp: pfa_wf_def)
  note st = pp_store_segs [OF link]
  show "snp (segs (carve a pp c useg n) ! useg) = None"
    "seg_ext (carve a pp c useg n) useg = (sbegin (segs a ! c), n)"
    "seg_ext (carve a pp c useg n) c =
      (sbegin (segs a ! c) + n * ChunkSize, sblocks (segs a ! c) - n)"
    using lt ne by (auto simp: carve_def Let_def st seg_ext_def)
  show "seg_ext (carve a pp c useg n) i = seg_ext a i" if "i \<noteq> useg" "i \<noteq> c"
    using lt ne that by (auto simp: carve_def Let_def st seg_ext_def)
qed

lemma allocChunk_found:
  assumes wf: "pfa_wf a {useg} (pre @ c # is) us" and link: "link_after pp pre"
    and ld: "pp_load a pp = Some c" and le: "ucast n \<le> sblocks (segs a ! c)"
  shows "\<exists>a' us'. allocChunk_loop (Suc fuel) a pp useg n = Inr (sbegin (segs a ! c), a') \<and>
    pfa_wf a' {} (carved_list a pre c is (ucast n)) us' \<and>
    map (seg_ext a') (carved_list a pre c is (ucast n)) =
      map (seg_ext a) pre @ snd (the (take_first (ucast n) (map (seg_ext a) (c # is)))) \<and>
    map (seg_ext a') us' = used_insert (sbegin (segs a ! c), ucast n) (map (seg_ext a) us)"
proof -
  let ?k = "carve a pp c useg (ucast n)" and ?fs = "carved_list a pre c is (ucast n)"
  note ex = carve_exts [OF wf link, where n = "ucast n"]
  from usedChunk_refines [OF carve_wf [OF wf link] ex(1)]
  obtain a' us' where u: "usedChunk ?k useg = Inr a'" "pfa_wf a' {} ?fs us'"
    "map (seg_ext a') us' = used_insert (seg_ext ?k useg) (map (seg_ext ?k) us)"
    "map (seg_ext a') ?fs = map (seg_ext ?k) ?fs" "seg_ext a' useg = seg_ext ?k useg"
    by blast
  have dist: "distinct (pre @ c # is)" using pfa_wf_distinct [OF wf] by blast
  have "c \<notin> set us" and "useg \<notin> set us" and "useg \<notin> set pre" and "useg \<notin> set is"
    using wf unfolding pfa_wf_def by auto
  with dist have same: "map (seg_ext ?k) us = map (seg_ext a) us"
    "map (seg_ext ?k) pre = map (seg_ext a) pre" "map (seg_ext ?k) is = map (seg_ext a) is"
    by (auto intro!: ex(4))
  have "allocChunk_loop (Suc fuel) a pp useg n = Inr (sbegin (segs a ! c), a')"
    unfolding allocChunk_loop_carve [OF ld le] using u(1,5) ex(2) by (simp add: seg_ext_def)
  moreover have "map (seg_ext a') ?fs =
      map (seg_ext a) pre @ snd (the (take_first (ucast n) (map (seg_ext a) (c # is))))"
    unfolding u(4) using ex(3) le same(2,3)
    by (simp add: carved_list_def seg_ext_def [of a c] del: map_eq_conv)
  moreover have "map (seg_ext a') us' =
      used_insert (sbegin (segs a ! c), ucast n) (map (seg_ext a) us)"
    unfolding u(3) ex(2) same(1) ..
  ultimately show ?thesis using u(2) by blast
qed

lemma allocChunk_loop_refines:
  assumes "pfa_wf a {useg} (pre @ is) us" and "link_after pp pre" and "length is < fuel"
  shows "case take_first (ucast n) (map (seg_ext a) is) of
      None \<Rightarrow> allocChunk_loop fuel a pp useg n = Inl (Panic ''PFAallocator::cannot allocate segment'')
    | Some (b, es) \<Rightarrow> \<exists>a' fs' us'. allocChunk_loop fuel a pp useg n = Inr (b, a') \<and>
        pfa_wf a' {} fs' us' \<and> map (seg_ext a') fs' = map (seg_ext a) pre @ es \<and>
        map (seg_ext a') us' = used_insert (b, ucast n) (map (seg_ext a) us)"
  using assms
proof (induction "is" arbitrary: pre pp fuel)
  case Nil
  then obtain f where [simp]: "fuel = Suc f" by (cases fuel) auto
  from Nil have "pp_load a pp = None"
    using link_after_load [of pp pre a "[]"] by (simp add: pfa_wf_def)
  then show ?case by simp
next
  case (Cons c "is")
  then obtain f where [simp]: "fuel = Suc f" by (cases fuel) auto
  from Cons have ld: "pp_load a pp = Some c"
    using link_after_load [of pp pre a "c # is"] by (simp add: pfa_wf_def)
  show ?case
  proof (cases "ucast n \<le> sblocks (segs a ! c)")
    case True
    from allocChunk_found [OF Cons.prems(1,2) ld True, of f]
    obtain a' us' where r: "allocChunk_loop fuel a pp useg n = Inr (sbegin (segs a ! c), a')"
      "pfa_wf a' {} (carved_list a pre c is (ucast n)) us'"
      "map (seg_ext a') (carved_list a pre c is (ucast n)) =
        map (seg_ext a) pre @ snd (the (take_first (ucast n) (map (seg_ext a) (c # is))))"
      "map (seg_ext a') us' = used_insert (sbegin (segs a ! c), ucast n) (map (seg_ext a) us)"
      by auto
    moreover obtain es where "take_first (ucast n) (map (seg_ext a) (c # is)) = Some (sbegin (segs a ! c), es)"
      using True by (simp add: seg_ext_def)
    ultimately show ?thesis by auto
  next
    case False
    have "case take_first (ucast n) (map (seg_ext a) is) of
      None \<Rightarrow> allocChunk_loop f a (At_np c) useg n = Inl (Panic ''PFAallocator::cannot allocate segment'')
    | Some (b, es) \<Rightarrow> \<exists>a' fs' us'. allocChunk_loop f a (At_np c) useg n = Inr (b, a') \<and>
        pfa_wf a' {} fs' us' \<and> map (seg_ext a') fs' = map (seg_ext a) (pre @ [c]) @ es \<and>
        map (seg_ext a') us' = used_insert (b, ucast n) (map (seg_ext a) us)"
      using Cons.prems by (intro Cons.IH link_after_snoc) auto
    with False ld show ?thesis
      by (auto simp: seg_ext_def [of a c] split: option.splits)
  qed
qed

section \<open>The abstract state\<close>

definition free_list :: "PFAllocator \<Rightarrow> nat list" where
  "free_list a = walk MaxNumSeg (seg_links a) (seg_free a)"

definition used_list :: "PFAllocator \<Rightarrow> nat list" where
  "used_list a = walk MaxNumSeg (seg_links a) (seg_used a)"

definition free_exts :: "PFAllocator \<Rightarrow> extent list" where
  "free_exts a = map (seg_ext a) (free_list a)"

definition used_exts :: "PFAllocator \<Rightarrow> extent list" where
  "used_exts a = map (seg_ext a) (used_list a)"

definition free_frames :: "PFAllocator \<Rightarrow> nat set" where
  "free_frames a = all_frames (free_exts a)"

definition used_frames :: "PFAllocator \<Rightarrow> nat set" where
  "used_frames a = all_frames (used_exts a)"

text \<open>
  The invariant of the allocator: both lists are well formed, no descriptor is lost, and the extents
  on the two lists are page aligned and pairwise disjoint.
\<close>

definition pfa_inv :: "PFAllocator \<Rightarrow> bool" where
  "pfa_inv a \<longleftrightarrow> pfa_wf a {} (free_list a) (used_list a) \<and> exts_ok (free_exts a @ used_exts a)"

lemma pfa_wf_lists:
  assumes "pfa_wf a X fs us"
  shows "free_list a = fs" and "used_list a = us"
  using assms pfa_wf_lengths [OF assms]
  by (auto simp: free_list_def used_list_def pfa_wf_def intro: walk_chain)

lemma pfa_invI:
  assumes "pfa_wf a {} fs us" and "exts_ok (map (seg_ext a) fs @ map (seg_ext a) us)"
  shows "pfa_inv a"
  using assms pfa_wf_lists [OF assms(1)] by (simp add: pfa_inv_def free_exts_def used_exts_def)

lemma init_PFAllocator_inv: "pfa_inv init_PFAllocator"
  by (rule pfa_invI [of _ "[]" "[]"]) (simp_all add: pfa_wf_def init_PFAllocator_def MaxNumSeg_def)

definition descriptors_left :: "PFAllocator \<Rightarrow> bool" where
  "descriptors_left a \<longleftrightarrow> length (free_list a) + length (used_list a) < MaxNumSeg"

text \<open>The two public operations, as operations on the extents.\<close>

lemma allocChunk_refines:
  assumes inv: "pfa_inv a" and left: "descriptors_left a"
  shows "case take_first (ucast n) (free_exts a) of
      None \<Rightarrow> allocChunk a n = Inl (Panic ''PFAallocator::cannot allocate segment'')
    | Some (b, es) \<Rightarrow> \<exists>a'. allocChunk a n = Inr (b, a') \<and> pfa_wf a' {} (free_list a') (used_list a') \<and>
        free_exts a' = es \<and> used_exts a' = used_insert (b, ucast n) (used_exts a)"
proof -
  have wf: "pfa_wf a {} (free_list a) (used_list a)" using inv by (simp add: pfa_inv_def)
  obtain i a1 where g: "getSeg a = Inr (i, a1)"
    using getSeg_cases(1) [OF wf] left by (auto simp: descriptors_left_def)
  note g' = getSeg_Inr [OF wf g]
  have link: "link_after At_seg_free []" by (simp add: link_after_def)
  have len: "length (free_list a) < Suc MaxNumSeg" using pfa_wf_lengths [OF wf] by simp
  have run: "allocChunk a n = allocChunk_loop (Suc MaxNumSeg) a1 At_seg_free i n"
    using g by (simp add: allocChunk_def del: allocChunk_loop.simps)
  have wf1: "pfa_wf a1 {i} ([] @ free_list a) (used_list a)" and e: "seg_ext a1 = seg_ext a"
    using g' by simp_all
  from allocChunk_loop_refines [OF wf1 link len, of n] show ?thesis
    unfolding run e free_exts_def used_exts_def
    by (auto simp: pfa_wf_lists simp del: allocChunk_loop.simps split: option.splits)
qed

lemma allocChunk_no_descriptor:
  assumes inv: "pfa_inv a" and left: "\<not> descriptors_left a"
  shows "allocChunk a n = Inl (Panic ''PFAllocator:cannot find free segment'')"
proof -
  have wf: "pfa_wf a {} (free_list a) (used_list a)" using inv by (simp add: pfa_inv_def)
  have "\<forall>i a1. getSeg a \<noteq> Inr (i, a1)"
    using getSeg_cases(1) [OF wf] left by (auto simp: descriptors_left_def)
  from getSeg_cases(2) [OF wf this] show ?thesis by (simp add: allocChunk_def)
qed

lemma addChunk_refines:
  fixes bgn fin :: u32
  assumes inv: "pfa_inv a" and left: "descriptors_left a"
  defines "B \<equiv> bgn AND NOT (ChunkSize - 1)" and "E \<equiv> fin AND NOT (ChunkSize - 1)"
  shows "\<exists>a'. addChunk a bgn fin = Inr a' \<and> pfa_wf a' {} (free_list a') (used_list a') \<and>
    free_exts a' = free_insert (B, (E - B) div ChunkSize) (free_exts a) \<and> used_exts a' = used_exts a"
proof -
  have wf: "pfa_wf a {} (free_list a) (used_list a)" using inv by (simp add: pfa_inv_def)
  obtain i a1 where g: "getSeg a = Inr (i, a1)"
    using getSeg_cases(1) [OF wf] left by (auto simp: descriptors_left_def)
  note g' = getSeg_Inr [OF wf g]
  define a2 where "a2 = upd_seg a1 i
    (\<lambda>s. s\<lparr>sbegin := B, sblocks := (E - B) div ChunkSize, snp := None\<rparr>)"
  have i: "i < length (segs a1)" using g' by (simp add: pfa_wf_def)
  have links: "chain (seg_links a2) p is = chain (seg_links a1) p is" if "i \<notin> set is" for p "is"
    using that i by (simp add: a2_def chain_simps)
  have "pfa_wf a2 {i} (free_list a) (used_list a)"
    using g' i links by (auto simp: pfa_wf_def a2_def)
  moreover have "snp (segs a2 ! i) = None" and e: "seg_ext a2 i = (B, (E - B) div ChunkSize)"
    "\<And>j. j \<noteq> i \<Longrightarrow> seg_ext a2 j = seg_ext a j"
    using i g' by (simp_all add: a2_def seg_ext_def fun_eq_iff)
  ultimately obtain a' fs' where r: "addChunk_seg a2 i = Inr a'" "pfa_wf a' {} fs' (used_list a)"
    "map (seg_ext a') fs' = free_insert (seg_ext a2 i) (map (seg_ext a2) (free_list a))"
    "map (seg_ext a') (used_list a) = map (seg_ext a2) (used_list a)"
    using addChunk_seg_refines by blast
  have "addChunk a bgn fin = Inr a'"
    using r(1) g by (simp add: addChunk_def Let_def a2_def B_def E_def)
  moreover have "map (seg_ext a2) (free_list a) = map (seg_ext a) (free_list a)"
    "map (seg_ext a2) (used_list a) = map (seg_ext a) (used_list a)"
    using g' by (auto intro!: e(2))
  ultimately show ?thesis
    using r pfa_wf_lists [OF r(2)] e(1) unfolding free_exts_def used_exts_def
    by (intro exI [of _ a']) (simp del: map_eq_conv)
qed

lemma page_range_extent:
  fixes bgn fin :: u32
  assumes "bgn \<le> fin"
  defines "B \<equiv> bgn AND NOT (ChunkSize - 1)" and "E \<equiv> fin AND NOT (ChunkSize - 1)"
  shows "ext_ok (B, (E - B) div ChunkSize)"
    and "frames (B, (E - B) div ChunkSize) = {unat bgn div 4096 ..< unat fin div 4096}"
proof -
  have B: "unat B = unat bgn div 4096 * 4096" and E: "unat E = unat fin div 4096 * 4096"
    by (simp_all only: B_def E_def ChunkSize_def page_simps)
  have le: "unat bgn div 4096 \<le> unat fin div 4096"
    using assms(1) by (simp add: div_le_mono word_le_nat_alt)
  then have "B \<le> E" by (simp add: word_le_nat_alt B E)
  then have n: "unat ((E - B) div ChunkSize) = unat fin div 4096 - unat bgn div 4096"
    by (simp add: unat_div unat_diff_exact B E flip: diff_mult_distrib)
  have "unat fin div 4096 * 4096 \<le> unat fin" by simp
  also have "\<dots> < 2 ^ 32" using unsigned_less [of fin] by simp
  finally have "unat fin div 4096 * 4096 < 2 ^ 32" .
  then show "ext_ok (B, (E - B) div ChunkSize)" using le by (simp add: B n diff_mult_distrib)
  show "frames (B, (E - B) div ChunkSize) = {unat bgn div 4096 ..< unat fin div 4096}"
    using le by (simp add: B n)
qed

lemma allocChunk_spec:
  assumes "pfa_inv a" and "allocChunk a n = Inr (r, a')"
  shows "pfa_inv a' \<and> ext_ok (r, ucast n) \<and>
    frames (r, ucast n) \<subseteq> free_frames a \<and> frames (r, ucast n) \<inter> used_frames a = {} \<and>
    free_frames a' = free_frames a - frames (r, ucast n) \<and>
    set (used_exts a') = insert (r, ucast n) (set (used_exts a))"
proof -
  have "descriptors_left a" using allocChunk_no_descriptor [OF assms(1), of n] assms(2) by auto
  note ref = allocChunk_refines [OF assms(1) this, of n]
  then obtain es where t: "take_first (ucast n) (free_exts a) = Some (r, es)"
    and wf: "pfa_wf a' {} (free_list a') (used_list a')" "free_exts a' = es"
      "used_exts a' = used_insert (r, ucast n) (used_exts a)"
    using assms(2) by (cases "take_first (ucast n) (free_exts a) :: (u32 \<times> extent list) option") auto
  from assms(1) have ok: "exts_ok (free_exts a)" "exts_ok (used_exts a)"
    "all_frames (free_exts a) \<inter> all_frames (used_exts a) = {}"
    by (auto simp: pfa_inv_def)
  note tf = take_first_correct [OF ok(1) t]
  then have "exts_ok (used_insert (r, ucast n) (used_exts a))"
    using ok by (intro used_insert_ok) blast+
  with tf wf ok have "pfa_inv a'"
    unfolding pfa_inv_def by (simp add: used_insert_frames) blast
  moreover have "free_frames a' = free_frames a - frames (r, ucast n)"
    using tf wf(2) unfolding free_frames_def by blast
  moreover have "frames (r, ucast n) \<subseteq> free_frames a" using tf unfolding free_frames_def by blast
  moreover from this have "frames (r, ucast n) \<inter> used_frames a = {}"
    using ok(3) unfolding free_frames_def used_frames_def by blast
  ultimately show ?thesis using tf wf(3) by (simp only: used_insert_set simp_thms)
qed

lemma addChunk_spec:
  assumes "pfa_inv a" and "descriptors_left a" and "bgn \<le> fin"
    and "{unat bgn div 4096 ..< unat fin div 4096} \<inter> (free_frames a \<union> used_frames a) = {}"
  shows "\<exists>a'. addChunk a bgn fin = Inr a' \<and> pfa_inv a' \<and>
    free_frames a' = free_frames a \<union> {unat bgn div 4096 ..< unat fin div 4096} \<and>
    used_exts a' = used_exts a \<and>
    free_exts a' = free_insert (bgn AND NOT (ChunkSize - 1),
      ((fin AND NOT (ChunkSize - 1)) - (bgn AND NOT (ChunkSize - 1))) div ChunkSize) (free_exts a)"
proof -
  let ?B = "bgn AND NOT (ChunkSize - 1)" and ?E = "fin AND NOT (ChunkSize - 1)"
  let ?x = "(?B, (?E - ?B) div ChunkSize)"
  note x = page_range_extent [OF assms(3)]
  obtain a' where r: "addChunk a bgn fin = Inr a'" "pfa_wf a' {} (free_list a') (used_list a')"
    "free_exts a' = free_insert ?x (free_exts a)" "used_exts a' = used_exts a"
    using addChunk_refines [OF assms(1,2), of bgn fin] by blast
  have ok: "exts_ok (free_exts a)" "exts_ok (used_exts a)" and
    dj: "all_frames (free_exts a) \<inter> all_frames (used_exts a) = {}"
    using assms(1) by (auto simp: pfa_inv_def)
  have new: "frames ?x \<inter> all_frames (free_exts a) = {}" "frames ?x \<inter> all_frames (used_exts a) = {}"
    using assms(4) x(2) unfolding free_frames_def used_frames_def by (metis inf_sup_distrib1 sup_eq_bot_iff)+
  from free_insert_correct [OF ok(1) x(1) new(1)]
  have f: "exts_ok (free_exts a')" "all_frames (free_exts a') = frames ?x \<union> all_frames (free_exts a)"
    by (simp_all only: r(3))
  have "all_frames (free_exts a') \<inter> all_frames (used_exts a') = {}"
    unfolding f(2) r(4) using dj new(2) by blast
  with r(2,4) f(1) ok(2) have "pfa_inv a'" by (simp add: pfa_inv_def)
  moreover have "free_frames a' = free_frames a \<union> {unat bgn div 4096 ..< unat fin div 4096}"
    unfolding free_frames_def f(2) x(2) by (rule Un_commute)
  ultimately show ?thesis using r by blast
qed

section \<open>An example state\<close>

text \<open>
  A small state for the examples: 16 pages managed, pages 0 and 1 to 2 in use, the 13 pages from
  \<open>0x3000\<close> on free.
\<close>

definition demo_pfa :: PFAllocator where
  "demo_pfa =
     \<lparr>segs = [\<lparr>sfree = False, sbegin = 0x3000, sblocks = 13, snp = None\<rparr>,
              \<lparr>sfree = False, sbegin = 0, sblocks = 1, snp = Some 2\<rparr>,
              \<lparr>sfree = False, sbegin = 0x1000, sblocks = 2, snp = None\<rparr>] @
             replicate 125 \<lparr>sfree = True, sbegin = 0, sblocks = 0, snp = None\<rparr>,
      seg_free = Some 0, seg_used = Some 1\<rparr>"

lemma demo_wf: "pfa_wf demo_pfa {} [0] [1, 2]"
proof -
  have "\<not> sfree (segs demo_pfa ! i) \<longleftrightarrow> i \<in> {0, 1, 2}" if "i < MaxNumSeg" for i
    using that by (auto simp: demo_pfa_def MaxNumSeg_def nth_append nth_Cons split: nat.splits)
  then show ?thesis by (auto simp: pfa_wf_def demo_pfa_def seg_links_def MaxNumSeg_def)
qed

lemma demo_exts: "free_exts demo_pfa = [(0x3000, 13)]" "used_exts demo_pfa = [(0, 1), (0x1000, 2)]"
  using pfa_wf_lists [OF demo_wf]
  by (simp_all add: free_exts_def used_exts_def seg_ext_def demo_pfa_def)

lemma demo_inv: "pfa_inv demo_pfa"
  using demo_wf by (rule pfa_invI) (simp add: seg_ext_def demo_pfa_def)

lemma demo_left: "descriptors_left demo_pfa"
  using pfa_wf_lists [OF demo_wf] by (simp add: descriptors_left_def MaxNumSeg_def)

lemma demo_frames: "free_frames demo_pfa = {3..<16}" "used_frames demo_pfa = {0..<3}"
  by (auto simp: demo_exts free_frames_def used_frames_def)

section \<open>Properties\<close>

text \<open>
  C2. A successful \<^verbatim>\<open>allocChunk(n)\<close> takes a page-aligned run of \<open>n\<close> frames out of the free memory: the
  frames were free, no chunk in use overlaps them, they are the only frames that stop being free,
  the chunk is the only one added to the used list, and the invariant of the allocator is kept.
\<close>

theorem allocChunk_correct:
  assumes "pfa_inv a" and "allocChunk a n = Inr (r, a')"
  shows "pfa_inv a' \<and> ext_ok (r, ucast n) \<and>
    frames (r, ucast n) \<subseteq> free_frames a \<and> frames (r, ucast n) \<inter> used_frames a = {} \<and>
    free_frames a' = free_frames a - frames (r, ucast n) \<and>
    set (used_exts a') = insert (r, ucast n) (set (used_exts a))"
  using assms by (rule allocChunk_spec)

theorem allocChunk_correct_witness:
  "\<exists>r a'. allocChunk demo_pfa 4 = Inr (r, a') \<and> pfa_inv demo_pfa \<and> pfa_inv a' \<and>
     free_frames a' = {3 ..< 16} - frames (r, 4)"
proof -
  obtain r a' where run: "allocChunk demo_pfa 4 = Inr (r, a')"
    using allocChunk_refines [OF demo_inv demo_left, of 4] by (auto simp: demo_exts)
  show ?thesis using allocChunk_correct [OF demo_inv run] run demo_inv by (simp add: demo_frames)
qed

text \<open>
  C11. \<^verbatim>\<open>allocChunk(n)\<close> returns exactly when a descriptor is left and some free segment has at least \<open>n\<close>
  blocks; in every other case it panics, and it never loops for ever.
\<close>

theorem allocChunk_returns:
  assumes "pfa_inv a"
  shows "((\<exists>r a'. allocChunk a n = Inr (r, a')) \<longleftrightarrow>
      descriptors_left a \<and> (\<exists>(b, m) \<in> set (free_exts a). ucast n \<le> m)) \<and>
    ((\<exists>r a'. allocChunk a n = Inr (r, a')) \<or> (\<exists>msg. allocChunk a n = Inl (Panic msg)))"
proof (intro conjI)
  show "(\<exists>r a'. allocChunk a n = Inr (r, a')) \<longleftrightarrow>
      descriptors_left a \<and> (\<exists>(b, m) \<in> set (free_exts a). ucast n \<le> m)"
  proof (cases "descriptors_left a")
    case True
    from allocChunk_refines [OF assms True, of n] take_first_None [of "ucast n" "free_exts a"] True
    show ?thesis by (cases "take_first (ucast n) (free_exts a) :: (u32 \<times> extent list) option") auto
  next
    case False
    with allocChunk_no_descriptor [OF assms False, of n] show ?thesis by simp
  qed
  show "(\<exists>r a'. allocChunk a n = Inr (r, a')) \<or> (\<exists>msg. allocChunk a n = Inl (Panic msg))"
    using allocChunk_refines [OF assms, of n] allocChunk_no_descriptor [OF assms, of n]
    by (cases "descriptors_left a") (auto split: option.splits)
qed

theorem allocChunk_returns_witness:
  "pfa_inv demo_pfa \<and> (\<exists>r a'. allocChunk demo_pfa 13 = Inr (r, a')) \<and> 
   (\<nexists>r a'. allocChunk demo_pfa 14 = Inr (r, a'))"
  using allocChunk_returns [OF demo_inv, of 13] allocChunk_returns [OF demo_inv, of 14] demo_inv demo_left
  by (simp add: demo_exts)



end
