(* ===== verification/PFAllocator_Boot.thy ===== *)
theory PFAllocator_Boot
  imports PFAllocator_Correct
begin

text \<open>
  The boot-time operation \<^verbatim>\<open>removeChunk\<close> and the release operation \<^verbatim>\<open>freeChunk\<close> of the page frame
  allocator: under which conditions they do what they are for, and runs in which they do not.
\<close>

section \<open>Cutting a range out of an extent\<close>

text \<open>What one iteration of \<^verbatim>\<open>removeChunk\<close> makes of an extent.\<close>

definition cut_ext :: "u32 \<Rightarrow> u32 \<Rightarrow> extent \<Rightarrow> extent list" where
  "cut_ext b e x =
     (let xb = fst x; xe = ext_end x;
          chk_b = (if xb \<ge> b then xb else b);
          chk_e = (if xe \<le> e then xe else e) in
      if xb \<le> e then
        if xb < chk_b then
          if chk_e < xe then [(xb, (chk_b - xb) div ChunkSize), (chk_e, (xe - chk_e) div ChunkSize)]
          else [(xb, (chk_b - xb) div ChunkSize)]
        else if chk_e < xe then [(chk_e, (xe - chk_e) div ChunkSize)]
        else [x]
      else [x])"

text \<open>
  The extents on which the cut is right: those that begin after the range, and those that reach it
  and are not covered by it (an empty extent apart).
\<close>

definition cut_safe :: "u32 \<Rightarrow> u32 \<Rightarrow> extent \<Rightarrow> bool" where
  "cut_safe b e x \<longleftrightarrow>
     (fst x \<le> e \<longrightarrow> b \<le> ext_end x \<and> (snd x = 0 \<or> fst x < b \<or> e < ext_end x))"

lemma extent_between:
  fixes x y :: u32
  assumes "unat x = 4096 * p" and "unat y = 4096 * q" and "p \<le> q"
  shows "ext_ok (x, (y - x) div ChunkSize)" and "frames (x, (y - x) div ChunkSize) = {p ..< q}"
proof -
  have "x \<le> y" using assms by (simp add: word_le_nat_alt)
  then have n: "unat ((y - x) div ChunkSize) = q - p"
    using assms by (simp add: unat_div unat_diff_exact flip: diff_mult_distrib2)
  have "unat y < 2 ^ 32" using unsigned_less [of y] by simp
  with assms have "4096 * p + (q - p) * 4096 < 2 ^ 32"
    by (simp add: diff_mult_distrib2 diff_mult_distrib mult.commute)
  then show "ext_ok (x, (y - x) div ChunkSize)" using assms(1) by (simp add: n)
  show "frames (x, (y - x) div ChunkSize) = {p ..< q}" using assms(1,3) by (simp add: n)
qed

lemma cut_ext_correct:
  assumes ok: "ext_ok x" and safe: "cut_safe b e x"
    and b: "unat b = 4096 * p" and e: "unat e = 4096 * q" and pq: "p \<le> q"
  shows "exts_ok (cut_ext b e x) \<and> all_frames (cut_ext b e x) = frames x - {p ..< q}"
proof -
  obtain xb n where x [simp]: "x = (xb, n)" by (cases x) auto
  define s where "s = unat xb div 4096"
  define t where "t = s + unat n"
  have xb: "unat xb = 4096 * s" using ok by (auto simp: s_def)
  have xe: "unat (ext_end (xb, n)) = 4096 * t"
    using unat_ext_end [of xb n] ok xb by (simp add: t_def algebra_simps)
  have fr: "frames x = {s ..< t}" by (simp add: s_def t_def)
  have st: "s \<le> t" by (simp add: t_def)
  note le = word_le_nat_alt word_less_nat_alt b e xb xe
  show ?thesis
  proof (cases "xb \<le> e")
    case False
    then have "q < s" by (simp add: le)
    then have "frames x - {p ..< q} = frames x" unfolding fr by auto
    with False ok show ?thesis by (simp add: cut_ext_def del: frames.simps ext_ok.simps)
  next
    case True
    with safe have reach: "p \<le> t" "s \<le> q" and part: "s = t \<or> s < p \<or> q < t"
      by (auto simp: cut_safe_def le unat_eq_0 t_def simp del: ext_end.simps)
    note lb = extent_between [OF xb b] and rb = extent_between [OF e xe]
    consider (both) "s < p" "q < t" | (left) "s < p" "t \<le> q" | (right) "p \<le> s" "q < t"
      | (none) "p \<le> s" "t \<le> q" by linarith
    then show ?thesis
    proof cases
      case both
      then have "cut_ext b e x = [(xb, (b - xb) div ChunkSize), (e, (ext_end (xb, n) - e) div ChunkSize)]"
        using True by (simp add: cut_ext_def Let_def le del: ext_end.simps)
      moreover from both pq have "{s ..< p} \<inter> {q ..< t} = {}"
        and "{s ..< t} - {p ..< q} = {s ..< p} \<union> {q ..< t}" by auto
      ultimately show ?thesis using both lb rb
        by (simp add: fr less_imp_le del: frames.simps ext_ok.simps ext_end.simps x)
    next
      case left
      then have "cut_ext b e x = [(xb, (b - xb) div ChunkSize)]"
        using True by (simp add: cut_ext_def Let_def le del: ext_end.simps)
      moreover from left reach have "{s ..< t} - {p ..< q} = {s ..< p}" by auto
      ultimately show ?thesis using left lb
        by (simp add: fr less_imp_le del: frames.simps ext_ok.simps ext_end.simps x)
    next
      case right
      then have "cut_ext b e x = [(e, (ext_end (xb, n) - e) div ChunkSize)]"
        using True by (simp add: cut_ext_def Let_def le del: ext_end.simps)
      moreover from right reach have "{s ..< t} - {p ..< q} = {q ..< t}" by auto
      ultimately show ?thesis using right rb
        by (simp add: fr less_imp_le del: frames.simps ext_ok.simps ext_end.simps x)
    next
      case none
      then have "cut_ext b e x = [x]"
        using True by (simp add: cut_ext_def Let_def le del: ext_end.simps)
      moreover have "frames x = {}" using fr none part by auto
      ultimately show ?thesis using ok by (simp del: frames.simps ext_ok.simps x)
    qed
  qed
qed

section \<open>The walk of removeChunk\<close>

lemma pfa_wf_upd_data:
  assumes "pfa_wf a X fs us" and "\<And>s. snp (f s) = snp s" and "\<And>s. sfree (f s) = sfree s"
    and "c < length (segs a)"
  shows "pfa_wf (upd_seg a c f) X fs us"
proof -
  have "seg_links (upd_seg a c f) = seg_links a"
    using assms(2,4) by (auto simp: seg_links_def fun_eq_iff)
  with assms show ?thesis by (auto simp: pfa_wf_def)
qed

text \<open>Linking a fresh descriptor behind \<open>c\<close>.\<close>

lemma pfa_wf_insert_after:
  assumes wf: "pfa_wf a {r} (pre @ c # is) us"
    and f: "\<And>s. snp (f s) = snp (segs a ! c)" "\<And>s. sfree (f s) = sfree s"
  shows "pfa_wf (upd_seg (upd_seg a r f) c (\<lambda>s. s\<lparr>snp := Some r\<rparr>)) {} (pre @ c # r # is) us"
proof -
  let ?a' = "upd_seg (upd_seg a r f) c (\<lambda>s. s\<lparr>snp := Some r\<rparr>)"
  have lt: "r < length (segs a)" "c < length (segs a)" and ne: "r \<noteq> c" "r \<notin> set (pre @ c # is)"
    "r \<notin> set us" "c \<notin> set us"
    using wf by (auto simp: pfa_wf_def)
  have d: "c \<notin> set pre" "c \<notin> set is" using pfa_wf_distinct [OF wf] by auto
  have "path (seg_links a) (seg_free a) pre (Some c)" and "chain (seg_links a) (seg_links a c) is"
    using wf by (auto simp: pfa_wf_def chain_append)
  then have "chain (seg_links ?a') (seg_free ?a') (pre @ c # r # is)"
    using lt ne d f(1) by (auto simp: chain_append chain_simps seg_links_def [of a c])
  moreover have "chain (seg_links ?a') (seg_used ?a') us"
    using wf lt ne by (simp add: pfa_wf_def chain_simps)
  ultimately show ?thesis using wf lt ne f(2) by (auto simp: pfa_wf_def)
qed

lemma removeChunk_step_refines:
  assumes wf: "pfa_wf a {} (pre @ c # is) us"
    and room: "length (cut_ext b e (seg_ext a c)) = 2 \<Longrightarrow>
      length (pre @ c # is) + length us < MaxNumSeg"
  shows "\<exists>a' js. removeChunk_step a c b e = Inr a' \<and> pfa_wf a' {} (pre @ c # js @ is) us \<and>
    map (seg_ext a') (c # js) = cut_ext b e (seg_ext a c) \<and>
    (\<forall>i \<in> set pre \<union> set is \<union> set us. seg_ext a' i = seg_ext a i) \<and> set js \<inter> (set pre \<union> set is \<union> set us) = {}"
proof -
  have c: "c < length (segs a)" "c \<notin> set us" using wf by (auto simp: pfa_wf_def)
  have d: "c \<notin> set pre" "c \<notin> set is" using pfa_wf_distinct [OF wf] by auto
  let ?xb = "sbegin (segs a ! c)" and ?xe = "seg_end (segs a ! c)"
  have data: ?thesis
    if "removeChunk_step a c b e = Inr (upd_seg a c (\<lambda>s. s\<lparr>sbegin := B, sblocks := n\<rparr>))"
      and "cut_ext b e (seg_ext a c) = [(B, n)]" for B n
    using that wf c d
    by (intro exI [of _ "upd_seg a c (\<lambda>s. s\<lparr>sbegin := B, sblocks := n\<rparr>)"] exI [of _ "[]"])
      (auto intro: pfa_wf_upd_data simp: seg_ext_def)
  note unf = removeChunk_step_def cut_ext_def Let_def seg_end_def seg_ext_def
  consider (split) "?xb \<le> e" "?xb < b" "e < ?xe"
    | (left) "?xb \<le> e" "?xb < b" "\<not> e < ?xe"
    | (right) "?xb \<le> e" "\<not> ?xb < b" "e < ?xe"
    | (same) "\<not> ?xb \<le> e \<or> \<not> ?xb < b \<and> \<not> e < ?xe"
    by blast
  then show ?thesis
  proof cases
    case same
    then have "removeChunk_step a c b e = Inr a" "cut_ext b e (seg_ext a c) = [seg_ext a c]"
      by (auto simp: unf)
    with wf show ?thesis by (intro exI [of _ a] exI [of _ "[]"]) simp
  next
    case left
    then show ?thesis by (intro data [where B = ?xb and n = "(b - ?xb) div ChunkSize"]) (auto simp: unf)
  next
    case right
    then show ?thesis by (intro data [where B = e and n = "(?xe - e) div ChunkSize"]) (auto simp: unf)
  next
    case split
    then have cut: "cut_ext b e (seg_ext a c) =
        [(?xb, (b - ?xb) div ChunkSize), (e, (?xe - e) div ChunkSize)]"
      by (auto simp: unf)
    with room obtain r a1 where g: "getSeg a = Inr (r, a1)"
      using getSeg_cases(1) [OF wf] by auto
    note g' = getSeg_Inr [OF wf g]
    let ?l = "\<lambda>s. s\<lparr>sbegin := ?xb, sblocks := (b - ?xb) div ChunkSize\<rparr>"
    let ?r = "\<lambda>s. s\<lparr>sbegin := e, sblocks := (?xe - e) div ChunkSize, snp := snp (segs (upd_seg a1 c ?l) ! c)\<rparr>"
    define a' where "a' = upd_seg (upd_seg (upd_seg a1 c ?l) r ?r) c (\<lambda>s. s\<lparr>snp := Some r\<rparr>)"
    have lt: "r < length (segs a1)" "c < length (segs a1)" and ne: "r \<noteq> c" "r \<notin> set (pre @ is)" "r \<notin> set us"
      using g' by (auto simp: pfa_wf_def)
    have step: "removeChunk_step a c b e = Inr a'"
      using split g by (auto simp: unf a'_def)
    have "pfa_wf (upd_seg a1 c ?l) {r} (pre @ c # is) us"
      using g' lt by (intro pfa_wf_upd_data) auto
    then have wf': "pfa_wf a' {} (pre @ c # r # is) us"
      unfolding a'_def by (rule pfa_wf_insert_after) auto
    have other: "seg_ext a' i = seg_ext a i" if "i \<noteq> c" "i \<noteq> r" for i
      using that lt g' by (simp add: seg_ext_def fun_eq_iff a'_def)
    have same: "\<forall>i \<in> set pre \<union> set is \<union> set us. seg_ext a' i = seg_ext a i"
      by (intro ballI other) (use ne d c in auto)
    have "map (seg_ext a') [c, r] = cut_ext b e (seg_ext a c)"
      unfolding cut using lt ne by (simp add: seg_ext_def a'_def)
    with step wf' same ne show ?thesis
      by (intro exI [of _ a'] exI [of _ "[r]"]) auto
  qed
qed

text \<open>A descriptor the walk has just made is left as it is when the walk meets it.\<close>

lemma cut_ext_right_part:
  assumes "unat e = 4096 * q" and "unat y = 4096 * t" and "q < t"
    and b: "b \<le> e"
  shows "cut_ext b e (e, (y - e) div ChunkSize) = [(e, (y - e) div ChunkSize)]"
proof -
  let ?x = "(e, (y - e) div ChunkSize)"
  have x: "ext_ok ?x" using extent_between(1) [OF assms(1,2)] assms(3) by simp
  have "unat ((y - e) div ChunkSize) = t - q"
    using assms by (simp add: unat_div unat_sub word_le_nat_alt flip: diff_mult_distrib2)
  then have "unat (ext_end ?x) = unat y"
    using unat_ext_end [OF x] assms by (simp add: diff_mult_distrib)
  then have "ext_end ?x = y" by (simp only: word_unat_eq_iff)
  with b assms show ?thesis
    by (simp add: cut_ext_def Let_def word_le_nat_alt word_less_nat_alt del: ext_end.simps)
qed

definition splits :: "u32 \<Rightarrow> u32 \<Rightarrow> extent list \<Rightarrow> nat" where
  "splits b e xs = length (filter (\<lambda>x. length (cut_ext b e x) = 2) xs)"

lemma splits_simps [simp]:
  "splits b e [] = 0"
  "splits b e (x # xs) = (if length (cut_ext b e x) = 2 then Suc (splits b e xs) else splits b e xs)"
  by (simp_all add: splits_def)

lemma length_cut_ext: "length (cut_ext b e x) = 1 \<or> length (cut_ext b e x) = 2"
  by (simp add: cut_ext_def Let_def)

lemma cut_ext_two:
  assumes "cut_ext b e x = [y, z]" and ok: "ext_ok x"
    and e: "unat e = 4096 * q" and be: "b \<le> e"
  shows "cut_ext b e z = [z]"
proof -
  obtain xb n where [simp]: "x = (xb, n)" by (cases x) auto
  have xe: "unat (ext_end (xb, n)) = 4096 * (unat xb div 4096 + unat n)"
    using unat_ext_end [of xb n] ok by (auto simp: algebra_simps)
  from assms(1) have z: "z = (e, (ext_end (xb, n) - e) div ChunkSize)" and lt: "e < ext_end (xb, n)"
    by (auto simp: cut_ext_def Let_def simp del: ext_end.simps split: if_splits)
  from lt have "q < unat xb div 4096 + unat n" unfolding word_less_nat_alt e xe by simp
  from cut_ext_right_part [OF e xe this be] z show ?thesis by simp
qed

lemma removeChunk_loop_refines:
  assumes "pfa_wf a {} (pre @ is) us" and "link_after pp pre" and "2 * length is < fuel"
    and "list_all ext_ok (map (seg_ext a) is)"
    and "length pre + length is + length us + splits b e (map (seg_ext a) is) \<le> MaxNumSeg"
    and e: "unat e = 4096 * q" and be: "b \<le> e"
  shows "\<exists>a' is'. removeChunk_loop fuel a pp b e = Inr a' \<and> pfa_wf a' {} (pre @ is') us \<and>
    map (seg_ext a') is' = concat (map (cut_ext b e) (map (seg_ext a) is)) \<and>
    (\<forall>i \<in> set pre \<union> set us. seg_ext a' i = seg_ext a i)"
  using assms(1-5)
proof (induction "is" arbitrary: a pre pp fuel)
  case Nil
  then obtain f where [simp]: "fuel = Suc f" by (cases fuel) auto
  from Nil have "pp_load a pp = None"
    using link_after_load [of pp pre a "[]"] by (simp add: pfa_wf_def)
  with Nil show ?case by (intro exI [of _ a] exI [of _ "[]"]) simp
next
  case (Cons c "is")
  then obtain f where f [simp]: "fuel = Suc (Suc f)"
    by (cases fuel; cases "fuel - 1") auto
  from Cons.prems have ld: "pp_load a pp = Some c"
    using link_after_load [of pp pre a "c # is"] by (simp add: pfa_wf_def)
  have "length (cut_ext b e (seg_ext a c)) = 2 \<Longrightarrow> length (pre @ c # is) + length us < MaxNumSeg"
    using Cons.prems(5) by simp
  from removeChunk_step_refines [OF Cons.prems(1) this]
  obtain a1 js where st: "removeChunk_step a c b e = Inr a1" "pfa_wf a1 {} (pre @ c # js @ is) us"
    "map (seg_ext a1) (c # js) = cut_ext b e (seg_ext a c)"
    "\<forall>i \<in> set pre \<union> set is \<union> set us. seg_ext a1 i = seg_ext a i" by blast
  have same1: "map (seg_ext a1) is = map (seg_ext a) is" using st(4) by auto
  from st(3) have "length (cut_ext b e (seg_ext a c)) = Suc (length js)"
    by (metis length_Cons length_map)
  then consider "js = []" | r where "js = [r]" "length (cut_ext b e (seg_ext a c)) = 2"
    using length_cut_ext [of b e "seg_ext a c"] by (auto simp: length_Suc_conv)
  then show ?case
  proof cases
    case 1
    have "\<exists>a' is'. removeChunk_loop (Suc f) a1 (At_np c) b e = Inr a' \<and> pfa_wf a' {} ((pre @ [c]) @ is') us \<and>
        map (seg_ext a') is' = concat (map (cut_ext b e) (map (seg_ext a1) is)) \<and>
        (\<forall>i \<in> set (pre @ [c]) \<union> set us. seg_ext a' i = seg_ext a1 i)"
      using st 1 Cons.prems same1
      by (intro Cons.IH link_after_snoc) (auto simp del: map_eq_conv split: if_splits)
    then obtain a' is' where r: "removeChunk_loop (Suc f) a1 (At_np c) b e = Inr a'"
      "pfa_wf a' {} (pre @ c # is') us"
      "map (seg_ext a') is' = concat (map (cut_ext b e) (map (seg_ext a1) is))"
      "\<forall>i \<in> set (pre @ [c]) \<union> set us. seg_ext a' i = seg_ext a1 i" by auto
    have "map (seg_ext a') (c # is') = concat (map (cut_ext b e) (map (seg_ext a) (c # is)))"
      using r(3,4) st(3) 1 same1 by (simp del: map_eq_conv)
    with r st ld show ?thesis
      by (intro exI [of _ a'] exI [of _ "c # is'"]) (auto simp del: removeChunk_loop.simps(2)
        simp: removeChunk_loop.simps(2) [of "Suc f" a pp])
  next
    case (2 r)
    have wf1: "pfa_wf a1 {} ((pre @ [c]) @ r # is) us" using st(2) 2 by simp
    have lr: "pp_load a1 (At_np c) = Some r"
      using link_after_load [OF link_after_snoc, of a1 pre c "r # is"] st(2) 2 by (simp add: pfa_wf_def)
    have cutr: "cut_ext b e (seg_ext a1 r) = [seg_ext a1 r]"
      using cut_ext_two [of b e "seg_ext a c" "seg_ext a1 c" "seg_ext a1 r"] st(3) 2 Cons.prems(4) e be
      by simp
    then have "length (cut_ext b e (seg_ext a1 r)) = 2 \<Longrightarrow>
        length ((pre @ [c]) @ r # is) + length us < MaxNumSeg" by simp
    from removeChunk_step_refines [OF wf1 this]
    obtain a2 js' where s2: "removeChunk_step a1 r b e = Inr a2"
      "pfa_wf a2 {} ((pre @ [c]) @ r # js' @ is) us"
      "map (seg_ext a2) (r # js') = cut_ext b e (seg_ext a1 r)"
      "\<forall>i \<in> set (pre @ [c]) \<union> set is \<union> set us. seg_ext a2 i = seg_ext a1 i" by blast
    have js': "js' = []" using s2(3) cutr by simp
    have same2: "map (seg_ext a2) is = map (seg_ext a) is" using st(4) s2(4) by auto
    have "\<exists>a' is'. removeChunk_loop f a2 (At_np r) b e = Inr a' \<and> pfa_wf a' {} (((pre @ [c]) @ [r]) @ is') us \<and>
        map (seg_ext a') is' = concat (map (cut_ext b e) (map (seg_ext a2) is)) \<and>
        (\<forall>i \<in> set ((pre @ [c]) @ [r]) \<union> set us. seg_ext a' i = seg_ext a2 i)"
      using s2(2) js' Cons.prems same2 2
      by (intro Cons.IH link_after_snoc) (auto simp del: map_eq_conv)
    then obtain a' is' where r: "removeChunk_loop f a2 (At_np r) b e = Inr a'"
      "pfa_wf a' {} (pre @ c # r # is') us"
      "map (seg_ext a') is' = concat (map (cut_ext b e) (map (seg_ext a2) is))"
      "\<forall>i \<in> set ((pre @ [c]) @ [r]) \<union> set us. seg_ext a' i = seg_ext a2 i" by auto
    have "map (seg_ext a') (c # r # is') = concat (map (cut_ext b e) (map (seg_ext a) (c # is)))"
      using r(3,4) st(3) s2(3,4) cutr 2 same2 by (simp del: map_eq_conv)
    moreover have "removeChunk_loop fuel a pp b e = Inr a'"
      using ld lr st(1) s2(1) r(1) by simp
    moreover have "\<forall>i \<in> set pre \<union> set us. seg_ext a' i = seg_ext a i"
      using r(4) s2(4) st(4) by auto
    ultimately show ?thesis using r(2) by blast
  qed
qed

text \<open>A split segment holds the frame before the range, so at most one of the free segments is split.\<close>

lemma split_holds_frame:
  assumes "length (cut_ext b e x) = 2" and ok: "ext_ok x" and b: "unat b = 4096 * p" and "b \<le> e"
  shows "p - 1 \<in> frames x"
proof -
  obtain xb n where [simp]: "x = (xb, n)" by (cases x) auto
  from ok have xb: "unat xb = 4096 * (unat xb div 4096)" by auto
  from assms(1,4) have "xb < b" and "b < ext_end (xb, n)"
    by (auto simp: cut_ext_def Let_def simp del: ext_end.simps split: if_splits)
  with unat_ext_end [of xb n] ok xb have "unat xb div 4096 < p" "p < unat xb div 4096 + unat n"
    by (auto simp: word_less_nat_alt b simp del: ext_end.simps)
  then show ?thesis by auto
qed

lemma splits_le_one:
  assumes "exts_ok xs" and "unat b = 4096 * p" and "b \<le> e"
  shows "splits b e xs \<le> 1 \<and> (splits b e xs = 1 \<longrightarrow> p - 1 \<in> all_frames xs)"
  using assms(1)
proof (induction xs)
  case Nil
  then show ?case by simp
next
  case (Cons x xs)
  then have x: "length (cut_ext b e x) = 2 \<Longrightarrow> p - 1 \<in> frames x"
    using split_holds_frame [of b e x p] assms(2,3) by simp
  with Cons show ?case by (auto simp del: frames.simps ext_ok.simps)
qed

lemma all_frames_concat: "all_frames (concat (map f xs)) = (\<Union>x \<in> set xs. all_frames (f x))"
  by (induction xs) auto

lemma cut_exts_correct:
  assumes "exts_ok xs" and "list_all (cut_safe b e) xs"
    and "unat b = 4096 * p" and "unat e = 4096 * q" and "p \<le> q"
  shows "exts_ok (concat (map (cut_ext b e) xs)) \<and>
    all_frames (concat (map (cut_ext b e) xs)) = all_frames xs - {p ..< q}"
  using assms(1,2)
proof (induction xs)
  case Nil
  then show ?case by simp
next
  case (Cons x xs)
  with cut_ext_correct [of x b e p q] assms(3-5) show ?case
    by (auto simp del: frames.simps ext_ok.simps)
qed

section \<open>The release of a chunk\<close>

text \<open>\<^verbatim>\<open>freeChunk\<close> of the chunk at the end of the used list: its \<open>np\<close> is null, as \<^verbatim>\<open>addChunk\<close> expects.\<close>

lemma freeChunk_loop_last:
  assumes "pfa_wf a {} fs (pre @ is @ [c])" and "length (is @ [c]) < fuel"
    and "\<forall>i \<in> set is. sbegin (segs a ! i) \<noteq> addr" and "sbegin (segs a ! c) = addr"
    and "(pp = At_seg_used \<and> pre = []) \<or> (\<exists>ps p. pre = ps @ [p] \<and> pp = At_np p)"
  shows "\<exists>pp' pre'. freeChunk_loop fuel a pp addr = addChunk_seg (pp_store a pp' None) c \<and>
    pre' = pre @ is \<and> ((pp' = At_seg_used \<and> pre' = []) \<or> (\<exists>ps p. pre' = ps @ [p] \<and> pp' = At_np p))"
  using assms
proof (induction "is" arbitrary: pre pp fuel)
  case Nil
  then obtain f where [simp]: "fuel = Suc f" by (cases fuel) auto
  from Nil.prems(1) have "path (seg_links a) (seg_used a) pre (Some c)" and [simp]: "snp (segs a ! c) = None"
    by (auto simp: pfa_wf_def chain_append seg_links_def)
  with Nil.prems(5) have [simp]: "pp_load a pp = Some c" by (auto simp: seg_links_def)
  from Nil show ?case by (intro exI [of _ pp]) auto
next
  case (Cons i "is")
  then obtain f where [simp]: "fuel = Suc f" by (cases fuel) auto
  from Cons.prems(1) have "path (seg_links a) (seg_used a) pre (Some i)"
    by (auto simp: pfa_wf_def chain_append)
  with Cons.prems(5) have [simp]: "pp_load a pp = Some i" by (auto simp: seg_links_def)
  from Cons.IH [of "pre @ [i]" f "At_np i"] Cons.prems show ?case by auto
qed

lemma pfa_wf_unlink_last:
  assumes wf: "pfa_wf a {} fs (pre @ [c])"
    and pp: "(pp = At_seg_used \<and> pre = []) \<or> (\<exists>ps p. pre = ps @ [p] \<and> pp = At_np p)"
  shows "pfa_wf (pp_store a pp None) {c} fs pre \<and> snp (segs (pp_store a pp None) ! c) = None \<and>
    seg_ext (pp_store a pp None) = seg_ext a"
  using pp
proof (elim disjE exE conjE)
  assume "pp = At_seg_used" "pre = []"
  with wf show ?thesis by (auto simp: pfa_wf_def seg_links_def)
next
  fix ps p assume p: "pre = ps @ [p]" "pp = At_np p"
  have lt: "p < length (segs a)" "c < length (segs a)" "p \<notin> set fs" "p \<notin> set ps" "p \<noteq> c" "c \<notin> set ps"
    using wf p pfa_wf_distinct [OF wf] by (auto simp: pfa_wf_def)
  then have "pfa_wf (pp_store a pp None) {c} fs pre"
    using wf p by (auto simp: pfa_wf_def chain_append chain_simps)
  moreover have "seg_ext (pp_store a pp None) = seg_ext a"
    using lt p by (auto simp: seg_ext_def fun_eq_iff)
  moreover have "snp (segs a ! c) = None" using wf by (auto simp: pfa_wf_def chain_append seg_links_def)
  ultimately show ?thesis using lt p by simp
qed

lemma freeChunk_last_refines:
  assumes inv: "pfa_inv a" and used: "used_exts a = ys @ [(addr, n)]" and fst: "addr \<notin> fst ` set ys"
  shows "\<exists>a'. freeChunk a addr = Inr a' \<and> pfa_wf a' {} (free_list a') (used_list a') \<and>
    free_exts a' = free_insert (addr, n) (free_exts a) \<and> used_exts a' = ys"
proof -
  from used obtain us c where us: "used_list a = us @ [c]" "map (seg_ext a) us = ys" "seg_ext a c = (addr, n)"
    unfolding used_exts_def by (auto simp: map_eq_append_conv map_eq_Cons_conv)
  with inv have wf: "pfa_wf a {} (free_list a) ([] @ us @ [c])" by (simp add: pfa_inv_def)
  have "\<forall>i \<in> set us. sbegin (segs a ! i) \<noteq> addr" using fst us(2) by (force simp: seg_ext_def)
  moreover have "length (us @ [c]) < Suc MaxNumSeg" using pfa_wf_lengths(2) [OF wf] by simp
  ultimately obtain pp where run: "freeChunk a addr = addChunk_seg (pp_store a pp None) c"
    and pp: "(pp = At_seg_used \<and> us = []) \<or> (\<exists>ps p. us = ps @ [p] \<and> pp = At_np p)"
    using freeChunk_loop_last [OF wf, of "Suc MaxNumSeg" addr At_seg_used] us(3)
    unfolding freeChunk_def by (auto simp: seg_ext_def simp del: freeChunk_loop.simps)
  from wf have wf': "pfa_wf a {} (free_list a) (us @ [c])" by simp
  note un = pfa_wf_unlink_last [OF wf' pp]
  obtain a' fs' where "addChunk_seg (pp_store a pp None) c = Inr a'" "pfa_wf a' {} fs' us"
    "map (seg_ext a') fs' = free_insert (seg_ext a c) (map (seg_ext a) (free_list a))"
    "map (seg_ext a') us = map (seg_ext a) us"
    using addChunk_seg_refines [of "pp_store a pp None" c] un by (metis (no_types))
  then show ?thesis
    using run us pfa_wf_lists [of a' "{}" fs' us] by (auto simp: free_exts_def used_exts_def simp del: map_eq_conv)
qed

section \<open>Removal of a range\<close>

lemma removeChunk_refines:
  fixes b e :: u32
  assumes inv: "pfa_inv a" and left: "descriptors_left a" and be: "b \<le> e" and top: "e \<le> 0xfffff000"
  defines "B \<equiv> b AND NOT (ChunkSize - 1)" and "E \<equiv> (e + (ChunkSize - 1)) AND NOT (ChunkSize - 1)"
  shows "\<exists>a'. removeChunk a b e = Inr a' \<and> pfa_wf a' {} (free_list a') (used_list a') \<and>
    free_exts a' = concat (map (cut_ext B E) (free_exts a)) \<and> used_exts a' = used_exts a"
    and "unat B = 4096 * (unat b div 4096)" and "unat E = 4096 * ((unat e + 4095) div 4096)" and "B \<le> E"
proof -
  have "unat (e + (ChunkSize - 1)) = unat e + 4095"
    using top by (subst unat_add_exact) (simp_all add: word_le_nat_alt ChunkSize_def)
  then show B: "unat B = 4096 * (unat b div 4096)" and E: "unat E = 4096 * ((unat e + 4095) div 4096)"
    by (simp_all only: B_def E_def ChunkSize_def page_simps mult.commute)
  show BE: "B \<le> E" using be unfolding word_le_nat_alt B E by (intro mult_le_mono div_le_mono) auto
  have wf: "pfa_wf a {} ([] @ free_list a) (used_list a)" and ok: "exts_ok (free_exts a)"
    using inv by (simp_all add: pfa_inv_def)
  have "list_all ext_ok (map (seg_ext a) (free_list a))"
    using ok by (simp add: exts_ok_def free_exts_def)
  moreover have "length [] + length (free_list a) + length (used_list a) +
      splits B E (map (seg_ext a) (free_list a)) \<le> MaxNumSeg"
    using splits_le_one [OF ok B BE] left unfolding descriptors_left_def free_exts_def by simp
  moreover have "link_after At_seg_free []" by (simp add: link_after_def)
  moreover have "2 * length (free_list a) < 2 * MaxNumSeg + 1"
    using pfa_wf_lengths(1) [OF wf] by simp
  ultimately obtain a' fs' where r: "removeChunk a b e = Inr a'" "pfa_wf a' {} fs' (used_list a)"
    "map (seg_ext a') fs' = concat (map (cut_ext B E) (map (seg_ext a) (free_list a)))"
    "\<forall>i \<in> set (used_list a). seg_ext a' i = seg_ext a i"
    using removeChunk_loop_refines [OF wf, of At_seg_free "2 * MaxNumSeg + 1" B E, OF _ _ _ _ E BE]
    unfolding removeChunk_def B_def E_def by (auto simp del: removeChunk_loop.simps map_map)
  then show "\<exists>a'. removeChunk a b e = Inr a' \<and> pfa_wf a' {} (free_list a') (used_list a') \<and>
    free_exts a' = concat (map (cut_ext B E) (free_exts a)) \<and> used_exts a' = used_exts a"
    using pfa_wf_lists [OF r(2)] by (auto simp: free_exts_def used_exts_def)
qed

lemma removeChunk_spec:
  fixes b e :: u32
  assumes "pfa_inv a" and "descriptors_left a" and "b \<le> e" and "e \<le> 0xfffff000"
    and "list_all (cut_safe (b AND NOT (ChunkSize - 1)) ((e + (ChunkSize - 1)) AND NOT (ChunkSize - 1)))
           (free_exts a)"
  shows "\<exists>a'. removeChunk a b e = Inr a' \<and> pfa_inv a' \<and>
    free_frames a' = free_frames a - {unat b div 4096 ..< (unat e + 4095) div 4096} \<and>
    used_exts a' = used_exts a \<and>
    free_exts a' = concat (map (cut_ext (b AND NOT (ChunkSize - 1)) ((e + (ChunkSize - 1)) AND NOT (ChunkSize - 1))) (free_exts a))"
proof -
  note r = removeChunk_refines [OF assms(1-4)]
  have "unat b div 4096 \<le> (unat e + 4095) div 4096"
    using assms(3) by (intro div_le_mono) (simp add: word_le_nat_alt)
  moreover have ok: "exts_ok (free_exts a)" "exts_ok (used_exts a)"
    "all_frames (free_exts a) \<inter> all_frames (used_exts a) = {}"
    using assms(1) by (auto simp: pfa_inv_def)
  ultimately have c: "exts_ok (concat (map (cut_ext (b AND NOT (ChunkSize - 1))
        ((e + (ChunkSize - 1)) AND NOT (ChunkSize - 1))) (free_exts a))) \<and>
      all_frames (concat (map (cut_ext (b AND NOT (ChunkSize - 1))
        ((e + (ChunkSize - 1)) AND NOT (ChunkSize - 1))) (free_exts a))) =
      all_frames (free_exts a) - {unat b div 4096 ..< (unat e + 4095) div 4096}"
    using cut_exts_correct [OF ok(1) assms(5) r(2,3)] by blast
  with r(1) ok show ?thesis
    by (auto simp: pfa_inv_def free_frames_def)
qed



text \<open>
  A free segment that ends below the removed range is stretched up to the range: the frame just
  below the range becomes free, whatever it holds.
\<close>

theorem removeChunk_grows_segment:
  fixes b e :: u32
  assumes "pfa_inv a" and "descriptors_left a" and "b \<le> e" and "e \<le> 0xfffff000"
    and "x \<in> set (free_exts a)" and "ext_end x < b AND NOT (ChunkSize - 1)"
  shows "\<exists>a'. removeChunk a b e = Inr a' \<and> unat b div 4096 - 1 \<in> free_frames a'"
proof -
  let ?B = "b AND NOT (ChunkSize - 1)" and ?E = "(e + (ChunkSize - 1)) AND NOT (ChunkSize - 1)"
  note r = removeChunk_refines [OF assms(1-4)]
  obtain xb n where x: "x = (xb, n)" by (cases x) auto
  have ok: "ext_ok (xb, n)"
    using assms(1,5) x by (auto simp: pfa_inv_def exts_ok_def list_all_iff simp del: ext_ok.simps)
  then have xb: "unat xb = 4096 * (unat xb div 4096)" by auto
  have lt: "xb < ?B" using unat_ext_end [OF ok] assms(6) x by (simp add: word_less_nat_alt)
  then have "cut_ext ?B ?E x = [(xb, (?B - xb) div ChunkSize)]"
    using assms(6) r(4) x by (auto simp: cut_ext_def Let_def simp del: ext_end.simps)
  moreover have p: "unat xb div 4096 < unat b div 4096"
    using lt xb unfolding word_less_nat_alt r(2) by linarith
  then have "frames (xb, (?B - xb) div ChunkSize) = {unat xb div 4096 ..< unat b div 4096}"
    using extent_between(2) [OF xb r(2)] by simp
  ultimately have "unat b div 4096 - 1 \<in> all_frames (cut_ext ?B ?E x)"
    using p by (simp del: frames.simps)
  then have "unat b div 4096 - 1 \<in> all_frames (concat (map (cut_ext ?B ?E) (free_exts a)))"
    using assms(5) unfolding all_frames_concat by blast
  with r(1) show ?thesis unfolding free_frames_def by metis
qed

theorem removeChunk_grows_segment_witness:
  "\<exists>a'. removeChunk demo_pfa 0x20000 0x30000 = Inr a' \<and> 31 \<in> free_frames a' \<and> 31 \<notin> free_frames demo_pfa"
  using removeChunk_grows_segment [OF demo_inv demo_left, of "0x20000" "0x30000" "(0x3000, 13)"]
  by (simp add: demo_frames demo_exts ChunkSize_def)

text \<open>
  \<^verbatim>\<open>freeChunk(addr)\<close> of the chunk at the end of the used list returns its frames to the free memory
  and keeps the invariant.
\<close>

theorem freeChunk_last_correct:
  assumes "pfa_inv a" and "used_exts a = ys @ [(addr, n)]" and "addr \<notin> fst ` set ys"
  shows "\<exists>a'. freeChunk a addr = Inr a' \<and> pfa_inv a' \<and>
    free_frames a' = free_frames a \<union> frames (addr, n) \<and> used_exts a' = ys"
proof -
  obtain a' where r: "freeChunk a addr = Inr a'" "pfa_wf a' {} (free_list a') (used_list a')"
    "free_exts a' = free_insert (addr, n) (free_exts a)" "used_exts a' = ys"
    using freeChunk_last_refines [OF assms] by blast
  have ok: "exts_ok (free_exts a)" "exts_ok ys" "ext_ok (addr, n)"
    "frames (addr, n) \<inter> all_frames (free_exts a) = {}"
    "all_frames (free_exts a) \<inter> all_frames ys = {}" "all_frames ys \<inter> frames (addr, n) = {}"
    using assms(1,2) by (auto simp: pfa_inv_def simp del: frames.simps ext_ok.simps)
  note f = free_insert_correct [OF ok(1,3,4)]
  then have "exts_ok (free_exts a' @ used_exts a')" using r(3,4) ok by (auto simp del: frames.simps)
  with r f show ?thesis by (auto simp: pfa_inv_def free_frames_def simp del: frames.simps)
qed

theorem freeChunk_last_correct_witness:
  "\<exists>a'. freeChunk demo_pfa 0x1000 = Inr a' \<and> pfa_inv a' \<and> used_exts a' = [(0, 1)] \<and>
     free_frames a' = free_frames demo_pfa \<union> frames (0x1000, 2)"
  using freeChunk_last_correct [OF demo_inv, of "[(0, 1)]" "0x1000" 2]
  by (auto simp: demo_exts simp del: frames.simps)


end
