(* ===== verification/KType.thy ===== *)
theory KType
  imports Kernel_Prelude
begin

text \<open>
  The container templates of \<^verbatim>\<open>src/include/os/KType.hpp\<close>.

  \<^verbatim>\<open>Lessor<T,N>\<close> lends the elements of an array; a pointer to an element is its index. \<^verbatim>\<open>Que<T,N>\<close> is a
  doubly linked list between two sentinels whose entries are lent by a \<^verbatim>\<open>Lessor<Entry,N+2>\<close>. The model
  keeps the links in both directions; the theorems relate it to the list of its contents, newest first.
\<close>

section \<open>Lessor\<close>

record 'a Lessor =
  room :: "'a list"
  isFree :: "bool list"

definition Lessor_new :: "nat \<Rightarrow> 'a \<Rightarrow> 'a Lessor" where
  "Lessor_new n x = \<lparr>room = replicate n x, isFree = replicate n True\<rparr>"

fun first_True :: "bool list \<Rightarrow> nat \<Rightarrow> nat option" where
  "first_True [] i = None"
| "first_True (b # bs) i = (if b then Some i else first_True bs (Suc i))"

definition Lessor_get :: "'a Lessor \<Rightarrow> nat option \<times> 'a Lessor" where
  "Lessor_get l =
     (case first_True (isFree l) 0 of
        Some i \<Rightarrow> (Some i, l\<lparr>isFree := (isFree l)[i := False]\<rparr>)
      | None \<Rightarrow> (None, l))"

definition Lessor_free :: "'a Lessor \<Rightarrow> nat option \<Rightarrow> 'a Lessor" where
  "Lessor_free l a = (case a of Some i \<Rightarrow> l\<lparr>isFree := (isFree l)[i := True]\<rparr> | None \<Rightarrow> l)"

section \<open>Que\<close>

record 'a Entry =
  sentinel :: bool
  enext :: "nat option"
  eprev :: "nat option"
  content :: 'a

record 'a Que =
  nr_ent :: nat
  invalid :: 'a
  qhead :: "nat option"
  qtail :: "nat option"
  qnum :: int
  entries :: "'a Entry Lessor"

definition ent :: "'a Que \<Rightarrow> nat \<Rightarrow> 'a Entry" where
  "ent q i = room (entries q) ! i"

definition upd_ent :: "'a Que \<Rightarrow> nat \<Rightarrow> ('a Entry \<Rightarrow> 'a Entry) \<Rightarrow> 'a Que" where
  "upd_ent q i f =
     q\<lparr>entries := (entries q)\<lparr>room := (room (entries q))[i := f (room (entries q) ! i)]\<rparr>\<rparr>"

text \<open>The constructor; \<open>d\<close> is the value the default constructor of the element type leaves in an entry.\<close>

definition Que_new :: "nat \<Rightarrow> 'a \<Rightarrow> 'a \<Rightarrow> 'a Que kres" where
  "Que_new N inval d =
     (let l0 = Lessor_new (N + 2) \<lparr>sentinel = False, enext = None, eprev = None, content = d\<rparr>;
          (ha, l1) = Lessor_get l0;
          (ta, l2) = Lessor_get l1;
          q0 = \<lparr>nr_ent = N, invalid = inval, qhead = ha, qtail = ta, qnum = 0, entries = l2\<rparr> in
      rbind (deref ha) (\<lambda>h. rbind (deref ta) (\<lambda>t.
        (let q1 = upd_ent q0 h (\<lambda>e. e\<lparr>sentinel := True\<rparr>);
             q2 = upd_ent q1 t (\<lambda>e. e\<lparr>sentinel := True\<rparr>);
             q3 = upd_ent q2 h (\<lambda>e. e\<lparr>enext := Some t\<rparr>);
             q4 = upd_ent q3 t (\<lambda>e. e\<lparr>eprev := Some h\<rparr>);
             q5 = upd_ent q4 t (\<lambda>e. e\<lparr>enext := None\<rparr>)
         in Inr (upd_ent q5 h (\<lambda>e. e\<lparr>eprev := None\<rparr>))))))"

definition Que_enque :: "'a Que \<Rightarrow> 'a \<Rightarrow> 'a Que kres" where
  "Que_enque q t =
     (if qnum q > int (nr_ent q) then Inr q
      else
        rbind (deref (qhead q)) (\<lambda>h.
          (let nHead = enext (ent q h);
               (aent, l) = Lessor_get (entries q);
               q0 = q\<lparr>entries := l\<rparr> in
           rbind (deref aent) (\<lambda>a.
             (let q1 = upd_ent q0 a (\<lambda>e. e\<lparr>content := t\<rparr>);
                  q2 = upd_ent q1 a (\<lambda>e. e\<lparr>enext := nHead\<rparr>);
                  q3 = upd_ent q2 a (\<lambda>e. e\<lparr>eprev := Some h\<rparr>);
                  q4 = upd_ent q3 h (\<lambda>e. e\<lparr>enext := Some a\<rparr>) in
              rbind (deref nHead) (\<lambda>n.
                (let q5 = upd_ent q4 n (\<lambda>e. e\<lparr>eprev := Some a\<rparr>)
                 in Inr (q5\<lparr>qnum := qnum q5 + 1\<rparr>))))))))"

definition Que_deque :: "'a Que \<Rightarrow> ('a \<times> 'a Que) kres" where
  "Que_deque q =
     (if qnum q = 0 then Inr (invalid q, q)
      else
        rbind (deref (qtail q)) (\<lambda>t.
        rbind (deref (eprev (ent q t))) (\<lambda>pTail.
        rbind (deref (eprev (ent q pTail))) (\<lambda>ppTail.
          (let ret = content (ent q pTail);
               q1 = upd_ent q ppTail (\<lambda>e. e\<lparr>enext := Some t\<rparr>);
               q2 = upd_ent q1 t (\<lambda>e. e\<lparr>eprev := Some ppTail\<rparr>);
               q3 = q2\<lparr>entries := Lessor_free (entries q2) (Some pTail)\<rparr>
           in Inr (ret, q3\<lparr>qnum := qnum q3 - 1\<rparr>))))))"

text \<open>\<^verbatim>\<open>deque(T a)\<close>: \<open>eq\<close> is the element type's \<^verbatim>\<open>operator==\<close>. The loop runs \<open>qnum\<close> times at most.\<close>

fun Que_deque_loop :: "('a \<Rightarrow> 'a \<Rightarrow> bool) \<Rightarrow> nat \<Rightarrow> 'a Que \<Rightarrow> nat option \<Rightarrow> 'a \<Rightarrow> ('a \<times> 'a Que) kres" where
  "Que_deque_loop eq 0 q cur a = Inr (invalid q, q)"
| "Que_deque_loop eq (Suc n) q cur a =
     rbind (deref cur) (\<lambda>c.
       if eq (content (ent q c)) a then
         (let pCurr = eprev (ent q c); nCurr = enext (ent q c); ret = content (ent q c) in
          rbind (deref pCurr) (\<lambda>p.
            (let q1 = upd_ent q p (\<lambda>e. e\<lparr>enext := nCurr\<rparr>) in
             rbind (deref nCurr) (\<lambda>n'.
               (let q2 = upd_ent q1 n' (\<lambda>e. e\<lparr>eprev := pCurr\<rparr>);
                    q3 = q2\<lparr>entries := Lessor_free (entries q2) (Some c)\<rparr>
                in Inr (ret, q3\<lparr>qnum := qnum q3 - 1\<rparr>))))))
       else Que_deque_loop eq n q (enext (ent q c)) a)"

definition Que_deque_by :: "('a \<Rightarrow> 'a \<Rightarrow> bool) \<Rightarrow> 'a Que \<Rightarrow> 'a \<Rightarrow> ('a \<times> 'a Que) kres" where
  "Que_deque_by eq q a =
     rbind (deref (qhead q)) (\<lambda>h. Que_deque_loop eq (nat (qnum q)) q (enext (ent q h)) a)"

section \<open>Laws of Lessor\<close>

lemma first_True_Some:
  "first_True bs k = Some i \<Longrightarrow> k \<le> i \<and> i - k < length bs \<and> bs ! (i - k)"
  by (induction bs k rule: first_True.induct) (auto split: if_splits simp: nth_Cons' Suc_diff_le)

lemma first_True_None: "first_True bs k = None \<longleftrightarrow> True \<notin> set bs"
  by (induction bs k rule: first_True.induct) auto

lemma Lessor_get_Some:
  assumes "Lessor_get l = (Some i, l')"
  shows "i < length (isFree l)" and "isFree l ! i" and "l' = l\<lparr>isFree := (isFree l)[i := False]\<rparr>"
  using assms first_True_Some [of "isFree l" 0 i] by (auto simp: Lessor_get_def split: option.splits)

lemma Lessor_get_None: "fst (Lessor_get l) = None \<longleftrightarrow> True \<notin> set (isFree l)"
  using first_True_None [of "isFree l" 0] by (auto simp: Lessor_get_def split: option.splits)

end
