(* ===== verification/KQueue.thy ===== *)
theory KQueue
  imports KType
begin

text \<open>
  \<^verbatim>\<open>Que<T,N>\<close> implements a bounded queue. The interface its clients (the message queues of the
  processes, the interrupt wait queue) rely on is the locale \<open>bounded_queue\<close>; its laws are discharged
  for the doubly linked list of \<^verbatim>\<open>KType.hpp\<close>.
\<close>

section \<open>The interface\<close>

text \<open>
  The contents are listed newest first. \<^verbatim>\<open>deque(a)\<close> takes the newest entry that equals \<open>a\<close>.
\<close>

fun take_match :: "('a \<Rightarrow> bool) \<Rightarrow> 'a list \<Rightarrow> ('a \<times> 'a list) option" where
  "take_match P [] = None"
| "take_match P (x # xs) =
     (if P x then Some (x, xs) else map_option (\<lambda>(y, ys). (y, x # ys)) (take_match P xs))"

lemma take_match_Some:
  "take_match P xs = Some (y, ys) \<longleftrightarrow>
     (\<exists>us vs. xs = us @ y # vs \<and> ys = us @ vs \<and> P y \<and> (\<forall>u \<in> set us. \<not> P u))"
proof (induction xs arbitrary: ys)
  case Nil
  then show ?case by simp
next
  case (Cons x xs)
  show ?case
  proof (cases "P x")
    case True
    then show ?thesis by (force simp: Cons_eq_append_conv intro: exI [of _ "[]"])
  next
    case False
    have "take_match P (x # xs) = Some (y, ys) \<longleftrightarrow>
        (\<exists>zs. take_match P xs = Some (y, zs) \<and> ys = x # zs)" using False by auto
    also have "\<dots> \<longleftrightarrow> (\<exists>us vs. x # xs = us @ y # vs \<and> ys = us @ vs \<and> P y \<and> (\<forall>u \<in> set us. \<not> P u))"
      (is "?l \<longleftrightarrow> ?r")
    proof
      assume ?l
      then obtain us vs where "xs = us @ y # vs" "ys = x # us @ vs" "P y" "\<forall>u \<in> set us. \<not> P u"
        unfolding Cons.IH by auto
      with False show ?r by (intro exI [of _ "x # us"] exI [of _ vs]) simp
    next
      assume ?r
      then obtain us vs where r: "x # xs = us @ y # vs" "ys = us @ vs" "P y" "\<forall>u \<in> set us. \<not> P u" by blast
      with False obtain us' where "us = x # us'" by (cases us) auto
      with r show ?l unfolding Cons.IH by auto
    qed
    finally show ?thesis .
  qed
qed

lemma take_match_None: "take_match P xs = None \<longleftrightarrow> (\<forall>x \<in> set xs. \<not> P x)"
  by (induction xs) auto

text \<open>Runs of an operation: enqueue a list of values, dequeue a number of values.\<close>

fun enq_all :: "('q \<Rightarrow> 'a \<Rightarrow> 'q kres) \<Rightarrow> 'q \<Rightarrow> 'a list \<Rightarrow> 'q kres" where
  "enq_all enq q [] = Inr q"
| "enq_all enq q (x # xs) = rbind (enq q x) (\<lambda>q'. enq_all enq q' xs)"

fun deq_many :: "('q \<Rightarrow> ('a \<times> 'q) kres) \<Rightarrow> nat \<Rightarrow> 'q \<Rightarrow> ('a list \<times> 'q) kres" where
  "deq_many deq 0 q = Inr ([], q)"
| "deq_many deq (Suc n) q =
     rbind (deq q) (\<lambda>(x, q'). rbind (deq_many deq n q') (\<lambda>(xs, q''). Inr (x # xs, q'')))"

locale bounded_queue =
  fixes qinv :: "'q \<Rightarrow> bool"
    and contents :: "'q \<Rightarrow> 'a list"
    and cap :: "'q \<Rightarrow> nat"
    and none :: "'q \<Rightarrow> 'a"
    and enq :: "'q \<Rightarrow> 'a \<Rightarrow> 'q kres"
    and deq :: "'q \<Rightarrow> ('a \<times> 'q) kres"
    and deq_by :: "('a \<Rightarrow> 'a \<Rightarrow> bool) \<Rightarrow> 'q \<Rightarrow> 'a \<Rightarrow> ('a \<times> 'q) kres"
  assumes enq_law: "qinv q \<Longrightarrow> length (contents q) < cap q \<Longrightarrow>
      \<exists>q'. enq q x = Inr q' \<and> qinv q' \<and> contents q' = x # contents q \<and> cap q' = cap q \<and> none q' = none q"
    and deq_empty: "qinv q \<Longrightarrow> contents q = [] \<Longrightarrow> deq q = Inr (none q, q)"
    and deq_law: "qinv q \<Longrightarrow> contents q = xs @ [x] \<Longrightarrow>
      \<exists>q'. deq q = Inr (x, q') \<and> qinv q' \<and> contents q' = xs \<and> cap q' = cap q \<and> none q' = none q"
    and deq_by_none: "qinv q \<Longrightarrow> take_match (\<lambda>x. eq x a) (contents q) = None \<Longrightarrow>
      deq_by eq q a = Inr (none q, q)"
    and deq_by_law: "qinv q \<Longrightarrow> take_match (\<lambda>x. eq x a) (contents q) = Some (x, ys) \<Longrightarrow>
      \<exists>q'. deq_by eq q a = Inr (x, q') \<and> qinv q' \<and> contents q' = ys \<and> cap q' = cap q \<and> none q' = none q"
    and contents_le: "qinv q \<Longrightarrow> length (contents q) \<le> cap q"
begin

lemma enq_all_law:
  "qinv q \<Longrightarrow> length (contents q) + length xs \<le> cap q \<Longrightarrow>
   \<exists>q'. enq_all enq q xs = Inr q' \<and> qinv q' \<and> contents q' = rev xs @ contents q \<and> cap q' = cap q \<and> none q' = none q"
proof (induction xs arbitrary: q)
  case Nil
  then show ?case by simp
next
  case (Cons x xs)
  from Cons.prems obtain q1 where 1: "enq q x = Inr q1" "qinv q1" "contents q1 = x # contents q"
    "cap q1 = cap q" "none q1 = none q"
    using enq_law [of q x] by auto
  with Cons.IH [of q1] Cons.prems show ?case by auto
qed

lemma deq_many_law:
  "qinv q \<Longrightarrow> contents q = ys @ rev xs \<Longrightarrow>
   \<exists>q'. deq_many deq (length xs) q = Inr (xs, q') \<and> qinv q' \<and> contents q' = ys"
proof (induction xs arbitrary: q)
  case Nil
  then show ?case by simp
next
  case (Cons x xs)
  from Cons.prems obtain q1 where "deq q = Inr (x, q1)" "qinv q1" "contents q1 = ys @ rev xs"
    using deq_law [of q "ys @ rev xs" x] by auto
  with Cons.IH [of q1] show ?case by auto
qed

text \<open>What goes into an empty queue comes out of it in the same order.\<close>

lemma fifo:
  assumes "qinv q" and "contents q = []" and "length xs \<le> cap q"
  shows "\<exists>q'. rbind (enq_all enq q xs) (deq_many deq (length xs)) = Inr (xs, q') \<and> qinv q' \<and> contents q' = []"
proof -
  obtain q1 where "enq_all enq q xs = Inr q1" "qinv q1" "contents q1 = [] @ rev xs"
    using enq_all_law [of q xs] assms by auto
  with deq_many_law [of q1 "[]" xs] show ?thesis by auto
qed

end

section \<open>Reading the doubly linked list\<close>

definition nx :: "'a Que \<Rightarrow> nat \<Rightarrow> nat option" where
  "nx q i = enext (ent q i)"

definition pv :: "'a Que \<Rightarrow> nat \<Rightarrow> nat option" where
  "pv q i = eprev (ent q i)"

text \<open>
  The two sentinels are the entries 0 and 1; the entries \<open>is\<close> between them are linked in both
  directions; an entry is lent exactly when it is a sentinel or linked; \<^verbatim>\<open>num\<close> counts them.
\<close>

definition que_wf :: "'a Que \<Rightarrow> nat list \<Rightarrow> bool" where
  "que_wf q is \<longleftrightarrow>
     qhead q = Some 0 \<and> qtail q = Some 1 \<and> qnum q = int (length is) \<and>
     length (room (entries q)) = nr_ent q + 2 \<and> length (isFree (entries q)) = nr_ent q + 2 \<and>
     chain (nx q) (Some 0) (0 # is @ [1]) \<and> chain (pv q) (Some 1) (1 # rev is @ [0]) \<and>
     set is \<subseteq> {..< nr_ent q + 2} \<and>
     (\<forall>i < nr_ent q + 2. isFree (entries q) ! i \<longleftrightarrow> i \<notin> {0, 1} \<union> set is)"

definition que_ids :: "'a Que \<Rightarrow> nat list" where
  "que_ids q = takeWhile (\<lambda>i. i \<noteq> 1) (tl (walk (nr_ent q + 2) (nx q) (Some 0)))"

definition que_list :: "'a Que \<Rightarrow> 'a list" where
  "que_list q = map (\<lambda>i. content (ent q i)) (que_ids q)"

definition que_inv :: "'a Que \<Rightarrow> bool" where
  "que_inv q \<longleftrightarrow> que_wf q (que_ids q)"

lemma que_wf_distinct: "que_wf q is \<Longrightarrow> distinct is \<and> 0 \<notin> set is \<and> 1 \<notin> set is"
  using chain_distinct [of "nx q" "Some 0" "0 # is @ [1]"] by (auto simp: que_wf_def)

lemma que_wf_length: "que_wf q is \<Longrightarrow> length is \<le> nr_ent q"
proof -
  assume wf: "que_wf q is"
  then have "length (0 # is @ [1]) \<le> nr_ent q + 2"
    by (intro distinct_bounded_length chain_distinct [of "nx q" "Some 0"]) (auto simp: que_wf_def)
  then show ?thesis by simp
qed

lemma que_wf_ids: "que_wf q is \<Longrightarrow> que_ids q = is"
proof -
  assume wf: "que_wf q is"
  then have "walk (nr_ent q + 2) (nx q) (Some 0) = 0 # is @ [1]"
    using que_wf_length [OF wf] by (intro walk_chain) (auto simp: que_wf_def)
  then show ?thesis using que_wf_distinct [OF wf] by (auto simp: que_ids_def takeWhile_append)
qed

lemma que_invI: "que_wf q is \<Longrightarrow> que_inv q"
  by (simp add: que_inv_def que_wf_ids)

lemma ent_upd [simp]:
  "i < length (room (entries q)) \<Longrightarrow> ent (upd_ent q i f) j = (if j = i then f (ent q i) else ent q j)"
  by (simp add: ent_def upd_ent_def nth_list_update)

lemma upd_ent_simps [simp]:
  "qhead (upd_ent q i f) = qhead q" "qtail (upd_ent q i f) = qtail q" "qnum (upd_ent q i f) = qnum q"
  "nr_ent (upd_ent q i f) = nr_ent q" "invalid (upd_ent q i f) = invalid q"
  "isFree (entries (upd_ent q i f)) = isFree (entries q)"
  "length (room (entries (upd_ent q i f))) = length (room (entries q))"
  by (simp_all add: upd_ent_def)

lemma ent_other [simp]:
  "ent (q\<lparr>qnum := k\<rparr>) i = ent q i"
  "ent (q\<lparr>entries := Lessor_free (entries q) a\<rparr>) i = ent q i"
  by (simp_all add: ent_def Lessor_free_def split: option.splits)

section \<open>The operations on the list\<close>

lemma que_free_entry:
  assumes "que_wf q is" and "length is < nr_ent q"
  shows "\<exists>i l. Lessor_get (entries q) = (Some i, l)"
proof (rule ccontr)
  assume "\<nexists>i l. Lessor_get (entries q) = (Some i, l)"
  then have "fst (Lessor_get (entries q)) = None" by (metis eq_fst_iff not_Some_eq)
  then have "\<forall>i < nr_ent q + 2. \<not> isFree (entries q) ! i"
    using assms(1) by (auto simp: Lessor_get_None que_wf_def in_set_conv_nth)
  then have "{..< nr_ent q + 2} \<subseteq> set (0 # 1 # is)" using assms(1) by (auto simp: que_wf_def)
  then have "card {..< nr_ent q + 2} \<le> card (set (0 # 1 # is))" by (intro card_mono) auto
  also have "\<dots> \<le> length (0 # 1 # is)" by (rule card_length)
  finally show False using assms(2) by simp
qed

lemma que_full:
  assumes "que_wf q is" and "length is = nr_ent q"
  shows "fst (Lessor_get (entries q)) = None"
proof -
  have "set (0 # 1 # is) = {..< nr_ent q + 2}"
  proof (rule card_subset_eq)
    show "set (0 # 1 # is) \<subseteq> {..< nr_ent q + 2}" using assms by (auto simp: que_wf_def)
    have "card (set (0 # 1 # is)) = length (0 # 1 # is)"
      using que_wf_distinct [OF assms(1)] by (intro distinct_card) auto
    then show "card (set (0 # 1 # is)) = card {..< nr_ent q + 2}" using assms(2) by simp
  qed simp
  then have "i \<in> {0, 1} \<union> set is" if "i < nr_ent q + 2" for i using that by auto
  then have "\<not> isFree (entries q) ! i" if "i < nr_ent q + 2" for i
    using that assms(1) unfolding que_wf_def by blast
  then show ?thesis using assms(1) by (auto simp: Lessor_get_None que_wf_def in_set_conv_nth)
qed

lemma que_enque_wf:
  assumes wf: "que_wf q is" and g: "Lessor_get (entries q) = (Some r, l)"
  shows "\<exists>q'. Que_enque q t = Inr q' \<and> que_wf q' (r # is) \<and>
    content (ent q' r) = t \<and> (\<forall>i. i \<noteq> r \<longrightarrow> content (ent q' i) = content (ent q i)) \<and> r \<notin> set is \<and>
    nr_ent q' = nr_ent q \<and> invalid q' = invalid q"
proof -
  note g' = Lessor_get_Some [OF g]
  have r: "r < nr_ent q + 2" "r \<notin> {0, 1} \<union> set is" using wf g' by (auto simp: que_wf_def)
  define n where "n = hd (is @ [1])"
  have n: "enext (ent q 0) = Some n" "n < nr_ent q + 2" "n \<noteq> r" "n \<noteq> 0"
    using wf r que_wf_distinct [OF wf] by (cases "is"; auto simp: que_wf_def nx_def n_def)+
  define q' where "q' = (upd_ent (upd_ent (upd_ent (upd_ent (upd_ent (q\<lparr>entries := l\<rparr>)
    r (\<lambda>e. e\<lparr>content := t\<rparr>)) r (\<lambda>e. e\<lparr>enext := Some n\<rparr>)) r (\<lambda>e. e\<lparr>eprev := Some 0\<rparr>))
    0 (\<lambda>e. e\<lparr>enext := Some r\<rparr>)) n (\<lambda>e. e\<lparr>eprev := Some r\<rparr>))\<lparr>qnum := qnum q + 1\<rparr>"
  have run: "Que_enque q t = Inr q'"
    using wf que_wf_length [OF wf] n g
    by (simp add: Que_enque_def que_wf_def q'_def Let_def)
  have len: "length (room l) = nr_ent q + 2" using wf g' by (simp add: que_wf_def)
  have el: "ent (q\<lparr>entries := l\<rparr>) i = ent q i" for i using g' by (simp add: ent_def)
  have nx': "nx q' = (nx q)(r := nx q 0, 0 := Some r)"
    using r n len by (auto simp: nx_def q'_def fun_eq_iff el)
  have pv': "pv q' = (pv q)(r := pv q n, n := Some r)"
  proof -
    have "chain (pv q) (Some 1) (rev (tl (is @ [1])) @ n # [0])"
      using wf by (cases "is") (auto simp: que_wf_def n_def)
    then have "pv q n = Some 0" by (auto dest: chain_link)
    then show ?thesis using r n len by (auto simp: pv_def q'_def fun_eq_iff el)
  qed
  have "chain (nx q') (Some 0) (0 # r # is @ [1])"
    unfolding nx' using wf r chain_insert [of "nx q" "Some 0" "[]" 0 "is @ [1]" r] by (simp add: que_wf_def)
  moreover have "chain (pv q') (Some 1) (1 # rev (r # is) @ [0])"
  proof -
    have eq: "rev (tl (is @ [1])) @ n # [0] = 1 # rev is @ [0]" by (cases "is") (auto simp: n_def)
    then have "chain (pv q) (Some 1) (rev (tl (is @ [1])) @ n # [0])"
      unfolding eq using wf by (simp add: que_wf_def)
    moreover have "r \<notin> set (rev (tl (is @ [1])) @ n # [0])" unfolding eq using r by auto
    ultimately have "chain (pv q') (Some 1) (rev (tl (is @ [1])) @ n # r # [0])"
      unfolding pv' by (rule chain_insert)
    moreover have "rev (tl (is @ [1])) @ n # r # [0] = 1 # rev (r # is) @ [0]"
      by (cases "is") (auto simp: n_def)
    ultimately show ?thesis by (simp only:)
  qed
  moreover have "\<forall>i < nr_ent q + 2. isFree l ! i \<longleftrightarrow> i \<notin> {0, 1} \<union> set (r # is)"
    using wf g' r by (auto simp: que_wf_def nth_list_update)
  ultimately have "que_wf q' (r # is)"
    using wf g' r by (simp add: que_wf_def q'_def)
  moreover have "content (ent q' r) = t" "\<forall>i. i \<noteq> r \<longrightarrow> content (ent q' i) = content (ent q i)"
    using r n len by (auto simp: q'_def el)
  ultimately show ?thesis using run r by (auto simp: q'_def)
qed

text \<open>Both ways of taking an entry out unlink it from its two neighbours and return it to the \<^verbatim>\<open>Lessor\<close>.\<close>

definition unlink :: "'a Que \<Rightarrow> nat \<Rightarrow> nat \<Rightarrow> nat \<Rightarrow> 'a Que" where
  "unlink q p c n =
     (let q2 = upd_ent (upd_ent q p (\<lambda>e. e\<lparr>enext := Some n\<rparr>)) n (\<lambda>e. e\<lparr>eprev := Some p\<rparr>);
          q3 = q2\<lparr>entries := Lessor_free (entries q2) (Some c)\<rparr>
      in q3\<lparr>qnum := qnum q3 - 1\<rparr>)"

lemma que_neighbours:
  assumes "que_wf q (xs @ c # ys)"
  shows "pv q c = Some (last (0 # xs))" and "nx q c = Some (hd (ys @ [1]))"
proof -
  obtain as a where as: "0 # xs = as @ [a]" by (metis list.distinct(1) rev_exhaust)
  have "1 # rev (xs @ c # ys) @ [0] = (1 # rev ys) @ c # rev (0 # xs)" by simp
  with assms as have "chain (pv q) (Some 1) ((1 # rev ys) @ c # a # rev as)"
    unfolding que_wf_def by (metis append_Cons append_Nil rev_append rev_singleton_conv)
  from chain_link [OF this] as show "pv q c = Some (last (0 # xs))" by simp
  have "chain (nx q) (Some 0) ((0 # xs) @ c # ys @ [1])" using assms by (simp add: que_wf_def)
  from chain_link [OF this] show "nx q c = Some (hd (ys @ [1]))" by (cases ys) auto
qed

lemma que_unlink_wf:
  assumes wf: "que_wf q (xs @ c # ys)"
  shows "que_wf (unlink q (last (0 # xs)) c (hd (ys @ [1]))) (xs @ ys)"
    and "content (ent (unlink q (last (0 # xs)) c (hd (ys @ [1]))) i) = content (ent q i)"
proof -
  define p where "p = last (0 # xs)"
  define n where "n = hd (ys @ [1])"
  let ?q = "unlink q p c n"
  have lt: "p < length (room (entries q))" "n < length (room (entries q))"
    using wf unfolding p_def n_def by (cases xs rule: rev_cases; cases ys; auto simp: que_wf_def)+
  have nx': "nx ?q = (nx q)(p := nx q c)" and pv': "pv ?q = (pv q)(n := pv q c)"
    using lt que_neighbours [OF wf] by (auto simp: nx_def pv_def unlink_def Let_def fun_eq_iff p_def n_def)
  obtain as where as: "0 # xs = as @ [p]" unfolding p_def by (metis append_butlast_last_id list.distinct(1))
  obtain bs where bs: "ys @ [1] = n # bs" unfolding n_def by (cases ys) auto
  have bs': "1 # rev ys = rev bs @ [n]" using arg_cong [OF bs, of rev] by simp
  have "chain (nx q) (Some 0) (as @ p # c # n # bs)"
    using wf as bs unfolding que_wf_def by (metis append_Cons append_assoc append_Nil)
  from chain_unlink [OF this] have "chain (nx ?q) (Some 0) ((0 # xs) @ ys @ [1])"
    unfolding nx' as bs by simp
  moreover have "chain (pv q) (Some 1) (rev bs @ n # c # p # rev as)"
  proof -
    have "1 # rev (xs @ c # ys) @ [0] = (1 # rev ys) @ c # rev (0 # xs)" by simp
    also have "\<dots> = rev bs @ n # c # p # rev as" unfolding as bs' by simp
    finally show ?thesis using wf by (simp add: que_wf_def)
  qed
  from chain_unlink [OF this] have "chain (pv ?q) (Some 1) ((1 # rev ys) @ rev (0 # xs))"
    unfolding pv' as bs' by simp
  moreover have "c \<notin> {0, 1} \<union> set (xs @ ys)" "c < nr_ent q + 2"
    using que_wf_distinct [OF wf] wf by (auto simp: que_wf_def)
  then have "\<forall>i < nr_ent q + 2. isFree (entries ?q) ! i \<longleftrightarrow> i \<notin> {0, 1} \<union> set (xs @ ys)"
    using wf by (auto simp: que_wf_def unlink_def Let_def Lessor_free_def nth_list_update)
  ultimately show "que_wf (unlink q (last (0 # xs)) c (hd (ys @ [1]))) (xs @ ys)"
    using wf unfolding p_def [symmetric] n_def [symmetric]
    by (auto simp: que_wf_def unlink_def Let_def Lessor_free_def)
  show "content (ent (unlink q (last (0 # xs)) c (hd (ys @ [1]))) i) = content (ent q i)"
    using lt unfolding p_def [symmetric] n_def [symmetric] by (simp add: unlink_def Let_def)
qed

lemma que_deque_run:
  assumes wf: "que_wf q (xs @ [c])"
  shows "Que_deque q = Inr (content (ent q c), unlink q (last (0 # xs)) c 1)"
proof -
  have "chain (pv q) (Some 1) ([] @ 1 # c # rev xs @ [0])" using wf by (simp add: que_wf_def)
  from chain_link [OF this] have "pv q 1 = Some c" by simp
  then show ?thesis
    using wf que_neighbours [of q xs c "[]"]
    by (simp add: Que_deque_def que_wf_def pv_def unlink_def Let_def)
qed

lemma que_deque_loop_none:
  assumes "que_wf q (xs @ ys)" and "\<forall>i \<in> set ys. \<not> eq (content (ent q i)) a"
  shows "Que_deque_loop eq (length ys) q (Some (hd (ys @ [1]))) a = Inr (invalid q, q)"
  using assms
proof (induction ys arbitrary: xs)
  case Nil
  then show ?case by simp
next
  case (Cons c ys)
  have "enext (ent q c) = Some (hd (ys @ [1]))"
    using que_neighbours(2) [OF Cons.prems(1)] by (simp add: nx_def)
  with Cons.IH [of "xs @ [c]"] Cons.prems show ?case by simp
qed

lemma que_deque_loop_found:
  assumes "que_wf q (xs @ us @ c # vs)" and "\<forall>i \<in> set us. \<not> eq (content (ent q i)) a"
    and "eq (content (ent q c)) a"
  shows "Que_deque_loop eq (length (us @ c # vs)) q (Some (hd (us @ c # vs @ [1]))) a =
    Inr (content (ent q c), unlink q (last (0 # xs @ us)) c (hd (vs @ [1])))"
  using assms
proof (induction us arbitrary: xs)
  case Nil
  then have wf: "que_wf q (xs @ c # vs)" by simp
  have "eprev (ent q c) = Some (last (0 # xs))" "enext (ent q c) = Some (hd (vs @ [1]))"
    using que_neighbours [OF wf] by (simp_all add: pv_def nx_def)
  with Nil show ?case by (simp add: Let_def unlink_def)
next
  case (Cons i us)
  have "enext (ent q i) = Some (hd (us @ c # vs @ [1]))"
    using que_neighbours(2) [of q xs i "us @ c # vs"] Cons.prems(1) by (simp add: nx_def)
  with Cons.IH [of "xs @ [i]"] Cons.prems show ?case by simp
qed

lemma que_deque_by_start:
  "que_wf q is \<Longrightarrow> Que_deque_by eq q a = Que_deque_loop eq (length is) q (Some (hd (is @ [1]))) a"
  by (cases "is") (auto simp: Que_deque_by_def que_wf_def nx_def nat_add_distrib simp del: Que_deque_loop.simps)

lemma que_deque_by_run:
  assumes wf: "que_wf q is"
    and match: "take_match (\<lambda>x. eq x a) (map (\<lambda>i. content (ent q i)) is) = Some (x, ys)"
  shows "\<exists>us c vs. is = us @ c # vs \<and> x = content (ent q c) \<and> ys = map (\<lambda>i. content (ent q i)) (us @ vs) \<and>
    Que_deque_by eq q a = Inr (x, unlink q (last (0 # us)) c (hd (vs @ [1])))"
proof -
  from match obtain us c vs where is': "is = us @ c # vs" "x = content (ent q c)"
    "ys = map (\<lambda>i. content (ent q i)) (us @ vs)" "eq x a" "\<forall>i \<in> set us. \<not> eq (content (ent q i)) a"
    unfolding take_match_Some by (auto simp: map_eq_append_conv map_eq_Cons_conv)
  with que_deque_loop_found [of q "[]" us c vs eq a] que_deque_by_start [OF wf, of eq a] wf
  show ?thesis by (intro exI [of _ us] exI [of _ c] exI [of _ vs]) simp
qed

lemma unlink_params [simp]:
  "nr_ent (unlink q p c n) = nr_ent q" "invalid (unlink q p c n) = invalid q"
  by (simp_all add: unlink_def Let_def)

lemma que_list_wf: "que_wf q is \<Longrightarrow> que_list q = map (\<lambda>i. content (ent q i)) is"
  by (simp add: que_list_def que_wf_ids)

lemma que_list_unlink:
  assumes "que_wf q (us @ c # vs)"
  shows "que_inv (unlink q (last (0 # us)) c (hd (vs @ [1])))"
    and "que_list (unlink q (last (0 # us)) c (hd (vs @ [1]))) = map (\<lambda>i. content (ent q i)) (us @ vs)"
  using que_unlink_wf [OF assms] by (simp_all add: que_invI que_list_wf)

interpretation kq: bounded_queue que_inv que_list nr_ent invalid Que_enque Que_deque Que_deque_by
proof unfold_locales
  fix q :: "'a Que" and x
  assume inv: "que_inv q" and room: "length (que_list q) < nr_ent q"
  then have wf: "que_wf q (que_ids q)" by (simp add: que_inv_def)
  obtain r l where g: "Lessor_get (entries q) = (Some r, l)"
    using que_free_entry [OF wf] room by (auto simp: que_list_def)
  from que_enque_wf [OF wf g, of x] show "\<exists>q'. Que_enque q x = Inr q' \<and> que_inv q' \<and>
      que_list q' = x # que_list q \<and> nr_ent q' = nr_ent q \<and> invalid q' = invalid q"
    using que_list_wf [OF wf] by (auto simp: que_invI que_list_wf)
next
  fix q :: "'a Que" assume "que_inv q" "que_list q = []"
  then show "Que_deque q = Inr (invalid q, q)" by (auto simp: que_inv_def que_list_def que_wf_def Que_deque_def)
next
  fix q :: "'a Que" and xs x assume "que_inv q" and l: "que_list q = xs @ [x]"
  then have wf: "que_wf q (que_ids q)" by (simp add: que_inv_def)
  from l obtain us c where us: "que_ids q = us @ [c]" "xs = map (\<lambda>i. content (ent q i)) us" "x = content (ent q c)"
    unfolding que_list_def by (auto simp: map_eq_append_conv map_eq_Cons_conv)
  with wf have "que_wf q (us @ c # [])" by simp
  from que_list_unlink [OF this] que_deque_run [of q us c] us wf
  show "\<exists>q'. Que_deque q = Inr (x, q') \<and> que_inv q' \<and> que_list q' = xs \<and> nr_ent q' = nr_ent q \<and>
      invalid q' = invalid q" by auto
next
  fix q :: "'a Que" and eq :: "'a \<Rightarrow> 'a \<Rightarrow> bool" and a assume "que_inv q" and none: "take_match (\<lambda>x. eq x a) (que_list q) = None"
  then have wf: "que_wf q (que_ids q)" by (simp add: que_inv_def)
  from que_deque_loop_none [of q "[]" "que_ids q" eq a] que_deque_by_start [OF wf, of eq a] wf none
  show "Que_deque_by eq q a = Inr (invalid q, q)"
    by (simp add: take_match_None que_list_def)
next
  fix q :: "'a Que" and eq :: "'a \<Rightarrow> 'a \<Rightarrow> bool" and a x ys
  assume "que_inv q" and m: "take_match (\<lambda>x. eq x a) (que_list q) = Some (x, ys)"
  then have wf: "que_wf q (que_ids q)" by (simp add: que_inv_def)
  obtain us c vs where r: "que_ids q = us @ c # vs" "ys = map (\<lambda>i. content (ent q i)) (us @ vs)"
    "Que_deque_by eq q a = Inr (x, unlink q (last (0 # us)) c (hd (vs @ [1])))"
    using que_deque_by_run [OF wf, of eq a x ys] m unfolding que_list_def by blast
  with wf have "que_wf q (us @ c # vs)" by simp
  from que_list_unlink [OF this] r show "\<exists>q'. Que_deque_by eq q a = Inr (x, q') \<and> que_inv q' \<and>
      que_list q' = ys \<and> nr_ent q' = nr_ent q \<and> invalid q' = invalid q" by auto
next
  fix q :: "'a Que" assume "que_inv q"
  then show "length (que_list q) \<le> nr_ent q" by (auto simp: que_inv_def que_list_def dest: que_wf_length)
qed

lemma Que_new_wf: "\<exists>q. Que_new N inval d = Inr q \<and> que_wf q [] \<and> nr_ent q = N \<and> invalid q = inval"
proof -
  let ?e = "\<lparr>sentinel = False, enext = None, eprev = None, content = d\<rparr>"
  have g: "Lessor_get (Lessor_new (N + 2) ?e) =
      (Some 0, \<lparr>room = replicate (N + 2) ?e, isFree = False # True # replicate N True\<rparr>)"
    "Lessor_get \<lparr>room = replicate (N + 2) ?e, isFree = False # True # replicate N True\<rparr> =
      (Some 1, \<lparr>room = replicate (N + 2) ?e, isFree = False # False # replicate N True\<rparr>)"
    by (simp_all add: Lessor_get_def Lessor_new_def)
  define q where "q = \<lparr>nr_ent = N, invalid = inval, qhead = Some 0, qtail = Some 1, qnum = 0,
    entries = \<lparr>room = \<lparr>sentinel = True, enext = Some 1, eprev = None, content = d\<rparr> #
      \<lparr>sentinel = True, enext = None, eprev = Some 0, content = d\<rparr> # replicate N ?e,
      isFree = False # False # replicate N True\<rparr>\<rparr>"
  have "Que_new N inval d = Inr q"
    by (simp only: Que_new_def Let_def g prod.case deref_simps rbind_Inr) (simp add: upd_ent_def q_def)
  moreover have "que_wf q []"
    by (auto simp: que_wf_def q_def nx_def pv_def ent_def nth_Cons split: nat.splits)
  ultimately show ?thesis by (simp add: q_def)
qed

lemma Que_new_filled:
  assumes "length xs \<le> N"
  shows "\<exists>q. rbind (Que_new N inval d) (\<lambda>q. enq_all Que_enque q xs) = Inr q \<and> que_inv q \<and>
    que_list q = rev xs \<and> nr_ent q = N \<and> invalid q = inval"
proof -
  obtain q where q: "Que_new N inval d = Inr q" "que_wf q []" "nr_ent q = N" "invalid q = inval"
    using Que_new_wf [of N inval d] by blast
  then have "que_inv q" "que_list q = []" by (simp_all add: que_invI que_list_wf)
  with kq.enq_all_law [of q xs] q(1,3,4) assms show ?thesis by simp
qed

section \<open>Properties\<close>

text \<open>
  A fresh \<^verbatim>\<open>Que<T,N>\<close> is a first-in first-out queue: any sequence of at most \<open>N\<close> values that is
  enqueued comes out of \<^verbatim>\<open>deque()\<close> in the order it went in, and the queue is empty and well formed again.
\<close>

theorem Que_fifo:
  assumes "length xs \<le> N"
  shows "\<exists>q'. rbind (Que_new N inval d) (\<lambda>q. rbind (enq_all Que_enque q xs) (deq_many Que_deque (length xs))) = Inr (xs, q') \<and>
    que_inv q' \<and> que_list q' = []"
proof -
  obtain q where q: "Que_new N inval d = Inr q" "que_wf q []" "nr_ent q = N"
    using Que_new_wf [of N inval d] by blast
  then have "que_inv q" "que_list q = []" by (simp_all add: que_invI que_list_wf)
  from kq.fifo [OF this, of xs] assms q(1,3) show ?thesis by simp
qed

theorem Que_fifo_witness:
  "\<exists>q'. rbind (Que_new 3 (-1) 0) (\<lambda>q. rbind (enq_all Que_enque q [7, 8, 9]) (deq_many Que_deque 3)) = Inr ([7, 8, 9 :: int], q') \<and>
    que_inv q' \<and> que_list q' = []"
  using Que_fifo [of "[7, 8, 9 :: int]" 3 "-1" 0] by (simp add: numeral_3_eq_3)

text \<open>
  C10. Every operation of \<^verbatim>\<open>Que\<close> refines the operation on the list of its contents and keeps the links
  well formed: \<^verbatim>\<open>enque\<close> below capacity puts the value in front, \<^verbatim>\<open>deque()\<close> takes the last one or returns
  the invalid value of an empty queue, \<^verbatim>\<open>deque(a)\<close> takes the newest value equal to \<open>a\<close> or returns the
  invalid value when there is none.
\<close>

theorem Que_refines_list:
  assumes "que_inv q"
  shows "(length (que_list q) < nr_ent q \<longrightarrow>
      (\<exists>q'. Que_enque q x = Inr q' \<and> que_inv q' \<and> que_list q' = x # que_list q)) \<and>
    (\<exists>r q'. Que_deque q = Inr (r, q') \<and> que_inv q' \<and>
      (if que_list q = [] then r = invalid q \<and> que_list q' = []
       else r = last (que_list q) \<and> que_list q' = butlast (que_list q))) \<and>
    (\<exists>r q'. Que_deque_by eq q a = Inr (r, q') \<and> que_inv q' \<and>
      (case take_match (\<lambda>y. eq y a) (que_list q) of
         None \<Rightarrow> r = invalid q \<and> que_list q' = que_list q
       | Some (y, ys) \<Rightarrow> r = y \<and> que_list q' = ys))"
proof (intro conjI impI)
  assume "length (que_list q) < nr_ent q"
  from kq.enq_law [OF assms this, of x]
  show "\<exists>q'. Que_enque q x = Inr q' \<and> que_inv q' \<and> que_list q' = x # que_list q" by blast
next
  show "\<exists>r q'. Que_deque q = Inr (r, q') \<and> que_inv q' \<and>
      (if que_list q = [] then r = invalid q \<and> que_list q' = []
       else r = last (que_list q) \<and> que_list q' = butlast (que_list q))"
    using kq.deq_empty [OF assms] kq.deq_law [OF assms] assms
    by (cases "que_list q" rule: rev_cases) fastforce+
next
  show "\<exists>r q'. Que_deque_by eq q a = Inr (r, q') \<and> que_inv q' \<and>
      (case take_match (\<lambda>y. eq y a) (que_list q) of
         None \<Rightarrow> r = invalid q \<and> que_list q' = que_list q
       | Some (y, ys) \<Rightarrow> r = y \<and> que_list q' = ys)"
    using kq.deq_by_none [OF assms] kq.deq_by_law [OF assms] assms
    by (cases "take_match (\<lambda>y. eq y a) (que_list q)") fastforce+
qed

theorem Que_refines_list_witness:
  "\<exists>q. rbind (Que_new 4 (-1) 0) (\<lambda>q. enq_all Que_enque q [5, 6, 7 :: int]) = Inr q \<and>
     (\<exists>q'. Que_deque q = Inr (5, q') \<and> que_list q' = [7, 6])"
proof -
  obtain q where q: "rbind (Que_new 4 (-1) 0) (\<lambda>q. enq_all Que_enque q [5, 6, 7 :: int]) = Inr q"
    "que_inv q" "que_list q = rev [5, 6, 7]"
    using Que_new_filled [of "[5, 6, 7 :: int]" 4 "-1" 0] by auto
  from Que_refines_list [OF q(2), of 0 "(=)" 0] q(1,3) show ?thesis by auto
qed

lemma que_enque_full_err:
  assumes "que_inv q" and "length (que_list q) = nr_ent q"
  shows "Que_enque q x = Inl Null_deref"
proof -
  have wf: "que_wf q (que_ids q)" and len: "length (que_ids q) = nr_ent q"
    using assms by (simp_all add: que_inv_def que_list_def)
  from que_full [OF this] obtain l where "Lessor_get (entries q) = (None, l)"
    by (metis prod.collapse)
  with wf len show ?thesis by (simp add: Que_enque_def que_wf_def)
qed

text \<open>Whatever an operation returns is well formed again, with the same capacity and invalid value.\<close>

lemma Que_enque_inv:
  assumes "que_inv q" and "Que_enque q x = Inr q'"
  shows "que_inv q' \<and> que_list q' = x # que_list q \<and> nr_ent q' = nr_ent q \<and> invalid q' = invalid q"
proof -
  have "length (que_list q) < nr_ent q"
    using kq.contents_le [OF assms(1)] que_enque_full_err [OF assms(1), of x] assms(2)
    by (cases "length (que_list q) = nr_ent q") auto
  from kq.enq_law [OF assms(1) this, of x] assms(2) show ?thesis by auto
qed

lemma Que_deque_by_inv:
  assumes "que_inv q" and "Que_deque_by eq q a = Inr (r, q')"
  shows "que_inv q' \<and> nr_ent q' = nr_ent q \<and> invalid q' = invalid q"
proof (cases "take_match (\<lambda>x. eq x a) (que_list q)")
  case None
  with kq.deq_by_none [OF assms(1), of eq a] assms show ?thesis by simp
next
  case (Some y)
  then obtain x ys where "take_match (\<lambda>x. eq x a) (que_list q) = Some (x, ys)" by (cases y) auto
  from kq.deq_by_law [OF assms(1), of eq a, OF this] assms(2) show ?thesis by auto
qed

lemma Que_deque_inv:
  assumes "que_inv q" and "Que_deque q = Inr (r, q')"
  shows "que_inv q' \<and> nr_ent q' = nr_ent q \<and> invalid q' = invalid q"
proof (cases "que_list q" rule: rev_cases)
  case Nil
  with kq.deq_empty [OF assms(1) Nil] assms show ?thesis by simp
next
  case (snoc ys y)
  from kq.deq_law [OF assms(1) snoc] assms(2) show ?thesis by auto
qed

text \<open>
  A full queue: with \<open>N\<close> values stored, \<^verbatim>\<open>enque\<close> passes its capacity guard \<^verbatim>\<open>num > nr_ent\<close> although no
  entry is left, and follows the null pointer that \<^verbatim>\<open>entries.get()\<close> returns.
\<close>

theorem Que_enque_full:
  assumes "que_inv q" and "length (que_list q) = nr_ent q"
  shows "Que_enque q x = Inl Null_deref"
  using assms by (rule que_enque_full_err)

theorem Que_enque_full_witness:
  "\<exists>q. rbind (Que_new 2 (-1) 0) (\<lambda>q. enq_all Que_enque q [5, 6 :: int]) = Inr q \<and>
     Que_enque q 7 = Inl Null_deref"
proof -
  obtain q where q: "rbind (Que_new 2 (-1) 0) (\<lambda>q. enq_all Que_enque q [5, 6 :: int]) = Inr q"
    "que_inv q" "length (que_list q) = nr_ent q"
    using Que_new_filled [of "[5, 6 :: int]" 2 "-1" 0] by auto
  from Que_enque_full [OF q(2,3), of 7] q(1) show ?thesis by blast
qed

end
