(* ===== verification/Timer.thy ===== *)
theory Timer
  imports Kernel_Prelude "HOL-Library.Multiset"
begin

text \<open>
  The timer list of \<^verbatim>\<open>src/kernel/Timer.cpp\<close> and \<^verbatim>\<open>src/include/os/Timer.h\<close>.

  The nodes of the list are allocated by \<^verbatim>\<open>kmalloc\<close> and owned by the list, nobody else holds a pointer to
  one; the model keeps the sequence of the entries from \<^verbatim>\<open>head\<close> on. \<^verbatim>\<open>kmalloc\<close> never returns null (it panics),
  so the null test of \<^verbatim>\<open>Timer::set\<close> has no branch here. The tick handler, which wakes processes up, is in
  \<^verbatim>\<open>Task\<close>.
\<close>

section \<open>State\<close>

datatype timer_type = T_INVALID | WatchDog | TaskSwitch | Wakeup

record timer_entry =
  clocks :: int
  ttype :: timer_type
  pr_id :: u32

record Timer =
  timers :: "timer_entry list"
  quantum_exceeded :: bool
  msecond :: u8
  second :: u32

definition Timer_interval :: u16 where
  "Timer_interval = 10"

section \<open>Operations\<close>

definition Timer_new :: Timer where
  "Timer_new = \<lparr>timers = [], quantum_exceeded = False, msecond = 0, second = 0\<rparr>"

fun set_loop :: "timer_entry \<Rightarrow> timer_entry list \<Rightarrow> timer_entry list" where
  "set_loop e [] = [e]"
| "set_loop e (p # ps) = (if clocks p > clocks e then e # p # ps else p # set_loop e ps)"

definition Timer_set :: "Timer \<Rightarrow> int \<Rightarrow> timer_type \<Rightarrow> u32 \<Rightarrow> Timer" where
  "Timer_set t c ty pid = t\<lparr>timers := set_loop \<lparr>clocks = c, ttype = ty, pr_id = pid\<rparr> (timers t)\<rparr>"

definition passClocks :: "Timer \<Rightarrow> u16 \<Rightarrow> Timer" where
  "passClocks t c = t\<lparr>timers := map (\<lambda>e. e\<lparr>clocks := clocks e - int (unat c)\<rparr>) (timers t)\<rparr>"

fun drop_switch :: "timer_entry list \<Rightarrow> timer_entry list" where
  "drop_switch [] = []"
| "drop_switch (p # ps) = (if ttype p = TaskSwitch then drop_switch ps else p # drop_switch ps)"

definition reset_quantum :: "Timer \<Rightarrow> int \<Rightarrow> u32 \<Rightarrow> Timer" where
  "reset_quantum t c pid = Timer_set (t\<lparr>timers := drop_switch (timers t)\<rparr>) c TaskSwitch pid"

section \<open>The list is kept in the order of the remaining clocks\<close>

definition timers_sorted :: "Timer \<Rightarrow> bool" where
  "timers_sorted t \<longleftrightarrow> sorted (map clocks (timers t))"

lemma set_loop_mset [simp]: "mset (set_loop e ps) = add_mset e (mset ps)"
  by (induction ps) auto

lemma set_set_loop [simp]: "set (set_loop e ps) = insert e (set ps)"
  using set_loop_mset [of e ps] by (metis set_mset_add_mset_insert set_mset_mset)

lemma set_loop_sorted: "sorted (map clocks ps) \<Longrightarrow> sorted (map clocks (set_loop e ps))"
  by (induction ps) auto

lemma drop_switch_filter: "drop_switch ps = filter (\<lambda>p. ttype p \<noteq> TaskSwitch) ps"
  by (induction ps) auto

lemma set_loop_filter_out: "\<not> P e \<Longrightarrow> filter P (set_loop e ps) = filter P ps"
  by (induction ps) auto

lemma set_loop_filter_only: "P e \<Longrightarrow> filter P ps = [] \<Longrightarrow> filter P (set_loop e ps) = [e]"
  by (induction ps) (auto split: if_splits)

lemma set_loop_append:
  "set_loop e ps = takeWhile (\<lambda>p. clocks p \<le> clocks e) ps @ e # dropWhile (\<lambda>p. clocks p \<le> clocks e) ps"
  by (induction ps) auto

lemma sorted_map_filter: "sorted (map f ps) \<Longrightarrow> sorted (map f (filter P ps))"
  by (induction ps) auto

lemma timers_sorted_set [simp]: "timers_sorted t \<Longrightarrow> timers_sorted (Timer_set t c ty pid)"
  by (simp add: timers_sorted_def Timer_set_def set_loop_sorted)

lemma timers_sorted_pass [simp]: "timers_sorted t \<Longrightarrow> timers_sorted (passClocks t c)"
  by (simp add: timers_sorted_def passClocks_def sorted_iff_nth_mono)

lemma timers_sorted_reset [simp]: "timers_sorted t \<Longrightarrow> timers_sorted (reset_quantum t c pid)"
  by (simp add: timers_sorted_def Timer_set_def reset_quantum_def set_loop_sorted drop_switch_filter
      sorted_map_filter)

section \<open>Properties\<close>

text \<open>
  \<^verbatim>\<open>Timer::set\<close> keeps the list in the order of the remaining clocks, adds exactly the new entry, and
  puts it behind every entry that expires no later: timers set for the same tick expire in the order
  in which they were set.
\<close>

theorem Timer_set_correct:
  assumes "timers_sorted t"
  shows "timers_sorted (Timer_set t c ty pid) \<and>
    (\<exists>us vs. timers t = us @ vs \<and>
      timers (Timer_set t c ty pid) = us @ \<lparr>clocks = c, ttype = ty, pr_id = pid\<rparr> # vs \<and>
      (\<forall>u \<in> set us. clocks u \<le> c) \<and> (\<forall>v \<in> set vs. c < clocks v))"
proof -
  let ?us = "takeWhile (\<lambda>p. clocks p \<le> c) (timers t)" and ?vs = "dropWhile (\<lambda>p. clocks p \<le> c) (timers t)"
  have "\<forall>v \<in> set ?vs. c < clocks v"
  proof (cases ?vs)
    case (Cons v vs)
    then have "\<not> clocks v \<le> c" by (metis dropWhile_eq_Cons_conv)
    moreover have "sorted (map clocks ?vs)"
      using assms by (metis dropWhile_map list.map_comp sorted_dropWhile timers_sorted_def
          takeWhile_dropWhile_id map_append sorted_append)
    ultimately show ?thesis using Cons by auto
  next
    case Nil
    then show ?thesis by (simp only: list.set ball_empty)
  qed
  moreover have "\<forall>u \<in> set ?us. clocks u \<le> c" by (auto dest: set_takeWhileD)
  ultimately show ?thesis using assms
    by (intro conjI timers_sorted_set exI [of _ ?us] exI [of _ ?vs]) (auto simp: Timer_set_def set_loop_append)
qed

theorem Timer_set_correct_witness:
  "\<exists>us vs. timers (Timer_set (Timer_set (Timer_set Timer_new 5 Wakeup 7) 9 Wakeup 8) 5 TaskSwitch 9) =
     us @ \<lparr>clocks = 5, ttype = TaskSwitch, pr_id = 9\<rparr> # vs \<and> (\<forall>u \<in> set us. clocks u \<le> 5) \<and> (\<forall>v \<in> set vs. 5 < clocks v)"
proof -
  have "timers_sorted (Timer_set (Timer_set Timer_new 5 Wakeup 7) 9 Wakeup 8)"
    by (simp add: timers_sorted_def Timer_new_def Timer_set_def)
  from Timer_set_correct [OF this, of 5 TaskSwitch 9] show ?thesis by blast
qed

text \<open>
  \<^verbatim>\<open>Timer::reset_quantum\<close> leaves exactly one task-switch timer, the new one, leaves all the other
  timers and their order alone, and keeps the list sorted.
\<close>

theorem reset_quantum_correct:
  assumes "timers_sorted t"
  shows "timers_sorted (reset_quantum t c pid) \<and>
    filter (\<lambda>p. ttype p = TaskSwitch) (timers (reset_quantum t c pid)) =
      [\<lparr>clocks = c, ttype = TaskSwitch, pr_id = pid\<rparr>] \<and>
    filter (\<lambda>p. ttype p \<noteq> TaskSwitch) (timers (reset_quantum t c pid)) =
      filter (\<lambda>p. ttype p \<noteq> TaskSwitch) (timers t)"
proof -
  let ?e = "\<lparr>clocks = c, ttype = TaskSwitch, pr_id = pid\<rparr>" and ?ps = "drop_switch (timers t)"
  have "filter (\<lambda>p. ttype p = TaskSwitch) (set_loop ?e ?ps) = [?e]"
    by (intro set_loop_filter_only) (simp_all add: drop_switch_filter filter_empty_conv)
  moreover have "filter (\<lambda>p. ttype p \<noteq> TaskSwitch) (set_loop ?e ?ps) = filter (\<lambda>p. ttype p \<noteq> TaskSwitch) (timers t)"
    by (subst set_loop_filter_out) (simp_all add: drop_switch_filter)
  ultimately show ?thesis using assms timers_sorted_reset by (simp add: reset_quantum_def Timer_set_def)
qed

theorem reset_quantum_correct_witness:
  "filter (\<lambda>p. ttype p = TaskSwitch)
     (timers (reset_quantum (Timer_set (Timer_set Timer_new 5 TaskSwitch 7) 9 Wakeup 8) 2 9)) =
   [\<lparr>clocks = 2, ttype = TaskSwitch, pr_id = 9\<rparr>]"
proof -
  have "timers_sorted (Timer_set (Timer_set Timer_new 5 TaskSwitch 7) 9 Wakeup 8)"
    by (simp add: timers_sorted_def Timer_new_def Timer_set_def)
  from reset_quantum_correct [OF this, of 2 9] show ?thesis by blast
qed

end
