(* ===== verification/Process.thy ===== *)
theory Process
  imports KQueue
begin

text \<open>
  Processes and the process manager, \<^verbatim>\<open>src/include/os/Process.h\<close>, \<^verbatim>\<open>src/kernel/Process.cpp\<close> and the
  message type of \<^verbatim>\<open>src/include/Ipc.h\<close>.

  A process is an element of the array of a \<^verbatim>\<open>Lessor<Proc,32>\<close>; a pointer to it is its index. The four run
  queues are singly linked through the \<^verbatim>\<open>next\<close> fields. The addresses of code that \<^verbatim>\<open>kernel_info.ret_from\<close>
  can hold are a datatype. The region list of \<^verbatim>\<open>mm_struct\<close> is owned by it and kept as a list.
\<close>

section \<open>State\<close>

record Message =
  mid :: int
  mtype :: u16
  isValid :: bool
  m_p1 :: u32
  m_p2 :: u32
  m_p3 :: u32

text \<open>\<^verbatim>\<open>Message(pid_t)\<close>, \<^verbatim>\<open>Message(bool)\<close> and \<^verbatim>\<open>operator==\<close>; the fields a constructor leaves alone are zero.\<close>

definition Message_id :: "int \<Rightarrow> Message" where
  "Message_id i = \<lparr>mid = i, mtype = 0, isValid = True, m_p1 = 0, m_p2 = 0, m_p3 = 0\<rparr>"

definition invMessage :: Message where
  "invMessage = \<lparr>mid = 0, mtype = 0, isValid = False, m_p1 = 0, m_p2 = 0, m_p3 = 0\<rparr>"

definition Message_eq :: "Message \<Rightarrow> Message \<Rightarrow> bool" where
  "Message_eq a b \<longleftrightarrow> mid a = mid b"

datatype STATUS = TASK_INIT | TASK_SLEEP | TASK_RUNNING | TASK_STOPPED

datatype ret_fn = kernel2user | ret_from_fork | recv_later_fn

record kernel_info_s =
  stack_top :: u32
  ki_ss :: u32
  ki_sp :: u32
  ret_from :: ret_fn
  ki_cs :: u32

record mm_region =
  rflags :: u32
  rbegin :: u32
  rsize :: u32

record mm_struct =
  cr3 :: u32
  regions :: "mm_region list"

record Proc =
  pid :: int
  pnext :: "nat option"
  prior :: u8
  status :: STATUS
  mm :: mm_struct
  kernel_info :: kernel_info_s
  recvQ :: "Message Que"
  sendQ :: "Message Que"
  recv_anyQ :: "Message Que"

definition nrMessage :: nat where
  "nrMessage = 32"

definition nr_Proc :: nat where
  "nr_Proc = 32"

definition nr_Level :: nat where
  "nr_Level = 4"

text \<open>The values of \<^verbatim>\<open>enum PIDS\<close> and \<^verbatim>\<open>enum priority\<close> the code uses.\<close>

definition PID_INVALID :: int where "PID_INVALID = -2"
definition PID_KERNEL :: int where "PID_KERNEL = -1"
definition PID_INIT :: int where "PID_INIT = 1"
definition PID_ANY :: int where "PID_ANY = 5"

definition Papp :: u8 where "Papp = 2"
definition Psys :: u8 where "Psys = 1"

record PManager =
  ProcL :: "Proc Lessor"
  pHead :: "nat option list"
  interval :: "u8 list"
  pPrev :: "nat option"
  pCurrent :: "nat option"
  pNext :: "nat option"
  pid_num :: u32

section \<open>Access\<close>

definition proc :: "PManager \<Rightarrow> nat \<Rightarrow> Proc" where
  "proc m i = room (ProcL m) ! i"

definition upd_proc :: "PManager \<Rightarrow> nat \<Rightarrow> (Proc \<Rightarrow> Proc) \<Rightarrow> PManager" where
  "upd_proc m i f = m\<lparr>ProcL := (ProcL m)\<lparr>room := (room (ProcL m))[i := f (room (ProcL m) ! i)]\<rparr>\<rparr>"

text \<open>What a \<^verbatim>\<open>Proc **\<close> may point to.\<close>

datatype procpp = At_pHead nat | At_pnext nat

fun proc_load :: "PManager \<Rightarrow> procpp \<Rightarrow> nat option" where
  "proc_load m (At_pHead i) = pHead m ! i"
| "proc_load m (At_pnext p) = pnext (proc m p)"

fun proc_store :: "PManager \<Rightarrow> procpp \<Rightarrow> nat option \<Rightarrow> PManager" where
  "proc_store m (At_pHead i) v = m\<lparr>pHead := (pHead m)[i := v]\<rparr>"
| "proc_store m (At_pnext p) v = upd_proc m p (\<lambda>x. x\<lparr>pnext := v\<rparr>)"

section \<open>Operations\<close>

text \<open>
  The constructors. The process table is a global, so the fields the constructor of \<^verbatim>\<open>Proc\<close> leaves alone are
  zero; \<open>fn0\<close> stands for the zero in \<^verbatim>\<open>ret_from\<close>, which is set before it is used.
\<close>

definition Proc_new :: "ret_fn \<Rightarrow> Proc kres" where
  "Proc_new fn0 =
     rbind (Que_new nrMessage invMessage (Message_id 0)) (\<lambda>rq.
     rbind (Que_new nrMessage invMessage (Message_id 0)) (\<lambda>sq.
     rbind (Que_new nrMessage invMessage (Message_id 0)) (\<lambda>aq.
       Inr \<lparr>pid = 0, pnext = None, prior = Papp, status = TASK_INIT,
            mm = \<lparr>cr3 = 0, regions = []\<rparr>,
            kernel_info = \<lparr>stack_top = 0, ki_ss = 0, ki_sp = 0, ret_from = fn0, ki_cs = 0\<rparr>,
            recvQ = rq, sendQ = sq, recv_anyQ = aq\<rparr>)))"

definition PManager_of :: "Proc \<Rightarrow> PManager" where
  "PManager_of p0 =
     \<lparr>ProcL = Lessor_new nr_Proc p0, pHead = replicate nr_Level None, interval = map of_nat [0..<nr_Level],
      pPrev = None, pCurrent = None, pNext = None, pid_num = 100\<rparr>"

definition PManager_new :: "ret_fn \<Rightarrow> PManager kres" where
  "PManager_new fn0 = rbind (Proc_new fn0) (\<lambda>p0. Inr (PManager_of p0))"

definition pid_gen :: "PManager \<Rightarrow> int \<times> PManager" where
  "pid_gen m = (let n = pid_num m + 1 in (sint (n - 1), m\<lparr>pid_num := n\<rparr>))"

fun findProc_loop :: "Proc list \<Rightarrow> bool list \<Rightarrow> nat \<Rightarrow> int \<Rightarrow> nat option" where
  "findProc_loop (p # ps) (f # fs) i pd =
     (if \<not> f \<and> pid p = pd then Some i else findProc_loop ps fs (Suc i) pd)"
| "findProc_loop _ _ i pd = None"

definition getProc :: "PManager \<Rightarrow> int \<Rightarrow> nat option" where
  "getProc m pd = findProc_loop (room (ProcL m)) (isFree (ProcL m)) 0 pd"

definition allocProc :: "PManager \<Rightarrow> nat option \<times> PManager" where
  "allocProc m = (let (p, l) = Lessor_get (ProcL m) in (p, m\<lparr>ProcL := l\<rparr>))"

text \<open>
  The walk to the end of a run queue: 32 processes, so a walk of 33 steps has gone round a cycle and
  never ends.
\<close>

fun find_end :: "nat \<Rightarrow> PManager \<Rightarrow> procpp \<Rightarrow> procpp kres" where
  "find_end 0 m pp = Inl Hang"
| "find_end (Suc n) m pp =
     (case proc_load m pp of None \<Rightarrow> Inr pp | Some c \<Rightarrow> find_end n m (At_pnext c))"

definition enque :: "PManager \<Rightarrow> nat \<Rightarrow> u8 \<Rightarrow> PManager kres" where
  "enque m p level =
     (case status (proc m p) of
        TASK_STOPPED \<Rightarrow>
          (if level \<noteq> 0 \<and> unat level > nr_Level then Inl (Panic ''enque(): wrong level'')
           else
             (let i = unat (if level = 0 then prior (proc m p) else level) in
              if i \<ge> nr_Level then Inl Out_of_bounds
              else
                rbind (find_end (Suc nr_Proc) m (At_pHead i)) (\<lambda>pp.
                  (let m1 = upd_proc m p (\<lambda>x. x\<lparr>pnext := None\<rparr>);
                       m2 = proc_store m1 pp (Some p)
                   in Inr (upd_proc m2 p (\<lambda>x. x\<lparr>status := TASK_RUNNING\<rparr>))))))
      | TASK_RUNNING \<Rightarrow> Inr m
      | _ \<Rightarrow> Inl (Panic ''enque wrong process''))"

fun find_in_queue :: "nat \<Rightarrow> PManager \<Rightarrow> procpp \<Rightarrow> nat \<Rightarrow> procpp option kres" where
  "find_in_queue 0 m pp p = Inl Hang"
| "find_in_queue (Suc n) m pp p =
     (case proc_load m pp of
        None \<Rightarrow> Inr None
      | Some c \<Rightarrow> if c = p then Inr (Some pp) else find_in_queue n m (At_pnext c) p)"

text \<open>The outer loop of \<^verbatim>\<open>deque\<close> over the levels; a process on no queue is reported and nothing changes.\<close>

fun deque_levels :: "PManager \<Rightarrow> nat \<Rightarrow> nat list \<Rightarrow> PManager kres" where
  "deque_levels m p [] = Inr m"
| "deque_levels m p (i # is) =
     rbind (find_in_queue (Suc nr_Proc) m (At_pHead i) p) (\<lambda>r.
       case r of
         Some pp \<Rightarrow>
           (let m1 = upd_proc m p (\<lambda>x. x\<lparr>status := TASK_STOPPED\<rparr>)
            in Inr (proc_store m1 pp (pnext (proc m1 p))))
       | None \<Rightarrow> deque_levels m p is)"

definition deque :: "PManager \<Rightarrow> nat \<Rightarrow> PManager kres" where
  "deque m p =
     (case status (proc m p) of
        TASK_RUNNING \<Rightarrow> deque_levels m p [0..<nr_Level]
      | TASK_STOPPED \<Rightarrow> Inr m
      | _ \<Rightarrow> Inl (Panic ''enque wrong process''))"

section \<open>Reading the run queues\<close>

definition plinks :: "PManager \<Rightarrow> nat \<Rightarrow> nat option" where
  "plinks m i = pnext (proc m i)"

text \<open>
  The queues \<open>qs\<close> are disjoint and hold exactly the processes whose status is \<^verbatim>\<open>TASK_RUNNING\<close>.
\<close>

definition runq_wf :: "PManager \<Rightarrow> nat list list \<Rightarrow> bool" where
  "runq_wf m qs \<longleftrightarrow>
     length (room (ProcL m)) = nr_Proc \<and> length (pHead m) = nr_Level \<and> length qs = nr_Level \<and>
     (\<forall>i < nr_Level. chain (plinks m) (pHead m ! i) (qs ! i)) \<and>
     (\<forall>i < nr_Level. \<forall>j < nr_Level. i \<noteq> j \<longrightarrow> set (qs ! i) \<inter> set (qs ! j) = {}) \<and>
     (\<forall>i < nr_Level. set (qs ! i) \<subseteq> {..< nr_Proc}) \<and>
     (\<forall>p < nr_Proc. status (proc m p) = TASK_RUNNING \<longleftrightarrow> (\<exists>i < nr_Level. p \<in> set (qs ! i)))"

definition run_queues :: "PManager \<Rightarrow> nat list list" where
  "run_queues m = map (walk nr_Proc (plinks m)) (pHead m)"

definition sched_inv :: "PManager \<Rightarrow> bool" where
  "sched_inv m \<longleftrightarrow> runq_wf m (run_queues m)"

lemma upd_proc_simps [simp]:
  "pHead (upd_proc m i f) = pHead m" "interval (upd_proc m i f) = interval m"
  "pPrev (upd_proc m i f) = pPrev m" "pCurrent (upd_proc m i f) = pCurrent m"
  "pNext (upd_proc m i f) = pNext m" "pid_num (upd_proc m i f) = pid_num m"
  "isFree (ProcL (upd_proc m i f)) = isFree (ProcL m)"
  "length (room (ProcL (upd_proc m i f))) = length (room (ProcL m))"
  by (simp_all add: upd_proc_def)

lemma proc_upd [simp]:
  "i < length (room (ProcL m)) \<Longrightarrow> proc (upd_proc m i f) j = (if j = i then f (proc m i) else proc m j)"
  by (simp add: proc_def upd_proc_def nth_list_update)

lemma proc_pHead [simp]: "proc (m\<lparr>pHead := h\<rparr>) = proc m" "plinks (m\<lparr>pHead := h\<rparr>) = plinks m"
  by (auto simp: proc_def plinks_def fun_eq_iff)

lemma plinks_upd [simp]:
  "i < length (room (ProcL m)) \<Longrightarrow> plinks (upd_proc m i f) = (plinks m)(i := pnext (f (proc m i)))"
  by (auto simp: plinks_def fun_eq_iff)

lemma runq_wf_length:
  assumes "runq_wf m qs" and "i < nr_Level"
  shows "length (qs ! i) \<le> nr_Proc" and "distinct (qs ! i)"
  using assms by (auto simp: runq_wf_def intro!: distinct_bounded_length chain_distinct)

lemma runq_wf_queues: "runq_wf m qs \<Longrightarrow> run_queues m = qs"
  by (rule nth_equalityI) (auto simp: run_queues_def runq_wf_def intro!: walk_chain runq_wf_length)

lemma sched_invI: "runq_wf m qs \<Longrightarrow> sched_inv m"
  by (simp add: sched_inv_def runq_wf_queues)

section \<open>The queue operations\<close>

text \<open>
  What \<^verbatim>\<open>enque\<close> and \<^verbatim>\<open>deque\<close> leave alone: everything but the links, the heads and the status of the
  processes.
\<close>

definition proc_core :: "Proc \<Rightarrow> Proc" where
  "proc_core p = p\<lparr>pnext := None, status := TASK_STOPPED\<rparr>"

definition sched_frame :: "PManager \<Rightarrow> PManager \<Rightarrow> bool" where
  "sched_frame m m' \<longleftrightarrow>
     interval m' = interval m \<and> pPrev m' = pPrev m \<and> pCurrent m' = pCurrent m \<and> pNext m' = pNext m \<and>
     pid_num m' = pid_num m \<and> isFree (ProcL m') = isFree (ProcL m) \<and>
     length (room (ProcL m')) = length (room (ProcL m)) \<and>
     (\<forall>j. proc_core (proc m' j) = proc_core (proc m j))"

lemma sched_frame_refl [simp]: "sched_frame m m"
  by (simp add: sched_frame_def)

lemma sched_frame_trans: "sched_frame m m' \<Longrightarrow> sched_frame m' m'' \<Longrightarrow> sched_frame m m''"
  by (simp add: sched_frame_def)

lemma proc_core_fields:
  assumes "proc_core p = proc_core q"
  shows "pid p = pid q" "prior p = prior q" "mm p = mm q" "kernel_info p = kernel_info q"
    "recvQ p = recvQ q" "sendQ p = sendQ q" "recv_anyQ p = recv_anyQ q"
  using assms by (cases p; cases q; simp add: proc_core_def)+

lemma find_end_chain:
  "chain (plinks m) (proc_load m pp) is \<Longrightarrow> length is < n \<Longrightarrow>
   find_end n m pp = Inr (if is = [] then pp else At_pnext (last is))"
proof (induction "is" arbitrary: n pp)
  case Nil
  then show ?case by (cases n) auto
next
  case (Cons c "is")
  then obtain k where "n = Suc k" by (cases n) auto
  moreover have "find_end k m (At_pnext c) = Inr (if is = [] then At_pnext c else At_pnext (last is))"
    using Cons calculation by (intro Cons.IH) (auto simp: plinks_def [of m c])
  ultimately show ?case using Cons.prems by simp
qed

lemma find_in_queue_chain:
  assumes "chain (plinks m) (proc_load m pp) is" and "length is < n"
  shows "p \<notin> set is \<Longrightarrow> find_in_queue n m pp p = Inr None"
    and "is = as @ p # bs \<Longrightarrow> find_in_queue n m pp p = Inr (Some (if as = [] then pp else At_pnext (last as)))"
  using assms
proof (induction "is" arbitrary: n pp as)
  case Nil
  { case 1 then show ?case by (cases n) auto }
  { case 2 then show ?case by simp }
next
  case (Cons c "is")
  note d = chain_distinct
  { case 1
    then obtain k where "n = Suc k" by (cases n) auto
    with 1 Cons.IH(1) [of "At_pnext c" k] show ?case by (auto simp: plinks_def [of m c]) }
  { case 2
    then obtain k where k: "n = Suc k" by (cases n) auto
    show ?case
    proof (cases as)
      case Nil
      with 2 k show ?thesis by simp
    next
      case (Cons a as')
      with 2 have c: "a = c" "is = as' @ p # bs" by auto
      have "c \<noteq> p" using d [OF 2(2)] c(2) by auto
      with 2 k c Cons Cons.IH(2) [of as' "At_pnext c" k] show ?thesis by (auto simp: plinks_def [of m c])
    qed }
qed

text \<open>Storing the new last pointer of queue \<open>i\<close>, and storing past the process \<open>p\<close> of it.\<close>

lemma run_chain_append:
  assumes wf: "runq_wf m qs" and i: "i < nr_Level" and fresh: "\<And>j. j < nr_Level \<Longrightarrow> p \<notin> set (qs ! j)"
    and links: "plinks m' = (if qs ! i = [] then (plinks m)(p := None)
      else (plinks m)(p := None, last (qs ! i) := Some p))"
    and heads: "pHead m' = (if qs ! i = [] then (pHead m)[i := Some p] else pHead m)"
    and j: "j < nr_Level"
  shows "chain (plinks m') (pHead m' ! j) (qs[i := qs ! i @ [p]] ! j)"
proof -
  have lens: "length (pHead m) = nr_Level" "length qs = nr_Level" using wf by (auto simp: runq_wf_def)
  have chains: "chain (plinks m) (pHead m ! k) (qs ! k)" if "k < nr_Level" for k
    using wf that by (simp add: runq_wf_def)
  show ?thesis
  proof (cases "j = i")
    case True
    show ?thesis
    proof (cases "qs ! i" rule: rev_cases)
      case Nil
      with True i lens show ?thesis by (simp add: links heads)
    next
      case (snoc ks k)
      with chains [OF i] fresh [OF i] runq_wf_length(2) [OF wf i] True lens j show ?thesis
        by (auto simp: links heads chain_append chain_simps)
    qed
  next
    case False
    then have "set (qs ! j) \<inter> set (qs ! i) = {}" using wf i j by (simp add: runq_wf_def)
    then have "last (qs ! i) \<notin> set (qs ! j)" if "qs ! i \<noteq> []" using that by (meson disjoint_iff last_in_set)
    with False chains [OF j] fresh [OF j] show ?thesis by (auto simp: links heads chain_simps)
  qed
qed

lemma run_chain_unlink:
  assumes wf: "runq_wf m qs" and i: "i < nr_Level" and q: "qs ! i = as @ p # bs"
    and links: "plinks m' = (if as = [] then plinks m else (plinks m)(last as := plinks m p))"
    and heads: "pHead m' = (if as = [] then (pHead m)[i := plinks m p] else pHead m)"
    and j: "j < nr_Level"
  shows "chain (plinks m') (pHead m' ! j) (qs[i := as @ bs] ! j)"
proof -
  have lens: "length (pHead m) = nr_Level" "length qs = nr_Level" using wf by (auto simp: runq_wf_def)
  have chains: "chain (plinks m) (pHead m ! k) (qs ! k)" if "k < nr_Level" for k
    using wf that by (simp add: runq_wf_def)
  show ?thesis
  proof (cases "j = i")
    case True
    show ?thesis
    proof (cases as rule: rev_cases)
      case Nil
      with True i lens chains [OF i] q show ?thesis by (auto simp: links heads)
    next
      case (snoc ks k)
      with chain_unlink [of "plinks m" "pHead m ! i" ks k p bs] chains [OF i] q True lens j show ?thesis
        by (simp add: links heads)
    qed
  next
    case False
    then have "set (qs ! j) \<inter> set (qs ! i) = {}" using wf i j by (simp add: runq_wf_def)
    then have "last as \<notin> set (qs ! j)" if "as \<noteq> []" using q last_in_set [OF that] by auto
    with False chains [OF j] show ?thesis by (auto simp: links heads chain_simps)
  qed
qed

lemma enque_wf:
  fixes level :: u8
  assumes wf: "runq_wf m qs" and p: "p < nr_Proc" "status (proc m p) = TASK_STOPPED"
    and i: "i = unat (if level = 0 then prior (proc m p) else level)" "i < nr_Level"
  shows "\<exists>m'. enque m p level = Inr m' \<and> runq_wf m' (qs[i := qs ! i @ [p]]) \<and> sched_frame m m' \<and>
    (\<forall>j. j \<noteq> p \<longrightarrow> status (proc m' j) = status (proc m j))"
proof -
  let ?is = "qs ! i"
  define pp where "pp = (if ?is = [] then At_pHead i else At_pnext (last ?is))"
  define m1 where "m1 = upd_proc m p (\<lambda>x. x\<lparr>pnext := None\<rparr>)"
  define m' where "m' = upd_proc (proc_store m1 pp (Some p)) p (\<lambda>x. x\<lparr>status := TASK_RUNNING\<rparr>)"
  have lens: "length (room (ProcL m)) = nr_Proc" "length (pHead m) = nr_Level" "length qs = nr_Level"
    and chains: "\<And>j. j < nr_Level \<Longrightarrow> chain (plinks m) (pHead m ! j) (qs ! j)"
    and disj: "\<And>j k. j < nr_Level \<Longrightarrow> k < nr_Level \<Longrightarrow> j \<noteq> k \<Longrightarrow> set (qs ! j) \<inter> set (qs ! k) = {}"
    and bnd: "\<And>j. j < nr_Level \<Longrightarrow> set (qs ! j) \<subseteq> {..< nr_Proc}"
    and run: "\<And>r. r < nr_Proc \<Longrightarrow> status (proc m r) = TASK_RUNNING \<longleftrightarrow> (\<exists>j < nr_Level. r \<in> set (qs ! j))"
    using wf by (auto simp: runq_wf_def)
  have fresh: "p \<notin> set (qs ! j)" if "j < nr_Level" for j using run [OF p(1)] p(2) that by auto
  have "find_end (Suc nr_Proc) m (At_pHead i) = Inr pp"
    unfolding pp_def using chains [OF i(2)] runq_wf_length(1) [OF wf i(2)] by (intro find_end_chain) auto
  then have eq: "enque m p level = Inr m'"
    using p(2) i by (auto simp: enque_def Let_def m1_def m'_def)
  have lt [simp]: "?is \<noteq> [] \<Longrightarrow> last ?is < nr_Proc" using bnd [OF i(2)] last_in_set by blast
  have st: "j \<noteq> p \<Longrightarrow> status (proc m' j) = status (proc m j)" "status (proc m' p) = TASK_RUNNING" for j
    using p lens bnd [OF i(2)] by (auto simp: m'_def m1_def pp_def)
  have links: "plinks m' = (if ?is = [] then (plinks m)(p := None) else (plinks m)(p := None, last ?is := Some p))"
    and heads: "pHead m' = (if ?is = [] then (pHead m)[i := Some p] else pHead m)"
    using p lens bnd [OF i(2)] fresh [OF i(2)] by (auto simp: m'_def m1_def pp_def plinks_def fun_eq_iff)
  have "\<forall>j < nr_Level. chain (plinks m') (pHead m' ! j) (qs[i := ?is @ [p]] ! j)"
    using run_chain_append [OF wf i(2) fresh links heads] by blast
  moreover have "\<forall>r < nr_Proc. status (proc m' r) = TASK_RUNNING \<longleftrightarrow>
      (\<exists>j < nr_Level. r \<in> set (qs[i := ?is @ [p]] ! j))"
  proof (intro allI impI)
    fix r assume "r < nr_Proc"
    with run [of r] st(1) [of r] st(2) lens i(2) show "status (proc m' r) = TASK_RUNNING \<longleftrightarrow>
        (\<exists>j < nr_Level. r \<in> set (qs[i := ?is @ [p]] ! j))"
      by (cases "r = p") (auto simp: nth_list_update)
  qed
  moreover have "length (room (ProcL m')) = nr_Proc" using lens by (auto simp: m'_def m1_def pp_def)
  ultimately have "runq_wf m' (qs[i := ?is @ [p]])"
    using lens disj bnd fresh p(1) i(2) heads by (auto simp: runq_wf_def nth_list_update)
  moreover have "sched_frame m m'"
    using p lens bnd [OF i(2)] by (auto simp: sched_frame_def m'_def m1_def pp_def proc_core_def)
  ultimately show ?thesis using eq st by blast
qed

lemma deque_levels_skip:
  assumes "runq_wf m qs" and "\<forall>i \<in> set is. i < nr_Level \<and> p \<notin> set (qs ! i)"
  shows "deque_levels m p (is @ js) = deque_levels m p js"
  using assms(2)
proof (induction "is")
  case Nil
  then show ?case by simp
next
  case (Cons i "is")
  then have "find_in_queue (Suc nr_Proc) m (At_pHead i) p = Inr None"
    using assms(1) runq_wf_length(1) [OF assms(1), of i]
    by (intro find_in_queue_chain(1) [of m "At_pHead i" "qs ! i"]) (auto simp: runq_wf_def)
  with Cons show ?case by (simp del: find_in_queue.simps)
qed

text \<open>Stopping the process \<open>p\<close> of queue \<open>i\<close> and storing its successor where the pointer to it was.\<close>

definition unlink_proc :: "PManager \<Rightarrow> nat \<Rightarrow> procpp \<Rightarrow> PManager" where
  "unlink_proc m p pp =
     (let m1 = upd_proc m p (\<lambda>x. x\<lparr>status := TASK_STOPPED\<rparr>) in proc_store m1 pp (pnext (proc m1 p)))"

lemma unlink_proc_wf:
  assumes wf: "runq_wf m qs" and i: "i < nr_Level" and q: "qs ! i = as @ p # bs"
  defines "pp \<equiv> (if as = [] then At_pHead i else At_pnext (last as))"
  defines "m' \<equiv> unlink_proc m p pp"
  shows "runq_wf m' (qs[i := as @ bs]) \<and> sched_frame m m' \<and> status (proc m' p) = TASK_STOPPED \<and>
    (\<forall>j. j \<noteq> p \<longrightarrow> status (proc m' j) = status (proc m j))"
proof -
  have lens: "length (room (ProcL m)) = nr_Proc" "length (pHead m) = nr_Level" "length qs = nr_Level"
    and disj: "\<And>j k. j < nr_Level \<Longrightarrow> k < nr_Level \<Longrightarrow> j \<noteq> k \<Longrightarrow> set (qs ! j) \<inter> set (qs ! k) = {}"
    and bnd: "\<And>j. j < nr_Level \<Longrightarrow> set (qs ! j) \<subseteq> {..< nr_Proc}"
    and run: "\<And>r. r < nr_Proc \<Longrightarrow> status (proc m r) = TASK_RUNNING \<longleftrightarrow> (\<exists>j < nr_Level. r \<in> set (qs ! j))"
    using wf by (auto simp: runq_wf_def)
  have d: "distinct (as @ p # bs)" using runq_wf_length(2) [OF wf i] q by simp
  have p: "p < nr_Proc" using bnd [OF i] q by simp
  have la: "last as < nr_Proc" "last as \<noteq> p" if "as \<noteq> []"
  proof -
    have "last as \<in> set (qs ! i)" using that q by simp
    then show "last as < nr_Proc" using bnd [OF i] by blast
    show "last as \<noteq> p" using that d by (auto dest: last_in_set)
  qed
  note m'_def' = m'_def unlink_proc_def Let_def pp_def
  have st: "j \<noteq> p \<Longrightarrow> status (proc m' j) = status (proc m j)" "status (proc m' p) = TASK_STOPPED" for j
    using p lens la by (auto simp: m'_def')
  have links: "plinks m' = (if as = [] then plinks m else (plinks m)(last as := plinks m p))"
    and heads: "pHead m' = (if as = [] then (pHead m)[i := plinks m p] else pHead m)"
    using p lens la by (auto simp: m'_def' plinks_def fun_eq_iff)
  have mem: "r \<in> set (qs[i := as @ bs] ! j) \<longleftrightarrow> r \<in> set (qs ! j) \<and> r \<noteq> p" if "j < nr_Level" for r j
    using that q lens i d disj [OF that i] by (auto simp: nth_list_update)
  have "status (proc m' r) = TASK_RUNNING \<longleftrightarrow> (\<exists>j < nr_Level. r \<in> set (qs[i := as @ bs] ! j))"
    if "r < nr_Proc" for r
    using run [OF that] st(1) [of r] st(2) mem by (cases "r = p") auto
  moreover have "\<forall>j < nr_Level. set (qs[i := as @ bs] ! j) \<subseteq> {..<nr_Proc}"
    using mem bnd by blast
  moreover have "\<forall>j < nr_Level. \<forall>k < nr_Level. j \<noteq> k \<longrightarrow> set (qs[i := as @ bs] ! j) \<inter> set (qs[i := as @ bs] ! k) = {}"
    using mem disj by blast
  moreover have "length (room (ProcL m')) = nr_Proc" "length (pHead m') = nr_Level"
    using lens by (auto simp: m'_def')
  ultimately have "runq_wf m' (qs[i := as @ bs])"
    using lens run_chain_unlink [OF wf i q links heads] by (simp add: runq_wf_def)
  moreover have "sched_frame m m'"
    using p lens la by (auto simp: sched_frame_def m'_def' proc_core_def)
  ultimately show ?thesis using st by blast
qed

lemma deque_wf:
  assumes wf: "runq_wf m qs" and p: "p < nr_Proc" "status (proc m p) = TASK_RUNNING"
  shows "\<exists>m' i as bs. i < nr_Level \<and> qs ! i = as @ p # bs \<and> deque m p = Inr m' \<and>
    runq_wf m' (qs[i := as @ bs]) \<and> sched_frame m m' \<and> status (proc m' p) = TASK_STOPPED \<and>
    (\<forall>j. j \<noteq> p \<longrightarrow> status (proc m' j) = status (proc m j))"
proof -
  obtain i where i: "i < nr_Level" "p \<in> set (qs ! i)" using wf p by (auto simp: runq_wf_def)
  then obtain as bs where q: "qs ! i = as @ p # bs" by (auto simp: in_set_conv_decomp)
  define pp where "pp = (if as = [] then At_pHead i else At_pnext (last as))"
  have only: "p \<notin> set (qs ! j)" if "j < nr_Level" "j \<noteq> i" for j
    using wf that i by (auto simp: runq_wf_def)
  have "find_in_queue (Suc nr_Proc) m (At_pHead i) p = Inr (Some pp)"
    unfolding pp_def using wf i(1) q runq_wf_length(1) [OF wf i(1)]
    by (intro find_in_queue_chain(2) [of m "At_pHead i" "qs ! i"]) (auto simp: runq_wf_def)
  moreover have "[0..<nr_Level] = [0..<i] @ i # [Suc i..<nr_Level]"
    using upt_add_eq_append [of 0 i "nr_Level - i"] i(1) by (simp add: upt_conv_Cons)
  moreover have "deque_levels m p ([0..<i] @ i # [Suc i..<nr_Level]) = deque_levels m p (i # [Suc i..<nr_Level])"
    using only i(1) by (intro deque_levels_skip [OF wf]) auto
  ultimately have "deque m p = Inr (unlink_proc m p pp)"
    using p(2) by (simp add: deque_def unlink_proc_def Let_def del: find_in_queue.simps)
  with unlink_proc_wf [OF wf i(1) q] i(1) q show ?thesis unfolding pp_def by blast
qed

lemma enque_running: "status (proc m p) = TASK_RUNNING \<Longrightarrow> enque m p level = Inr m"
  by (simp add: enque_def)

lemma deque_stopped: "status (proc m p) = TASK_STOPPED \<Longrightarrow> deque m p = Inr m"
  by (simp add: deque_def)

lemma enque_Inr_cases:
  assumes "enque m p level = Inr m'"
  obtains (running) "status (proc m p) = TASK_RUNNING" "m' = m"
    | (stopped) "status (proc m p) = TASK_STOPPED" "unat (if level = 0 then prior (proc m p) else level) < nr_Level"
  using assms by (auto simp: enque_def Let_def split: STATUS.splits if_splits)

text \<open>Both operations keep the invariant whenever they return, and touch nothing outside the queues.\<close>

lemma enque_inv:
  assumes "sched_inv m" and "p < nr_Proc" and "enque m p level = Inr m'"
  shows "sched_inv m' \<and> sched_frame m m' \<and> (\<forall>j. j \<noteq> p \<longrightarrow> status (proc m' j) = status (proc m j))"
  using assms(3)
proof (cases rule: enque_Inr_cases)
  case running
  with assms(1) show ?thesis by simp
next
  case stopped
  have "runq_wf m (run_queues m)" using assms(1) by (simp add: sched_inv_def)
  from enque_wf [OF this assms(2) stopped(1) refl stopped(2)] assms(3) show ?thesis
    by (auto intro: sched_invI)
qed

lemma deque_inv:
  assumes "sched_inv m" and "p < nr_Proc" and "deque m p = Inr m'"
  shows "sched_inv m' \<and> sched_frame m m' \<and> (\<forall>j. j \<noteq> p \<longrightarrow> status (proc m' j) = status (proc m j))"
proof (cases "status (proc m p) = TASK_RUNNING")
  case True
  have "runq_wf m (run_queues m)" using assms(1) by (simp add: sched_inv_def)
  from deque_wf [OF this assms(2) True] assms(3) show ?thesis
    by (auto intro: sched_invI)
next
  case False
  with assms show ?thesis by (auto simp: deque_def split: STATUS.splits)
qed

lemma findProc_loop_Some:
  "findProc_loop ps fs k pd = Some i \<Longrightarrow>
   k \<le> i \<and> i - k < length ps \<and> pid (ps ! (i - k)) = pd \<and> i - k < length fs \<and> \<not> fs ! (i - k)"
proof (induction ps fs k pd rule: findProc_loop.induct)
  case (1 p ps f fs k pd)
  then show ?case by (cases "\<not> f \<and> pid p = pd") (auto simp: nth_Cons' Suc_diff_le)
qed auto

lemma getProc_Some:
  assumes "getProc m pd = Some i"
  shows "i < length (room (ProcL m))" and "pid (proc m i) = pd" and "\<not> isFree (ProcL m) ! i"
  using findProc_loop_Some [of "room (ProcL m)" "isFree (ProcL m)" 0 pd i] assms
  by (auto simp: getProc_def proc_def)

lemma findProc_loop_complete:
  "i < length ps \<Longrightarrow> i < length fs \<Longrightarrow> \<not> fs ! i \<Longrightarrow> pid (ps ! i) = d \<Longrightarrow> findProc_loop ps fs k d \<noteq> None"
proof (induction ps fs k d arbitrary: i rule: findProc_loop.induct)
  case (1 p ps f fs k d)
  then show ?case by (cases i) auto
qed auto

lemma getProc_unique:
  assumes "length (isFree (ProcL m)) = length (room (ProcL m))"
    and "p < length (room (ProcL m))" and "\<not> isFree (ProcL m) ! p" and "pid (proc m p) = d"
    and "\<And>j. j < length (room (ProcL m)) \<Longrightarrow> \<not> isFree (ProcL m) ! j \<Longrightarrow> pid (proc m j) = d \<Longrightarrow> j = p"
  shows "getProc m d = Some p"
proof -
  have "getProc m d \<noteq> None"
    using findProc_loop_complete [of p "room (ProcL m)" "isFree (ProcL m)" d 0] assms(1-4)
    by (simp add: getProc_def proc_def)
  then obtain q where "getProc m d = Some q" by blast
  with getProc_Some [OF this] assms(5) show ?thesis by blast
qed

lemma getProc_bound: "sched_inv m \<Longrightarrow> getProc m pd = Some i \<Longrightarrow> i < nr_Proc"
  using getProc_Some(1) [of m pd i] by (simp add: sched_inv_def runq_wf_def)

lemma findProc_loop_cong:
  "map pid ps = map pid qs \<Longrightarrow> findProc_loop ps fs k pd = findProc_loop qs fs k pd"
proof (induction ps fs k pd arbitrary: qs rule: findProc_loop.induct)
  case (1 p ps f fs k pd)
  then obtain q qs' where "qs = q # qs'" by (cases qs) auto
  with 1 show ?case by auto
qed auto

lemma getProc_current [simp]: "getProc (m\<lparr>pCurrent := c, pPrev := q\<rparr>) d = getProc m d"
  by (simp add: getProc_def)

lemma sched_frame_getProc: "sched_frame m m' \<Longrightarrow> getProc m' pd = getProc m pd"
proof -
  assume f: "sched_frame m m'"
  then have "pid (proc m' j) = pid (proc m j)" for j by (intro proc_core_fields) (simp add: sched_frame_def)
  then have "map pid (room (ProcL m')) = map pid (room (ProcL m))"
    using f by (intro nth_equalityI) (auto simp: sched_frame_def proc_def)
  from findProc_loop_cong [OF this] f show ?thesis unfolding getProc_def sched_frame_def by simp
qed

section \<open>Updates that leave the queues alone\<close>

lemma upd_proc_out: "length (room (ProcL m)) \<le> i \<Longrightarrow> upd_proc m i f = m"
  by (simp add: upd_proc_def list_update_beyond)

lemma runq_wf_upd_other:
  assumes "runq_wf m qs" and "\<And>x. pnext (f x) = pnext x" and "\<And>x. status (f x) = status x"
  shows "runq_wf (upd_proc m i f) qs"
proof (cases "i < length (room (ProcL m))")
  case True
  then have "plinks (upd_proc m i f) = plinks m" using assms(2) by (auto simp: plinks_def fun_eq_iff)
  with True assms show ?thesis by (auto simp: runq_wf_def)
next
  case False
  with assms(1) show ?thesis by (simp add: upd_proc_out)
qed

lemma proc_current [simp]: "proc (m\<lparr>pCurrent := c, pPrev := q\<rparr>) = proc m"
  by (auto simp: proc_def fun_eq_iff)

lemma runq_wf_current [simp]: "runq_wf (m\<lparr>pCurrent := c, pPrev := q\<rparr>) qs = runq_wf m qs"
proof -
  have "proc (m\<lparr>pCurrent := c, pPrev := q\<rparr>) = proc m" by (auto simp: proc_def fun_eq_iff)
  then show ?thesis by (simp add: runq_wf_def plinks_def [abs_def])
qed

lemma runq_wf_pid_num [simp]: "runq_wf (m\<lparr>pid_num := c\<rparr>) qs = runq_wf m qs"
proof -
  have "proc (m\<lparr>pid_num := c\<rparr>) = proc m" by (auto simp: proc_def fun_eq_iff)
  then show ?thesis by (simp add: runq_wf_def plinks_def [abs_def])
qed

lemma Lessor_get_room [simp]: "room (snd (Lessor_get l)) = room l"
  by (simp add: Lessor_get_def split: option.splits)

lemma allocProc_other [simp]:
  "proc (snd (allocProc m)) = proc m" "pHead (snd (allocProc m)) = pHead m"
  "room (ProcL (snd (allocProc m))) = room (ProcL m)" "plinks (snd (allocProc m)) = plinks m"
  "interval (snd (allocProc m)) = interval m" "pCurrent (snd (allocProc m)) = pCurrent m"
  by (auto simp: allocProc_def proc_def plinks_def fun_eq_iff split: prod.splits)
    (metis Lessor_get_room snd_conv)+

lemma runq_wf_allocProc [simp]: "runq_wf (snd (allocProc m)) qs = runq_wf m qs"
  by (simp add: runq_wf_def)

text \<open>A process that is not allocated is not running.\<close>

definition table_ok :: "PManager \<Rightarrow> bool" where
  "table_ok m \<longleftrightarrow> length (isFree (ProcL m)) = nr_Proc \<and>
     (\<forall>j < nr_Proc. isFree (ProcL m) ! j \<longrightarrow> status (proc m j) \<noteq> TASK_RUNNING)"

lemma table_ok_change:
  assumes "table_ok m" and "isFree (ProcL m') = isFree (ProcL m)" and "\<not> isFree (ProcL m) ! p"
    and "\<And>j. j \<noteq> p \<Longrightarrow> status (proc m' j) = status (proc m j)"
  shows "table_ok m'"
  using assms unfolding table_ok_def by metis

lemma table_ok_upd:
  assumes "table_ok m" and "\<And>x. status (f x) = status x"
  shows "table_ok (upd_proc m i f)"
proof (cases "i < length (room (ProcL m))")
  case True
  with assms show ?thesis by (simp add: table_ok_def)
next
  case False
  with assms(1) show ?thesis by (simp add: upd_proc_out)
qed

lemma table_ok_current [simp]: "table_ok (m\<lparr>pCurrent := c, pPrev := q\<rparr>) = table_ok m"
  by (simp add: table_ok_def)

text \<open>The message queues of every process are well formed.\<close>

definition msgq_ok :: "Message Que \<Rightarrow> bool" where
  "msgq_ok q \<longleftrightarrow> que_inv q \<and> nr_ent q = nrMessage \<and> invalid q = invMessage"

definition proc_queues_ok :: "Proc \<Rightarrow> bool" where
  "proc_queues_ok p \<longleftrightarrow> msgq_ok (recvQ p) \<and> msgq_ok (sendQ p) \<and> msgq_ok (recv_anyQ p)"

definition queues_ok :: "PManager \<Rightarrow> bool" where
  "queues_ok m \<longleftrightarrow> list_all proc_queues_ok (room (ProcL m))"

lemma queues_ok_proc: "queues_ok m \<Longrightarrow> i < length (room (ProcL m)) \<Longrightarrow> proc_queues_ok (proc m i)"
  by (simp add: queues_ok_def list_all_length proc_def)

lemma queues_ok_frame:
  assumes "sched_frame m m'" and "queues_ok m"
  shows "queues_ok m'"
proof -
  have "proc_queues_ok (proc m' i) = proc_queues_ok (proc m i)" for i
  proof -
    have c: "proc_core (proc m' i) = proc_core (proc m i)" using assms(1) by (simp add: sched_frame_def)
    show ?thesis using proc_core_fields [OF c] by (simp add: proc_queues_ok_def)
  qed
  with assms show ?thesis by (simp add: queues_ok_def list_all_length proc_def sched_frame_def)
qed

lemma queues_ok_upd:
  assumes "queues_ok m" and "i < length (room (ProcL m)) \<Longrightarrow> proc_queues_ok (f (proc m i))"
  shows "queues_ok (upd_proc m i f)"
proof (cases "i < length (room (ProcL m))")
  case True
  then have "proc_queues_ok (proc (upd_proc m i f) j)" if "j < length (room (ProcL m))" for j
    using that assms queues_ok_proc by simp
  then show ?thesis by (simp add: queues_ok_def list_all_length proc_def)
next
  case False
  with assms(1) show ?thesis by (simp add: upd_proc_out)
qed

lemma queues_ok_kernel_info: "queues_ok m \<Longrightarrow> queues_ok (upd_proc m i (\<lambda>x. x\<lparr>kernel_info := g x\<rparr>))"
  using queues_ok_proc [of m i] by (intro queues_ok_upd) (simp_all add: proc_queues_ok_def)

lemma queues_ok_current [simp]: "queues_ok (m\<lparr>pCurrent := c, pPrev := q\<rparr>) = queues_ok m"
  by (simp add: queues_ok_def)

section \<open>The initial state and an example\<close>

lemma Proc_new_ok:
  "\<exists>p. Proc_new fn0 = Inr p \<and> status p = TASK_INIT \<and> pnext p = None \<and> pid p = 0 \<and>
     (\<forall>q \<in> {recvQ p, sendQ p, recv_anyQ p}. que_inv q \<and> que_list q = [] \<and> nr_ent q = nrMessage \<and> invalid q = invMessage)"
proof -
  obtain q where q: "Que_new nrMessage invMessage (Message_id 0) = Inr q" "que_wf q []" "nr_ent q = nrMessage"
    "invalid q = invMessage"
    using Que_new_wf [of nrMessage invMessage "Message_id 0"] by blast
  then have "que_inv q" "que_list q = []" by (simp_all add: que_invI que_list_wf)
  with q show ?thesis by (simp add: Proc_new_def)
qed

lemma proc_PManager_of: "i < nr_Proc \<Longrightarrow> proc (PManager_of p0) i = p0"
  by (simp add: proc_def PManager_of_def Lessor_new_def)

lemma PManager_of_wf:
  assumes "status p0 \<noteq> TASK_RUNNING"
  shows "runq_wf (PManager_of p0) (replicate nr_Level [])"
proof -
  have "length (room (ProcL (PManager_of p0))) = nr_Proc" by (simp add: PManager_of_def Lessor_new_def)
  with assms show ?thesis by (auto simp: runq_wf_def PManager_of_def [of p0] proc_PManager_of [unfolded PManager_of_def])
qed

text \<open>A process table with one stopped system process, and the same with that process in its run queue.\<close>

definition demo_proc :: Proc where
  "demo_proc = projr (Proc_new kernel2user)"

definition demo_pm :: PManager where
  "demo_pm = upd_proc (snd (allocProc (PManager_of demo_proc))) 0 (\<lambda>p. p\<lparr>pid := 7, prior := Psys, status := TASK_STOPPED\<rparr>)"

definition demo_pm_run :: PManager where
  "demo_pm_run = proc_store (upd_proc demo_pm 0 (\<lambda>p. p\<lparr>status := TASK_RUNNING\<rparr>)) (At_pHead 1) (Some 0)"

lemma demo_table: "length (room (ProcL (PManager_of p0))) = nr_Proc" "0 < nr_Proc" "Suc 0 < nr_Level"
  by (simp_all add: PManager_of_def Lessor_new_def nr_Proc_def nr_Level_def)

lemma demo_status [simp]: "status demo_proc = TASK_INIT" "pnext demo_proc = None" "pid demo_proc = 0"
  using Proc_new_ok [of kernel2user] by (auto simp: demo_proc_def)

lemma demo_pm_inv: "runq_wf demo_pm (replicate nr_Level [])"
proof -
  let ?f = "\<lambda>p. p\<lparr>pid := 7, prior := Psys, status := TASK_STOPPED\<rparr>"
  have "runq_wf (snd (allocProc (PManager_of demo_proc))) (replicate nr_Level [])"
    unfolding runq_wf_allocProc by (rule PManager_of_wf) simp
  then show ?thesis using demo_table by (auto simp: runq_wf_def demo_pm_def)
qed

lemma demo_pm_proc: "status (proc demo_pm 0) = TASK_STOPPED" "prior (proc demo_pm 0) = Psys" "unat Psys = 1"
  using demo_table by (simp_all add: demo_pm_def Psys_def)

lemma demo_pm_run_inv: "runq_wf demo_pm_run ((replicate nr_Level [])[1 := [0]])"
  using demo_pm_inv demo_table
  by (auto simp: runq_wf_def demo_pm_run_def nth_list_update demo_pm_def plinks_def proc_PManager_of)

lemma demo_pm_run_proc: "status (proc demo_pm_run 0) = TASK_RUNNING"
  using demo_pm_inv demo_table by (auto simp: runq_wf_def demo_pm_run_def)

section \<open>Properties\<close>

text \<open>
  C21. \<^verbatim>\<open>PManager::enque\<close>: a stopped process is appended to the run queue of the requested level (of its
  own priority when the level is 0), becomes running, and nothing else changes; a running process is
  left alone; a process in any other state, or a level above 4, is a panic.
\<close>

theorem enque_correct:
  fixes level :: u8
  assumes "sched_inv m" and "p < nr_Proc"
  defines "i \<equiv> unat (if level = 0 then prior (proc m p) else level)"
  shows "(status (proc m p) = TASK_STOPPED \<and> i < nr_Level \<longrightarrow>
      (\<exists>m'. enque m p level = Inr m' \<and> sched_inv m' \<and> sched_frame m m' \<and>
        run_queues m' = (run_queues m)[i := run_queues m ! i @ [p]] \<and>
        status (proc m' p) = TASK_RUNNING)) \<and>
    (status (proc m p) = TASK_RUNNING \<longrightarrow> enque m p level = Inr m) \<and>
    (status (proc m p) \<in> {TASK_INIT, TASK_SLEEP} \<longrightarrow> (\<exists>msg. enque m p level = Inl (Panic msg))) \<and>
    (status (proc m p) = TASK_STOPPED \<and> unat level > nr_Level \<longrightarrow> (\<exists>msg. enque m p level = Inl (Panic msg)))"
proof (intro conjI impI)
  assume a: "status (proc m p) = TASK_STOPPED \<and> i < nr_Level"
  with enque_wf [of m "run_queues m" p i level] assms obtain m' where m': "enque m p level = Inr m'"
    "runq_wf m' ((run_queues m)[i := run_queues m ! i @ [p]])" "sched_frame m m'"
    by (auto simp: sched_inv_def)
  moreover have "length (run_queues m) = nr_Level" using assms(1) by (simp add: sched_inv_def runq_wf_def)
  then have "\<exists>j < nr_Level. p \<in> set ((run_queues m)[i := run_queues m ! i @ [p]] ! j)"
    using a by (intro exI [of _ i]) auto
  then have "status (proc m' p) = TASK_RUNNING" using m'(2) assms(2) by (simp add: runq_wf_def)
  ultimately show "\<exists>m'. enque m p level = Inr m' \<and> sched_inv m' \<and> sched_frame m m' \<and>
      run_queues m' = (run_queues m)[i := run_queues m ! i @ [p]] \<and> status (proc m' p) = TASK_RUNNING"
    using sched_invI runq_wf_queues by blast
qed (auto simp: enque_def nr_Level_def)

theorem enque_correct_witness:
  "\<exists>m'. enque demo_pm 0 0 = Inr m' \<and> sched_inv m' \<and> run_queues m' ! 1 = [0] \<and> status (proc m' 0) = TASK_RUNNING"
proof -
  have "run_queues demo_pm = replicate nr_Level []" by (rule runq_wf_queues [OF demo_pm_inv])
  with enque_correct [OF sched_invI [OF demo_pm_inv] demo_table(2), of 0] demo_table(3)
  show ?thesis by (auto simp: demo_pm_proc)
qed

text \<open>
  C22. \<^verbatim>\<open>PManager::deque\<close>: a running process is taken out of the queue that holds it, keeping the order of
  the others, and becomes stopped; nothing else changes. A stopped process is left alone.
\<close>

theorem deque_correct:
  assumes "sched_inv m" and "p < nr_Proc"
  shows "(status (proc m p) = TASK_RUNNING \<longrightarrow>
      (\<exists>m' i as bs. deque m p = Inr m' \<and> sched_inv m' \<and> sched_frame m m' \<and> status (proc m' p) = TASK_STOPPED \<and>
        i < nr_Level \<and> run_queues m ! i = as @ p # bs \<and> run_queues m' = (run_queues m)[i := as @ bs])) \<and>
    (status (proc m p) = TASK_STOPPED \<longrightarrow> deque m p = Inr m) \<and>
    (status (proc m p) \<in> {TASK_INIT, TASK_SLEEP} \<longrightarrow> (\<exists>msg. deque m p = Inl (Panic msg)))"
proof (intro conjI impI)
  assume "status (proc m p) = TASK_RUNNING"
  from deque_wf [OF _ assms(2) this, of "run_queues m"] assms(1)
  show "\<exists>m' i as bs. deque m p = Inr m' \<and> sched_inv m' \<and> sched_frame m m' \<and> status (proc m' p) = TASK_STOPPED \<and>
      i < nr_Level \<and> run_queues m ! i = as @ p # bs \<and> run_queues m' = (run_queues m)[i := as @ bs]"
    unfolding sched_inv_def by (metis runq_wf_queues)
qed (auto simp: deque_def)

theorem deque_correct_witness:
  "\<exists>m'. deque demo_pm_run 0 = Inr m' \<and> sched_inv m' \<and> status (proc m' 0) = TASK_STOPPED"
  using deque_correct [OF sched_invI [OF demo_pm_run_inv] demo_table(2)] demo_pm_run_proc by blast

end
