(* ===== verification/Task.thy ===== *)
theory Task
  imports Process Timer
begin

text \<open>
  Scheduling, sleeping and interrupt waiting: \<^verbatim>\<open>src/kernel/task.cpp\<close>, \<^verbatim>\<open>src/kernel/timerHandler.cpp\<close> and
  the \<^verbatim>\<open>setFrame2TSS\<close> of \<^verbatim>\<open>src/kernel/Tss.cpp\<close>.

  The state is the set of kernel objects these routines share. \<^verbatim>\<open>schedule\<close> ends in one of three ways:
  it returns to its caller, it goes back to the same process, or it switches to another process and
  runs the function that process left in \<^verbatim>\<open>kernel_info.ret_from\<close>. The register \<^verbatim>\<open>ebp\<close> that \<^verbatim>\<open>swap_esp\<close> saves
  is an argument.
\<close>

section \<open>State\<close>

record irq_entry =
  irq :: int
  irq_pid :: int

definition invalid_entry :: irq_entry where
  "invalid_entry = \<lparr>irq = -1, irq_pid = PID_INVALID\<rparr>"

definition entry_eq :: "irq_entry \<Rightarrow> irq_entry \<Rightarrow> bool" where
  "entry_eq a b \<longleftrightarrow> irq a = irq b"

record tss_s =
  ss0 :: u32
  esp0 :: u32

record kernel =
  pManager :: PManager
  timer :: Timer
  sched_req :: bool
  irqQue :: "irq_entry Que"
  tss :: tss_s
  cpu_cr3 :: u32

datatype sched_end = To_caller | Same_process nat | Switched nat ret_fn

section \<open>Operations\<close>

definition setFrame2TSS :: "tss_s \<Rightarrow> kernel_info_s \<Rightarrow> tss_s" where
  "setFrame2TSS t ki = t\<lparr>ss0 := ki_ss ki, esp0 := stack_top ki\<rparr>"

definition reschedule :: "kernel \<Rightarrow> kernel" where
  "reschedule k = k\<lparr>sched_req := True\<rparr>"

text \<open>The level a process chosen at level \<open>i\<close> is put back at.\<close>

definition next_level :: "nat \<Rightarrow> nat" where
  "next_level i = (if i < nr_Level - 1 then i + 1 else nr_Level - 1)"

text \<open>The body of the loop of \<^verbatim>\<open>schedule\<close> for a level \<open>i\<close> whose queue is not empty and begins with \<open>p\<close>.\<close>

definition schedule_to :: "kernel \<Rightarrow> nat \<Rightarrow> nat \<Rightarrow> u32 \<Rightarrow> (kernel \<times> sched_end) kres" where
  "schedule_to k i p ebp =
     (let m = pManager k;
          p_prev = pCurrent m;
          nlevel = next_level i;
          m1 = upd_proc m p (\<lambda>x. x\<lparr>status := TASK_STOPPED\<rparr>);
          m2 = proc_store m1 (At_pHead i) (pnext (proc m1 p)) in
      rbind (enque m2 p (of_nat nlevel)) (\<lambda>m3.
        (let k1 = k\<lparr>pManager := m3,
                     timer := reset_quantum (timer k) (int (unat (interval m3 ! nlevel)))
                                (of_int (pid (proc m3 p)))\<rparr>;
             fn = ret_from (kernel_info (proc m3 p)) in
         if Some p \<noteq> p_prev then
           (let m4 = m3\<lparr>pCurrent := Some p, pPrev := p_prev\<rparr>;
                t' = setFrame2TSS (tss k) (kernel_info (proc m4 p));
                m5 = upd_proc m4 p (\<lambda>x. x\<lparr>kernel_info := (kernel_info x)\<lparr>ret_from := kernel2user\<rparr>\<rparr>) in
            rbind (deref p_prev) (\<lambda>q.
              (let m6 = upd_proc m5 q (\<lambda>x. x\<lparr>kernel_info := (kernel_info x)\<lparr>ki_sp := ebp\<rparr>\<rparr>)
               in Inr (k1\<lparr>pManager := m6, tss := t', cpu_cr3 := cr3 (mm (proc m5 p))\<rparr>, Switched p fn))))
         else Inr (k1, Same_process p))))"

fun schedule_levels :: "kernel \<Rightarrow> nat list \<Rightarrow> u32 \<Rightarrow> (kernel \<times> sched_end) kres" where
  "schedule_levels k [] ebp = Inr (k, To_caller)"
| "schedule_levels k (i # is) ebp =
     (case pHead (pManager k) ! i of
        Some p \<Rightarrow> schedule_to k i p ebp
      | None \<Rightarrow> schedule_levels k is ebp)"

definition schedule :: "kernel \<Rightarrow> u32 \<Rightarrow> (kernel \<times> sched_end) kres" where
  "schedule k ebp =
     (if \<not> sched_req k \<and> \<not> quantum_exceeded (timer k) then Inr (k, To_caller)
      else schedule_levels (k\<lparr>sched_req := False, timer := (timer k)\<lparr>quantum_exceeded := False\<rparr>\<rparr>)
             [0..<nr_Level] ebp)"

definition sleep_pid :: "kernel \<Rightarrow> int \<Rightarrow> int \<Rightarrow> kernel kres" where
  "sleep_pid k pd millisec =
     (case getProc (pManager k) pd of
        None \<Rightarrow> Inl (Panic ''sleep()::cannot find process'')
      | Some p \<Rightarrow>
          rbind (deque (pManager k) p) (\<lambda>m.
            (let k1 = k\<lparr>pManager := m\<rparr>;
                 k2 = (if millisec > 0
                       then k1\<lparr>timer := Timer_set (timer k1) (millisec div int (unat Timer_interval)) Wakeup
                                          (of_int (pid (proc m p)))\<rparr>
                       else k1)
             in Inr (reschedule k2))))"

definition sleep_ms :: "kernel \<Rightarrow> int \<Rightarrow> kernel kres" where
  "sleep_ms k millisec =
     rbind (deref (pCurrent (pManager k))) (\<lambda>c. sleep_pid k (pid (proc (pManager k) c)) millisec)"

definition sleep_callback :: "kernel \<Rightarrow> ret_fn \<Rightarrow> kernel kres" where
  "sleep_callback k f =
     rbind (deref (pCurrent (pManager k))) (\<lambda>c.
       (let m = upd_proc (pManager k) c (\<lambda>x. x\<lparr>kernel_info := (kernel_info x)\<lparr>ret_from := f\<rparr>\<rparr>)
        in sleep_pid (k\<lparr>pManager := m\<rparr>) (pid (proc m c)) (-1)))"

definition wakeup :: "kernel \<Rightarrow> int \<Rightarrow> kernel kres" where
  "wakeup k pd =
     (case getProc (pManager k) pd of
        None \<Rightarrow> Inl (Panic ''sleep()::cannot find process '')
      | Some p \<Rightarrow> rbind (enque (pManager k) p 0) (\<lambda>m. Inr (reschedule (k\<lparr>pManager := m\<rparr>))))"

definition wait_interrupt :: "kernel \<Rightarrow> int \<Rightarrow> kernel kres" where
  "wait_interrupt k n =
     rbind (deref (pCurrent (pManager k))) (\<lambda>c.
     rbind (Que_enque (irqQue k) \<lparr>irq = n, irq_pid = pid (proc (pManager k) c)\<rparr>) (\<lambda>q.
       sleep_ms (k\<lparr>irqQue := q\<rparr>) (-1)))"

definition notify :: "kernel \<Rightarrow> int \<Rightarrow> kernel kres" where
  "notify k n =
     rbind (Que_deque_by entry_eq (irqQue k) \<lparr>irq = n, irq_pid = 0\<rparr>) (\<lambda>(e, q).
       if entry_eq e invalid_entry then Inr (k\<lparr>irqQue := q\<rparr>)
       else wakeup (k\<lparr>irqQue := q\<rparr>) (irq_pid e))"

text \<open>The loop of \<^verbatim>\<open>timerHandler\<close> over the expired entries, and the tick.\<close>

fun expire_loop :: "kernel \<Rightarrow> timer_entry list \<Rightarrow> (kernel \<times> timer_entry list) kres" where
  "expire_loop k [] = Inr (k, [])"
| "expire_loop k (p # ps) =
     (if clocks p > 0 then Inr (k, p # ps)
      else
        case ttype p of
          TaskSwitch \<Rightarrow> expire_loop (k\<lparr>timer := (timer k)\<lparr>quantum_exceeded := True\<rparr>\<rparr>) ps
        | Wakeup \<Rightarrow> rbind (wakeup k (sint (pr_id p))) (\<lambda>k1. expire_loop k1 ps)
        | _ \<Rightarrow> expire_loop k ps)"

definition count_tick :: "Timer \<Rightarrow> Timer" where
  "count_tick t =
     (let ms = msecond t + ucast Timer_interval;
          t1 = t\<lparr>msecond := ms\<rparr>
      in if unat ms > 1000 then t1\<lparr>second := second t1 + 1, msecond := 0\<rparr> else t1)"

definition timerHandler :: "kernel \<Rightarrow> kernel kres" where
  "timerHandler k =
     (let t = passClocks (count_tick (timer k)) 1 in
      rbind (expire_loop (k\<lparr>timer := t\<rparr>) (timers t)) (\<lambda>(k1, ps).
        Inr (k1\<lparr>timer := (timer k1)\<lparr>timers := ps\<rparr>\<rparr>)))"

section \<open>The invariant of the scheduler\<close>

definition kernel_inv :: "kernel \<Rightarrow> bool" where
  "kernel_inv k \<longleftrightarrow> sched_inv (pManager k) \<and> table_ok (pManager k) \<and> queues_ok (pManager k) \<and>
     timers_sorted (timer k) \<and> que_inv (irqQue k)"

lemma kernel_inv_fields [simp]:
  "kernel_inv (k\<lparr>sched_req := b\<rparr>) = kernel_inv k"
  "timers_sorted (t\<lparr>quantum_exceeded := b\<rparr>) = timers_sorted t"
  "kernel_inv (reschedule k) = kernel_inv k"
  by (simp_all add: kernel_inv_def timers_sorted_def reschedule_def)

text \<open>A change of the scheduler state within its frame keeps the whole invariant.\<close>

lemma kernel_inv_sched:
  assumes "kernel_inv k" and "sched_inv m" and "sched_frame (pManager k) m"
    and "\<not> isFree (ProcL (pManager k)) ! p"
    and "\<forall>j. j \<noteq> p \<longrightarrow> status (proc m j) = status (proc (pManager k) j)"
  shows "kernel_inv (k\<lparr>pManager := m\<rparr>)"
  using assms queues_ok_frame table_ok_change [of "pManager k" m p] by (auto simp: kernel_inv_def sched_frame_def)

lemma wakeup_inv:
  assumes "kernel_inv k" and "wakeup k pd = Inr k'"
  shows "kernel_inv k' \<and> timer k' = timer k \<and> irqQue k' = irqQue k \<and> sched_frame (pManager k) (pManager k')"
proof -
  from assms(2) obtain p m where p: "getProc (pManager k) pd = Some p" "enque (pManager k) p 0 = Inr m"
    "k' = reschedule (k\<lparr>pManager := m\<rparr>)"
    by (auto simp: wakeup_def rbind_eq_Inr split: option.splits)
  have inv: "sched_inv (pManager k)" using assms(1) by (simp add: kernel_inv_def)
  note e = enque_inv [OF inv getProc_bound [OF inv p(1)] p(2)]
  then have "kernel_inv (k\<lparr>pManager := m\<rparr>)"
    using assms(1) getProc_Some(3) [OF p(1)] by (intro kernel_inv_sched [of k m p]) auto
  with e p(3) show ?thesis by (auto simp: kernel_inv_def reschedule_def)
qed

lemma sleep_pid_inv:
  assumes "kernel_inv k" and "sleep_pid k pd ms = Inr k'"
  shows "kernel_inv k' \<and> irqQue k' = irqQue k \<and> sched_frame (pManager k) (pManager k')"
proof -
  from assms(2) obtain p m where p: "getProc (pManager k) pd = Some p" "deque (pManager k) p = Inr m"
    "k' = reschedule (if ms > 0 then k\<lparr>pManager := m, timer := Timer_set (timer k)
       (ms div int (unat Timer_interval)) Wakeup (of_int (pid (proc m p)))\<rparr> else k\<lparr>pManager := m\<rparr>)"
    by (auto simp: sleep_pid_def rbind_eq_Inr Let_def split: option.splits)
  have inv: "sched_inv (pManager k)" using assms(1) by (simp add: kernel_inv_def)
  note d = deque_inv [OF inv getProc_bound [OF inv p(1)] p(2)]
  then have "kernel_inv (k\<lparr>pManager := m\<rparr>)"
    using assms(1) getProc_Some(3) [OF p(1)] by (intro kernel_inv_sched [of k m p]) auto
  with d p(3) show ?thesis by (auto simp: kernel_inv_def reschedule_def)
qed

lemma sleep_ms_inv:
  "kernel_inv k \<Longrightarrow> sleep_ms k ms = Inr k' \<Longrightarrow>
   kernel_inv k' \<and> irqQue k' = irqQue k \<and> sched_frame (pManager k) (pManager k')"
  by (auto simp: sleep_ms_def rbind_eq_Inr dest: sleep_pid_inv)

lemma wait_interrupt_inv: "kernel_inv k \<Longrightarrow> wait_interrupt k n = Inr k' \<Longrightarrow> kernel_inv k'"
proof -
  assume inv: "kernel_inv k" and "wait_interrupt k n = Inr k'"
  then obtain c q where q: "Que_enque (irqQue k) \<lparr>irq = n, irq_pid = pid (proc (pManager k) c)\<rparr> = Inr q"
    and s: "sleep_ms (k\<lparr>irqQue := q\<rparr>) (-1) = Inr k'"
    by (auto simp: wait_interrupt_def rbind_eq_Inr)
  have "que_inv q" using Que_enque_inv [OF _ q] inv by (simp add: kernel_inv_def)
  then have "kernel_inv (k\<lparr>irqQue := q\<rparr>)" using inv by (simp add: kernel_inv_def)
  from sleep_ms_inv [OF this s] show ?thesis by simp
qed

lemma notify_inv: "kernel_inv k \<Longrightarrow> notify k n = Inr k' \<Longrightarrow> kernel_inv k'"
proof -
  assume inv: "kernel_inv k" and n: "notify k n = Inr k'"
  then obtain e q where q: "Que_deque_by entry_eq (irqQue k) \<lparr>irq = n, irq_pid = 0\<rparr> = Inr (e, q)"
    and r: "k' = k\<lparr>irqQue := q\<rparr> \<or> wakeup (k\<lparr>irqQue := q\<rparr>) (irq_pid e) = Inr k'"
    by (auto simp: notify_def rbind_eq_Inr split: if_splits)
  have "que_inv q" using Que_deque_by_inv [OF _ q] inv by (simp add: kernel_inv_def)
  then have "kernel_inv (k\<lparr>irqQue := q\<rparr>)" using inv by (simp add: kernel_inv_def)
  with r wakeup_inv [of "k\<lparr>irqQue := q\<rparr>" "irq_pid e" k'] show ?thesis by (elim disjE) auto
qed

text \<open>The loop of the tick handler drops the expired entries and keeps the rest.\<close>

lemma expire_loop_inv:
  assumes "kernel_inv k" and "expire_loop k ps = Inr (k', rest)"
  shows "kernel_inv k' \<and> rest = dropWhile (\<lambda>p. clocks p \<le> 0) ps \<and> timers (timer k') = timers (timer k) \<and>
    msecond (timer k') = msecond (timer k) \<and> second (timer k') = second (timer k) \<and>
    sched_frame (pManager k) (pManager k')"
  using assms
proof (induction k ps arbitrary: k' rest rule: expire_loop.induct)
  case (1 k)
  then show ?case by simp
next
  case (2 k p ps)
  show ?case
  proof (cases "clocks p > 0")
    case True
    with "2.prems" show ?thesis by auto
  next
    case False
    show ?thesis
    proof (cases "ttype p")
      case Wakeup
      with False "2.prems"(2) obtain k1 where k1: "wakeup k (sint (pr_id p)) = Inr k1"
        "expire_loop k1 ps = Inr (k', rest)" by (auto simp: rbind_eq_Inr)
      note w = wakeup_inv [OF "2.prems"(1) k1(1)]
      from "2.IH"(4) [OF False Wakeup, of k1 k' rest] k1(2) w False show ?thesis
        by (auto intro: sched_frame_trans)
    next
      case TaskSwitch
      have "kernel_inv (k\<lparr>timer := (timer k)\<lparr>quantum_exceeded := True\<rparr>\<rparr>)"
        using "2.prems"(1) by (simp add: kernel_inv_def)
      with "2.IH"(3) [OF False TaskSwitch, of k' rest] "2.prems"(2) False TaskSwitch show ?thesis by simp
    next
      case T_INVALID
      with "2.IH"(1) [OF False T_INVALID "2.prems"(1), of k' rest] "2.prems"(2) False show ?thesis by simp
    next
      case WatchDog
      with "2.IH"(2) [OF False WatchDog "2.prems"(1), of k' rest] "2.prems"(2) False show ?thesis by simp
    qed
  qed
qed

lemma timerHandler_inv: "kernel_inv k \<Longrightarrow> timerHandler k = Inr k' \<Longrightarrow> kernel_inv k'"
proof -
  assume inv: "kernel_inv k" and r: "timerHandler k = Inr k'"
  define t where "t = passClocks (count_tick (timer k)) 1"
  have "timers (count_tick (timer k)) = timers (timer k)" by (simp add: count_tick_def Let_def)
  then have "timers_sorted (count_tick (timer k))" using inv by (simp add: kernel_inv_def timers_sorted_def)
  then have "timers_sorted t" by (simp add: t_def)
  moreover obtain k1 ps where "expire_loop (k\<lparr>timer := t\<rparr>) (timers t) = Inr (k1, ps)"
    "k' = k1\<lparr>timer := (timer k1)\<lparr>timers := ps\<rparr>\<rparr>"
    using r by (auto simp: timerHandler_def Let_def rbind_eq_Inr t_def)
  ultimately have t: "timers_sorted t" "expire_loop (k\<lparr>timer := t\<rparr>) (timers t) = Inr (k1, ps)"
    "k' = k1\<lparr>timer := (timer k1)\<lparr>timers := ps\<rparr>\<rparr>" by simp_all
  have "kernel_inv (k\<lparr>timer := t\<rparr>)" using inv t(1) by (simp add: kernel_inv_def)
  note e = expire_loop_inv [OF this t(2)]
  have "sorted (map clocks (dropWhile (\<lambda>p. clocks p \<le> 0) (timers t)))"
    using t(1) unfolding timers_sorted_def
    by (metis map_append sorted_append takeWhile_dropWhile_id)
  with e t(3) show ?thesis by (simp add: kernel_inv_def timers_sorted_def)
qed

section \<open>The scheduler\<close>

text \<open>What the choice of the process at the head of queue \<open>i\<close> does to the queues.\<close>

definition rotate_queues :: "nat list list \<Rightarrow> nat \<Rightarrow> nat list list" where
  "rotate_queues qs i =
     (let qs1 = qs[i := tl (qs ! i)] in qs1[next_level i := qs1 ! next_level i @ [hd (qs ! i)]])"

lemma next_level_bound: "next_level i < nr_Level" "0 < next_level i" "of_nat (next_level i) \<noteq> (0 :: u8)"
  "unat (of_nat (next_level i) :: u8) = next_level i"
proof -
  show 1: "next_level i < nr_Level" "0 < next_level i" by (auto simp: next_level_def nr_Level_def)
  then have "next_level i \<in> {1, 2, 3}" by (auto simp: nr_Level_def)
  then show "of_nat (next_level i) \<noteq> (0 :: u8)" "unat (of_nat (next_level i) :: u8) = next_level i" by auto
qed

lemma schedule_to_runs:
  assumes inv: "kernel_inv k" and i: "i < nr_Level" and hd: "run_queues (pManager k) ! i = p # bs"
    and cur: "pCurrent (pManager k) = Some c"
  defines "m \<equiv> pManager k"
  shows "\<exists>k' e. schedule_to k i p ebp = Inr (k', e) \<and> kernel_inv k' \<and> pCurrent (pManager k') = Some p \<and>
    run_queues (pManager k') = rotate_queues (run_queues m) i \<and>
    sched_req k' = sched_req k \<and> irqQue k' = irqQue k \<and>
    timer k' = reset_quantum (timer k) (int (unat (interval m ! next_level i))) (of_int (pid (proc m p))) \<and>
    (if p = c then e = Same_process p \<and> tss k' = tss k \<and> cpu_cr3 k' = cpu_cr3 k
     else e = Switched p (ret_from (kernel_info (proc m p))) \<and>
       tss k' = setFrame2TSS (tss k) (kernel_info (proc m p)) \<and> cpu_cr3 k' = cr3 (mm (proc m p)))"
proof -
  let ?n = "next_level i" and ?qs = "run_queues m"
  have wf: "runq_wf m ?qs" using inv by (simp add: kernel_inv_def sched_inv_def m_def)
  have lens: "length ?qs = nr_Level" "length (room (ProcL m)) = nr_Proc" and p: "p < nr_Proc"
    using wf i hd by (auto simp: runq_wf_def m_def)
  define m2 where "m2 = unlink_proc m p (At_pHead i)"
  note u = unlink_proc_wf [OF wf i, of "[]" p bs, folded m_def, simplified, folded m2_def]
  have u: "runq_wf m2 (?qs[i := bs])" "sched_frame m m2" "status (proc m2 p) = TASK_STOPPED"
    "\<forall>j. j \<noteq> p \<longrightarrow> status (proc m2 j) = status (proc m j)"
    using u hd by (auto simp: m_def)
  obtain m3 where m3: "enque m2 p (of_nat ?n) = Inr m3"
    "runq_wf m3 ((?qs[i := bs])[?n := ?qs[i := bs] ! ?n @ [p]])" "sched_frame m2 m3"
    "\<forall>j. j \<noteq> p \<longrightarrow> status (proc m3 j) = status (proc m2 j)"
    using enque_wf [OF u(1) p u(3), of ?n "of_nat ?n"] next_level_bound by auto
  have fr: "sched_frame m m3" using u(2) m3(3) by (rule sched_frame_trans)
  have core: "proc_core (proc m3 p) = proc_core (proc m p)" using fr by (simp add: sched_frame_def)
  note same = proc_core_fields [OF core]
  have same_c: "p = c \<Longrightarrow> pid (proc m3 c) = pid (proc m c)" using same(1) by simp
  have len3: "length (room (ProcL m3)) = nr_Proc" using m3(2) by (simp add: runq_wf_def)
  have rot: "(?qs[i := bs])[?n := ?qs[i := bs] ! ?n @ [p]] = rotate_queues ?qs i"
    using hd by (simp add: rotate_queues_def Let_def m_def)
  have q3: "queues_ok m3" using queues_ok_frame [OF fr] inv by (simp add: kernel_inv_def m_def)
  have "\<exists>j < nr_Level. p \<in> set (?qs ! j)" using hd i by (auto simp: m_def)
  then have "status (proc m p) = TASK_RUNNING" using wf p by (simp add: runq_wf_def)
  then have "\<not> isFree (ProcL m) ! p" using inv p by (auto simp: kernel_inv_def table_ok_def m_def)
  then have t3: "table_ok m3"
    using inv u(4) m3(4) fr table_ok_change [of m m3 p] by (simp add: kernel_inv_def m_def sched_frame_def)
  have int3: "interval m3 = interval m" using fr by (simp add: sched_frame_def)
  have run: "schedule_to k i p ebp = (let k1 = k\<lparr>pManager := m3, timer := reset_quantum (timer k)
      (int (unat (interval m ! ?n))) (of_int (pid (proc m p)))\<rparr> in
      if p \<noteq> c then
        Inr (k1\<lparr>pManager := upd_proc (upd_proc (m3\<lparr>pCurrent := Some p, pPrev := Some c\<rparr>) p
              (\<lambda>x. x\<lparr>kernel_info := (kernel_info x)\<lparr>ret_from := kernel2user\<rparr>\<rparr>)) c
              (\<lambda>x. x\<lparr>kernel_info := (kernel_info x)\<lparr>ki_sp := ebp\<rparr>\<rparr>),
            tss := setFrame2TSS (tss k) (kernel_info (proc m p)), cpu_cr3 := cr3 (mm (proc m p))\<rparr>,
          Switched p (ret_from (kernel_info (proc m p))))
      else Inr (k1, Same_process p))"
    using m3(1) cur p len3
    by (auto simp: schedule_to_def Let_def same same_c int3 m2_def unlink_proc_def m_def)
  show ?thesis
  proof (cases "p = c")
    case True
    have "pCurrent m3 = Some c" using fr cur by (simp add: sched_frame_def m_def)
    with True run inv q3 t3 m3(2) rot show ?thesis
      by (simp add: Let_def kernel_inv_def sched_invI runq_wf_queues)
  next
    case False
    define m6 where "m6 = upd_proc (upd_proc (m3\<lparr>pCurrent := Some p, pPrev := Some c\<rparr>) p
       (\<lambda>x. x\<lparr>kernel_info := (kernel_info x)\<lparr>ret_from := kernel2user\<rparr>\<rparr>)) c
       (\<lambda>x. x\<lparr>kernel_info := (kernel_info x)\<lparr>ki_sp := ebp\<rparr>\<rparr>)"
    have "runq_wf m6 (rotate_queues ?qs i)"
      unfolding m6_def using m3(2) rot by (intro runq_wf_upd_other) simp_all
    moreover have "queues_ok m6"
      unfolding m6_def using q3 by (intro queues_ok_kernel_info) simp
    moreover have "table_ok m6" unfolding m6_def using t3 by (intro table_ok_upd) simp_all
    moreover have "pCurrent m6 = Some p" by (simp add: m6_def)
    ultimately show ?thesis using False run inv
      by (simp add: Let_def kernel_inv_def sched_invI runq_wf_queues flip: m6_def)
  qed
qed

lemma pHead_queue:
  assumes "sched_inv m" and "i < nr_Level"
  shows "pHead m ! i = (case run_queues m ! i of [] \<Rightarrow> None | p # _ \<Rightarrow> Some p)"
proof -
  have "chain (plinks m) (pHead m ! i) (run_queues m ! i)" using assms by (simp add: sched_inv_def runq_wf_def)
  then show ?thesis by (cases "run_queues m ! i") auto
qed

lemma schedule_levels_skip:
  assumes "sched_inv (pManager k)" and "\<forall>j \<in> set is. j < nr_Level \<and> run_queues (pManager k) ! j = []"
  shows "schedule_levels k (is @ js) ebp = schedule_levels k js ebp"
  using assms(2) by (induction "is") (auto simp: pHead_queue [OF assms(1)])

lemma schedule_to_current: "schedule_to k i p ebp = Inr r \<Longrightarrow> \<exists>c. pCurrent (pManager k) = Some c"
  by (cases "pCurrent (pManager k)") (auto simp: schedule_to_def Let_def rbind_eq_Inr)

lemma schedule_levels_inv:
  "kernel_inv k \<Longrightarrow> schedule_levels k is ebp = Inr (k', e) \<Longrightarrow> set is \<subseteq> {..<nr_Level} \<Longrightarrow> kernel_inv k'"
proof (induction "is")
  case Nil
  then show ?case by simp
next
  case (Cons i "is")
  then have inv: "sched_inv (pManager k)" and i: "i < nr_Level" by (auto simp: kernel_inv_def)
  show ?case
  proof (cases "run_queues (pManager k) ! i")
    case Nil
    with Cons pHead_queue [OF inv i] show ?thesis by simp
  next
    case (Cons p bs)
    with Cons.prems pHead_queue [OF inv i] have run: "schedule_to k i p ebp = Inr (k', e)" by simp
    then obtain c where "pCurrent (pManager k) = Some c" using schedule_to_current by blast
    from schedule_to_runs [OF Cons.prems(1) i Cons this, of ebp] run show ?thesis by auto
  qed
qed

lemma schedule_inv: "kernel_inv k \<Longrightarrow> schedule k ebp = Inr (k', e) \<Longrightarrow> kernel_inv k'"
proof -
  assume inv: "kernel_inv k" and s: "schedule k ebp = Inr (k', e)"
  let ?k = "k\<lparr>sched_req := False, timer := (timer k)\<lparr>quantum_exceeded := False\<rparr>\<rparr>"
  have "kernel_inv ?k" "set [0..<nr_Level] \<subseteq> {..<nr_Level}" using inv by (auto simp: kernel_inv_def)
  with s inv schedule_levels_inv [of ?k "[0..<nr_Level]" ebp k' e] show ?thesis
    by (auto simp: schedule_def split: if_splits)
qed

section \<open>An example state\<close>

definition demo_kernel :: kernel where
  "demo_kernel =
     \<lparr>pManager = demo_pm_run\<lparr>pCurrent := Some 0, pPrev := None\<rparr>,
      timer = Timer_set (Timer_set Timer_new 1 WatchDog 0) 4 WatchDog 0,
      sched_req = True, irqQue = projr (Que_new 64 invalid_entry invalid_entry),
      tss = \<lparr>ss0 = 0, esp0 = 0\<rparr>, cpu_cr3 = 0\<rparr>"

lemma demo_irqQue: "que_inv (irqQue demo_kernel)" "que_list (irqQue demo_kernel) = []" "nr_ent (irqQue demo_kernel) = 64"
proof -
  obtain q where q: "Que_new 64 invalid_entry invalid_entry = Inr q" "que_wf q []" "nr_ent q = 64"
    using Que_new_wf [of 64 invalid_entry invalid_entry] by blast
  then show "que_inv (irqQue demo_kernel)" "que_list (irqQue demo_kernel) = []" "nr_ent (irqQue demo_kernel) = 64"
    by (simp_all add: demo_kernel_def que_invI que_list_wf)
qed

lemma demo_kernel_queues: "run_queues (pManager demo_kernel) = (replicate nr_Level [])[1 := [0]]"
  by (rule runq_wf_queues) (use demo_pm_run_inv in \<open>simp add: demo_kernel_def\<close>)

lemma demo_kernel_inv: "kernel_inv demo_kernel"
proof -
  have "proc_queues_ok demo_proc"
    using Proc_new_ok [of kernel2user] by (auto simp: demo_proc_def proc_queues_ok_def msgq_ok_def)
  then have "queues_ok (PManager_of demo_proc)"
    by (simp add: queues_ok_def PManager_of_def Lessor_new_def list_all_length)
  then have "queues_ok demo_pm"
    unfolding demo_pm_def using queues_ok_proc [of "PManager_of demo_proc" 0]
    by (intro queues_ok_upd) (auto simp: queues_ok_def [of "snd (allocProc (PManager_of demo_proc))"] queues_ok_def
      proc_queues_ok_def)
  then have "queues_ok demo_pm_run"
    using queues_ok_proc [of demo_pm 0] queues_ok_upd [of demo_pm 0 "\<lambda>p. p\<lparr>status := TASK_RUNNING\<rparr>"]
    by (simp add: demo_pm_run_def queues_ok_def proc_queues_ok_def)
  moreover have "isFree (ProcL demo_pm_run) = False # replicate 31 True"
    by (simp add: demo_pm_run_def demo_pm_def allocProc_def Lessor_get_def PManager_of_def Lessor_new_def nr_Proc_def
        numeral_eq_Suc)
  then have "table_ok demo_pm_run"
    using demo_pm_run_proc demo_table
    by (auto simp: table_ok_def nr_Proc_def demo_pm_run_def demo_pm_def proc_PManager_of nth_Cons split: nat.splits)
  ultimately show ?thesis
    using demo_pm_run_inv demo_irqQue sched_invI [of "pManager demo_kernel"]
    by (simp add: kernel_inv_def demo_kernel_def timers_sorted_def Timer_set_def Timer_new_def)
qed

lemma demo_kernel_current:
  "pCurrent (pManager demo_kernel) = Some 0" "status (proc (pManager demo_kernel) 0) = TASK_RUNNING"
  "prior (proc (pManager demo_kernel) 0) = Psys"
  "getProc (pManager demo_kernel) (pid (proc (pManager demo_kernel) 0)) = Some 0"
proof -
  show "pCurrent (pManager demo_kernel) = Some 0" "status (proc (pManager demo_kernel) 0) = TASK_RUNNING"
    "prior (proc (pManager demo_kernel) 0) = Psys"
    using demo_pm_run_proc demo_table by (simp_all add: demo_kernel_def demo_pm_run_def demo_pm_def)
  have "isFree (ProcL demo_pm_run) = False # replicate 31 True"
    by (simp add: demo_pm_run_def demo_pm_def allocProc_def Lessor_get_def PManager_of_def Lessor_new_def nr_Proc_def
        numeral_eq_Suc)
  moreover obtain p ps where "room (ProcL demo_pm_run) = p # ps"
    using demo_pm_run_inv demo_table(2) by (cases "room (ProcL demo_pm_run)") (auto simp: runq_wf_def)
  ultimately show "getProc (pManager demo_kernel) (pid (proc (pManager demo_kernel) 0)) = Some 0"
    by (simp add: demo_kernel_def getProc_def proc_def)
qed

section \<open>Properties\<close>

text \<open>
  C8. When a reschedule is due, \<^verbatim>\<open>schedule\<close> picks the process at the head of the first non-empty run queue,
  moves it to the end of the next lower level (the last level keeps its own), makes it the current
  process, clears both request flags and arms exactly one task-switch timer with the quantum of the
  new level. When the process changes, its page directory and kernel stack are loaded and the function
  it left in \<^verbatim>\<open>ret_from\<close> is the one that runs. The invariant is kept.
\<close>

theorem schedule_correct:
  assumes "kernel_inv k" and "sched_req k \<or> quantum_exceeded (timer k)"
    and "pCurrent (pManager k) = Some c"
    and "i < nr_Level" and "\<forall>j < i. run_queues (pManager k) ! j = []"
    and "run_queues (pManager k) ! i = p # ps"
  shows "\<exists>k' e. schedule k ebp = Inr (k', e) \<and> kernel_inv k' \<and>
    pCurrent (pManager k') = Some p \<and> \<not> sched_req k' \<and> \<not> quantum_exceeded (timer k') \<and>
    run_queues (pManager k') = rotate_queues (run_queues (pManager k)) i \<and>
    filter (\<lambda>t. ttype t = TaskSwitch) (timers (timer k')) =
      [\<lparr>clocks = int (unat (interval (pManager k) ! next_level i)), ttype = TaskSwitch,
        pr_id = of_int (pid (proc (pManager k) p))\<rparr>] \<and>
    (if p = c then e = Same_process p
     else e = Switched p (ret_from (kernel_info (proc (pManager k) p))) \<and>
       esp0 (tss k') = stack_top (kernel_info (proc (pManager k) p)) \<and>
       cpu_cr3 k' = cr3 (mm (proc (pManager k) p)))"
proof -
  let ?k = "k\<lparr>sched_req := False, timer := (timer k)\<lparr>quantum_exceeded := False\<rparr>\<rparr>"
  have inv: "kernel_inv ?k" "sched_inv (pManager ?k)" using assms(1) by (simp_all add: kernel_inv_def)
  have "[0..<nr_Level] = [0..<i] @ i # [Suc i..<nr_Level]"
    using upt_add_eq_append [of 0 i "nr_Level - i"] assms(4) by (simp add: upt_conv_Cons)
  moreover have "schedule_levels ?k ([0..<i] @ i # [Suc i..<nr_Level]) ebp = schedule_levels ?k (i # [Suc i..<nr_Level]) ebp"
    using assms(4,5) by (intro schedule_levels_skip inv) auto
  ultimately have run: "schedule k ebp = schedule_to ?k i p ebp"
    using assms(2,6) pHead_queue [OF inv(2) assms(4)] by (auto simp: schedule_def)
  have "filter (\<lambda>t. ttype t = TaskSwitch) (timers (reset_quantum (timer ?k) n d)) =
      [\<lparr>clocks = n, ttype = TaskSwitch, pr_id = d\<rparr>]" for n d
    unfolding reset_quantum_def Timer_set_def
    by (simp, rule set_loop_filter_only) (simp_all add: drop_switch_filter filter_empty_conv)
  moreover have "quantum_exceeded (reset_quantum (timer ?k) n d) = False" for n d
    by (simp add: reset_quantum_def Timer_set_def)
  ultimately show ?thesis
    using schedule_to_runs [OF inv(1) assms(4), of p ps c ebp] assms(3,6) unfolding run
    by (auto simp: setFrame2TSS_def split: if_splits)
qed

theorem schedule_correct_witness:
  "\<exists>k' e. schedule demo_kernel 0 = Inr (k', e) \<and> kernel_inv k' \<and> pCurrent (pManager k') = Some 0 \<and>
     run_queues (pManager k') = [[], [], [0], []] \<and> e = Same_process 0"
proof -
  have r: "sched_req demo_kernel \<or> quantum_exceeded (timer demo_kernel)" by (simp add: demo_kernel_def)
  have q: "\<forall>j < 1. run_queues (pManager demo_kernel) ! j = []" "run_queues (pManager demo_kernel) ! 1 = [0]"
    "rotate_queues (run_queues (pManager demo_kernel)) 1 = [[], [], [0], []]"
    by (simp_all add: demo_kernel_queues nr_Level_def rotate_queues_def next_level_def numeral_eq_Suc)
  have l: "1 < nr_Level" by (simp add: nr_Level_def)
  from schedule_correct [OF demo_kernel_inv r demo_kernel_current(1) l q(1,2), of 0] q(3)
  show ?thesis by auto
qed



text \<open>
  C24. A process that waits for an interrupt is woken by it: after \<^verbatim>\<open>wait_interrupt(n)\<close> the current process
  is stopped and on no run queue, and a following \<^verbatim>\<open>notify(n)\<close> puts it back at the end of the run queue of
  its priority and requests a reschedule.
\<close>

theorem wait_then_notify:
  assumes "kernel_inv k" and "pCurrent (pManager k) = Some c" and "c < nr_Proc"
    and "status (proc (pManager k) c) = TASK_RUNNING"
    and "getProc (pManager k) (pid (proc (pManager k) c)) = Some c"
    and "length (que_list (irqQue k)) < nr_ent (irqQue k)" and "n \<noteq> -1"
    and "unat (prior (proc (pManager k) c)) < nr_Level"
  shows "\<exists>k1 k2. wait_interrupt k n = Inr k1 \<and> status (proc (pManager k1) c) = TASK_STOPPED \<and> sched_req k1 \<and>
    notify k1 n = Inr k2 \<and> status (proc (pManager k2) c) = TASK_RUNNING \<and> sched_req k2 \<and> kernel_inv k2 \<and>
    que_list (irqQue k2) = que_list (irqQue k) \<and>
    c \<in> set (run_queues (pManager k2) ! unat (prior (proc (pManager k) c)))"
proof -
  let ?m = "pManager k" and ?e = "\<lparr>irq = n, irq_pid = pid (proc (pManager k) c)\<rparr>"
  have wf: "runq_wf ?m (run_queues ?m)" and qi: "que_inv (irqQue k)"
    using assms(1) by (simp_all add: kernel_inv_def sched_inv_def)
  obtain q where q: "Que_enque (irqQue k) ?e = Inr q" "que_inv q" "que_list q = ?e # que_list (irqQue k)"
    using kq.enq_law [OF qi assms(6), of ?e] by blast
  obtain m1 i as bs where m1: "deque ?m c = Inr m1" "runq_wf m1 ((run_queues ?m)[i := as @ bs])"
    "sched_frame ?m m1" "status (proc m1 c) = TASK_STOPPED"
    using deque_wf [OF wf assms(3,4)] by blast
  define k1 where "k1 = reschedule (k\<lparr>irqQue := q, pManager := m1\<rparr>)"
  have w: "wait_interrupt k n = Inr k1"
    using assms(2,5) q(1) m1(1) by (simp add: wait_interrupt_def sleep_ms_def sleep_pid_def k1_def Let_def)
  have "take_match (\<lambda>x. entry_eq x \<lparr>irq = n, irq_pid = 0\<rparr>) (que_list q) = Some (?e, que_list (irqQue k))"
    using q(3) by (simp add: entry_eq_def)
  from kq.deq_by_law [OF q(2), of entry_eq "\<lparr>irq = n, irq_pid = 0\<rparr>", OF this]
  obtain q' where q': "Que_deque_by entry_eq q \<lparr>irq = n, irq_pid = 0\<rparr> = Inr (?e, q')" "que_inv q'"
    "que_list q' = que_list (irqQue k)" by blast
  have core: "proc_core (proc m1 c) = proc_core (proc ?m c)" using m1(3) by (simp add: sched_frame_def)
  note same = proc_core_fields [OF core]
  let ?p = "unat (prior (proc ?m c))"
  obtain m2 where m2: "enque m1 c 0 = Inr m2"
    "runq_wf m2 ((run_queues ?m)[i := as @ bs, ?p := (run_queues ?m)[i := as @ bs] ! ?p @ [c]])"
    using enque_wf [OF m1(2) assms(3) m1(4), of ?p 0] assms(8) same by auto
  define k2 where "k2 = reschedule (k1\<lparr>irqQue := q', pManager := m2\<rparr>)"
  have "getProc m1 (pid (proc ?m c)) = Some c" using sched_frame_getProc [OF m1(3)] assms(5) by simp
  then have nt: "notify k1 n = Inr k2"
    using q'(1) m2(1) assms(7)
    by (simp add: notify_def wakeup_def k1_def k2_def reschedule_def entry_eq_def invalid_entry_def)
  have "length (run_queues ?m) = nr_Level" using wf by (simp add: runq_wf_def)
  then have c: "c \<in> set (run_queues m2 ! ?p)" using runq_wf_queues [OF m2(2)] assms(8) by simp
  have run: "status (proc m2 c) = TASK_RUNNING"
    using m2(2) c runq_wf_queues [OF m2(2)] assms(3,8) unfolding runq_wf_def by metis
  have "kernel_inv k2"
    using notify_inv [OF wait_interrupt_inv [OF assms(1) w] nt] .
  with w nt m1(4) c run q'(3) show ?thesis
    by (intro exI [of _ k1] exI [of _ k2]) (simp add: k1_def k2_def reschedule_def)
qed

theorem wait_then_notify_witness:
  "\<exists>k1 k2. wait_interrupt demo_kernel 14 = Inr k1 \<and> status (proc (pManager k1) 0) = TASK_STOPPED \<and>
     notify k1 14 = Inr k2 \<and> status (proc (pManager k2) 0) = TASK_RUNNING"
  using wait_then_notify [OF demo_kernel_inv demo_kernel_current(1) demo_table(2) demo_kernel_current(2,4), of 14]
  by (auto simp: demo_irqQue demo_kernel_current(3) Psys_def nr_Level_def)

text \<open>
  The seconds are never counted: the millisecond counter is an 8-bit integer, so the comparison of
  \<^verbatim>\<open>timerHandler\<close> with 1000 is false on every tick; the counter wraps round at 256 instead.
\<close>

theorem seconds_never_counted:
  "second (count_tick t) = second t \<and> msecond (count_tick t) = msecond t + 10"
proof -
  have "unat (msecond t + ucast Timer_interval) < 2 ^ 8" using unsigned_less [of "msecond t + ucast Timer_interval"] by simp
  then have "\<not> unat (msecond t + ucast Timer_interval) > 1000" by simp
  moreover have "ucast Timer_interval = (10 :: u8)" by (simp add: Timer_interval_def)
  ultimately show ?thesis by (simp add: count_tick_def Let_def)
qed

end
