(* ===== verification/Ipc.thy ===== *)
theory Ipc
  imports Task
begin

text \<open>
  Message passing between processes, \<^verbatim>\<open>src/kernel/Ipc.cpp\<close>, and the transitions of the kernel state.

  A sender leaves its message in the \<^verbatim>\<open>sendQ\<close> of the receiver; a receiver that finds none leaves a request
  in the \<^verbatim>\<open>recvQ\<close> of the sender it waits for (or in its own \<^verbatim>\<open>recv_anyQ\<close>) and sleeps. The message an
  operation writes through its reference argument is returned with the new state.
\<close>

section \<open>Operations\<close>

definition set_recvQ :: "PManager \<Rightarrow> nat \<Rightarrow> Message Que \<Rightarrow> PManager" where
  "set_recvQ m p q = upd_proc m p (\<lambda>x. x\<lparr>recvQ := q\<rparr>)"

definition set_sendQ :: "PManager \<Rightarrow> nat \<Rightarrow> Message Que \<Rightarrow> PManager" where
  "set_sendQ m p q = upd_proc m p (\<lambda>x. x\<lparr>sendQ := q\<rparr>)"

definition set_recv_anyQ :: "PManager \<Rightarrow> nat \<Rightarrow> Message Que \<Rightarrow> PManager" where
  "set_recv_anyQ m p q = upd_proc m p (\<lambda>x. x\<lparr>recv_anyQ := q\<rparr>)"

text \<open>The queue operations the two routines perform, on the queues of process \<open>p\<close>.\<close>

definition put_sendQ :: "kernel \<Rightarrow> nat \<Rightarrow> Message \<Rightarrow> kernel kres" where
  "put_sendQ k p x =
     rbind (Que_enque (sendQ (proc (pManager k) p)) x) (\<lambda>q. Inr (k\<lparr>pManager := set_sendQ (pManager k) p q\<rparr>))"

definition put_recvQ :: "kernel \<Rightarrow> nat \<Rightarrow> Message \<Rightarrow> kernel kres" where
  "put_recvQ k p x =
     rbind (Que_enque (recvQ (proc (pManager k) p)) x) (\<lambda>q. Inr (k\<lparr>pManager := set_recvQ (pManager k) p q\<rparr>))"

definition put_anyQ :: "kernel \<Rightarrow> nat \<Rightarrow> Message \<Rightarrow> kernel kres" where
  "put_anyQ k p x =
     rbind (Que_enque (recv_anyQ (proc (pManager k) p)) x) (\<lambda>q. Inr (k\<lparr>pManager := set_recv_anyQ (pManager k) p q\<rparr>))"

definition take_recvQ_from :: "kernel \<Rightarrow> nat \<Rightarrow> int \<Rightarrow> (Message \<times> kernel) kres" where
  "take_recvQ_from k p i =
     rbind (Que_deque_by Message_eq (recvQ (proc (pManager k) p)) (Message_id i)) (\<lambda>(r, q).
       Inr (r, k\<lparr>pManager := set_recvQ (pManager k) p q\<rparr>))"

definition take_sendQ_from :: "kernel \<Rightarrow> nat \<Rightarrow> int \<Rightarrow> (Message \<times> kernel) kres" where
  "take_sendQ_from k p i =
     rbind (Que_deque_by Message_eq (sendQ (proc (pManager k) p)) (Message_id i)) (\<lambda>(r, q).
       Inr (r, k\<lparr>pManager := set_sendQ (pManager k) p q\<rparr>))"

definition take_sendQ :: "kernel \<Rightarrow> nat \<Rightarrow> (Message \<times> kernel) kres" where
  "take_sendQ k p =
     rbind (Que_deque (sendQ (proc (pManager k) p))) (\<lambda>(r, q).
       Inr (r, k\<lparr>pManager := set_sendQ (pManager k) p q\<rparr>))"

definition take_anyQ :: "kernel \<Rightarrow> nat \<Rightarrow> (Message \<times> kernel) kres" where
  "take_anyQ k p =
     rbind (Que_deque (recv_anyQ (proc (pManager k) p))) (\<lambda>(r, q).
       Inr (r, k\<lparr>pManager := set_recv_anyQ (pManager k) p q\<rparr>))"

definition send :: "kernel \<Rightarrow> int \<Rightarrow> Message \<Rightarrow> (kernel \<times> Message) kres" where
  "send k i mess =
     rbind (deref (pCurrent (pManager k))) (\<lambda>myself.
     rbind (take_recvQ_from k myself i) (\<lambda>(tmess, k1).
       (let mess1 = mess\<lparr>mid := pid (proc (pManager k1) myself)\<rparr> in
        rbind (deref (getProc (pManager k) i)) (\<lambda>psent.
          if isValid tmess then
            rbind (put_sendQ k1 psent mess1) (\<lambda>k2.
            rbind (wakeup k2 i) (\<lambda>k3. Inr (k3, mess1)))
          else
            rbind (take_anyQ k1 psent) (\<lambda>(r, k2).
            if isValid r then
              rbind (put_sendQ k2 psent mess1) (\<lambda>k3.
              rbind (wakeup k3 i) (\<lambda>k4. Inr (k4, mess1)))
            else
              rbind (put_sendQ k2 psent mess1) (\<lambda>k3.
              rbind (sleep_ms k3 (-1)) (\<lambda>k4. Inr (k4, mess1))))))))"

definition recv :: "kernel \<Rightarrow> int \<Rightarrow> Message \<Rightarrow> (kernel \<times> Message) kres" where
  "recv k i mess =
     rbind (deref (pCurrent (pManager k))) (\<lambda>myself.
     rbind (if i = PID_ANY then take_sendQ k myself else take_sendQ_from k myself i) (\<lambda>(tmess, k1).
       if isValid tmess then
         rbind (wakeup k1 i) (\<lambda>k2. Inr (k2, tmess))
       else
         rbind (if i = PID_ANY then put_anyQ k1 myself mess
                else rbind (deref (getProc (pManager k) i)) (\<lambda>precv. put_recvQ k1 precv mess)) (\<lambda>k2.
         rbind (sleep_callback k2 recv_later_fn) (\<lambda>k3. Inr (k3, mess)))))"

definition recv_later :: "kernel \<Rightarrow> kernel kres" where
  "recv_later k =
     rbind (deref (pCurrent (pManager k))) (\<lambda>myself.
     rbind (take_sendQ k myself) (\<lambda>(message, k1).
       if \<not> isValid message then Inl (Panic ''invalid message error at recv_later()'')
       else Inr k1))"

section \<open>Preservation of the invariant\<close>

lemma getProc_upd:
  assumes "\<And>x. pid (f x) = pid x"
  shows "getProc (upd_proc m p f) d = getProc m d"
proof -
  have "map pid (room (ProcL (upd_proc m p f))) = map pid (room (ProcL m))"
    using assms by (cases "p < length (room (ProcL m))", intro nth_equalityI)
      (auto simp: upd_proc_def nth_list_update list_update_beyond)
  from findProc_loop_cong [OF this] show ?thesis by (simp add: getProc_def)
qed

lemma kernel_inv_upd:
  assumes "kernel_inv k" and "\<And>x. pnext (f x) = pnext x" and "\<And>x. status (f x) = status x"
    and "p < length (room (ProcL (pManager k))) \<Longrightarrow> proc_queues_ok (f (proc (pManager k) p))"
  shows "kernel_inv (k\<lparr>pManager := upd_proc (pManager k) p f\<rparr>)"
  using assms runq_wf_upd_other [of "pManager k" "run_queues (pManager k)" f p]
  by (auto simp: kernel_inv_def sched_inv_def [of "pManager k"] intro: sched_invI queues_ok_upd table_ok_upd)

lemma msgq_ok_ops:
  "msgq_ok q \<Longrightarrow> Que_enque q x = Inr q' \<Longrightarrow> msgq_ok q'"
  "msgq_ok q \<Longrightarrow> Que_deque q = Inr (r, q') \<Longrightarrow> msgq_ok q'"
  "msgq_ok q \<Longrightarrow> Que_deque_by eq q a = Inr (r, q') \<Longrightarrow> msgq_ok q'"
  using Que_enque_inv [of q x q'] Que_deque_inv [of q r q'] Que_deque_by_inv [of q eq a r q']
  by (auto simp: msgq_ok_def)

lemma kernel_inv_proc:
  "kernel_inv k \<Longrightarrow> p < length (room (ProcL (pManager k))) \<Longrightarrow> proc_queues_ok (proc (pManager k) p)"
  by (simp add: kernel_inv_def queues_ok_proc)

lemma kernel_inv_setQ:
  assumes "kernel_inv k" and "p < length (room (ProcL (pManager k))) \<Longrightarrow> msgq_ok q"
  shows "kernel_inv (k\<lparr>pManager := set_recvQ (pManager k) p q\<rparr>)"
    and "kernel_inv (k\<lparr>pManager := set_sendQ (pManager k) p q\<rparr>)"
    and "kernel_inv (k\<lparr>pManager := set_recv_anyQ (pManager k) p q\<rparr>)"
  unfolding set_recvQ_def set_sendQ_def set_recv_anyQ_def
  using assms kernel_inv_proc [OF assms(1), of p]
  by (auto intro!: kernel_inv_upd simp: proc_queues_ok_def)

lemma set_Q_length [simp]:
  "length (room (ProcL (set_recvQ m p q))) = length (room (ProcL m))"
  "length (room (ProcL (set_sendQ m p q))) = length (room (ProcL m))"
  "length (room (ProcL (set_recv_anyQ m p q))) = length (room (ProcL m))"
  by (simp_all add: set_recvQ_def set_sendQ_def set_recv_anyQ_def)

lemma sleep_callback_inv: "kernel_inv k \<Longrightarrow> ensures (sleep_callback k f) kernel_inv"
proof -
  assume inv: "kernel_inv k"
  show ?thesis
    unfolding sleep_callback_def Let_def
  proof (rule ensures_any)
    fix c
    have "kernel_inv (k\<lparr>pManager := upd_proc (pManager k) c
        (\<lambda>x. x\<lparr>kernel_info := (kernel_info x)\<lparr>ret_from := f\<rparr>\<rparr>)\<rparr>)"
      using inv kernel_inv_proc [OF inv, of c] by (intro kernel_inv_upd) (simp_all add: proc_queues_ok_def)
    then show "ensures (sleep_pid (k\<lparr>pManager := upd_proc (pManager k) c
        (\<lambda>x. x\<lparr>kernel_info := (kernel_info x)\<lparr>ret_from := f\<rparr>\<rparr>)\<rparr>)
        (pid (proc (upd_proc (pManager k) c (\<lambda>x. x\<lparr>kernel_info := (kernel_info x)\<lparr>ret_from := f\<rparr>\<rparr>)) c)) (-1))
        kernel_inv"
      by (auto simp: ensures_def dest: sleep_pid_inv)
  qed
qed

text \<open>Each queue operation, and the sleep and wakeup they end in, keep the invariant.\<close>

lemma put_inv:
  assumes inv: "kernel_inv k"
  shows "ensures (put_sendQ k p x) kernel_inv" and "ensures (put_recvQ k p x) kernel_inv"
    and "ensures (put_anyQ k p x) kernel_inv"
proof -
  have q: "p < length (room (ProcL (pManager k))) \<Longrightarrow> msgq_ok (sendQ (proc (pManager k) p)) \<and>
      msgq_ok (recvQ (proc (pManager k) p)) \<and> msgq_ok (recv_anyQ (proc (pManager k) p))"
    using kernel_inv_proc [OF inv, of p] by (simp add: proc_queues_ok_def)
  show "ensures (put_sendQ k p x) kernel_inv"
    unfolding ensures_def put_sendQ_def using q kernel_inv_setQ(2) [OF inv, of p]
    by (auto simp: rbind_eq_Inr dest: msgq_ok_ops(1))
  show "ensures (put_recvQ k p x) kernel_inv"
    unfolding ensures_def put_recvQ_def using q kernel_inv_setQ(1) [OF inv, of p]
    by (auto simp: rbind_eq_Inr dest: msgq_ok_ops(1))
  show "ensures (put_anyQ k p x) kernel_inv"
    unfolding ensures_def put_anyQ_def using q kernel_inv_setQ(3) [OF inv, of p]
    by (auto simp: rbind_eq_Inr dest: msgq_ok_ops(1))
qed

lemma take_inv:
  assumes inv: "kernel_inv k"
  shows "ensures (take_recvQ_from k p i) (\<lambda>x. kernel_inv (snd x))" and "ensures (take_sendQ_from k p i) (\<lambda>x. kernel_inv (snd x))"
    and "ensures (take_sendQ k p) (\<lambda>x. kernel_inv (snd x))" and "ensures (take_anyQ k p) (\<lambda>x. kernel_inv (snd x))"
proof -
  have q: "p < length (room (ProcL (pManager k))) \<Longrightarrow> msgq_ok (sendQ (proc (pManager k) p)) \<and>
      msgq_ok (recvQ (proc (pManager k) p)) \<and> msgq_ok (recv_anyQ (proc (pManager k) p))"
    using kernel_inv_proc [OF inv, of p] by (simp add: proc_queues_ok_def)
  show "ensures (take_recvQ_from k p i) (\<lambda>x. kernel_inv (snd x))"
    unfolding ensures_def take_recvQ_from_def using q kernel_inv_setQ(1) [OF inv, of p]
    by (auto simp: rbind_eq_Inr dest: msgq_ok_ops(3))
  show "ensures (take_sendQ_from k p i) (\<lambda>x. kernel_inv (snd x))"
    unfolding ensures_def take_sendQ_from_def using q kernel_inv_setQ(2) [OF inv, of p]
    by (auto simp: rbind_eq_Inr dest: msgq_ok_ops(3))
  show "ensures (take_sendQ k p) (\<lambda>x. kernel_inv (snd x))"
    unfolding ensures_def take_sendQ_def using q kernel_inv_setQ(2) [OF inv, of p]
    by (auto simp: rbind_eq_Inr dest: msgq_ok_ops(2))
  show "ensures (take_anyQ k p) (\<lambda>x. kernel_inv (snd x))"
    unfolding ensures_def take_anyQ_def using q kernel_inv_setQ(3) [OF inv, of p]
    by (auto simp: rbind_eq_Inr dest: msgq_ok_ops(2))
qed

lemma wakeup_step: "kernel_inv k \<Longrightarrow> ensures (wakeup k i) kernel_inv"
  and sleep_step: "kernel_inv k \<Longrightarrow> ensures (sleep_ms k ms) kernel_inv"
  by (auto simp: ensures_def dest: wakeup_inv sleep_ms_inv)

lemmas ipc_steps = put_inv take_inv wakeup_step sleep_step sleep_callback_inv

lemma send_inv:
  assumes "kernel_inv k"
  shows "ensures (send k i mess) (\<lambda>x. kernel_inv (fst x))"
  unfolding send_def Let_def
  by (rule ensures_any, rule ensures_bind [OF take_inv(1) [OF assms]], clarsimp, rule ensures_any, clarsimp, safe)
    ((rule ensures_bind, (rule ipc_steps; assumption), clarsimp | safe)+)

lemma recv_inv:
  assumes "kernel_inv k"
  shows "ensures (recv k i mess) (\<lambda>x. kernel_inv (fst x))"
proof -
  have t: "ensures (if i = PID_ANY then take_sendQ k c else take_sendQ_from k c i) (\<lambda>x. kernel_inv (snd x))" for c
    using assms by (auto intro: ipc_steps)
  have p: "ensures (if i = PID_ANY then put_anyQ k1 c mess
      else rbind (deref (getProc (pManager k) i)) (\<lambda>precv. put_recvQ k1 precv mess)) kernel_inv"
    and p': "ensures (rbind (deref (getProc (pManager k) i)) (\<lambda>precv. put_recvQ k1 precv mess)) kernel_inv"
    if "kernel_inv k1" for k1 c using that by (auto intro: ipc_steps ensures_any)
  show ?thesis
    unfolding recv_def
    by (rule ensures_any, rule ensures_bind [OF t], clarsimp, safe)
      (rule ensures_bind, (rule ipc_steps p p'; assumption), clarsimp)+
qed

lemma recv_later_inv: "kernel_inv k \<Longrightarrow> ensures (recv_later k) kernel_inv"
  unfolding recv_later_def
  by (rule ensures_any, rule ensures_bind, (rule ipc_steps; assumption)) clarsimp

section \<open>The steps of a rendezvous\<close>

lemma upd_proc_same: "f (proc m p) = proc m p \<Longrightarrow> upd_proc m p f = m"
  by (simp add: upd_proc_def proc_def)

lemma proc_setQ [simp]:
  assumes "p < length (room (ProcL m))"
  shows "proc (set_sendQ m p q) j = (if j = p then (proc m p)\<lparr>sendQ := q\<rparr> else proc m j)"
    and "proc (set_recvQ m p q) j = (if j = p then (proc m p)\<lparr>recvQ := q\<rparr> else proc m j)"
  using assms by (simp_all add: set_sendQ_def set_recvQ_def)

lemma setQ_other [simp]:
  "pCurrent (set_sendQ m p q) = pCurrent m" "pCurrent (set_recvQ m p q) = pCurrent m"
  "getProc (set_sendQ m p q) d = getProc m d" "getProc (set_recvQ m p q) d = getProc m d"
  by (simp_all add: set_sendQ_def set_recvQ_def getProc_upd)

lemma isValid_invMessage [simp]: "\<not> isValid invMessage"
  by (simp add: invMessage_def)

lemma kernel_len: "kernel_inv k \<Longrightarrow> length (room (ProcL (pManager k))) = nr_Proc"
  by (simp add: kernel_inv_def sched_inv_def runq_wf_def)

lemma kernel_queues:
  assumes "kernel_inv k" and "p < nr_Proc"
  shows "msgq_ok (sendQ (proc (pManager k) p))" "msgq_ok (recvQ (proc (pManager k) p))"
    "msgq_ok (recv_anyQ (proc (pManager k) p))"
  using kernel_inv_proc [OF assms(1), of p] assms kernel_len [OF assms(1)] by (simp_all add: proc_queues_ok_def)

lemma take_recvQ_from_none:
  assumes "kernel_inv k" and "p < nr_Proc"
    and "\<forall>x \<in> set (que_list (recvQ (proc (pManager k) p))). mid x \<noteq> i"
  shows "take_recvQ_from k p i = Inr (invMessage, k)"
proof -
  let ?q = "recvQ (proc (pManager k) p)"
  have "take_match (\<lambda>x. Message_eq x (Message_id i)) (que_list ?q) = None"
    using assms(3) by (simp add: take_match_None Message_eq_def Message_id_def)
  then have "Que_deque_by Message_eq ?q (Message_id i) = Inr (invMessage, ?q)"
    using kq.deq_by_none [of ?q Message_eq "Message_id i"] kernel_queues(2) [OF assms(1,2)] by (simp add: msgq_ok_def)
  then show ?thesis by (simp add: take_recvQ_from_def set_recvQ_def upd_proc_same)
qed

lemma take_anyQ_none:
  assumes "kernel_inv k" and "p < nr_Proc" and "que_list (recv_anyQ (proc (pManager k) p)) = []"
  shows "take_anyQ k p = Inr (invMessage, k)"
proof -
  have "Que_deque (recv_anyQ (proc (pManager k) p)) = Inr (invMessage, recv_anyQ (proc (pManager k) p))"
    using kq.deq_empty [OF _ assms(3)] kernel_queues(3) [OF assms(1,2)] by (simp add: msgq_ok_def)
  then show ?thesis by (simp add: take_anyQ_def set_recv_anyQ_def upd_proc_same)
qed

lemma put_sendQ_room:
  assumes "kernel_inv k" and "p < nr_Proc" and "length (que_list (sendQ (proc (pManager k) p))) < nrMessage"
  shows "\<exists>q. put_sendQ k p x = Inr (k\<lparr>pManager := set_sendQ (pManager k) p q\<rparr>) \<and>
    que_list q = x # que_list (sendQ (proc (pManager k) p))"
  using kq.enq_law [of "sendQ (proc (pManager k) p)" x] kernel_queues(1) [OF assms(1,2)] assms(3)
  by (auto simp: put_sendQ_def msgq_ok_def)

lemma take_sendQ_from_newest:
  assumes "kernel_inv k" and "p < nr_Proc" and "que_list (sendQ (proc (pManager k) p)) = x # xs" and "mid x = i"
  shows "\<exists>q. take_sendQ_from k p i = Inr (x, k\<lparr>pManager := set_sendQ (pManager k) p q\<rparr>) \<and> que_list q = xs"
proof -
  have "take_match (\<lambda>x. Message_eq x (Message_id i)) (que_list (sendQ (proc (pManager k) p))) = Some (x, xs)"
    using assms(3,4) by (simp add: Message_eq_def Message_id_def)
  with kq.deq_by_law [of "sendQ (proc (pManager k) p)" Message_eq "Message_id i" x xs] kernel_queues(1) [OF assms(1,2)]
  show ?thesis by (auto simp: take_sendQ_from_def msgq_ok_def)
qed

lemma sleep_self:
  assumes "kernel_inv k" and "pCurrent (pManager k) = Some c" and "c < nr_Proc"
    and "status (proc (pManager k) c) = TASK_RUNNING" and "getProc (pManager k) (pid (proc (pManager k) c)) = Some c"
  shows "\<exists>m. sleep_ms k (-1) = Inr (reschedule (k\<lparr>pManager := m\<rparr>)) \<and> sched_frame (pManager k) m \<and>
    status (proc m c) = TASK_STOPPED"
proof -
  have "runq_wf (pManager k) (run_queues (pManager k))" using assms(1) by (simp add: kernel_inv_def sched_inv_def)
  from deque_wf [OF this assms(3,4)] obtain m where "deque (pManager k) c = Inr m" "sched_frame (pManager k) m"
    "status (proc m c) = TASK_STOPPED" by blast
  with assms(2,5) show ?thesis by (intro exI [of _ m]) (simp add: sleep_ms_def sleep_pid_def Let_def)
qed

lemma wakeup_stopped:
  assumes "kernel_inv k" and "getProc (pManager k) d = Some p" and "status (proc (pManager k) p) = TASK_STOPPED"
    and "unat (prior (proc (pManager k) p)) < nr_Level"
  shows "\<exists>m. wakeup k d = Inr (reschedule (k\<lparr>pManager := m\<rparr>)) \<and> sched_frame (pManager k) m \<and>
    status (proc m p) = TASK_RUNNING"
proof -
  let ?m = "pManager k" and ?i = "unat (prior (proc (pManager k) p))"
  have wf: "runq_wf ?m (run_queues ?m)" and p: "p < nr_Proc"
    using assms(1) getProc_bound [OF _ assms(2)] by (simp_all add: kernel_inv_def sched_inv_def)
  obtain m where m: "enque ?m p 0 = Inr m" "runq_wf m ((run_queues ?m)[?i := run_queues ?m ! ?i @ [p]])"
    "sched_frame ?m m"
    using enque_wf [OF wf p assms(3), of ?i 0] assms(4) by auto
  have "length (run_queues ?m) = nr_Level" using wf by (simp add: runq_wf_def)
  then have "\<exists>j < nr_Level. p \<in> set ((run_queues ?m)[?i := run_queues ?m ! ?i @ [p]] ! j)"
    using assms(4) by (intro exI [of _ ?i]) auto
  then have "status (proc m p) = TASK_RUNNING" using m(2) p by (simp add: runq_wf_def)
  with m assms(2) show ?thesis by (auto simp: wakeup_def)
qed

text \<open>A send that blocks, and a receive that finds its message.\<close>

lemma send_blocks:
  fixes mess :: Message
  assumes "kernel_inv k" and "pCurrent (pManager k) = Some s" and "s < nr_Proc"
    and "status (proc (pManager k) s) = TASK_RUNNING" and "getProc (pManager k) (pid (proc (pManager k) s)) = Some s"
    and "getProc (pManager k) R = Some r" and "r \<noteq> s"
    and "\<forall>x \<in> set (que_list (recvQ (proc (pManager k) s))). mid x \<noteq> R"
    and "que_list (recv_anyQ (proc (pManager k) r)) = []"
    and "length (que_list (sendQ (proc (pManager k) r))) < nrMessage"
  defines "x \<equiv> mess\<lparr>mid := pid (proc (pManager k) s)\<rparr>"
  shows "\<exists>k1. send k R mess = Inr (k1, x) \<and> kernel_inv k1 \<and> status (proc (pManager k1) s) = TASK_STOPPED \<and>
    que_list (sendQ (proc (pManager k1) r)) = x # que_list (sendQ (proc (pManager k) r)) \<and>
    (\<forall>d. getProc (pManager k1) d = getProc (pManager k) d) \<and>
    prior (proc (pManager k1) s) = prior (proc (pManager k) s)"
proof -
  let ?m = "pManager k"
  have len: "length (room (ProcL ?m)) = nr_Proc" by (rule kernel_len [OF assms(1)])
  have r: "r < nr_Proc" using getProc_Some(1) [OF assms(6)] len by simp
  obtain q where q: "put_sendQ k r x = Inr (k\<lparr>pManager := set_sendQ ?m r q\<rparr>)"
    "que_list q = x # que_list (sendQ (proc ?m r))"
    using put_sendQ_room [OF assms(1) r assms(10)] by blast
  let ?ka = "k\<lparr>pManager := set_sendQ ?m r q\<rparr>"
  have inva: "kernel_inv ?ka" using ensuresD [OF put_inv(1) [OF assms(1)] q(1)] .
  obtain ma where ma: "sleep_ms ?ka (-1) = Inr (reschedule (?ka\<lparr>pManager := ma\<rparr>))" "sched_frame (set_sendQ ?m r q) ma"
    "status (proc ma s) = TASK_STOPPED"
    using sleep_self [OF inva, of s] assms(2-5,7) r len by auto
  define k1 where "k1 = reschedule (k\<lparr>pManager := ma\<rparr>)"
  have send: "send k R mess = Inr (k1, x)"
    using take_recvQ_from_none [OF assms(1,3,8)] take_anyQ_none [OF assms(1) r assms(9)] assms(2,6) q(1) ma(1)
    by (simp add: send_def k1_def x_def)
  have core: "proc_core (proc ma j) = proc_core (proc (set_sendQ ?m r q) j)" for j
    using ma(2) by (simp add: sched_frame_def)
  have "que_list (sendQ (proc ma r)) = x # que_list (sendQ (proc ?m r))"
    using proc_core_fields(6) [OF core [of r]] q(2) r len by simp
  moreover have "prior (proc ma s) = prior (proc ?m s)"
    using proc_core_fields(2) [OF core [of s]] r len assms(7) by simp
  moreover have "getProc ma d = getProc ?m d" for d using sched_frame_getProc [OF ma(2)] by simp
  ultimately show ?thesis using send ensuresD [OF send_inv [OF assms(1)] send] ma(3)
    by (intro exI [of _ k1]) (simp add: k1_def reschedule_def)
qed

lemma recv_takes:
  assumes "kernel_inv k" and "pCurrent (pManager k) = Some r" and "r < nr_Proc" and "S \<noteq> PID_ANY"
    and "que_list (sendQ (proc (pManager k) r)) = x # xs" and "mid x = S" and "isValid x"
    and "getProc (pManager k) S = Some s" and "s \<noteq> r" and "status (proc (pManager k) s) = TASK_STOPPED"
    and "unat (prior (proc (pManager k) s)) < nr_Level"
  shows "\<exists>k'. recv k S m0 = Inr (k', x) \<and> status (proc (pManager k') s) = TASK_RUNNING \<and>
    que_list (sendQ (proc (pManager k') r)) = xs"
proof -
  have len: "length (room (ProcL (pManager k))) = nr_Proc" by (rule kernel_len [OF assms(1)])
  obtain q where q: "take_sendQ_from k r S = Inr (x, k\<lparr>pManager := set_sendQ (pManager k) r q\<rparr>)" "que_list q = xs"
    using take_sendQ_from_newest [OF assms(1,3,5,6)] by blast
  let ?kb = "k\<lparr>pManager := set_sendQ (pManager k) r q\<rparr>"
  have invb: "kernel_inv ?kb" using ensuresD [OF take_inv(2) [OF assms(1)] q(1)] by simp
  obtain mb where mb: "wakeup ?kb S = Inr (reschedule (?kb\<lparr>pManager := mb\<rparr>))" "sched_frame (pManager ?kb) mb"
    "status (proc mb s) = TASK_RUNNING"
    using wakeup_stopped [OF invb, of S s] assms(3,8-11) len by auto
  have "recv k S m0 = Inr (reschedule (?kb\<lparr>pManager := mb\<rparr>), x)"
    using q(1) mb(1) assms(2,4,7) by (simp add: recv_def)
  moreover have "proc_core (proc mb r) = proc_core (proc (pManager ?kb) r)" using mb(2) by (simp add: sched_frame_def)
  note proc_core_fields(6) [OF this]
  then have "que_list (sendQ (proc mb r)) = xs" using q(2) assms(3) len by simp
  ultimately show ?thesis using mb(3) by (auto simp: reschedule_def)
qed

lemma kernel_inv_current:
  "kernel_inv (k\<lparr>pManager := (pManager k)\<lparr>pCurrent := c, pPrev := q\<rparr>\<rparr>) = kernel_inv k"
  by (simp add: kernel_inv_def sched_inv_def run_queues_def plinks_def [abs_def])

text \<open>A newly allocated process, set up but not running, disturbs nothing.\<close>

lemma kernel_inv_alloc:
  assumes inv: "kernel_inv k" and a: "allocProc (pManager k) = (Some p, m1)"
    and f: "\<And>x. status (f x) \<noteq> TASK_RUNNING" "\<And>x. pnext (f x) = pnext x" "\<And>x. proc_queues_ok (f x) = proc_queues_ok x"
  shows "kernel_inv (k\<lparr>pManager := upd_proc m1 p f\<rparr>)" and "p < nr_Proc" and "isFree (ProcL (pManager k)) ! p"
proof -
  let ?m = "pManager k"
  have parts: "runq_wf ?m (run_queues ?m)" "table_ok ?m" "queues_ok ?m" "length (room (ProcL ?m)) = nr_Proc"
    using inv kernel_len [OF inv] by (auto simp: kernel_inv_def sched_inv_def)
  obtain l where l: "Lessor_get (ProcL ?m) = (Some p, l)" "m1 = ?m\<lparr>ProcL := l\<rparr>"
    using a by (auto simp: allocProc_def split: prod.splits)
  note g = Lessor_get_Some [OF l(1)]
  show p: "p < nr_Proc" "isFree (ProcL ?m) ! p" using g parts(2) by (auto simp: table_ok_def)
  then have "status (proc ?m p) \<noteq> TASK_RUNNING" using parts(2) by (simp add: table_ok_def)
  then have new: "\<forall>i < nr_Level. p \<notin> set (run_queues ?m ! i)" using parts(1) p(1) by (auto simp: runq_wf_def)
  have m1: "proc m1 = proc ?m" "pHead m1 = pHead ?m" "length (room (ProcL m1)) = nr_Proc"
    using l g parts(4) by (auto simp: proc_def fun_eq_iff)
  have "runq_wf m1 (run_queues ?m)" using parts(1) m1 by (simp add: runq_wf_def plinks_def [abs_def])
  moreover have "plinks (upd_proc m1 p f) = plinks m1" using f(2) p(1) m1 by (auto simp: plinks_def fun_eq_iff)
  moreover have "status (proc (upd_proc m1 p f) j) = TASK_RUNNING \<longleftrightarrow> (\<exists>i < nr_Level. j \<in> set (run_queues ?m ! i))"
    if "j < nr_Proc" for j
    using that parts(1) p(1) m1 f(1) new by (cases "j = p") (auto simp: runq_wf_def)
  ultimately have "runq_wf (upd_proc m1 p f) (run_queues ?m)" by (simp add: runq_wf_def)
  moreover have "isFree (ProcL m1) = (isFree (ProcL ?m))[p := False]" using l g by simp
  then have "table_ok (upd_proc m1 p f)" using parts(2) p m1 by (auto simp: table_ok_def nth_list_update)
  moreover have "queues_ok m1" using parts(3) l g by (simp add: queues_ok_def)
  then have "queues_ok (upd_proc m1 p f)"
    using f(3) by (intro queues_ok_upd) (auto intro: queues_ok_proc)
  ultimately show "kernel_inv (k\<lparr>pManager := upd_proc m1 p f\<rparr>)"
    using inv by (auto simp: kernel_inv_def intro: sched_invI)
qed

section \<open>An example state\<close>

text \<open>The current process 7 and a second, stopped process 8 with a message waiting for it or not.\<close>

definition demo_pair :: PManager where
  "demo_pair = upd_proc (snd (allocProc (pManager demo_kernel))) 1
     (\<lambda>p. p\<lparr>pid := 8, prior := Psys, status := TASK_STOPPED\<rparr>)"

definition demo_ipc :: kernel where
  "demo_ipc = demo_kernel\<lparr>pManager := demo_pair\<rparr>"

lemma demo_pair_lists:
  "isFree (ProcL demo_pair) = False # False # replicate 30 True"
  "proc demo_pair 0 = proc demo_pm_run 0" "proc demo_pair 1 = demo_proc\<lparr>pid := 8, prior := Psys, status := TASK_STOPPED\<rparr>"
  "length (room (ProcL demo_pair)) = nr_Proc" "pCurrent demo_pair = Some 0"
proof -
  have free: "isFree (ProcL demo_pm_run) = False # replicate 31 True"
    by (simp add: demo_pm_run_def demo_pm_def allocProc_def Lessor_get_def PManager_of_def Lessor_new_def nr_Proc_def
        numeral_eq_Suc)
  have len: "length (room (ProcL demo_pm_run)) = nr_Proc" using demo_pm_run_inv by (simp add: runq_wf_def)
  have one: "1 < nr_Proc" by (simp add: nr_Proc_def)
  show "isFree (ProcL demo_pair) = False # False # replicate 30 True"
    using free by (simp add: demo_pair_def demo_kernel_def allocProc_def Lessor_get_def numeral_eq_Suc)
  show "length (room (ProcL demo_pair)) = nr_Proc" "pCurrent demo_pair = Some 0"
    using len by (simp_all add: demo_pair_def demo_kernel_def)
  show "proc demo_pair 0 = proc demo_pm_run 0" using len one by (simp add: demo_pair_def demo_kernel_def)
  have "proc demo_pm_run 1 = demo_proc" using one demo_table
    by (simp add: demo_pm_run_def demo_pm_def proc_PManager_of)
  then show "proc demo_pair 1 = demo_proc\<lparr>pid := 8, prior := Psys, status := TASK_STOPPED\<rparr>"
    using len one by (simp add: demo_pair_def demo_kernel_def)
qed

lemma demo_proc_queues:
  "que_list (recvQ demo_proc) = []" "que_list (sendQ demo_proc) = []" "que_list (recv_anyQ demo_proc) = []"
  "proc_queues_ok demo_proc"
  using Proc_new_ok [of kernel2user] by (auto simp: demo_proc_def proc_queues_ok_def msgq_ok_def)

lemma demo_ipc_inv: "kernel_inv demo_ipc"
proof -
  have "isFree (ProcL (pManager demo_kernel)) = False # replicate 31 True"
    by (simp add: demo_kernel_def demo_pm_run_def demo_pm_def allocProc_def Lessor_get_def PManager_of_def Lessor_new_def
        nr_Proc_def numeral_eq_Suc)
  then obtain m1 where "allocProc (pManager demo_kernel) = (Some 1, m1)"
    by (simp add: allocProc_def Lessor_get_def numeral_eq_Suc)
  from kernel_inv_alloc(1) [OF demo_kernel_inv this, of "\<lambda>p. p\<lparr>pid := 8, prior := Psys, status := TASK_STOPPED\<rparr>"]
  show ?thesis using \<open>allocProc (pManager demo_kernel) = (Some 1, m1)\<close>
    by (simp add: demo_ipc_def demo_pair_def proc_queues_ok_def)
qed

lemma demo_ipc_lookup: "getProc demo_pair 7 = Some 0" "getProc demo_pair 8 = Some 1" "getProc demo_pair PID_ANY = None"
proof -
  have none: "findProc_loop ps (replicate n True) i d = None" for ps n i d
  proof (induction n arbitrary: ps i)
    case (Suc n)
    then show ?case by (cases ps) auto
  qed simp
  have "2 \<le> length (room (ProcL demo_pair))" using demo_pair_lists(4) by (simp add: nr_Proc_def)
  then obtain p q ps where r: "room (ProcL demo_pair) = p # q # ps"
    by (cases "room (ProcL demo_pair)"; cases "tl (room (ProcL demo_pair))") auto
  have "pid p = 7" "pid q = 8"
    using demo_pair_lists(2,3) demo_table
    by (simp_all add: proc_def [of demo_pair] r demo_pm_run_def demo_pm_def)
  then show "getProc demo_pair 7 = Some 0" "getProc demo_pair 8 = Some 1" "getProc demo_pair PID_ANY = None"
    by (simp_all add: getProc_def demo_pair_lists(1) r none PID_ANY_def)
qed

section \<open>Properties\<close>

text \<open>
  C18. Rendezvous, sender first: a process that sends to a process that does not wait for it leaves its
  message, stamped with its own process id, in the queue of the receiver and sleeps; when the receiver
  becomes current and receives from it, it gets exactly that message and the sender is running again.
\<close>

theorem send_then_recv:
  assumes "kernel_inv k" and "pCurrent (pManager k) = Some s" and "s < nr_Proc"
    and "status (proc (pManager k) s) = TASK_RUNNING" and "unat (prior (proc (pManager k) s)) < nr_Level"
    and "getProc (pManager k) (pid (proc (pManager k) s)) = Some s" and "pid (proc (pManager k) s) \<noteq> PID_ANY"
    and "getProc (pManager k) R = Some r" and "r \<noteq> s" and "isValid mess"
    and "\<forall>x \<in> set (que_list (recvQ (proc (pManager k) s))). mid x \<noteq> R"
    and "que_list (recv_anyQ (proc (pManager k) r)) = []"
    and "length (que_list (sendQ (proc (pManager k) r))) < nrMessage"
  defines "S \<equiv> pid (proc (pManager k) s)"
  shows "\<exists>k1 k3. send k R mess = Inr (k1, mess\<lparr>mid := S\<rparr>) \<and> status (proc (pManager k1) s) = TASK_STOPPED \<and>
    recv (k1\<lparr>pManager := (pManager k1)\<lparr>pCurrent := Some r, pPrev := Some s\<rparr>\<rparr>) S m0 = Inr (k3, mess\<lparr>mid := S\<rparr>) \<and>
    status (proc (pManager k3) s) = TASK_RUNNING \<and>
    que_list (sendQ (proc (pManager k3) r)) = que_list (sendQ (proc (pManager k) r))"
proof -
  have r: "r < nr_Proc" using getProc_Some(1) [OF assms(8)] kernel_len [OF assms(1)] by simp
  obtain k1 where k1: "send k R mess = Inr (k1, mess\<lparr>mid := S\<rparr>)" "kernel_inv k1"
    "status (proc (pManager k1) s) = TASK_STOPPED"
    "que_list (sendQ (proc (pManager k1) r)) = mess\<lparr>mid := S\<rparr> # que_list (sendQ (proc (pManager k) r))"
    "getProc (pManager k1) S = Some s" "prior (proc (pManager k1) s) = prior (proc (pManager k) s)"
    using send_blocks [OF assms(1-4,6,8,9,11-13), of mess] assms(6) unfolding S_def by auto
  let ?k2 = "k1\<lparr>pManager := (pManager k1)\<lparr>pCurrent := Some r, pPrev := Some s\<rparr>\<rparr>"
  have "kernel_inv ?k2" using k1(2) by (simp add: kernel_inv_current)
  from recv_takes [OF this, of r S "mess\<lparr>mid := S\<rparr>" "que_list (sendQ (proc (pManager k) r))" s m0]
  obtain k3 where "recv ?k2 S m0 = Inr (k3, mess\<lparr>mid := S\<rparr>)" "status (proc (pManager k3) s) = TASK_RUNNING"
    "que_list (sendQ (proc (pManager k3) r)) = que_list (sendQ (proc (pManager k) r))"
    using k1 r assms(5,7,9,10) by (auto simp: S_def)
  with k1 show ?thesis by blast
qed

theorem send_then_recv_witness:
  "\<exists>k1 k3. send demo_ipc 8 (Message_id 0) = Inr (k1, Message_id 7) \<and> status (proc (pManager k1) 0) = TASK_STOPPED \<and>
    recv (k1\<lparr>pManager := (pManager k1)\<lparr>pCurrent := Some 1, pPrev := Some 0\<rparr>\<rparr>) 7 invMessage = Inr (k3, Message_id 7) \<and>
    status (proc (pManager k3) 0) = TASK_RUNNING"
proof -
  have p0: "proc (pManager demo_ipc) 0 = demo_proc\<lparr>pid := 7, prior := Psys, status := TASK_RUNNING\<rparr>"
    using demo_pair_lists(2) demo_table
    by (simp add: demo_ipc_def demo_pm_run_def demo_pm_def proc_PManager_of)
  have p1: "proc (pManager demo_ipc) (Suc 0) = demo_proc\<lparr>pid := 8, prior := Psys, status := TASK_STOPPED\<rparr>"
    using demo_pair_lists(3) by (simp add: demo_ipc_def)
  have "(Message_id 0)\<lparr>mid := 7\<rparr> = Message_id 7" "isValid (Message_id 0)" by (simp_all add: Message_id_def)
  then show ?thesis
    using send_then_recv [OF demo_ipc_inv, of 0 8 1 "Message_id 0" invMessage] p0 p1 demo_table(2) demo_pair_lists(5)
      demo_ipc_lookup demo_proc_queues
    by (auto simp: demo_ipc_def Psys_def nr_Level_def PID_ANY_def nrMessage_def)
qed

text \<open>
  \<^verbatim>\<open>recv(PID_ANY)\<close> with a message waiting panics: the message is taken, and then \<^verbatim>\<open>wakeup\<close> is called with
  the pseudo process id \<^verbatim>\<open>PID_ANY\<close> instead of the id of the sender.
\<close>

theorem recv_any_panics:
  assumes "kernel_inv k" and "pCurrent (pManager k) = Some r" and "r < nr_Proc"
    and "que_list (sendQ (proc (pManager k) r)) = xs @ [x]" and "isValid x"
    and "getProc (pManager k) PID_ANY = None"
  shows "recv k PID_ANY m0 = Inl (Panic ''sleep()::cannot find process '')"
proof -
  obtain q where "take_sendQ k r = Inr (x, k\<lparr>pManager := set_sendQ (pManager k) r q\<rparr>)"
    using kq.deq_law [OF _ assms(4)] kernel_queues(1) [OF assms(1,3)] by (auto simp: take_sendQ_def msgq_ok_def)
  then show ?thesis using assms(2,5,6) by (simp add: recv_def wakeup_def)
qed

theorem recv_any_panics_witness:
  "\<exists>k. put_sendQ demo_ipc 0 (Message_id 8) = Inr k \<and>
     recv k PID_ANY invMessage = Inl (Panic ''sleep()::cannot find process '')"
proof -
  have p0: "que_list (sendQ (proc (pManager demo_ipc) 0)) = []" and len: "length (room (ProcL demo_pair)) = nr_Proc"
    using demo_pair_lists(2,4) demo_table demo_proc_queues(2)
    by (simp_all add: demo_ipc_def demo_pm_run_def demo_pm_def proc_PManager_of)
  obtain q where q: "put_sendQ demo_ipc 0 (Message_id 8) = Inr (demo_ipc\<lparr>pManager := set_sendQ (pManager demo_ipc) 0 q\<rparr>)"
    "que_list q = [Message_id 8]"
    using put_sendQ_room [OF demo_ipc_inv demo_table(2), of "Message_id 8"] p0 by (auto simp: nrMessage_def)
  have "kernel_inv (demo_ipc\<lparr>pManager := set_sendQ (pManager demo_ipc) 0 q\<rparr>)"
    using ensuresD [OF put_inv(1) [OF demo_ipc_inv] q(1)] .
  from recv_any_panics [OF this, of 0 "[]" "Message_id 8" invMessage] q demo_table(2) demo_pair_lists(5) demo_ipc_lookup(3) len
  show ?thesis by (auto simp: demo_ipc_def Message_id_def)
qed

end
