(* ===== verification/KString.thy ===== *)
theory KString
  imports Kernel_Prelude
begin

unbundle bit_operations_syntax

text \<open>
  The string and memory routines of the kernel, \<^verbatim>\<open>src/kernel/string.cpp\<close>.

  Memory is a function from addresses to bytes and a pointer is an address; pointer arithmetic wraps
  around at \<open>2 ^ 32\<close>. A \<^verbatim>\<open>char\<close> is a byte. The routines are written as the loops of the source, an index or
  a count that runs.
\<close>

type_synonym bmem = "u32 \<Rightarrow> u8"

definition STRLEN_MAX :: nat where "STRLEN_MAX = 0x400"

section \<open>Filling and copying\<close>

fun memset :: "u32 \<Rightarrow> u8 \<Rightarrow> nat \<Rightarrow> bmem \<Rightarrow> bmem" where
  "memset p val 0 m = m"
| "memset p val (Suc n) m = memset (p + 1) val n (m(p := val))"

text \<open>The loops \<^verbatim>\<open>for(i=0;i<n;i++) d[i]=...\<close> from index \<open>i\<close> on, for \<open>n\<close> more turns.\<close>

fun bzero_loop :: "u32 \<Rightarrow> nat \<Rightarrow> nat \<Rightarrow> bmem \<Rightarrow> bmem" where
  "bzero_loop p i 0 m = m"
| "bzero_loop p i (Suc n) m = bzero_loop p (Suc i) n (m(p + of_nat i := 0))"

definition bzero :: "u32 \<Rightarrow> nat \<Rightarrow> bmem \<Rightarrow> bmem" where
  "bzero s n m = bzero_loop s 0 n m"

fun copy_loop :: "u32 \<Rightarrow> u32 \<Rightarrow> nat \<Rightarrow> nat \<Rightarrow> bmem \<Rightarrow> bmem" where
  "copy_loop d s i 0 m = m"
| "copy_loop d s i (Suc n) m = copy_loop d s (Suc i) n (m(d + of_nat i := m (s + of_nat i)))"

definition memcpy :: "u32 \<Rightarrow> u32 \<Rightarrow> nat \<Rightarrow> bmem \<Rightarrow> bmem" where
  "memcpy s1 s2 n m = copy_loop s1 s2 0 n m"

text \<open>The two loops of \<^verbatim>\<open>memmove\<close>, upwards and downwards.\<close>

fun move_up :: "u32 \<Rightarrow> u32 \<Rightarrow> nat \<Rightarrow> bmem \<Rightarrow> bmem" where
  "move_up out src 0 m = m"
| "move_up out src (Suc n) m = move_up (out + 1) (src + 1) n (m(out := m src))"

fun move_down :: "u32 \<Rightarrow> u32 \<Rightarrow> nat \<Rightarrow> bmem \<Rightarrow> bmem" where
  "move_down out src 0 m = m"
| "move_down out src (Suc n) m = move_down (out - 1) (src - 1) n (m(out - 1 := m (src - 1)))"

definition memmove :: "u32 \<Rightarrow> u32 \<Rightarrow> nat \<Rightarrow> bmem \<Rightarrow> bmem" where
  "memmove to from n m =
     (if n \<le> 0 then m
      else if from + of_nat n \<le> to \<or> to + of_nat n \<le> from then memcpy to from n m
      else if to < from then move_up to from n m
      else move_down (to + of_nat n) (from + of_nat n) n m)"

section \<open>Strings\<close>

fun strlen_loop :: "bmem \<Rightarrow> u32 \<Rightarrow> nat \<Rightarrow> nat \<Rightarrow> nat" where
  "strlen_loop m str i 0 = i"
| "strlen_loop m str i (Suc n) = (if m (str + of_nat i) = 0 then i else strlen_loop m str (Suc i) n)"

definition strlen :: "bmem \<Rightarrow> u32 \<Rightarrow> nat" where
  "strlen m str = strlen_loop m str 0 STRLEN_MAX"

definition strcat :: "u32 \<Rightarrow> u32 \<Rightarrow> u32 \<Rightarrow> bmem \<Rightarrow> bmem" where
  "strcat dest str1 str2 m =
     (let len1 = strlen m str1; len2 = strlen m str2;
          m = copy_loop dest str1 0 len1 m
      in copy_loop (dest + of_nat len1) str2 0 len2 m)"

definition strcpy :: "u32 \<Rightarrow> u32 \<Rightarrow> bmem \<Rightarrow> bmem" where
  "strcpy d s m = copy_loop d s 0 (strlen m s + 1) m"

definition strncpy :: "u32 \<Rightarrow> u32 \<Rightarrow> nat \<Rightarrow> bmem \<Rightarrow> bmem" where
  "strncpy d s len m = copy_loop d s 0 (min (strlen m s) len + 1) m"

fun differ_loop :: "bmem \<Rightarrow> u32 \<Rightarrow> u32 \<Rightarrow> nat \<Rightarrow> nat \<Rightarrow> bool" where
  "differ_loop m s1 s2 i 0 \<longleftrightarrow> False"
| "differ_loop m s1 s2 i (Suc n) \<longleftrightarrow> m (s1 + of_nat i) \<noteq> m (s2 + of_nat i) \<or> differ_loop m s1 s2 (Suc i) n"

definition strcmp :: "bmem \<Rightarrow> u32 \<Rightarrow> u32 \<Rightarrow> nat \<Rightarrow> u16" where
  "strcmp m s1 s2 num =
     (if strlen m s1 \<noteq> strlen m s2 then 1
      else if differ_loop m s1 s2 0 (min num (strlen m s1)) then 1 else 0)"

definition strncmp :: "bmem \<Rightarrow> u32 \<Rightarrow> u32 \<Rightarrow> nat \<Rightarrow> u16" where
  "strncmp m s1 s2 num = (if differ_loop m s1 s2 0 num then 1 else 0)"

section \<open>Numbers\<close>

definition hex_char :: "u32 \<Rightarrow> u8" where
  "hex_char hexn =
     (if hexn = 10 then 0x61 else if hexn = 11 then 0x62 else if hexn = 12 then 0x63
      else if hexn = 13 then 0x64 else if hexn = 14 then 0x65 else if hexn = 15 then 0x66
      else 0x30 + ucast hexn)"

function hex_loop :: "nat \<Rightarrow> u32 \<Rightarrow> u32 \<Rightarrow> bmem \<Rightarrow> bmem" where
  "hex_loop i num str m =
     (if num \<noteq> 0 then
        hex_loop (Suc i) (num div 0x10) str (m(str + 9 - of_nat i := hex_char (num mod 0x10)))
      else m)"
  by pat_completeness auto

termination hex_loop
  by (relation "measure (\<lambda>(i, num, str, m). unat num)") (simp_all add: unat_div word_unat_eq_iff)

declare hex_loop.simps [simp del]

fun zero_digits :: "u32 \<Rightarrow> nat \<Rightarrow> nat \<Rightarrow> bmem \<Rightarrow> bmem" where
  "zero_digits str i 0 m = m"
| "zero_digits str i (Suc n) m = zero_digits str (Suc i) n (m(str + of_nat i := 0x30))"

definition num2str_hex :: "u32 \<Rightarrow> u32 \<Rightarrow> bmem \<Rightarrow> bmem" where
  "num2str_hex num str m =
     (let m = m(str := 0x30);
          m = m(str + 1 := 0x78);
          m = zero_digits str 2 8 m
      in hex_loop 0 num str m)"

text \<open>
  \<^verbatim>\<open>num2str\<close>: the two loops on the power of ten \<^verbatim>\<open>fig\<close>, a 32-bit unsigned integer, and the routine itself. It
  calls itself on the absolute value of a negative number; the negation wraps around, so that the least
  integer is its own absolute value, and the fuel bounds the depth of the calls.
\<close>

function fig_loop :: "nat \<Rightarrow> u32 \<Rightarrow> u32" where
  "fig_loop tmp fig = (if tmp \<noteq> 0 then fig_loop (tmp div 10) (fig * 10) else fig)"
  by pat_completeness auto

termination fig_loop
  by (relation "measure fst") simp_all

declare fig_loop.simps [simp del]

function digit_loop :: "nat \<Rightarrow> u32 \<Rightarrow> u32 \<Rightarrow> u32 \<Rightarrow> bmem \<Rightarrow> nat \<times> bmem" where
  "digit_loop i num fig str m =
     (if fig \<noteq> 0 then
        digit_loop (Suc i) (num mod fig) (fig div 10) str (m(str + of_nat i := 0x30 + ucast (num div fig)))
      else (i, m))"
  by pat_completeness auto

termination digit_loop
  by (relation "measure (\<lambda>(i, num, fig, str, m). unat fig)") (simp_all add: unat_div word_unat_eq_iff)

declare digit_loop.simps [simp del]

definition abs32 :: "int \<Rightarrow> int" where
  "abs32 x = (if x < 0 then sint (- word_of_int x :: u32) else x)"

fun num2str :: "nat \<Rightarrow> int \<Rightarrow> u32 \<Rightarrow> bmem \<Rightarrow> bmem kres" where
  "num2str 0 num str m = Inl Hang"
| "num2str (Suc fuel) num str m =
     (if num < 0 then num2str fuel (abs32 num) (str + 1) (m(str := 0x2d))
      else if num = 0 then Inr (m(str := 0x30, str + 1 := 0))
      else
        (let fig = fig_loop (nat num) 1 div 10;
             (i, m) = digit_loop 0 (word_of_int num) fig str m
         in Inr (m(str + of_nat i := 0))))"

end
