(* ===== verification/Descriptor.thy ===== *)
theory Descriptor
  imports PFAllocator_Correct KString
begin

unbundle bit_operations_syntax

text \<open>
  Segment and gate descriptors, \<^verbatim>\<open>src/kernel/Descriptor.cpp\<close>, \<^verbatim>\<open>src/include/os/Descriptor.h\<close>, and the task state
  segment of \<^verbatim>\<open>src/kernel/Tss.cpp\<close>.

  A descriptor table is the address it was allocated at and its entries by index. The addresses of the
  interrupt entry points come from assembly code and are the arguments \<open>isr\<close> and \<open>invalid\<close>.
\<close>

section \<open>Descriptors\<close>

definition KCSeg :: u16 where "KCSeg = 0x08"
definition KDSeg :: u16 where "KDSeg = 0x10"
definition TssDesc :: u16 where "TssDesc = 0x20"
definition UCSeg :: u16 where "UCSeg = 0x28"
definition UDSeg :: u16 where "UDSeg = 0x30"
definition TCSeg :: u16 where "TCSeg = 0x40"
definition TDSeg :: u16 where "TDSeg = 0x48"
definition AR_CODE32 :: u16 where "AR_CODE32 = 0x409a"
definition AR_DATA32 :: u16 where "AR_DATA32 = 0x4092"
definition AR_TASKCODE32 :: u16 where "AR_TASKCODE32 = 0x40ba"
definition AR_TASKDATA32 :: u16 where "AR_TASKDATA32 = 0x40b2"
definition AR_USERCODE32 :: u16 where "AR_USERCODE32 = 0x40fa"
definition AR_USERDATA32 :: u16 where "AR_USERDATA32 = 0x40f2"
definition TYPE_TSS :: u16 where "TYPE_TSS = 0x89"
definition AR_INT :: u16 where "AR_INT = 0x008e"
definition AR_INT_p3 :: u16 where "AR_INT_p3 = 0x00ee"

record seg_desc_s =
  limit_low :: u16
  base_low :: u16
  base_mid :: u8
  access_right :: u8
  limit_high :: u8
  base_high :: u8

record gate_desc_s =
  offset_low :: u16
  selector :: u16
  gcount :: u8
  gaccess_right :: u8
  offset_high :: u16

definition set_segdesc :: "u32 \<Rightarrow> u32 \<Rightarrow> u16 \<Rightarrow> seg_desc_s" where
  "set_segdesc addr limit ar =
     (let (ar, limit) = (if limit > 0xfffff then (ar OR 0x8000, limit div 0x1000) else (ar, limit))
      in \<lparr>limit_low = ucast (limit AND 0xffff),
          base_low = ucast (addr AND 0xffff),
          base_mid = ucast (drop_bit 16 addr AND 0xff),
          access_right = ucast (ar AND 0xff),
          limit_high = ucast (drop_bit 16 limit AND 0x0f) OR ucast (drop_bit 8 ar AND 0xf0),
          base_high = ucast (drop_bit 24 addr AND 0xff)\<rparr>)"

definition set_gatedesc :: "u32 \<Rightarrow> u32 \<Rightarrow> u16 \<Rightarrow> gate_desc_s" where
  "set_gatedesc offset sel ar =
     \<lparr>offset_low = ucast (offset AND 0xffff), selector = ucast sel, gcount = ucast (drop_bit 8 ar AND 0xff),
      gaccess_right = ucast (ar AND 0xff), offset_high = ucast (drop_bit 16 offset AND 0xffff)\<rparr>"

section \<open>Tables\<close>

record desc_tables =
  gdtaddr :: u32
  gdesc :: "nat \<Rightarrow> seg_desc_s"
  idtaddr :: u32
  idesc :: "nat \<Rightarrow> gate_desc_s"
  gdtr :: "u16 \<times> u32"
  idtr :: "u16 \<times> u32"

definition zero_seg :: seg_desc_s where
  "zero_seg = \<lparr>limit_low = 0, base_low = 0, base_mid = 0, access_right = 0, limit_high = 0, base_high = 0\<rparr>"

text \<open>The size of \<^verbatim>\<open>struct TSS32\<close>, 26 words.\<close>

definition TSS32_size :: u32 where "TSS32_size = 104"

definition initGDT :: "u32 \<Rightarrow> PFAllocator \<Rightarrow> desc_tables \<Rightarrow> (PFAllocator \<times> desc_tables) kres" where
  "initGDT tssaddr a t =
     rbind (allocChunk a 10) (\<lambda>(addr, a1).
       (let d = (\<lambda>i. if i < 0x1000 div 2 then zero_seg else gdesc t i);
            d = d(unat KCSeg div 8 := set_segdesc 0 0xffffffff AR_CODE32);
            d = d(unat KDSeg div 8 := set_segdesc 0 0xffffffff AR_DATA32);
            d = d(unat UCSeg div 8 := set_segdesc 0 0xffffffff AR_USERCODE32);
            d = d(unat UDSeg div 8 := set_segdesc 0 0xffffffff AR_USERDATA32);
            d = d(unat TCSeg div 8 := set_segdesc 0 0xffffffff AR_TASKCODE32);
            d = d(unat TDSeg div 8 := set_segdesc 0 0xffffffff AR_TASKDATA32);
            d = d(unat TssDesc div 8 := set_segdesc tssaddr TSS32_size TYPE_TSS)
        in Inr (a1, t\<lparr>gdtaddr := addr, gdesc := d\<rparr>)))"

text \<open>The loop that copies the first gate; \<open>p\<close> runs from the start of the table.\<close>

definition fill_gates :: "(nat \<Rightarrow> gate_desc_s) \<Rightarrow> nat \<Rightarrow> gate_desc_s" where
  "fill_gates d = fold (\<lambda>i d. d(i - 1 := d 0)) [1..<0x100] d"

definition initIDT :: "(nat \<Rightarrow> u32) \<Rightarrow> u32 \<Rightarrow> PFAllocator \<Rightarrow> desc_tables \<Rightarrow> (PFAllocator \<times> desc_tables) kres" where
  "initIDT isr invalid a t =
     rbind (allocChunk a 10) (\<lambda>(addr, a1).
       (let d = (idesc t)(0 := set_gatedesc invalid (ucast KCSeg) AR_INT);
            d = fill_gates d;
            d = fold (\<lambda>i d. d(i := set_gatedesc (isr i) (ucast KCSeg) AR_INT)) [0..<0x10] d;
            d = d(0x20 := set_gatedesc (isr 0x20) (ucast KCSeg) AR_INT);
            d = d(0x21 := set_gatedesc (isr 0x21) (ucast KCSeg) AR_INT);
            d = d(0x30 := set_gatedesc (isr 0x30) (ucast KCSeg) AR_INT_p3);
            d = d(0x80 := set_gatedesc (isr 0x30) (ucast KCSeg) AR_INT_p3)
        in Inr (a1, t\<lparr>idtaddr := addr, idesc := d\<rparr>)))"

definition lidt :: "desc_tables \<Rightarrow> desc_tables" where
  "lidt t = t\<lparr>idtr := (0x100 * 8 - 1, idtaddr t)\<rparr>"

definition lgdt :: "desc_tables \<Rightarrow> desc_tables" where
  "lgdt t = t\<lparr>gdtr := (TDSeg + 8, gdtaddr t)\<rparr>"

definition initTSS :: "PFAllocator \<Rightarrow> bmem \<Rightarrow> (u32 \<times> PFAllocator \<times> bmem) kres" where
  "initTSS a m = rbind (allocChunk a 1) (\<lambda>(tssaddr, a1). Inr (tssaddr, a1, bzero tssaddr (unat TSS32_size) m))"

section \<open>What the processor reads\<close>

definition seg_base :: "seg_desc_s \<Rightarrow> u32" where
  "seg_base d = ucast (base_low d) OR push_bit 16 (ucast (base_mid d)) OR push_bit 24 (ucast (base_high d))"

definition seg_limit :: "seg_desc_s \<Rightarrow> u32" where
  "seg_limit d = ucast (limit_low d) OR push_bit 16 (ucast (limit_high d) AND 0xf)"

definition seg_granular :: "seg_desc_s \<Rightarrow> bool" where
  "seg_granular d \<longleftrightarrow> bit (limit_high d) 7"

text \<open>The highest offset a segment allows.\<close>

definition seg_last :: "seg_desc_s \<Rightarrow> nat" where
  "seg_last d = (if seg_granular d then unat (seg_limit d) * 4096 + 4095 else unat (seg_limit d))"

definition gate_offset :: "gate_desc_s \<Rightarrow> u32" where
  "gate_offset g = ucast (offset_low g) OR push_bit 16 (ucast (offset_high g))"

definition gate_dpl :: "gate_desc_s \<Rightarrow> nat" where
  "gate_dpl g = unat (drop_bit 5 (gaccess_right g) AND 3)"

lemma desc_masks: "(0xffff :: u32) = mask 16" "(0xff :: u32) = mask 8" "(0xf :: u32) = mask 4"
  "(0xff :: u16) = mask 8" "(0xf0 :: u16) = push_bit 4 (mask 4)" "(0xf :: u8) = mask 4" "(0x8000 :: u16) = push_bit 15 1"
  by (simp_all add: mask_eq_exp_minus_1 push_bit_eq_mult)

lemma base_split:
  "(ucast (ucast (addr AND mask 16) :: u16) OR push_bit 16 (ucast (ucast (drop_bit 16 addr AND mask 8) :: u8)) OR
    push_bit 24 (ucast (ucast (drop_bit 24 addr AND mask 8) :: u8))) = (addr :: u32)" (is "?l = addr")
proof (rule bit_word_eqI)
  fix n assume "n < LENGTH(32)"
  then consider "n < 16" | "16 \<le> n" "n < 24" | "24 \<le> n" "n < 32" by fastforce
  then show "bit ?l n \<longleftrightarrow> bit addr n" by cases (auto simp: bit_simps)
qed

lemma seg_base_set [simp]: "seg_base (set_segdesc addr limit ar) = addr"
  by (cases "limit > 0xfffff")
    (simp_all only: seg_base_def set_segdesc_def Let_def if_True if_False prod.case seg_desc_s.select_convs desc_masks base_split)

lemma limit_split:
  fixes limit :: u32 and x :: u8
  assumes "unat limit < 2 ^ 20" and "x AND mask 4 = 0"
  shows "(ucast (ucast (limit AND mask 16) :: u16) OR
    push_bit 16 (ucast (ucast (drop_bit 16 limit AND mask 4) OR x) AND mask 4)) = limit" (is "?l = limit")
proof (rule bit_word_eqI)
  fix n assume "n < LENGTH(32)"
  then consider "n < 16" | "16 \<le> n" "n < 20" | "20 \<le> n" "n < 32" by fastforce
  moreover have "\<not> bit x i" if "i < 4" for i
    using assms(2) that bit_and_iff [of x "mask 4" i] by (auto simp: bit_simps)
  moreover have "\<not> bit limit i" if "20 \<le> i" for i
  proof -
    have "unat limit < 2 ^ i" using assms(1) that by (meson less_le_trans one_le_numeral power_increasing)
    then have "\<not> bit (unat limit) i" by (simp add: bit_iff_odd)
    then show ?thesis by (simp add: bit_unsigned_iff bit_imp_le_length)
  qed
  ultimately show "bit ?l n \<longleftrightarrow> bit limit n" by cases (auto simp: bit_simps)
qed

lemma gate_offset_set [simp]: "gate_offset (set_gatedesc offset sel ar) = offset"
  unfolding gate_offset_def set_gatedesc_def desc_masks
  by (rule bit_word_eqI) (auto simp: bit_simps)

lemma seg_limit_set:
  "seg_limit (set_segdesc addr limit ar) = (if limit > 0xfffff then limit div 0x1000 else limit)"
proof -
  have x: "(ucast (drop_bit 8 ar' AND push_bit 4 (mask 4)) :: u8) AND mask 4 = 0" for ar' :: u16
    by (rule bit_word_eqI) (auto simp: bit_simps)
  have "unat limit < 2 ^ 32" using unsigned_less [of limit] by simp
  then have "unat limit div 4096 < 2 ^ 20" by simp
  then have big: "unat (limit div 0x1000) < 2 ^ 20" by (simp add: unat_div)
  show ?thesis
  proof (cases "limit > 0xfffff")
    case True
    then show ?thesis using limit_split [OF big x [of "ar OR 0x8000"]]
      by (simp only: seg_limit_def set_segdesc_def Let_def if_True prod.case seg_desc_s.select_convs desc_masks)
  next
    case False
    then have "unat limit < 2 ^ 20" by (simp add: word_less_nat_alt)
    with False show ?thesis using limit_split [OF _ x [of ar], of limit]
      by (simp only: seg_limit_def set_segdesc_def Let_def if_False prod.case seg_desc_s.select_convs desc_masks)
  qed
qed

lemma seg_granular_set: "seg_granular (set_segdesc addr limit ar) \<longleftrightarrow> limit > 0xfffff \<or> bit ar 15"
proof -
  have b: "bit (ucast (y AND mask 4) OR ucast (drop_bit 8 ar' AND push_bit 4 (mask 4)) :: u8) 7 \<longleftrightarrow> bit ar' 15" for y :: u32 and ar' :: u16
    by (auto simp: bit_simps)
  have o: "bit (ar OR push_bit 15 1) 15" by (simp add: bit_simps)
  show ?thesis
    by (cases "limit > 0xfffff")
      (simp_all only: seg_granular_def set_segdesc_def Let_def if_True if_False prod.case seg_desc_s.select_convs desc_masks b o simp_thms)
qed

text \<open>The gates after the copying loop.\<close>

lemma fill_gates_eq: "fill_gates d i = (if i < 0xff then d 0 else d i)"
proof -
  define S where "S i d = d(i - 1 := d 0)" for i and d :: "nat \<Rightarrow> gate_desc_s"
  have "fold S [1..<Suc n] d i = (if i < n then d 0 else d i)" for n i
  proof (induction n arbitrary: i)
    case (Suc n)
    have "fold S [1..<Suc (Suc n)] d = S (Suc n) (fold S [1..<Suc n] d)" by simp
    then have "fold S [1..<Suc (Suc n)] d i = (if i = n then fold S [1..<Suc n] d 0 else fold S [1..<Suc n] d i)"
      by (simp add: S_def)
    then show ?case unfolding Suc by (simp add: less_Suc_eq)
  qed simp
  from this [of "0xff" i] show ?thesis by (simp add: fill_gates_def S_def [abs_def])
qed

lemma ucast_up_down [simp]: "ucast (ucast (x :: u16) :: u32) = x"
  by (rule bit_word_eqI) (simp add: bit_simps)

section \<open>Properties\<close>

text \<open>
  Descriptors are read back as they were set: the processor sees the base address, a last offset
  that is the limit, rounded up to the end of its page for limits that need page granularity, and a gate
  leads to the offset and the code segment it was set to.
\<close>

theorem descriptor_roundtrip:
  assumes "\<not> bit ar 15"
  shows "seg_base (set_segdesc addr limit ar) = addr \<and>
    seg_last (set_segdesc addr limit ar) =
      (if 0xfffff < unat limit then unat limit div 4096 * 4096 + 4095 else unat limit) \<and>
    gate_offset (set_gatedesc offset (ucast sel) gar) = offset \<and> selector (set_gatedesc offset (ucast sel) gar) = sel"
proof -
  have "selector (set_gatedesc offset (ucast sel) gar) = sel" by (simp add: set_gatedesc_def)
  moreover have "0xfffff < limit \<longleftrightarrow> 0xfffff < unat limit" by (simp add: word_less_nat_alt)
  ultimately show ?thesis using assms
    by (simp add: seg_last_def seg_limit_set seg_granular_set unat_div)
qed

theorem descriptor_roundtrip_witness:
  "seg_base (set_segdesc 0x12345678 0xffffffff AR_CODE32) = 0x12345678 \<and>
   seg_last (set_segdesc 0x12345678 0xffffffff AR_CODE32) = 0xffffffff"
  using descriptor_roundtrip [of AR_CODE32 "0x12345678" "0xffffffff" 0 0 0] by (simp add: AR_CODE32_def)

text \<open>
  C31. The interrupt table after \<^verbatim>\<open>initIDT\<close>: the sixteen exceptions, the timer and the keyboard lead to their
  entry points for the kernel, the system call vectors 0x30 and 0x80 to theirs for user mode, and all the
  others up to 0xfe to the entry for unexpected interrupts. Gate 0xff is left as it was.
\<close>

theorem initIDT_vectors:
  assumes "initIDT isr invalid a t = Inr (a', t')"
  shows "(\<forall>v < 0xff. gate_offset (idesc t' v) =
      (if v < 0x10 \<or> v = 0x20 \<or> v = 0x21 then isr v else if v = 0x30 \<or> v = 0x80 then isr 0x30 else invalid) \<and>
      selector (idesc t' v) = KCSeg \<and> gate_dpl (idesc t' v) = (if v = 0x30 \<or> v = 0x80 then 3 else 0)) \<and>
    idesc t' 0xff = idesc t 0xff"
proof -
  define G where "G o' ar = set_gatedesc o' (ucast KCSeg) ar" for o' ar
  have exc: "fold (\<lambda>i d. d(i := G (isr i) AR_INT)) [0..<n] d v = (if v < n then G (isr v) AR_INT else d v)" for n d v
    by (induction n) (auto simp: less_Suc_eq)
  from assms have "idesc t' v = (if v = 0x80 \<or> v = 0x30 then G (isr 0x30) AR_INT_p3
      else if v < 0x10 \<or> v = 0x20 \<or> v = 0x21 then G (isr v) AR_INT
      else fill_gates ((idesc t)(0 := G invalid AR_INT)) v)" for v
    unfolding initIDT_def rbind_eq_Inr Let_def G_def [symmetric] by (auto simp: exc)
  moreover have "selector (G o' ar) = KCSeg" "gate_offset (G o' ar) = o'" for o' ar
    by (simp_all add: G_def) (simp add: set_gatedesc_def)
  moreover have "gate_dpl (G o' AR_INT) = 0" "gate_dpl (G o' AR_INT_p3) = 3" for o'
    by (simp_all add: G_def gate_dpl_def set_gatedesc_def AR_INT_def AR_INT_p3_def)
  ultimately show ?thesis by (auto simp: fill_gates_eq)
qed

theorem initIDT_vectors_witness:
  "\<exists>t t' a'. initIDT (\<lambda>v. 0x100000 + of_nat v) 0x200000 demo_pfa t = Inr (a', t') \<and>
     gate_offset (idesc t' 0x80) = 0x100030 \<and> gate_offset (idesc t' 0x77) = 0x200000"
proof -
  obtain r a' where "allocChunk demo_pfa 10 = Inr (r, a')"
    using allocChunk_refines [OF demo_inv demo_left, of 10] by (auto simp: demo_exts)
  moreover define t where "t = \<lparr>gdtaddr = 0, gdesc = \<lambda>_. zero_seg, idtaddr = 0, idesc = \<lambda>_. set_gatedesc 0 0 0, gdtr = (0, 0), idtr = (0, 0)\<rparr>"
  ultimately obtain t' where run: "initIDT (\<lambda>v. 0x100000 + of_nat v) 0x200000 demo_pfa t = Inr (a', t')"
    by (simp add: initIDT_def Let_def)
  from initIDT_vectors [OF run] have v: "\<forall>v < 0xff. gate_offset (idesc t' v) =
      (if v < 0x10 \<or> v = 0x20 \<or> v = 0x21 then 0x100000 + of_nat v else if v = 0x30 \<or> v = 0x80 then 0x100000 + of_nat 0x30 else 0x200000)"
    by blast
  from v [rule_format, of "0x80"] v [rule_format, of "0x77"] run show ?thesis by auto
qed

end
