(* ===== verification/Kernel_Steps.thy ===== *)
theory Kernel_Steps
  imports Ipc Descriptor
begin

text \<open>
  The creation of processes and the reachable states of the kernel.

  \<^verbatim>\<open>makeSysProc\<close> (\<^verbatim>\<open>src/kernel/Process.cpp\<close>), \<^verbatim>\<open>init_tasks\<close> and \<^verbatim>\<open>fork\<close> (\<^verbatim>\<open>src/kernel/task.cpp\<close>) as far as the
  process table is concerned: the address space built for the new process and the frame allocated for
  its kernel stack are arguments here. The relation \<open>kstep\<close> collects the transitions the kernel makes
  on an interrupt or a system call; its reachable states satisfy the invariant of the scheduler.
\<close>

section \<open>Operations\<close>

text \<open>\<^verbatim>\<open>sizeof(stack_frame_s)\<close>: 17 registers of 4 bytes.\<close>

definition stack_frame_size :: u32 where "stack_frame_size = 68"

definition makeSysProc_table :: "PManager \<Rightarrow> mm_struct \<Rightarrow> u32 \<Rightarrow> (nat \<times> PManager) kres" where
  "makeSysProc_table m mm' chunk =
     (let (p, m1) = allocProc m in
      rbind (deref p) (\<lambda>pro.
        Inr (pro, upd_proc m1 pro (\<lambda>x. x\<lparr>mm := mm', status := TASK_STOPPED, prior := Psys,
          kernel_info := (kernel_info x)\<lparr>ki_ss := ucast KDSeg, stack_top := chunk + 0x1000 - 4, ki_cs := ucast KCSeg,
            ret_from := kernel2user\<rparr>\<rparr>))))"

definition kernel_boot :: "ret_fn \<Rightarrow> kernel kres" where
  "kernel_boot fn0 =
     rbind (PManager_new fn0) (\<lambda>m.
     rbind (Que_new 64 invalid_entry invalid_entry) (\<lambda>q.
       Inr \<lparr>pManager = m, timer = Timer_new, sched_req = False, irqQue = q,
            tss = \<lparr>ss0 = 0, esp0 = 0\<rparr>, cpu_cr3 = 0\<rparr>))"

definition init_tasks :: "kernel \<Rightarrow> mm_struct \<Rightarrow> u32 \<Rightarrow> mm_struct \<Rightarrow> u32 \<Rightarrow> kernel kres" where
  "init_tasks k mm_i stk_i mm_k stk_k =
     rbind (makeSysProc_table (pManager k) mm_i stk_i) (\<lambda>(pinit, m1).
     rbind (makeSysProc_table m1 mm_k stk_k) (\<lambda>(pkernel, m2).
       (let m3 = upd_proc m2 pkernel (\<lambda>x. x\<lparr>pid := PID_KERNEL\<rparr>);
            m4 = upd_proc m3 pinit (\<lambda>x. x\<lparr>pid := PID_INIT\<rparr>) in
        rbind (enque m4 pinit 0) (\<lambda>m5.
          (let m6 = m5\<lparr>pCurrent := Some pinit, pPrev := pPrev m5\<rparr>
           in Inr (k\<lparr>pManager := m6, tss := setFrame2TSS (tss k) (kernel_info (proc m6 pinit)),
                     cpu_cr3 := cr3 (mm (proc m6 pinit)),
                     timer := reset_quantum (timer k) (int (unat (interval m6 ! 0)))
                                (of_int (pid (proc m6 pinit)))\<rparr>))))))"

text \<open>
  \<^verbatim>\<open>fork\<close> from the new process id on: \<^verbatim>\<open>copy_process\<close>, the copy of \<^verbatim>\<open>kernel_info\<close> and \<^verbatim>\<open>setup_stack\<close>.
\<close>

definition fork_setup :: "PManager \<Rightarrow> nat \<Rightarrow> nat \<Rightarrow> int \<Rightarrow> mm_struct \<Rightarrow> u32 \<Rightarrow> PManager" where
  "fork_setup m2 current clone i mm' chunk =
     (let m3 = upd_proc m2 clone (\<lambda>x. x\<lparr>pid := i\<rparr>);
          m4 = upd_proc m3 clone (\<lambda>x. x\<lparr>prior := prior (proc m3 current), status := TASK_STOPPED, mm := mm'\<rparr>);
          m5 = upd_proc m4 clone (\<lambda>x. x\<lparr>kernel_info :=
                 (kernel_info (proc m4 current))\<lparr>ret_from := ret_from_fork\<rparr>\<rparr>);
          top = chunk + 0x1000 - 4
      in upd_proc m5 clone (\<lambda>x. x\<lparr>kernel_info :=
           (kernel_info x)\<lparr>stack_top := top, ki_sp := top - stack_frame_size\<rparr>\<rparr>))"

definition fork_table :: "kernel \<Rightarrow> mm_struct \<Rightarrow> u32 \<Rightarrow> (int \<times> kernel) kres" where
  "fork_table k mm' chunk =
     rbind (deref (pCurrent (pManager k))) (\<lambda>current.
       (let (p, m1) = allocProc (pManager k) in
        rbind (deref p) (\<lambda>clone.
          (let (i, m2) = pid_gen m1 in
           rbind (wakeup (k\<lparr>pManager := fork_setup m2 current clone i mm' chunk\<rparr>) i) (\<lambda>k1.
             Inr (i, k1))))))"

section \<open>Transitions\<close>

inductive kstep :: "kernel \<Rightarrow> kernel \<Rightarrow> bool" where
  ks_schedule: "schedule k ebp = Inr (k', e) \<Longrightarrow> kstep k k'"
| ks_recv_later: "recv_later k = Inr k' \<Longrightarrow> kstep k k'"
| ks_tick: "timerHandler k = Inr k' \<Longrightarrow> kstep k k'"
| ks_sleep: "sleep_pid k d ms = Inr k' \<Longrightarrow> kstep k k'"
| ks_wakeup: "wakeup k d = Inr k' \<Longrightarrow> kstep k k'"
| ks_wait: "wait_interrupt k n = Inr k' \<Longrightarrow> kstep k k'"
| ks_notify: "notify k n = Inr k' \<Longrightarrow> kstep k k'"
| ks_send: "send k i mess = Inr (k', mess') \<Longrightarrow> kstep k k'"
| ks_recv: "recv k i mess = Inr (k', mess') \<Longrightarrow> kstep k k'"
| ks_fork: "fork_table k mm' chunk = Inr (i, k') \<Longrightarrow> kstep k k'"

inductive_cases kstepE: "kstep k k'"

section \<open>The invariant is preserved\<close>

lemma kernel_inv_pid_num: "kernel_inv (k\<lparr>pManager := m\<lparr>pid_num := n\<rparr>\<rparr>) = kernel_inv (k\<lparr>pManager := m\<rparr>)"
  by (simp add: kernel_inv_def sched_inv_def run_queues_def plinks_def [abs_def] table_ok_def queues_ok_def proc_def)

lemma upd_proc_twice: "upd_proc (upd_proc m p f) p g = upd_proc m p (\<lambda>x. g (f x))"
  by (cases "p < length (room (ProcL m))") (simp_all add: upd_proc_def list_update_beyond)

lemma fork_setup_upd:
  "\<exists>f. fork_setup m c p i mm' chunk = upd_proc m p f \<and> (\<forall>x. status (f x) = TASK_STOPPED \<and> pnext (f x) = pnext x \<and>
     proc_queues_ok (f x) = proc_queues_ok x)"
  unfolding fork_setup_def Let_def upd_proc_twice by (rule exI, rule conjI, rule refl) (simp add: proc_queues_ok_def)

lemma kernel_inv_fork_setup:
  assumes "kernel_inv k" and "allocProc (pManager k) = (Some p, m1)"
  shows "kernel_inv (k\<lparr>pManager := fork_setup (m1\<lparr>pid_num := n\<rparr>) c p i mm' chunk\<rparr>)"
proof -
  obtain f where f: "fork_setup (m1\<lparr>pid_num := n\<rparr>) c p i mm' chunk = upd_proc (m1\<lparr>pid_num := n\<rparr>) p f"
    "\<And>x. status (f x) = TASK_STOPPED \<and> pnext (f x) = pnext x \<and> proc_queues_ok (f x) = proc_queues_ok x"
    using fork_setup_upd [of "m1\<lparr>pid_num := n\<rparr>" c p i mm' chunk] by blast
  have "kernel_inv (k\<lparr>pManager := (upd_proc m1 p f)\<lparr>pid_num := n\<rparr>\<rparr>)"
    using kernel_inv_alloc(1) [OF assms, of f] f(2) by (simp add: kernel_inv_pid_num)
  moreover have "(upd_proc m1 p f)\<lparr>pid_num := n\<rparr> = upd_proc (m1\<lparr>pid_num := n\<rparr>) p f"
    by (simp add: upd_proc_def)
  ultimately show ?thesis by (simp add: f(1))
qed

lemma fork_table_inv:
  assumes inv: "kernel_inv k"
  shows "ensures (fork_table k mm' chunk) (\<lambda>x. kernel_inv (snd x))"
proof -
  obtain p m1 where a: "allocProc (pManager k) = (p, m1)" by (cases "allocProc (pManager k)")
  show ?thesis
  proof (cases p)
    case None
    with a show ?thesis by (auto simp: fork_table_def intro: ensures_any)
  next
    case (Some clone)
    with a kernel_inv_fork_setup [OF inv, of clone m1] show ?thesis
      by (auto simp: fork_table_def pid_gen_def Let_def intro!: ensures_any [of _ _ "deref _"] ensures_bind [OF wakeup_step])
  qed
qed

lemma kstep_inv: "kstep k k' \<Longrightarrow> kernel_inv k \<Longrightarrow> kernel_inv k'"
proof (induction rule: kstep.induct)
  case (ks_schedule k ebp k' e) then show ?case by (blast intro: schedule_inv)
next
  case (ks_recv_later k k') then show ?case by (blast dest: ensuresD [OF recv_later_inv])
next
  case (ks_tick k k') then show ?case by (blast intro: timerHandler_inv)
next
  case (ks_sleep k d ms k') then show ?case by (blast dest: sleep_pid_inv)
next
  case (ks_wakeup k d k') then show ?case by (blast dest: wakeup_inv)
next
  case (ks_wait k n k') then show ?case by (blast intro: wait_interrupt_inv)
next
  case (ks_notify k n k') then show ?case by (blast intro: notify_inv)
next
  case (ks_send k i mess k' mess') then show ?case by (auto dest: ensuresD [OF send_inv])
next
  case (ks_recv k i mess k' mess') then show ?case by (auto dest: ensuresD [OF recv_inv])
next
  case (ks_fork k mm' chunk i k') then show ?case by (auto dest: ensuresD [OF fork_table_inv])
qed

lemma kstep_star_inv: "kstep\<^sup>*\<^sup>* k k' \<Longrightarrow> kernel_inv k \<Longrightarrow> kernel_inv k'"
  by (induction rule: rtranclp_induct) (auto intro: kstep_inv)

section \<open>The boot state\<close>

lemma makeSysProc_table_inv:
  assumes inv: "kernel_inv k" and free: "\<exists>i < nr_Proc. isFree (ProcL (pManager k)) ! i"
  shows "\<exists>p m. makeSysProc_table (pManager k) mm' chunk = Inr (p, m) \<and> kernel_inv (k\<lparr>pManager := m\<rparr>) \<and> p < nr_Proc \<and>
    isFree (ProcL (pManager k)) ! p \<and> isFree (ProcL m) = (isFree (ProcL (pManager k)))[p := False] \<and>
    status (proc m p) = TASK_STOPPED \<and> prior (proc m p) = Psys \<and> (\<forall>j. j \<noteq> p \<longrightarrow> proc m j = proc (pManager k) j)"
proof -
  let ?f = "\<lambda>x. x\<lparr>mm := mm', status := TASK_STOPPED, prior := Psys,
      kernel_info := (kernel_info x)\<lparr>ki_ss := ucast KDSeg, stack_top := chunk + 0x1000 - 4, ki_cs := ucast KCSeg,
        ret_from := kernel2user\<rparr>\<rparr>"
  have "length (isFree (ProcL (pManager k))) = nr_Proc" using inv by (simp add: kernel_inv_def table_ok_def)
  then have "True \<in> set (isFree (ProcL (pManager k)))" using free by (metis nth_mem)
  then obtain p l where l: "Lessor_get (ProcL (pManager k)) = (Some p, l)"
    using Lessor_get_None [of "ProcL (pManager k)"] by (metis not_Some_eq prod.collapse)
  define m1 where "m1 = (pManager k)\<lparr>ProcL := l\<rparr>"
  have a: "allocProc (pManager k) = (Some p, m1)" using l by (simp add: allocProc_def m1_def)
  note inv' = kernel_inv_alloc [OF inv a, of ?f]
  have lt: "p < nr_Proc" "isFree (ProcL (pManager k)) ! p" using inv'(2,3) by (simp_all add: proc_queues_ok_def)
  have same: "proc m1 = proc (pManager k)" "length (room (ProcL m1)) = nr_Proc"
    "isFree (ProcL m1) = (isFree (ProcL (pManager k)))[p := False]"
    using Lessor_get_Some(3) [OF l] kernel_len [OF inv] by (auto simp: m1_def proc_def fun_eq_iff)
  have "makeSysProc_table (pManager k) mm' chunk = Inr (p, upd_proc m1 p ?f)"
    using a by (simp add: makeSysProc_table_def)
  moreover have "kernel_inv (k\<lparr>pManager := upd_proc m1 p ?f\<rparr>)" using inv'(1) by (simp add: proc_queues_ok_def)
  ultimately show ?thesis using lt same by (intro exI [of _ p] exI [of _ "upd_proc m1 p ?f"]) simp
qed

lemma kernel_boot_inv:
  "\<exists>k. kernel_boot fn0 = Inr k \<and> kernel_inv k \<and> isFree (ProcL (pManager k)) = replicate nr_Proc True"
proof -
  obtain p where p: "Proc_new fn0 = Inr p" "status p = TASK_INIT" "proc_queues_ok p"
    using Proc_new_ok [of fn0] by (auto simp: proc_queues_ok_def msgq_ok_def)
  obtain q where q: "Que_new 64 invalid_entry invalid_entry = Inr q" "que_inv q"
    using Que_new_wf [of 64 invalid_entry invalid_entry] by (auto intro: que_invI)
  have "sched_inv (PManager_of p)" using PManager_of_wf [of p] p(2) by (auto intro: sched_invI)
  moreover have "table_ok (PManager_of p)"
    using p(2) proc_PManager_of [of _ p] by (simp add: table_ok_def) (simp add: PManager_of_def Lessor_new_def)
  moreover have "queues_ok (PManager_of p)"
    using p(3) by (simp add: queues_ok_def PManager_of_def Lessor_new_def list_all_length)
  ultimately show ?thesis using p(1) q
    by (simp add: kernel_boot_def PManager_new_def kernel_inv_def timers_sorted_def Timer_new_def)
      (simp add: PManager_of_def Lessor_new_def)
qed

lemma init_tasks_inv:
  assumes inv: "kernel_inv k" and free: "isFree (ProcL (pManager k)) = replicate nr_Proc True"
  shows "\<exists>k'. init_tasks k mm_i stk_i mm_k stk_k = Inr k' \<and> kernel_inv k'"
proof -
  have "\<exists>i < nr_Proc. isFree (ProcL (pManager k)) ! i" using free demo_table(2) by auto
  from makeSysProc_table_inv [OF inv this, of mm_i stk_i]
  obtain p m1 where p: "makeSysProc_table (pManager k) mm_i stk_i = Inr (p, m1)" "kernel_inv (k\<lparr>pManager := m1\<rparr>)"
    "p < nr_Proc" "isFree (ProcL m1) = (replicate nr_Proc True)[p := False]" "status (proc m1 p) = TASK_STOPPED"
    "prior (proc m1 p) = Psys"
    using free by auto
  have "isFree (ProcL m1) ! (if p = 0 then 1 else 0)" "(if p = 0 then 1 else 0) < nr_Proc"
    using p(3,4) by (simp_all add: nr_Proc_def)
  then have "\<exists>i < nr_Proc. isFree (ProcL (pManager (k\<lparr>pManager := m1\<rparr>))) ! i" by auto
  from makeSysProc_table_inv [OF p(2) this, of mm_k stk_k]
  obtain q m2 where q: "makeSysProc_table m1 mm_k stk_k = Inr (q, m2)" "kernel_inv (k\<lparr>pManager := m2\<rparr>)"
    "q < nr_Proc" "isFree (ProcL m1) ! q" "isFree (ProcL m2) = (isFree (ProcL m1))[q := False]"
    "\<forall>j. j \<noteq> q \<longrightarrow> proc m2 j = proc m1 j"
    by auto
  have pq: "p \<noteq> q" using q(4) p(3,4) by auto
  define m3 where "m3 = upd_proc m2 q (\<lambda>x. x\<lparr>pid := PID_KERNEL\<rparr>)"
  define m4 where "m4 = upd_proc m3 p (\<lambda>x. x\<lparr>pid := PID_INIT\<rparr>)"
  have inv3: "kernel_inv (k\<lparr>pManager := m3\<rparr>)"
    using kernel_inv_upd [OF q(2), of "\<lambda>x. x\<lparr>pid := PID_KERNEL\<rparr>" q] kernel_inv_proc [OF q(2), of q]
    by (simp add: m3_def proc_queues_ok_def)
  have inv4: "kernel_inv (k\<lparr>pManager := m4\<rparr>)"
    using kernel_inv_upd [OF inv3, of "\<lambda>x. x\<lparr>pid := PID_INIT\<rparr>" p] kernel_inv_proc [OF inv3, of p]
    by (simp add: m4_def proc_queues_ok_def)
  have len: "length (room (ProcL m2)) = nr_Proc" using kernel_len [OF q(2)] by simp
  have m4: "status (proc m4 p) = TASK_STOPPED" "prior (proc m4 p) = Psys" "\<not> isFree (ProcL m4) ! p"
    using p q pq len by (simp_all add: m4_def m3_def)
  have wf: "runq_wf m4 (run_queues m4)" using inv4 by (simp add: kernel_inv_def sched_inv_def)
  have "\<exists>m5. enque m4 p 0 = Inr m5"
    using enque_wf [OF wf p(3) m4(1), of "unat Psys" 0] m4(2) by (auto simp: Psys_def nr_Level_def)
  then obtain m5 where m5: "enque m4 p 0 = Inr m5" by blast
  have "sched_inv m4" using inv4 by (simp add: kernel_inv_def)
  note e = enque_inv [OF this p(3) m5]
  have "kernel_inv ((k\<lparr>pManager := m4\<rparr>)\<lparr>pManager := m5\<rparr>)"
    using e m4(3) by (intro kernel_inv_sched [OF inv4, of m5 p]) auto
  then have inv5: "kernel_inv (k\<lparr>pManager := m5\<lparr>pCurrent := Some p, pPrev := pPrev m5\<rparr>\<rparr>)"
    using kernel_inv_current [where k = "k\<lparr>pManager := m5\<rparr>" and c = "Some p" and q = "pPrev m5"] by simp
  show ?thesis
    using p(1) q(1) m5 inv5 unfolding init_tasks_def
    by (simp add: Let_def m3_def m4_def kernel_inv_def)
qed

section \<open>Properties\<close>

text \<open>
  C3. The boot sequence returns a state from which every state the kernel reaches, by any interleaving
  of scheduling, ticks, sleeps, wakeups, interrupt waits and notifications, sends, receives and forks,
  satisfies the invariant: in particular a process is marked running exactly when it is on exactly one
  of the run queues.
\<close>

theorem kernel_reachable_inv:
  "\<exists>k0. rbind (kernel_boot fn0) (\<lambda>k. init_tasks k mm_i stk_i mm_k stk_k) = Inr k0 \<and>
    (\<forall>k. kstep\<^sup>*\<^sup>* k0 k \<longrightarrow> kernel_inv k \<and>
      (\<forall>p < nr_Proc. status (proc (pManager k) p) = TASK_RUNNING \<longleftrightarrow>
         (\<exists>!i. i < nr_Level \<and> p \<in> set (run_queues (pManager k) ! i))))"
proof -
  obtain kb where "kernel_boot fn0 = Inr kb" "kernel_inv kb" "isFree (ProcL (pManager kb)) = replicate nr_Proc True"
    using kernel_boot_inv by blast
  then obtain k0 where k0: "rbind (kernel_boot fn0) (\<lambda>k. init_tasks k mm_i stk_i mm_k stk_k) = Inr k0" "kernel_inv k0"
    using init_tasks_inv [of kb mm_i stk_i mm_k stk_k] by auto
  have "kernel_inv k \<and> (\<forall>p < nr_Proc. status (proc (pManager k) p) = TASK_RUNNING \<longleftrightarrow>
      (\<exists>!i. i < nr_Level \<and> p \<in> set (run_queues (pManager k) ! i)))" if "kstep\<^sup>*\<^sup>* k0 k" for k
  proof
    show inv: "kernel_inv k" using kstep_star_inv [OF that k0(2)] .
    then have wf: "runq_wf (pManager k) (run_queues (pManager k))" by (simp add: kernel_inv_def sched_inv_def)
    have one: "i = j" if "i < nr_Level" "j < nr_Level" "p \<in> set (run_queues (pManager k) ! i)"
      "p \<in> set (run_queues (pManager k) ! j)" for i j p
      using wf that unfolding runq_wf_def by (meson disjoint_iff)
    show "\<forall>p < nr_Proc. status (proc (pManager k) p) = TASK_RUNNING \<longleftrightarrow>
        (\<exists>!i. i < nr_Level \<and> p \<in> set (run_queues (pManager k) ! i))"
      using wf one unfolding runq_wf_def by (metis (no_types, lifting))
  qed
  with k0 show ?thesis by blast
qed

theorem kernel_reachable_inv_witness:
  "\<exists>k0. rbind (kernel_boot kernel2user)
      (\<lambda>k. init_tasks k \<lparr>cr3 = 0x5000, regions = []\<rparr> 0x6000 \<lparr>cr3 = 0x7000, regions = []\<rparr> 0x8000) = Inr k0 \<and>
    kernel_inv k0"
  using kernel_reachable_inv [of kernel2user "\<lparr>cr3 = 0x5000, regions = []\<rparr>" "0x6000" "\<lparr>cr3 = 0x7000, regions = []\<rparr>" "0x8000"]
  by auto

lemma fork_table_returns:
  assumes inv: "kernel_inv k" and cur: "pCurrent (pManager k) = Some c" and c: "c < nr_Proc" "\<not> isFree (ProcL (pManager k)) ! c"
    and free: "allocProc (pManager k) = (Some p, m1)"
    and prio: "unat (prior (proc (pManager k) c)) < nr_Level"
    and fresh: "\<forall>j < nr_Proc. \<not> isFree (ProcL (pManager k)) ! j \<longrightarrow> pid (proc (pManager k) j) \<noteq> sint (pid_num (pManager k))"
  shows "\<exists>k'. fork_table k mm' chunk = Inr (sint (pid_num (pManager k)), k') \<and> kernel_inv k' \<and> sched_req k' \<and>
    pid (proc (pManager k') p) = sint (pid_num (pManager k)) \<and> mm (proc (pManager k') p) = mm' \<and>
    prior (proc (pManager k') p) = prior (proc (pManager k) c) \<and> status (proc (pManager k') p) = TASK_RUNNING \<and>
    kernel_info (proc (pManager k') p) = (kernel_info (proc (pManager k) c))\<lparr>ret_from := ret_from_fork,
      stack_top := chunk + 0xffc, ki_sp := chunk + 0xffc - stack_frame_size\<rparr> \<and>
    proc_core (proc (pManager k') c) = proc_core (proc (pManager k) c)"
proof -
  let ?m = "pManager k" and ?i = "sint (pid_num (pManager k))"
  have p: "p < nr_Proc" "isFree (ProcL ?m) ! p"
    using kernel_inv_alloc(2,3) [OF inv free, of "\<lambda>x. x\<lparr>status := TASK_STOPPED\<rparr>"] by (simp_all add: proc_queues_ok_def)
  then have pc: "p \<noteq> c" using c by auto
  obtain l where l: "Lessor_get (ProcL ?m) = (Some p, l)" "m1 = ?m\<lparr>ProcL := l\<rparr>"
    using free by (auto simp: allocProc_def split: prod.splits)
  note g = Lessor_get_Some [OF l(1)]
  have m1: "proc m1 = proc ?m" "length (room (ProcL m1)) = nr_Proc" "pid_num m1 = pid_num ?m"
    "isFree (ProcL m1) = (isFree (ProcL ?m))[p := False]"
    using l(2) g kernel_len [OF inv] by (auto simp: proc_def fun_eq_iff)
  define m6 where "m6 = fork_setup (m1\<lparr>pid_num := pid_num m1 + 1\<rparr>) c p ?i mm' chunk"
  have pr: "proc (m1\<lparr>pid_num := n\<rparr>) = proc ?m" for n using m1(1) by (auto simp: proc_def fun_eq_iff)
  have m6: "proc m6 p = (proc ?m p)\<lparr>pid := ?i, prior := prior (proc ?m c), status := TASK_STOPPED, mm := mm',
      kernel_info := (kernel_info (proc ?m c))\<lparr>ret_from := ret_from_fork, stack_top := chunk + 0xffc,
        ki_sp := chunk + 0xffc - stack_frame_size\<rparr>\<rparr>" "\<And>j. j \<noteq> p \<Longrightarrow> proc m6 j = proc ?m j"
    "isFree (ProcL m6) = (isFree (ProcL ?m))[p := False]" "length (room (ProcL m6)) = nr_Proc"
    using p(1) m1 pc by (simp_all add: m6_def fork_setup_def Let_def pr)
  have lenf: "length (isFree (ProcL ?m)) = nr_Proc" using inv by (simp add: kernel_inv_def table_ok_def)
  have "getProc m6 ?i = Some p"
  proof (rule getProc_unique)
    fix j assume "j < length (room (ProcL m6))" "\<not> isFree (ProcL m6) ! j" "pid (proc m6 j) = ?i"
    then show "j = p" using fresh m6(2) [of j] m6(3,4) lenf by (cases "j = p") auto
  qed (use m6 p lenf in simp_all)
  moreover have inv6: "kernel_inv (k\<lparr>pManager := m6\<rparr>)" unfolding m6_def by (rule kernel_inv_fork_setup [OF inv free])
  ultimately obtain m7 where m7: "wakeup (k\<lparr>pManager := m6\<rparr>) ?i = Inr (reschedule (k\<lparr>pManager := m7\<rparr>))"
    "sched_frame m6 m7" "status (proc m7 p) = TASK_RUNNING"
    using wakeup_stopped [OF inv6, of ?i p] m6(1) prio by auto
  have run: "fork_table k mm' chunk = Inr (?i, reschedule (k\<lparr>pManager := m7\<rparr>))"
    using cur free m1(3) m7(1) by (simp add: fork_table_def pid_gen_def m6_def)
  have core: "proc_core (proc m7 j) = proc_core (proc m6 j)" for j using m7(2) by (simp add: sched_frame_def)
  have "kernel_inv (reschedule (k\<lparr>pManager := m7\<rparr>))" using wakeup_inv [OF inv6 m7(1)] by simp
  moreover have "proc_core (proc m7 c) = proc_core (proc ?m c)" using core [of c] m6(2) [of c] pc by simp
  ultimately show ?thesis using run m7(3) proc_core_fields [OF core [of p]] m6(1)
    by (intro exI [of _ "reschedule (k\<lparr>pManager := m7\<rparr>)"]) (simp add: reschedule_def)
qed

lemma demo_fork:
  "\<exists>k'. fork_table demo_ipc mm' chunk = Inr (100, k')"
  "allocProc (pManager demo_ipc) = (Some 2, (pManager demo_ipc)\<lparr>ProcL := snd (Lessor_get (ProcL (pManager demo_ipc)))\<rparr>)"
  "sint (pid_num (pManager demo_ipc)) = 100" "proc (pManager demo_ipc) 0 = demo_proc\<lparr>pid := 7, prior := Psys, status := TASK_RUNNING\<rparr>"
proof -
  show num: "sint (pid_num (pManager demo_ipc)) = 100"
    by (simp add: demo_ipc_def demo_pair_def demo_kernel_def demo_pm_run_def demo_pm_def PManager_of_def allocProc_def
        split: prod.splits)
  show p0: "proc (pManager demo_ipc) 0 = demo_proc\<lparr>pid := 7, prior := Psys, status := TASK_RUNNING\<rparr>"
    using demo_pair_lists(2) demo_table by (simp add: demo_ipc_def demo_pm_run_def demo_pm_def proc_PManager_of)
  show a: "allocProc (pManager demo_ipc) = (Some 2, (pManager demo_ipc)\<lparr>ProcL := snd (Lessor_get (ProcL (pManager demo_ipc)))\<rparr>)"
    by (simp add: demo_ipc_def allocProc_def Lessor_get_def demo_pair_lists(1) numeral_eq_Suc)
  have "\<forall>j < nr_Proc. \<not> isFree (ProcL (pManager demo_ipc)) ! j \<longrightarrow> pid (proc (pManager demo_ipc) j) \<noteq> 100"
    using p0 demo_pair_lists(3)
    by (auto simp: demo_ipc_def demo_pair_lists(1) nth_Cons nr_Proc_def split: nat.splits)
  then show "\<exists>k'. fork_table demo_ipc mm' chunk = Inr (100, k')"
    using fork_table_returns [OF demo_ipc_inv _ _ _ a, of 0 mm' chunk] num p0 demo_table(2) demo_pair_lists(1,5)
    by (auto simp: demo_ipc_def Psys_def nr_Level_def)
qed

text \<open>
  C25. \<^verbatim>\<open>fork\<close>: with a free slot and a fresh process id, the child gets that id, the address space and stack
  prepared for it, the priority and saved registers of its parent with \<^verbatim>\<open>ret_from_fork\<close> as the function to
  resume in, and is runnable; the parent is unchanged up to its links and the invariant is kept.
\<close>

theorem fork_correct:
  assumes inv: "kernel_inv k" and cur: "pCurrent (pManager k) = Some c" and c: "c < nr_Proc" "\<not> isFree (ProcL (pManager k)) ! c"
    and free: "allocProc (pManager k) = (Some p, m1)"
    and prio: "unat (prior (proc (pManager k) c)) < nr_Level"
    and fresh: "\<forall>j < nr_Proc. \<not> isFree (ProcL (pManager k)) ! j \<longrightarrow> pid (proc (pManager k) j) \<noteq> sint (pid_num (pManager k))"
  shows "\<exists>k'. fork_table k mm' chunk = Inr (sint (pid_num (pManager k)), k') \<and> kernel_inv k' \<and> sched_req k' \<and>
    pid (proc (pManager k') p) = sint (pid_num (pManager k)) \<and> mm (proc (pManager k') p) = mm' \<and>
    prior (proc (pManager k') p) = prior (proc (pManager k) c) \<and> status (proc (pManager k') p) = TASK_RUNNING \<and>
    kernel_info (proc (pManager k') p) = (kernel_info (proc (pManager k) c))\<lparr>ret_from := ret_from_fork,
      stack_top := chunk + 0xffc, ki_sp := chunk + 0xffc - stack_frame_size\<rparr> \<and>
    proc_core (proc (pManager k') c) = proc_core (proc (pManager k) c)"
  by (rule fork_table_returns [OF assms])

theorem fork_correct_witness:
  "\<exists>k'. fork_table demo_ipc \<lparr>cr3 = 0x5000, regions = []\<rparr> 0x6000 = Inr (100, k') \<and> kernel_inv k' \<and>
     status (proc (pManager k') 2) = TASK_RUNNING"
proof -
  have num: "sint (pid_num (pManager demo_ipc)) = 100"
    by (simp add: demo_ipc_def demo_pair_def demo_kernel_def demo_pm_run_def demo_pm_def PManager_of_def allocProc_def
        split: prod.splits)
  have p0: "proc (pManager demo_ipc) 0 = demo_proc\<lparr>pid := 7, prior := Psys, status := TASK_RUNNING\<rparr>"
    using demo_pair_lists(2) demo_table by (simp add: demo_ipc_def demo_pm_run_def demo_pm_def proc_PManager_of)
  obtain m1 where a: "allocProc (pManager demo_ipc) = (Some 2, m1)"
    by (simp add: demo_ipc_def allocProc_def Lessor_get_def demo_pair_lists(1) numeral_eq_Suc)
  have "\<forall>j < nr_Proc. \<not> isFree (ProcL (pManager demo_ipc)) ! j \<longrightarrow> pid (proc (pManager demo_ipc) j) \<noteq> 100"
    using p0 demo_pair_lists(3)
    by (auto simp: demo_ipc_def demo_pair_lists(1) nth_Cons nr_Proc_def split: nat.splits)
  then show ?thesis
    using fork_correct [OF demo_ipc_inv, of 0 2 m1 "\<lparr>cr3 = 0x5000, regions = []\<rparr>" "0x6000"] a num p0 demo_table(2) demo_pair_lists(1,5)
    by (auto simp: demo_ipc_def Psys_def nr_Level_def)
qed

end
