(* ===== verification/VarMem.thy ===== *)
theory VarMem
  imports PFAllocator_Boot
begin

unbundle bit_operations_syntax

text \<open>
  Paging, \<^verbatim>\<open>src/kernel/VarMem.cpp\<close> and \<^verbatim>\<open>src/include/os/VarMem.h\<close>.

  Physical memory is a function from addresses to 32-bit words, read and written at the addresses the
  code computes; a page directory or page table is its address. The routines that need page frames
  take the allocation of one frame as an argument (\<open>alloc\<close>) and are then instantiated with the page
  frame allocator. Cache flushes have no effect on this state.
\<close>

section \<open>Entries\<close>

definition nrEntry :: nat where "nrEntry = 0x400"
definition dir_entrySize :: u32 where "dir_entrySize = 0x400000"
definition systempage :: u16 where "systempage = 0x013"
definition userpage :: u16 where "userpage = 0x017"

definition isEntryExist :: "u32 \<Rightarrow> bool" where
  "isEntryExist entry \<longleftrightarrow> entry AND 1 = 1"

definition caddrEntry :: "u32 \<Rightarrow> u32" where
  "caddrEntry entry = entry AND NOT 0xfff"

definition editEntry :: "mem \<Rightarrow> u32 \<Rightarrow> u32 \<Rightarrow> u16 \<Rightarrow> mem" where
  "editEntry m entry pointer ty =
     (let m1 = m(entry := pointer AND 0xfffff000) in m1(entry := m1 entry OR (ucast ty AND 0x00000fff)))"

definition disableAllEntry :: "mem \<Rightarrow> u32 \<Rightarrow> mem" where
  "disableAllEntry m table =
     fold (\<lambda>i m. m(table + 4 * of_nat i := m (table + 4 * of_nat i) AND 0x00)) [0..<nrEntry] m"

definition dir_slot :: "u32 \<Rightarrow> u32 \<Rightarrow> u32" where
  "dir_slot pdir virt = pdir + 4 * (virt div 0x400000)"

definition table_slot :: "u32 \<Rightarrow> u32 \<Rightarrow> u32" where
  "table_slot table virt = table + 4 * ((virt mod 0x400000) div 0x1000)"

section \<open>Operations\<close>

text \<open>
  One iteration of the loop shared by \<^verbatim>\<open>enableSpace\<close> and \<^verbatim>\<open>mapping_pmem\<close>: find or make the table, then fill the
  entry when it is absent with the frame that \<open>frame\<close> supplies.
\<close>

definition get_table :: "('s \<Rightarrow> (u32 \<times> 's) kres) \<Rightarrow> mem \<Rightarrow> 's \<Rightarrow> u32 \<Rightarrow> u32 \<Rightarrow> u16 \<Rightarrow> (u32 \<times> mem \<times> 's) kres" where
  "get_table alloc m s pdir virt ty =
     (let entryD = dir_slot pdir virt in
      if \<not> isEntryExist (m entryD) then
        rbind (alloc s) (\<lambda>(table, s1).
          Inr (table, disableAllEntry (editEntry m entryD table ty) table, s1))
      else Inr (caddrEntry (m entryD), m, s))"

definition enable_page :: "('s \<Rightarrow> (u32 \<times> 's) kres) \<Rightarrow> mem \<Rightarrow> 's \<Rightarrow> u32 \<Rightarrow> u32 \<Rightarrow> u16 \<Rightarrow> (mem \<times> 's) kres" where
  "enable_page alloc m s pdir virt ty =
     rbind (get_table alloc m s pdir virt ty) (\<lambda>(table, m1, s1).
       (let entryT = table_slot table virt in
        if \<not> isEntryExist (m1 entryT) then
          rbind (alloc s1) (\<lambda>(s4k, s2). Inr (editEntry m1 entryT s4k ty, s2))
        else Inr (m1, s1)))"

fun enable_loop :: "('s \<Rightarrow> (u32 \<times> 's) kres) \<Rightarrow> nat \<Rightarrow> mem \<Rightarrow> 's \<Rightarrow> u32 \<Rightarrow> u32 \<Rightarrow> u16 \<Rightarrow> (mem \<times> 's) kres" where
  "enable_loop alloc 0 m s pdir virt ty = Inr (m, s)"
| "enable_loop alloc (Suc n) m s pdir virt ty =
     rbind (enable_page alloc m s pdir virt ty) (\<lambda>(m1, s1). enable_loop alloc n m1 s1 pdir (virt + 0x1000) ty)"

definition page_floor :: "u32 \<Rightarrow> u32" where
  "page_floor x = x AND NOT (0x1000 - 1)"

definition page_ceil :: "u32 \<Rightarrow> u32" where
  "page_ceil x = (x + 0x1000 - 1) AND NOT (0x1000 - 1)"

definition enableSpace_with :: "('s \<Rightarrow> (u32 \<times> 's) kres) \<Rightarrow> mem \<Rightarrow> 's \<Rightarrow> u32 \<Rightarrow> u32 \<Rightarrow> u32 \<Rightarrow> u16 \<Rightarrow> (mem \<times> 's) kres" where
  "enableSpace_with alloc m s virAddr size' pdir ty =
     (let bgn = page_floor virAddr; fin = page_ceil (virAddr + size');
          page_num = (fin - bgn) div 0x1000
      in enable_loop alloc (unat page_num) m s pdir bgn ty)"

definition enableSpace :: "mem \<Rightarrow> PFAllocator \<Rightarrow> u32 \<Rightarrow> u32 \<Rightarrow> u32 \<Rightarrow> u16 \<Rightarrow> (mem \<times> PFAllocator) kres" where
  "enableSpace = enableSpace_with (\<lambda>a. allocChunk a 1)"

text \<open>
  \<^verbatim>\<open>vir2phy\<close>; the null pointer it returns on failure is the address 0, and a null directory stands for the
  one of the running process, whose address is \<open>cr3\<close>.
\<close>

definition vir2phy :: "mem \<Rightarrow> u32 \<Rightarrow> u32 \<Rightarrow> u32 \<Rightarrow> u32" where
  "vir2phy m cr3 virAddr pdir =
     (let pdir = (if pdir = 0 then cr3 else pdir); entryD = dir_slot pdir virAddr in
      if \<not> isEntryExist (m entryD) then 0
      else
        (let table = caddrEntry (m entryD); entryT = table_slot table virAddr in
         if \<not> isEntryExist (m entryT) then 0
         else caddrEntry (m entryT) + (virAddr AND 0xfff)))"

definition map_page :: "mem \<Rightarrow> PFAllocator \<Rightarrow> u32 \<Rightarrow> u32 \<Rightarrow> u32 \<Rightarrow> u16 \<Rightarrow> (mem \<times> PFAllocator) kres" where
  "map_page m s phys pdir virt ty =
     rbind (get_table (\<lambda>a. allocChunk a 1) m s pdir virt ty) (\<lambda>(table, m1, s1).
       (let entryT = table_slot table virt in
        if \<not> isEntryExist (m1 entryT) then Inr (editEntry m1 entryT phys ty, s1)
        else Inr (m1, s1)))"

fun map_loop :: "nat \<Rightarrow> mem \<Rightarrow> PFAllocator \<Rightarrow> u32 \<Rightarrow> u32 \<Rightarrow> u32 \<Rightarrow> u16 \<Rightarrow> (mem \<times> PFAllocator) kres" where
  "map_loop 0 m s phys pdir virt ty = Inr (m, s)"
| "map_loop (Suc n) m s phys pdir virt ty =
     rbind (map_page m s phys pdir virt ty) (\<lambda>(m1, s1).
       map_loop n m1 s1 (phys + 0x1000) pdir (virt + 0x1000) ty)"

definition mapping_pmem :: "mem \<Rightarrow> PFAllocator \<Rightarrow> u32 \<Rightarrow> u32 \<Rightarrow> u32 \<Rightarrow> u32 \<Rightarrow> u16 \<Rightarrow> (mem \<times> PFAllocator) kres" where
  "mapping_pmem m s phyAddr virAddr size' pdir ty =
     (let aligned_size = page_ceil size'
      in map_loop (unat (aligned_size div 0x1000)) m s phyAddr pdir virAddr ty)"

text \<open>
  The tables of the straight mapping: table \<open>i\<close> of the kernel directory, its 1024 entries and its slot. The
  address of the table is read from \<^verbatim>\<open>kPtables[i]\<close> each time, as the code does.
\<close>

definition fill_table :: "mem \<Rightarrow> u32 \<Rightarrow> mem" where
  "fill_table m slot =
     fold (\<lambda>j m. editEntry m (m slot + 4 * of_nat j) (of_nat j * 0x1000) systempage) [0..<nrEntry] m"

definition straight_table :: "u32 \<Rightarrow> u32 \<Rightarrow> nat \<Rightarrow> mem \<Rightarrow> mem" where
  "straight_table kPdir kPtables i m =
     (let slot = kPtables + 4 * of_nat i;
          m1 = disableAllEntry m (m slot);
          m2 = editEntry m1 (kPdir + 4 * of_nat i) (m1 slot) systempage
      in fill_table m2 slot)"

record vm_state =
  vmem :: mem
  vpfa :: PFAllocator
  kPdir :: u32
  kPtables :: u32
  v2ptable :: u32
  mem_size :: u32

definition initPaging :: "vm_state \<Rightarrow> vm_state kres" where
  "initPaging v =
     rbind (allocChunk (vpfa v) 1) (\<lambda>(kpd, a1).
     rbind (allocChunk a1 1) (\<lambda>(kpt, a2).
       (let nr_valid_pages = mem_size v div dir_entrySize in
        rbind (allocChunk a2 (ucast nr_valid_pages)) (\<lambda>(big_frame, a3).
          (let m1 = fold (\<lambda>i m. m(kpt + 4 * of_nat i := big_frame + ChunkSize * of_nat i))
                      [0..<unat nr_valid_pages] (vmem v);
               m2 = disableAllEntry m1 kpd;
               m3 = fold (straight_table kpd kpt) [0..<unat nr_valid_pages] m2 in
           rbind (mapping_pmem m3 a3 0xe0000000 0xe0000000 0x200000 kpd systempage) (\<lambda>(m4, a4).
             (let m5 = editEntry m4 (kpd + 4 * 0x3ff) (v2ptable v) systempage
              in Inr (v\<lparr>vmem := m5, vpfa := a4, kPdir := kpd, kPtables := kpt\<rparr>))))))))"

definition copyKernelDir :: "vm_state \<Rightarrow> u32 \<Rightarrow> vm_state" where
  "copyKernelDir v pdir =
     (let m1 = disableAllEntry (vmem v) pdir;
          nr_valid_pages = mem_size v div dir_entrySize;
          cp = (\<lambda>i m. m(pdir + 4 * of_nat i := m (kPdir v + 4 * of_nat i)));
          m2 = fold cp [0..<unat nr_valid_pages] m1;
          i_begin = 0xe0000000 div dir_entrySize;
          i_end = 0xe0200000 div dir_entrySize
      in v\<lparr>vmem := fold cp [unat i_begin..<Suc (unat i_end)] m2\<rparr>)"

end
