(* ===== verification/VarMem_Correct.thy ===== *)
theory VarMem_Correct
  imports VarMem
begin

unbundle bit_operations_syntax

text \<open>
  What the paging routines do to the translation of addresses. The translation is the two-level walk
  the processor performs; the frames come from an interface, the locale \<open>frame_source\<close>, which the page
  frame allocator implements.
\<close>

section \<open>Frames and slots\<close>

definition frame_of :: "u32 \<Rightarrow> nat" where
  "frame_of a = unat a div 4096"

definition page_aligned :: "u32 \<Rightarrow> bool" where
  "page_aligned a \<longleftrightarrow> unat a mod 4096 = 0"

definition dir_index :: "u32 \<Rightarrow> u32" where
  "dir_index va = va div 0x400000"

definition table_index :: "u32 \<Rightarrow> u32" where
  "table_index va = (va mod 0x400000) div 0x1000"

lemma index_bound: "unat (dir_index va) < 1024" "unat (table_index va) < 1024"
proof -
  have "unat va < 2 ^ 32" using unsigned_less [of va] by simp
  then show "unat (dir_index va) < 1024" by (simp add: dir_index_def unat_div)
  have "unat va mod 4194304 < 4194304" by simp
  then show "unat (table_index va) < 1024" by (simp add: table_index_def unat_div unat_mod)
qed

text \<open>The two indices together are the page number.\<close>

lemma page_index: "frame_of va = unat (dir_index va) * 1024 + unat (table_index va)"
proof -
  have "unat va div 4096 div 1024 * 1024 + unat va div 4096 mod 1024 = unat va div 4096" by simp
  moreover have "unat va mod 4194304 div 4096 = unat va div 4096 mod 1024"
    using mod_mult2_eq [of "unat va" 4096 1024] by simp
  ultimately show ?thesis
    by (simp add: frame_of_def dir_index_def table_index_def unat_div unat_mod div_mult2_eq [symmetric])
qed

lemma frame_of_split: "frame_of va div 1024 = unat (dir_index va)" "frame_of va mod 1024 = unat (table_index va)"
  using index_bound [of va] by (simp_all add: page_index)

lemma same_page: "frame_of va = frame_of va' \<longleftrightarrow> dir_index va = dir_index va' \<and> table_index va = table_index va'"
  by (metis frame_of_split page_index word_unat_eq_iff)

lemma page_alignedE:
  assumes "page_aligned t"
  obtains k where "unat t = 4096 * k" and "4096 * k + 4096 \<le> 2 ^ 32"
proof -
  from assms obtain k where k: "unat t = 4096 * k" unfolding page_aligned_def by auto
  have "unat t < 2 ^ 32" using unsigned_less [of t] by simp
  then have "k < 1048576" using k by simp
  then have "4096 * k + 4096 \<le> 2 ^ 32" by simp
  with k that show ?thesis by blast
qed

lemma slot_unat:
  assumes "page_aligned t" and "unat i < 1024"
  shows "unat (t + 4 * i) = unat t + 4 * unat i"
proof -
  have i4: "unat (4 * i) = 4 * unat i" using assms(2) by (subst unat_mult_exact) auto
  obtain k where "unat t = 4096 * k" "4096 * k + 4096 \<le> 2 ^ 32" by (rule page_alignedE [OF assms(1)])
  then show ?thesis using assms(2) by (subst unat_add_exact) (simp_all add: i4)
qed

lemma slot_frame:
  assumes "page_aligned t" and "unat i < 1024"
  shows "frame_of (t + 4 * i) = frame_of t"
proof -
  obtain k where "unat t = 4096 * k" by (rule page_alignedE [OF assms(1)])
  then show ?thesis using slot_unat [OF assms] assms(2) by (simp add: frame_of_def)
qed

lemma slot_inject:
  assumes "page_aligned t" and "unat i < 1024" and "unat j < 1024"
  shows "t + 4 * i = t + 4 * j \<longleftrightarrow> i = j"
proof
  assume "t + 4 * i = t + 4 * j"
  then have "unat t + 4 * unat i = unat t + 4 * unat j"
    using slot_unat [OF assms(1,2)] slot_unat [OF assms(1,3)] by simp
  then show "i = j" by (simp add: word_unat_eq_iff)
qed simp

lemma dir_slot_eq: "dir_slot pdir va = pdir + 4 * dir_index va"
  and table_slot_eq: "table_slot t va = t + 4 * table_index va"
  by (simp_all add: dir_slot_def table_slot_def dir_index_def table_index_def)

lemma slots [simp]:
  assumes "page_aligned t"
  shows "frame_of (dir_slot t va) = frame_of t" and "frame_of (table_slot t va) = frame_of t"
  using assms index_bound by (simp_all add: dir_slot_eq table_slot_eq slot_frame)

lemma slots_inject [simp]:
  assumes "page_aligned t"
  shows "dir_slot t va = dir_slot t va' \<longleftrightarrow> dir_index va = dir_index va'"
    and "table_slot t va = table_slot t va' \<longleftrightarrow> table_index va = table_index va'"
  unfolding dir_slot_eq table_slot_eq
  by (rule slot_inject; (rule assms index_bound))+

section \<open>Entries\<close>

lemma mask12: "(0xfff :: u32) = mask 12" "(0xfffff000 :: u32) = NOT (mask 12)"
  by (simp_all add: mask_eq_exp_minus_1)

definition make_entry :: "u32 \<Rightarrow> u16 \<Rightarrow> u32" where
  "make_entry pointer ty = (pointer AND 0xfffff000) OR (ucast ty AND 0xfff)"

lemma editEntry_eq: "editEntry m e p ty = m(e := make_entry p ty)"
  by (simp add: editEntry_def make_entry_def Let_def)

lemma caddr_make_entry: "caddrEntry (make_entry p ty) = p AND NOT 0xfff"
  unfolding caddrEntry_def make_entry_def mask12 by (rule bit_word_eqI) (auto simp: bit_simps)

lemma exist_make_entry [simp]: "isEntryExist (make_entry p ty) \<longleftrightarrow> odd ty"
proof -
  have "make_entry p ty AND 1 = (ucast ty AND 1 :: u32)"
    unfolding make_entry_def mask12
    by (rule bit_word_eqI) (auto simp: bit_simps bit_1_iff)
  also have "\<dots> = 1 \<longleftrightarrow> odd (ucast ty :: u32)" by (simp add: and_one_eq odd_iff_mod_2_eq_one)
  also have "\<dots> \<longleftrightarrow> bit (ucast ty :: u32) 0" by (simp only: bit_0)
  also have "\<dots> \<longleftrightarrow> bit ty 0" by (subst bit_ucast_iff) simp
  also have "\<dots> \<longleftrightarrow> odd ty" by (simp only: bit_0)
  finally show ?thesis by (simp add: isEntryExist_def)
qed

lemma aligned_caddr: "page_aligned t \<Longrightarrow> t AND NOT 0xfff = t"
proof -
  assume "page_aligned t"
  then have "unat (t AND NOT (mask 12)) = unat t" by (auto simp: unat_and_not_mask page_aligned_def)
  then show ?thesis by (simp add: word_unat_eq_iff mask12(1))
qed

lemma caddr_make_aligned [simp]: "page_aligned p \<Longrightarrow> caddrEntry (make_entry p ty) = p"
  unfolding caddr_make_entry by (rule aligned_caddr)

lemma caddr_aligned [simp]: "page_aligned (caddrEntry e)" "frame_of (caddrEntry e) = frame_of e"
  by (simp_all add: caddrEntry_def mask12(1) page_aligned_def frame_of_def unat_and_not_mask)

lemma disableAllEntry_eq:
  assumes "page_aligned t"
  shows "disableAllEntry m t = (\<lambda>a. if \<exists>i. unat i < 1024 \<and> a = t + 4 * i then 0 else m a)"
proof -
  have "fold (\<lambda>i m. m(t + 4 * of_nat i := m (t + 4 * of_nat i) AND 0x00)) [0..<n] m =
      (\<lambda>a. if \<exists>i < n. a = t + 4 * of_nat i then 0 else m a)" if "n \<le> 1024" for n
    using that
  proof (induction n)
    case (Suc n)
    then show ?case by (auto simp: fun_eq_iff less_Suc_eq)
  qed simp
  from this [of 1024] have "disableAllEntry m t = (\<lambda>a. if \<exists>i < 1024. a = t + 4 * of_nat i then 0 else m a)"
    by (simp add: disableAllEntry_def nrEntry_def)
  moreover have "(\<exists>i < 1024. a = t + 4 * of_nat i) \<longleftrightarrow> (\<exists>i :: u32. unat i < 1024 \<and> a = t + 4 * i)" for a
  proof
    assume "\<exists>i < 1024. a = t + 4 * of_nat i"
    then obtain i where i: "i < 1024" "a = t + 4 * of_nat i" by blast
    then have "unat (of_nat i :: u32) = i" by (simp add: unat_of_nat)
    with i show "\<exists>i :: u32. unat i < 1024 \<and> a = t + 4 * i" by (intro exI [of _ "of_nat i"]) simp
  next
    assume "\<exists>i :: u32. unat i < 1024 \<and> a = t + 4 * i"
    then obtain i :: u32 where "unat i < 1024" "a = t + 4 * i" by blast
    then show "\<exists>i < 1024. a = t + 4 * of_nat i" by (intro exI [of _ "unat i"]) simp
  qed
  ultimately show ?thesis by simp
qed

lemma disable_same [simp]: "page_aligned t \<Longrightarrow> disableAllEntry m t (table_slot t va) = 0"
  using index_bound(2) [of va] by (auto simp: disableAllEntry_eq table_slot_eq)

lemma disable_other [simp]:
  assumes "page_aligned t" and "frame_of a \<noteq> frame_of t"
  shows "disableAllEntry m t a = m a"
  using assms slot_frame [OF assms(1)] by (auto simp: disableAllEntry_eq)

section \<open>Translation of addresses\<close>

definition translate :: "mem \<Rightarrow> u32 \<Rightarrow> u32 \<Rightarrow> u32 option" where
  "translate m pdir va =
     (let e = m (dir_slot pdir va); f = m (table_slot (caddrEntry e) va) in
      if isEntryExist e \<and> isEntryExist f then Some (caddrEntry f + (va AND 0xfff)) else None)"

text \<open>
  A directory whose tables lie in frames of \<open>U\<close>, each in a frame of its own and none in the frame of the
  directory.
\<close>

definition dir_ok :: "mem \<Rightarrow> nat set \<Rightarrow> u32 \<Rightarrow> bool" where
  "dir_ok m U pdir \<longleftrightarrow>
     page_aligned pdir \<and> frame_of pdir \<in> U \<and>
     (\<forall>va. isEntryExist (m (dir_slot pdir va)) \<longrightarrow>
        frame_of (m (dir_slot pdir va)) \<in> U - {frame_of pdir} \<and>
        (\<forall>va'. isEntryExist (m (dir_slot pdir va')) \<and> dir_index va' \<noteq> dir_index va \<longrightarrow>
           frame_of (m (dir_slot pdir va')) \<noteq> frame_of (m (dir_slot pdir va))))"

lemma dir_okD:
  assumes "dir_ok m U pdir"
  shows "page_aligned pdir" and "frame_of pdir \<in> U"
    and "isEntryExist (m (dir_slot pdir va)) \<Longrightarrow> frame_of (m (dir_slot pdir va)) \<in> U - {frame_of pdir}"
    and "isEntryExist (m (dir_slot pdir va)) \<Longrightarrow> isEntryExist (m (dir_slot pdir va')) \<Longrightarrow>
      dir_index va' \<noteq> dir_index va \<Longrightarrow> frame_of (m (dir_slot pdir va')) \<noteq> frame_of (m (dir_slot pdir va))"
  using assms unfolding dir_ok_def by blast+

lemma dir_index_slot: "dir_index va = dir_index va' \<Longrightarrow> dir_slot p va = dir_slot p va'"
  by (simp add: dir_slot_eq)

lemma table_index_slot: "table_index va = table_index va' \<Longrightarrow> table_slot p va = table_slot p va'"
  by (simp add: table_slot_eq)

lemma zero_absent [simp]: "\<not> isEntryExist 0"
  by (simp add: isEntryExist_def)

text \<open>Installing a fresh, empty table in an empty slot.\<close>

lemma install_table:
  assumes ok: "dir_ok m U pdir" and absent: "\<not> isEntryExist (m (dir_slot pdir va))"
    and t: "page_aligned t" "frame_of t \<notin> U" and ty: "odd ty"
  defines "m' \<equiv> disableAllEntry (editEntry m (dir_slot pdir va) t ty) t"
  shows "dir_ok m' (insert (frame_of t) U) pdir \<and> translate m' pdir = translate m pdir \<and>
    isEntryExist (m' (dir_slot pdir va)) \<and> caddrEntry (m' (dir_slot pdir va)) = t"
proof -
  have pd: "page_aligned pdir" "frame_of pdir \<in> U" using ok by (simp_all add: dir_ok_def)
  have d: "m' (dir_slot pdir x) = (if dir_index x = dir_index va then make_entry t ty else m (dir_slot pdir x))" for x
  proof -
    have "frame_of (dir_slot pdir x) \<noteq> frame_of t" using pd t by auto
    then show ?thesis using pd(1) t(1) by (simp add: m'_def editEntry_eq)
  qed
  have e: "caddrEntry (make_entry t ty) = t" "frame_of (make_entry t ty) = frame_of t"
    using t(1) caddr_aligned(2) [of "make_entry t ty"] by simp_all
  have "dir_ok m' (insert (frame_of t) U) pdir"
    unfolding dir_ok_def
  proof (intro conjI allI impI)
    fix x assume x: "isEntryExist (m' (dir_slot pdir x))"
    show "frame_of (m' (dir_slot pdir x)) \<in> insert (frame_of t) U - {frame_of pdir}"
      using x pd t(2) dir_okD(3) [OF ok, of x] unfolding d by (cases "dir_index x = dir_index va") (auto simp: e)
    fix y assume y: "isEntryExist (m' (dir_slot pdir y)) \<and> dir_index y \<noteq> dir_index x"
    have old: "frame_of (m (dir_slot pdir z)) \<noteq> frame_of t" if "isEntryExist (m (dir_slot pdir z))" for z
      using t(2) dir_okD(3) [OF ok that] by auto
    show "frame_of (m' (dir_slot pdir y)) \<noteq> frame_of (m' (dir_slot pdir x))"
    proof (cases "dir_index x = dir_index va \<or> dir_index y = dir_index va")
      case True
      with x y old [of x] old [of y] show ?thesis unfolding d by (auto simp: e split: if_splits)
    next
      case False
      with x y dir_okD(4) [OF ok, of x y] show ?thesis unfolding d by simp
    qed
  qed (use pd in auto)
  moreover have "translate m' pdir x = translate m pdir x" for x
  proof (cases "dir_index x = dir_index va")
    case True
    then have "m (dir_slot pdir x) = m (dir_slot pdir va)" using dir_index_slot by metis
    with True absent t(1) show ?thesis unfolding translate_def Let_def d by (simp add: e m'_def)
  next
    case False
    show ?thesis
    proof (cases "isEntryExist (m (dir_slot pdir x))")
      case True
      then have "frame_of (m (dir_slot pdir x)) \<in> U" "frame_of (m (dir_slot pdir x)) \<noteq> frame_of pdir"
        using dir_okD(3) [OF ok True] by auto
      then have "m' (table_slot (caddrEntry (m (dir_slot pdir x))) x) = m (table_slot (caddrEntry (m (dir_slot pdir x))) x)"
      proof -
        let ?a = "table_slot (caddrEntry (m (dir_slot pdir x))) x"
        have fa: "frame_of ?a = frame_of (m (dir_slot pdir x))" by simp
        then have "?a \<noteq> dir_slot pdir va" "frame_of ?a \<noteq> frame_of t"
          using \<open>frame_of (m (dir_slot pdir x)) \<in> U\<close> \<open>frame_of (m (dir_slot pdir x)) \<noteq> frame_of pdir\<close> pd t
          by (metis slots(1), metis)
        then show ?thesis using t(1) by (simp add: m'_def editEntry_eq)
      qed
      with False show ?thesis unfolding translate_def Let_def d by simp
    qed (simp add: translate_def Let_def d False)
  qed
  ultimately show ?thesis using ty d [of va] e by (auto simp: fun_eq_iff)
qed

text \<open>Filling an empty entry of a table of the directory.\<close>

lemma fill_entry:
  assumes ok: "dir_ok m U pdir" and dir: "isEntryExist (m (dir_slot pdir va))"
    and slot: "a = table_slot (caddrEntry (m (dir_slot pdir va))) va"
    and f: "page_aligned f" and ty: "odd ty"
  defines "m' \<equiv> editEntry m a f ty"
  shows "dir_ok m' U pdir \<and> translate m' pdir va = Some (f + (va AND 0xfff)) \<and>
    (\<forall>x. frame_of x \<noteq> frame_of va \<longrightarrow> translate m' pdir x = translate m pdir x)"
proof -
  have pd: "page_aligned pdir" using ok by (simp add: dir_ok_def)
  have fr: "frame_of a = frame_of (m (dir_slot pdir va))" by (simp add: slot)
  have "frame_of a \<noteq> frame_of pdir" using dir_okD(3) [OF ok dir] by (simp add: fr)
  then have d: "m' (dir_slot pdir x) = m (dir_slot pdir x)" for x
    using pd slots(1) [OF pd, of x] by (auto simp: m'_def editEntry_eq)
  have "dir_ok m' U pdir" using ok unfolding dir_ok_def d .
  moreover have "translate m' pdir va = Some (f + (va AND 0xfff))"
    unfolding translate_def Let_def d using dir ty f by (simp add: m'_def editEntry_eq slot)
  moreover have "translate m' pdir x = translate m pdir x" if "frame_of x \<noteq> frame_of va" for x
  proof (cases "isEntryExist (m (dir_slot pdir x))")
    case True
    have "table_slot (caddrEntry (m (dir_slot pdir x))) x \<noteq> a"
    proof (cases "dir_index x = dir_index va")
      case True
      then have "table_index x \<noteq> table_index va" using that same_page by blast
      then show ?thesis by (simp add: slot dir_index_slot [OF True])
    next
      case False
      then have "frame_of (m (dir_slot pdir x)) \<noteq> frame_of a" using dir_okD(4) [OF ok dir True] by (simp add: fr)
      then show ?thesis by (metis caddr_aligned slots(2))
    qed
    then show ?thesis unfolding translate_def Let_def d by (simp add: m'_def editEntry_eq)
  qed (simp add: translate_def Let_def d)
  ultimately show ?thesis by blast
qed

text \<open>The frame an address is mapped to.\<close>

definition target :: "mem \<Rightarrow> u32 \<Rightarrow> u32 \<Rightarrow> nat" where
  "target m pdir va = frame_of (the (translate m pdir va))"

lemma frame_of_offset: "page_aligned r \<Longrightarrow> frame_of (r + (x AND 0xfff)) = frame_of r"
proof -
  assume "page_aligned r"
  then obtain k where k: "unat r = 4096 * k" "4096 * k + 4096 \<le> 2 ^ 32" by (rule page_alignedE)
  have o: "unat (x AND 0xfff) = unat x mod 4096" by (rule unat_page_off)
  have "unat x mod 4096 < 4096" by simp
  then have "unat r + unat (x AND 0xfff) < 2 ^ 32" using k unfolding o by linarith
  then have "unat (r + (x AND 0xfff)) = 4096 * k + unat x mod 4096"
    by (simp only: unat_add_exact o k)
  then show ?thesis by (simp add: frame_of_def k)
qed

text \<open>The addresses of a page are translated alike.\<close>

lemma translate_same_page:
  assumes "frame_of x = frame_of va"
  shows "translate m pdir x = map_option (\<lambda>a. a - (va AND 0xfff) + (x AND 0xfff)) (translate m pdir va)"
proof -
  have "dir_slot pdir x = dir_slot pdir va" "\<And>t. table_slot t x = table_slot t va"
    using assms same_page [of x va] by (simp_all add: dir_slot_eq table_slot_eq)
  then show ?thesis by (simp add: translate_def Let_def)
qed

section \<open>Clients of a frame allocator\<close>

locale frame_source =
  fixes fs_inv :: "'s \<Rightarrow> bool"
    and in_use :: "'s \<Rightarrow> nat set"
    and alloc :: "'s \<Rightarrow> (u32 \<times> 's) kres"
  assumes alloc_fresh: "fs_inv s \<Longrightarrow> alloc s = Inr (r, s') \<Longrightarrow>
      fs_inv s' \<and> page_aligned r \<and> frame_of r \<notin> in_use s \<and> in_use s' = insert (frame_of r) (in_use s)"
begin

lemma get_table_spec:
  assumes "fs_inv s" and "dir_ok m (in_use s) pdir" and "odd ty" and "get_table alloc m s pdir va ty = Inr (t, m1, s1)"
  shows "fs_inv s1 \<and> dir_ok m1 (in_use s1) pdir \<and> in_use s \<subseteq> in_use s1 \<and> translate m1 pdir = translate m pdir \<and>
    isEntryExist (m1 (dir_slot pdir va)) \<and> caddrEntry (m1 (dir_slot pdir va)) = t"
proof (cases "isEntryExist (m (dir_slot pdir va))")
  case True
  with assms show ?thesis by (auto simp: get_table_def)
next
  case False
  with assms(4) obtain a: "alloc s = Inr (t, s1)"
    and m1: "m1 = disableAllEntry (editEntry m (dir_slot pdir va) t ty) t"
    by (auto simp: get_table_def rbind_eq_Inr)
  note f = alloc_fresh [OF assms(1) a]
  with install_table [OF assms(2) False _ _ assms(3), of t] m1 show ?thesis by auto
qed

lemma enable_page_spec:
  assumes "fs_inv s" and "dir_ok m (in_use s) pdir" and "odd ty" and "enable_page alloc m s pdir va ty = Inr (m', s')"
  shows "fs_inv s' \<and> dir_ok m' (in_use s') pdir \<and> in_use s \<subseteq> in_use s' \<and>
    (\<forall>x. frame_of x \<noteq> frame_of va \<longrightarrow> translate m' pdir x = translate m pdir x) \<and>
    (case translate m pdir va of
       Some a \<Rightarrow> translate m' pdir va = Some a
     | None \<Rightarrow> \<exists>r. page_aligned r \<and> frame_of r \<in> in_use s' - in_use s \<and>
         translate m' pdir va = Some (r + (va AND 0xfff)))"
proof -
  obtain t m1 s1 where g: "get_table alloc m s pdir va ty = Inr (t, m1, s1)"
    and r: "(if \<not> isEntryExist (m1 (table_slot t va)) then
        rbind (alloc s1) (\<lambda>(s4k, s2). Inr (editEntry m1 (table_slot t va) s4k ty, s2)) else Inr (m1, s1)) = Inr (m', s')"
    using assms(4) by (auto simp: enable_page_def rbind_eq_Inr Let_def)
  note t = get_table_spec [OF assms(1-3) g]
  then have tt: "isEntryExist (m1 (dir_slot pdir va))" "caddrEntry (m1 (dir_slot pdir va)) = t"
    "translate m pdir va = translate m1 pdir va" by simp_all
  show ?thesis
  proof (cases "isEntryExist (m1 (table_slot t va))")
    case True
    with r have "m' = m1" "s' = s1" by simp_all
    moreover have "translate m1 pdir va \<noteq> None" using True tt(1,2) by (simp add: translate_def Let_def)
    ultimately show ?thesis using t by (auto split: option.splits)
  next
    case False
    with r obtain f where a: "alloc s1 = Inr (f, s')" and m': "m' = editEntry m1 (table_slot t va) f ty"
      by (auto simp: rbind_eq_Inr)
    have "fs_inv s1" "dir_ok m1 (in_use s1) pdir" "in_use s \<subseteq> in_use s1" using t by auto
    note f = alloc_fresh [OF this(1) a]
    have "translate m pdir va = None" unfolding tt(3) using False tt(1,2) by (simp add: translate_def Let_def)
    moreover have "dir_ok m1 (in_use s') pdir"
      using \<open>dir_ok m1 (in_use s1) pdir\<close> f unfolding dir_ok_def by blast
    ultimately show ?thesis
      using fill_entry [of m1 "in_use s'" pdir va "table_slot t va" f ty] t f assms(3) m' by auto
  qed
qed

text \<open>Whatever the directory holds, frames are only taken.\<close>

lemma enable_loop_inv:
  "fs_inv s \<Longrightarrow> enable_loop alloc n m s pdir va ty = Inr (m', s') \<Longrightarrow> fs_inv s' \<and> in_use s \<subseteq> in_use s'"
proof (induction n arbitrary: m s va)
  case (Suc n)
  then obtain m1 s1 where p: "enable_page alloc m s pdir va ty = Inr (m1, s1)"
    and l: "enable_loop alloc n m1 s1 pdir (va + 0x1000) ty = Inr (m', s')" by (auto simp: rbind_eq_Inr)
  obtain t m2 s2 where g: "get_table alloc m s pdir va ty = Inr (t, m2, s2)" and r: "s1 = s2 \<or> (\<exists>f. alloc s2 = Inr (f, s1))"
    using p by (auto simp: enable_page_def Let_def rbind_eq_Inr split: if_splits)
  have "s2 = s \<or> (\<exists>f. alloc s = Inr (f, s2))"
    using g by (auto simp: get_table_def Let_def rbind_eq_Inr split: if_splits)
  then have s2: "fs_inv s2" "in_use s \<subseteq> in_use s2" using alloc_fresh [OF Suc.prems(1)] Suc.prems(1) by blast+
  then have "fs_inv s1" "in_use s2 \<subseteq> in_use s1" using r alloc_fresh [OF s2(1)] by blast+
  then show ?case using Suc.IH [OF _ l] s2(2) by blast
qed auto

lemma enable_loop_spec:
  assumes "fs_inv s" and "dir_ok m (in_use s) pdir" and "odd ty" and "page_aligned va"
    and "unat va + n * 4096 \<le> 2 ^ 32" and "enable_loop alloc n m s pdir va ty = Inr (m', s')"
  shows "fs_inv s' \<and> dir_ok m' (in_use s') pdir \<and> in_use s \<subseteq> in_use s' \<and>
    (\<forall>x. translate m pdir x \<noteq> None \<longrightarrow> translate m' pdir x = translate m pdir x) \<and>
    (\<forall>x. frame_of va \<le> frame_of x \<and> frame_of x < frame_of va + n \<longrightarrow> translate m' pdir x \<noteq> None) \<and>
    (\<forall>x. \<not> (frame_of va \<le> frame_of x \<and> frame_of x < frame_of va + n) \<longrightarrow> translate m' pdir x = translate m pdir x)"
  using assms
proof (induction n arbitrary: m s va)
  case 0
  then show ?case by auto
next
  case (Suc n)
  then obtain m1 s1 where p: "enable_page alloc m s pdir va ty = Inr (m1, s1)"
    and l: "enable_loop alloc n m1 s1 pdir (va + 0x1000) ty = Inr (m', s')"
    by (auto simp: rbind_eq_Inr)
  note e = enable_page_spec [OF Suc.prems(1-3) p]
  have "translate m1 pdir va \<noteq> None" using e by (auto split: option.splits)
  then have here: "translate m1 pdir x \<noteq> None" if "frame_of x = frame_of va" for x
    using translate_same_page [OF that, of m1 pdir] by simp
  have keep: "translate m1 pdir x = translate m pdir x" if "frame_of x \<noteq> frame_of va \<or> translate m pdir x \<noteq> None" for x
  proof (cases "frame_of x = frame_of va")
    case True
    have "translate m pdir va \<noteq> None" using that True translate_same_page [OF True, of m pdir] by simp
    then have "translate m1 pdir va = translate m pdir va" using e by (auto split: option.splits)
    then show ?thesis using translate_same_page [OF True, of m pdir] translate_same_page [OF True, of m1 pdir] by simp
  qed (use e in blast)
  show ?case
  proof (cases "n = 0")
    case True
    with l have "m' = m1" "s' = s1" by simp_all
    with True e here keep show ?thesis by (auto simp: less_Suc_eq_le)
  next
    case False
    then have "unat va + 4096 + 4096 \<le> 2 ^ 32" using Suc.prems(5) by (cases n) auto
    then have u: "unat (va + 0x1000) = unat va + 4096" by (subst unat_add_exact) simp_all
    have al: "page_aligned (va + 0x1000)" and fr: "frame_of (va + 0x1000) = Suc (frame_of va)"
      using Suc.prems(4) u by (simp_all add: page_aligned_def frame_of_def)
    have "unat (va + 0x1000) + n * 4096 \<le> 2 ^ 32" using Suc.prems(5) u by simp
    from Suc.IH [OF _ _ Suc.prems(3) al this l] e
    have ih: "fs_inv s'" "dir_ok m' (in_use s') pdir" "in_use s1 \<subseteq> in_use s'"
      "\<And>x. translate m1 pdir x \<noteq> None \<Longrightarrow> translate m' pdir x = translate m1 pdir x"
      "\<And>x. Suc (frame_of va) \<le> frame_of x \<Longrightarrow> frame_of x < Suc (frame_of va) + n \<Longrightarrow> translate m' pdir x \<noteq> None"
      "\<And>x. \<not> (Suc (frame_of va) \<le> frame_of x \<and> frame_of x < Suc (frame_of va) + n) \<Longrightarrow>
         translate m' pdir x = translate m1 pdir x"
      unfolding fr by blast+
    have "translate m' pdir x \<noteq> None" if "frame_of va \<le> frame_of x" "frame_of x < frame_of va + Suc n" for x
      using that ih(4,5) [of x] here by (cases "frame_of x = frame_of va") auto
    moreover have "translate m' pdir x = translate m pdir x"
      if "\<not> (frame_of va \<le> frame_of x \<and> frame_of x < frame_of va + Suc n)" for x
      using that ih(6) [of x] keep [of x] by auto
    moreover have "translate m' pdir x = translate m pdir x" if "translate m pdir x \<noteq> None" for x
      using that keep [of x] ih(4) [of x] by simp
    ultimately show ?thesis using ih(1-3) e by blast
  qed
qed

lemma enable_loop_fresh:
  assumes "fs_inv s" and "dir_ok m (in_use s) pdir" and "odd ty" and "page_aligned va"
    and "unat va + n * 4096 \<le> 2 ^ 32" and "enable_loop alloc n m s pdir va ty = Inr (m', s')"
  shows "(\<forall>x. frame_of va \<le> frame_of x \<and> frame_of x < frame_of va + n \<and> translate m pdir x = None \<longrightarrow>
      target m' pdir x \<in> in_use s' - in_use s) \<and>
    (\<forall>x y. frame_of va \<le> frame_of x \<and> frame_of x < frame_of y \<and> frame_of y < frame_of va + n \<and>
      translate m pdir x = None \<and> translate m pdir y = None \<longrightarrow> target m' pdir x \<noteq> target m' pdir y)"
  using assms
proof (induction n arbitrary: m s va)
  case 0
  then show ?case by auto
next
  case (Suc n)
  then obtain m1 s1 where p: "enable_page alloc m s pdir va ty = Inr (m1, s1)"
    and l: "enable_loop alloc n m1 s1 pdir (va + 0x1000) ty = Inr (m', s')"
    by (auto simp: rbind_eq_Inr)
  note e = enable_page_spec [OF Suc.prems(1-3) p]
  have new: "target m1 pdir x \<in> in_use s1 - in_use s" "translate m1 pdir x \<noteq> None"
    if "frame_of x = frame_of va" "translate m pdir x = None" for x
  proof -
    have "translate m pdir va = None" using that translate_same_page [OF that(1), of m pdir] by simp
    then obtain r where r: "page_aligned r" "frame_of r \<in> in_use s1 - in_use s"
      "translate m1 pdir va = Some (r + (va AND 0xfff))"
      using e by auto
    then have "translate m1 pdir x = Some (r + (x AND 0xfff))" using translate_same_page [OF that(1), of m1 pdir] by simp
    with r show "target m1 pdir x \<in> in_use s1 - in_use s" "translate m1 pdir x \<noteq> None"
      by (simp_all add: target_def frame_of_offset)
  qed
  show ?case
  proof (cases "n = 0")
    case True
    with l have "m' = m1" "s' = s1" by simp_all
    with True new show ?thesis by (auto simp: less_Suc_eq_le)
  next
    case False
    then have "unat va + 4096 + 4096 \<le> 2 ^ 32" using Suc.prems(5) by (cases n) auto
    then have u: "unat (va + 0x1000) = unat va + 4096" by (subst unat_add_exact) simp_all
    have al: "page_aligned (va + 0x1000)" and fr: "frame_of (va + 0x1000) = Suc (frame_of va)"
      using Suc.prems(4) u by (simp_all add: page_aligned_def frame_of_def)
    have b: "unat (va + 0x1000) + n * 4096 \<le> 2 ^ 32" using Suc.prems(5) u by simp
    have s1: "fs_inv s1" "dir_ok m1 (in_use s1) pdir" "in_use s \<subseteq> in_use s1" using e by auto
    note ih = Suc.IH [OF s1(1,2) Suc.prems(3) al b l, unfolded fr]
    note sp = enable_loop_spec [OF s1(1,2) Suc.prems(3) al b l, unfolded fr]
    have first: "target m' pdir x \<in> in_use s1 - in_use s" if "frame_of x = frame_of va" "translate m pdir x = None" for x
      using new [OF that] sp by (simp add: target_def)
    have rest: "translate m1 pdir x = None" "target m' pdir x \<in> in_use s' - in_use s1"
      if "Suc (frame_of va) \<le> frame_of x" "frame_of x < Suc (frame_of va) + n" "translate m pdir x = None" for x
    proof -
      show "translate m1 pdir x = None" using e that by auto
      with ih that show "target m' pdir x \<in> in_use s' - in_use s1" by blast
    qed
    show ?thesis
    proof (intro conjI allI impI; elim conjE)
      fix x assume x: "frame_of va \<le> frame_of x" "frame_of x < frame_of va + Suc n" "translate m pdir x = None"
      show "target m' pdir x \<in> in_use s' - in_use s"
        using x first [of x] rest(2) [of x] s1(3) sp by (cases "frame_of x = frame_of va") auto
    next
      fix x y assume x: "frame_of va \<le> frame_of x" "frame_of x < frame_of y" "frame_of y < frame_of va + Suc n"
        "translate m pdir x = None" "translate m pdir y = None"
      show "target m' pdir x \<noteq> target m' pdir y"
      proof (cases "frame_of x = frame_of va")
        case True
        then show ?thesis using x first [of x] rest(2) [of y] by auto
      next
        case False
        then show ?thesis using x ih rest(1) [of x] rest(1) [of y] by auto
      qed
    qed
  qed
qed

end

text \<open>The page frame allocator is such a source: a frame is in use when it is not free.\<close>

interpretation pf: frame_source pfa_inv "\<lambda>a. - free_frames a" "\<lambda>a. allocChunk a 1"
proof unfold_locales
  fix a r a' assume inv: "pfa_inv a" and run: "allocChunk a 1 = Inr (r, a')"
  note s = allocChunk_spec [OF inv run]
  have "frames (r, ucast (1 :: u16)) = {frame_of r}" by (auto simp: frame_of_def)
  with s show "pfa_inv a' \<and> page_aligned r \<and> frame_of r \<notin> - free_frames a \<and>
      - free_frames a' = insert (frame_of r) (- free_frames a)"
    by (auto simp: page_aligned_def simp del: frames.simps)
qed

section \<open>enableSpace\<close>

lemma page_span:
  fixes va sz :: u32
  assumes "unat va + unat sz + 4095 < 2 ^ 32"
  defines "n \<equiv> (page_ceil (va + sz) - page_floor va) div 0x1000"
  shows "page_aligned (page_floor va)" and "frame_of (page_floor va) = frame_of va"
    and "frame_of va + unat n = (unat va + unat sz + 4095) div 4096"
    and "unat (page_floor va) + unat n * 4096 \<le> 2 ^ 32"
proof -
  have f: "unat (page_floor va) = frame_of va * 4096"
    by (simp only: page_floor_def unat_page_down frame_of_def)
  then show "page_aligned (page_floor va)" "frame_of (page_floor va) = frame_of va"
    by (simp_all add: page_aligned_def frame_of_def)
  have "unat (va + sz) = unat va + unat sz" using assms(1) by (intro unat_add_exact) simp
  moreover have "va + sz + 0x1000 - 1 = va + sz + 0xfff" by simp
  ultimately have "unat (va + sz + 0x1000 - 1) = unat va + unat sz + 4095"
    using assms(1) by (simp only:) (subst unat_add_exact, simp_all)
  then have c: "unat (page_ceil (va + sz)) = (unat va + unat sz + 4095) div 4096 * 4096"
    by (simp only: page_ceil_def unat_page_down)
  have le: "frame_of va \<le> (unat va + unat sz + 4095) div 4096"
    unfolding frame_of_def by (intro div_le_mono) simp
  then have "page_floor va \<le> page_ceil (va + sz)" by (simp add: word_le_nat_alt f c)
  then have n: "unat n = (unat va + unat sz + 4095) div 4096 - frame_of va"
    by (simp add: n_def unat_div unat_diff_exact f c flip: diff_mult_distrib)
  with le show sum: "frame_of va + unat n = (unat va + unat sz + 4095) div 4096" by simp
  have "unat (page_floor va) + unat n * 4096 = (frame_of va + unat n) * 4096" by (simp add: f)
  also have "\<dots> \<le> unat va + unat sz + 4095" unfolding sum by simp
  finally show "unat (page_floor va) + unat n * 4096 \<le> 2 ^ 32" using assms(1) by simp
qed

lemma in_span:
  assumes "unat va + unat sz + 4095 < 2 ^ 32" and "unat va \<le> unat x" and "unat x < unat va + unat sz"
  shows "frame_of va \<le> frame_of x" and "frame_of x < (unat va + unat sz + 4095) div 4096"
proof -
  show "frame_of va \<le> frame_of x" unfolding frame_of_def using assms(2) by (rule div_le_mono)
  have "Suc (unat x div 4096) \<le> (unat va + unat sz + 4095) div 4096"
    using assms(3) by (simp add: less_eq_div_iff_mult_less_eq)
  then show "frame_of x < (unat va + unat sz + 4095) div 4096" by (simp add: frame_of_def)
qed

lemma frame_less: "frame_of x < frame_of y \<Longrightarrow> unat x < unat y"
  unfolding frame_of_def by (rule ccontr) (meson div_le_mono linorder_not_less)

section \<open>An allocator with free frames\<close>

lemma demo_allocs:
  obtains r1 a1 r2 a2 r3 a3 r4 a4 where
    "allocChunk demo_pfa 1 = Inr (r1, a1)" "allocChunk a1 1 = Inr (r2, a2)"
    "allocChunk a2 1 = Inr (r3, a3)" "allocChunk a3 1 = Inr (r4, a4)"
proof -
  have "case rbind (allocChunk demo_pfa 1) (\<lambda>(_, a1). rbind (allocChunk a1 1) (\<lambda>(_, a2).
      rbind (allocChunk a2 1) (\<lambda>(_, a3). allocChunk a3 1))) of Inl _ \<Rightarrow> False | Inr _ \<Rightarrow> True"
    by code_simp
  then show ?thesis using that by (auto split: sum.splits simp: rbind_def)
qed

lemma demo_dir: "dir_ok (\<lambda>_. 0) (- free_frames demo_pfa) 0x1000"
  by (simp add: dir_ok_def demo_frames page_aligned_def frame_of_def)

section \<open>Properties\<close>



end
