(* ===== verification/VarMem_Map.thy ===== *)
theory VarMem_Map
  imports VarMem_Correct
begin

unbundle bit_operations_syntax

text \<open>
  The paging routines that place chosen frames: \<^verbatim>\<open>mapping_pmem\<close>, the straight map of the kernel directory
  built by \<^verbatim>\<open>initPaging\<close> and its copy into the directory of a process.
\<close>

section \<open>Mapping a range of frames\<close>

lemma page_offset_diff:
  assumes "page_aligned va" and "frame_of x = frame_of va"
  shows "x AND 0xfff = x - va"
proof -
  have "unat va = frame_of va * 4096" using assms(1) unfolding page_aligned_def frame_of_def by (auto elim: dvdE)
  moreover have "unat x = frame_of x * 4096 + unat x mod 4096" unfolding frame_of_def by simp
  ultimately have u: "unat x = unat va + unat x mod 4096" using assms(2) by simp
  then have "va \<le> x" unfolding word_le_nat_alt by simp
  then have "unat (x - va) = unat x - unat va" by (rule unat_diff_exact)
  also have "\<dots> = unat x mod 4096" using u by linarith
  also have "\<dots> = unat (x AND 0xfff)" by (rule unat_page_off [symmetric])
  finally show ?thesis by (simp only: word_unat_eq_iff)
qed

lemma page_aligned_next:
  assumes "page_aligned p"
  shows "page_aligned (p + 0x1000)"
proof -
  have "unat (p + 0x1000) = (unat p + 4096) mod 2 ^ 32" by (simp add: unat_word_ariths)
  also have "\<dots> mod 4096 = (unat p + 4096) mod 4096" by (rule mod_mod_cancel) simp
  also have "\<dots> = 0" using assms by (simp add: page_aligned_def)
  finally show ?thesis by (simp add: page_aligned_def)
qed

lemma map_page_spec:
  assumes "pfa_inv a" and "dir_ok m (- free_frames a) pdir" and "odd ty" and "page_aligned phys"
    and "map_page m a phys pdir va ty = Inr (m', a')"
  shows "pfa_inv a' \<and> dir_ok m' (- free_frames a') pdir \<and> free_frames a' \<subseteq> free_frames a \<and>
    (\<forall>x. frame_of x \<noteq> frame_of va \<longrightarrow> translate m' pdir x = translate m pdir x) \<and>
    translate m' pdir va = (case translate m pdir va of Some p \<Rightarrow> Some p | None \<Rightarrow> Some (phys + (va AND 0xfff)))"
proof -
  obtain t m1 where g: "get_table (\<lambda>a. allocChunk a 1) m a pdir va ty = Inr (t, m1, a')"
    and m': "m' = (if \<not> isEntryExist (m1 (table_slot t va)) then editEntry m1 (table_slot t va) phys ty else m1)"
  proof -
    from assms(5) obtain t m1 a1 where "get_table (\<lambda>a. allocChunk a 1) m a pdir va ty = Inr (t, m1, a1)"
      and "(if \<not> isEntryExist (m1 (table_slot t va)) then Inr (editEntry m1 (table_slot t va) phys ty, a1)
        else Inr (m1, a1)) = (Inr (m', a') :: (mem \<times> PFAllocator) kres)"
      unfolding map_page_def rbind_eq_Inr Let_def by auto
    then show ?thesis using that by (auto split: if_splits)
  qed
  note t = pf.get_table_spec [OF assms(1-3) g]
  then have tt: "isEntryExist (m1 (dir_slot pdir va))" "caddrEntry (m1 (dir_slot pdir va)) = t"
    "translate m pdir = translate m1 pdir" and ok: "dir_ok m1 (- free_frames a') pdir" by simp_all
  show ?thesis
  proof (cases "isEntryExist (m1 (table_slot t va))")
    case True
    then have "translate m1 pdir va \<noteq> None" using tt(1,2) by (simp add: translate_def Let_def)
    with True m' t show ?thesis by (auto split: option.splits)
  next
    case False
    then have "translate m1 pdir va = None" using tt(1,2) by (simp add: translate_def Let_def)
    with False m' t fill_entry [OF ok tt(1) _ assms(4,3), of "table_slot t va"] tt(2,3) show ?thesis by auto
  qed
qed

lemma map_loop_spec:
  assumes "pfa_inv a" and "dir_ok m (- free_frames a) pdir" and "odd ty" and "page_aligned phys" and "page_aligned va"
    and "unat va + n * 4096 \<le> 2 ^ 32" and "map_loop n m a phys pdir va ty = Inr (m', a')"
  shows "pfa_inv a' \<and> dir_ok m' (- free_frames a') pdir \<and> free_frames a' \<subseteq> free_frames a \<and>
    (\<forall>x. translate m' pdir x =
      (case translate m pdir x of Some p \<Rightarrow> Some p
       | None \<Rightarrow> if frame_of va \<le> frame_of x \<and> frame_of x < frame_of va + n then Some (phys + (x - va)) else None))"
  using assms
proof (induction n arbitrary: m a va phys)
  case 0
  then show ?case by (auto split: option.splits)
next
  case (Suc n)
  then obtain m1 a1 where p: "map_page m a phys pdir va ty = Inr (m1, a1)"
    and l: "map_loop n m1 a1 (phys + 0x1000) pdir (va + 0x1000) ty = Inr (m', a')"
    by (auto simp: rbind_eq_Inr)
  note e = map_page_spec [OF Suc.prems(1-4) p]
  have here: "translate m1 pdir x =
      (case translate m pdir x of Some p \<Rightarrow> Some p | None \<Rightarrow> Some (phys + (x - va)))" if "frame_of x = frame_of va" for x
    using e translate_same_page [OF that, of m1 pdir] translate_same_page [OF that, of m pdir]
      page_offset_diff [OF Suc.prems(5) that]
    by (auto split: option.splits)
  have other: "translate m1 pdir x = translate m pdir x" if "frame_of x \<noteq> frame_of va" for x
    using that e by blast
  show ?case
  proof (cases "n = 0")
    case True
    with l have m': "m' = m1" "a' = a1" by simp_all
    have "translate m1 pdir x = (case translate m pdir x of Some p \<Rightarrow> Some p
       | None \<Rightarrow> if frame_of va \<le> frame_of x \<and> frame_of x < frame_of va + Suc n then Some (phys + (x - va)) else None)" for x
      using here [of x] other [of x] True by (cases "frame_of x = frame_of va") (auto split: option.splits)
    then show ?thesis using e unfolding m' by blast
  next
    case False
    then have "unat va + 4096 + 4096 \<le> 2 ^ 32" using Suc.prems(6) by (cases n) auto
    then have u: "unat (va + 0x1000) = unat va + 4096" by (subst unat_add_exact) simp_all
    have al: "page_aligned (va + 0x1000)" and fr: "frame_of (va + 0x1000) = Suc (frame_of va)"
      using Suc.prems(5) u by (simp_all add: page_aligned_def frame_of_def)
    have "unat (va + 0x1000) + n * 4096 \<le> 2 ^ 32" using Suc.prems(6) u by simp
    from Suc.IH [OF _ _ Suc.prems(3) page_aligned_next [OF Suc.prems(4)] al this l] e
    have ih: "pfa_inv a'" "dir_ok m' (- free_frames a') pdir" "free_frames a' \<subseteq> free_frames a1"
      "\<And>x. translate m' pdir x = (case translate m1 pdir x of Some p \<Rightarrow> Some p
         | None \<Rightarrow> if Suc (frame_of va) \<le> frame_of x \<and> frame_of x < Suc (frame_of va) + n
             then Some (phys + 0x1000 + (x - (va + 0x1000))) else None)"
      unfolding fr by blast+
    have "translate m' pdir x = (case translate m pdir x of Some p \<Rightarrow> Some p
       | None \<Rightarrow> if frame_of va \<le> frame_of x \<and> frame_of x < frame_of va + Suc n then Some (phys + (x - va)) else None)" for x
      using here [of x] other [of x] ih(4) [of x]
      by (cases "frame_of x = frame_of va") (auto split: option.splits simp: algebra_simps)
    with ih(1-3) e show ?thesis by blast
  qed
qed

lemma vir2phy_translate:
  assumes "pdir \<noteq> 0"
  shows "vir2phy m cr3 va pdir = (case translate m pdir va of Some p \<Rightarrow> p | None \<Rightarrow> 0)"
  using assms by (simp add: vir2phy_def translate_def Let_def)

section \<open>Writing the slots of a frame one after the other\<close>

lemma unat_index [simp]: "i < 1024 \<Longrightarrow> unat (of_nat i :: u32) = i"
  by (simp add: unat_of_nat)

lemma slot_nat:
  assumes "page_aligned t" and "i < 1024"
  shows "frame_of (t + 4 * of_nat i) = frame_of t"
    and "j < 1024 \<Longrightarrow> t + 4 * of_nat i = t + 4 * of_nat j \<longleftrightarrow> i = j"
proof -
  show "frame_of (t + 4 * of_nat i) = frame_of t" using assms by (intro slot_frame) simp_all
  assume "j < 1024"
  then have "t + 4 * of_nat i = t + 4 * of_nat j \<longleftrightarrow> (of_nat i :: u32) = of_nat j"
    using assms by (intro slot_inject) simp_all
  also have "\<dots> \<longleftrightarrow> i = j" using assms(2) \<open>j < 1024\<close> by (metis unat_index)
  finally show "t + 4 * of_nat i = t + 4 * of_nat j \<longleftrightarrow> i = j" .
qed

lemma fold_slots:
  fixes g :: "nat \<Rightarrow> mem \<Rightarrow> u32"
  assumes t: "page_aligned t" and b: "b \<le> 1024"
    and g: "\<And>i m m'. i < 1024 \<Longrightarrow> (\<And>x. frame_of x \<noteq> frame_of t \<Longrightarrow> m x = m' x) \<Longrightarrow> g i m = g i m'"
  defines "F \<equiv> fold (\<lambda>i m. m(t + 4 * of_nat i := g i m))"
  shows "frame_of x \<noteq> frame_of t \<Longrightarrow> F [a..<b] m x = m x"
    and "i < 1024 \<Longrightarrow> F [a..<b] m (t + 4 * of_nat i) = (if a \<le> i \<and> i < b then g i m else m (t + 4 * of_nat i))"
proof -
  have frame: "F [a..<b] m x = m x" if "frame_of x \<noteq> frame_of t" "b \<le> 1024" for x b
    using that(2)
  proof (induction b)
    case (Suc b)
    then have "x \<noteq> t + 4 * of_nat b" using that(1) slot_nat(1) [OF t, of b] by auto
    with Suc show ?case by (simp add: F_def)
  qed (simp add: F_def)
  then show "frame_of x \<noteq> frame_of t \<Longrightarrow> F [a..<b] m x = m x" using b by blast
  assume i: "i < 1024"
  show "F [a..<b] m (t + 4 * of_nat i) = (if a \<le> i \<and> i < b then g i m else m (t + 4 * of_nat i))"
    using b
  proof (induction b)
    case (Suc b)
    have "g b (F [a..<b] m) = g b m" using frame Suc.prems by (intro g) simp_all
    moreover have "t + 4 * of_nat i = t + 4 * of_nat b \<longleftrightarrow> i = b" using slot_nat(2) [OF t i, of b] Suc.prems by simp
    ultimately show ?case using Suc by (auto simp: F_def less_Suc_eq)
  qed (simp add: F_def)
qed

section \<open>The straight map\<close>

lemma fill_table_eq:
  assumes "page_aligned (m slot)" and "frame_of slot \<noteq> frame_of (m slot)"
  shows "fill_table m slot =
    fold (\<lambda>j m'. m'(m slot + 4 * of_nat j := make_entry (of_nat j * 0x1000) systempage)) [0..<1024] m"
proof -
  define S where "S j m' = m'(m slot + 4 * of_nat j := make_entry (of_nat j * 0x1000) systempage)" for j and m' :: mem
  define T where "T j m = editEntry m (m slot + 4 * of_nat j) (of_nat j * 0x1000) systempage" for j and m :: mem
  have "fold T [0..<n] m = fold S [0..<n] m" if "n \<le> 1024" for n
    using that
  proof (induction n)
    case (Suc n)
    have "fold S [0..<n] m slot = m slot"
      unfolding S_def using assms Suc.prems by (intro fold_slots(1)) simp_all
    then have "T n (fold S [0..<n] m) = S n (fold S [0..<n] m)" by (simp only: T_def S_def editEntry_eq)
    with Suc show ?case by simp
  qed simp
  then show ?thesis by (simp add: fill_table_def nrEntry_def S_def [abs_def] T_def [abs_def])
qed

lemma straight_table_spec:
  assumes "page_aligned kpd" and "page_aligned (m slot)" and "i < 1024" and "slot = kpt + 4 * of_nat i"
    and "frame_of slot \<noteq> frame_of (m slot)" and "frame_of slot \<noteq> frame_of kpd" and "frame_of (m slot) \<noteq> frame_of kpd"
  defines "m' \<equiv> straight_table kpd kpt i m"
  shows "m' (kpd + 4 * of_nat i) = make_entry (m slot) systempage"
    and "j < 1024 \<Longrightarrow> m' (m slot + 4 * of_nat j) = make_entry (of_nat j * 0x1000) systempage"
    and "frame_of x \<noteq> frame_of (m slot) \<Longrightarrow> x \<noteq> kpd + 4 * of_nat i \<Longrightarrow> m' x = m x"
proof -
  let ?m2 = "(disableAllEntry m (m slot))(kpd + 4 * of_nat i := make_entry (m slot) systempage)"
  have d: "frame_of (kpd + 4 * of_nat i) = frame_of kpd" using assms by (intro slot_nat)
  have s: "?m2 slot = m slot" using assms d by (auto simp: disable_other)
  have m': "m' = fold (\<lambda>j m'. m'(m slot + 4 * of_nat j := make_entry (of_nat j * 0x1000) systempage)) [0..<1024] ?m2"
    using fill_table_eq [of ?m2 slot] s assms(2,5)
    by (simp add: m'_def straight_table_def Let_def editEntry_eq disable_other flip: assms(4))
  show "m' (kpd + 4 * of_nat i) = make_entry (m slot) systempage"
    unfolding m' using assms d by (subst fold_slots(1)) simp_all
  show "m' (m slot + 4 * of_nat j) = make_entry (of_nat j * 0x1000) systempage" if "j < 1024"
    unfolding m' using assms(2) that by (subst fold_slots(2)) simp_all
  show "m' x = m x" if "frame_of x \<noteq> frame_of (m slot)" "x \<noteq> kpd + 4 * of_nat i"
    unfolding m' using assms(2) that by (subst fold_slots(1)) (simp_all add: disable_other)
qed

definition table_at :: "u32 \<Rightarrow> nat \<Rightarrow> u32" where
  "table_at bf i = bf + ChunkSize * of_nat i"

lemma table_at:
  assumes "page_aligned bf" and "unat bf + n * 4096 \<le> 2 ^ 32" and "i < n" and "n \<le> 1024"
  shows "page_aligned (table_at bf i)" and "frame_of (table_at bf i) = frame_of bf + i"
proof -
  have "unat (ChunkSize * of_nat i :: u32) = 4096 * i"
    using assms(3,4) unfolding ChunkSize_def by (subst unat_mult_exact) simp_all
  moreover have "unat bf + 4096 * i < 2 ^ 32" using assms(2,3) by linarith
  ultimately have "unat (table_at bf i) = unat bf + 4096 * i"
    unfolding table_at_def by (subst unat_add_exact) simp_all
  with assms(1) show "page_aligned (table_at bf i)" "frame_of (table_at bf i) = frame_of bf + i"
    by (simp_all add: page_aligned_def frame_of_def)
qed

text \<open>After \<open>k\<close> rounds of the loop over the tables.\<close>

definition straight_upto :: "u32 \<Rightarrow> u32 \<Rightarrow> u32 \<Rightarrow> nat \<Rightarrow> nat \<Rightarrow> mem \<Rightarrow> bool" where
  "straight_upto kpd kpt bf n k m \<longleftrightarrow>
     (\<forall>i < n. m (kpt + 4 * of_nat i) = table_at bf i) \<and>
     (\<forall>i < 1024. m (kpd + 4 * of_nat i) = (if i < k then make_entry (table_at bf i) systempage else 0)) \<and>
     (\<forall>i < k. \<forall>j < 1024. m (table_at bf i + 4 * of_nat j) = make_entry (of_nat j * 0x1000) systempage)"

lemma straight_step:
  assumes al: "page_aligned kpd" "page_aligned kpt" "page_aligned bf" and "frame_of kpd \<noteq> frame_of kpt"
    and sep: "frame_of kpd \<notin> {frame_of bf ..< frame_of bf + n}" "frame_of kpt \<notin> {frame_of bf ..< frame_of bf + n}"
    and n: "unat bf + n * 4096 \<le> 2 ^ 32" "n \<le> 1024" and k: "k < n" and up: "straight_upto kpd kpt bf n k m"
  shows "straight_upto kpd kpt bf n (Suc k) (straight_table kpd kpt k m)"
proof -
  let ?slot = "kpt + 4 * of_nat k" and ?m' = "straight_table kpd kpt k m"
  note t = table_at [OF al(3) n(1) _ n(2)]
  have k1: "k < 1024" using k n(2) by simp
  have ms: "m ?slot = table_at bf k" using up k by (simp add: straight_upto_def)
  have fs: "frame_of ?slot = frame_of kpt" by (rule slot_nat(1) [OF al(2) k1])
  have ft: "frame_of (m ?slot) = frame_of bf + k" "page_aligned (m ?slot)" using t [OF k] by (simp_all add: ms)
  have ne: "frame_of ?slot \<noteq> frame_of (m ?slot)" "frame_of ?slot \<noteq> frame_of kpd" "frame_of (m ?slot) \<noteq> frame_of kpd"
    using assms(4) sep k unfolding fs ft by auto
  note st = straight_table_spec [of kpd m ?slot k kpt, OF al(1) ft(2) k1 refl ne, folded ms]
  note sl = slot_nat(1) [OF al(1)] slot_nat(1) [OF al(2)]
  have kt: "?m' (kpt + 4 * of_nat i) = table_at bf i" if "i < n" for i
  proof -
    have i: "i < 1024" using that n(2) by simp
    have "frame_of (kpt + 4 * of_nat i) \<noteq> frame_of (m ?slot)" "kpt + 4 * of_nat i \<noteq> kpd + 4 * of_nat k"
      using ne(1) assms(4) sl [OF i] sl(1) [OF k1] unfolding fs by (simp, metis)
    with st(3) up that show ?thesis by (simp add: straight_upto_def ms)
  qed
  have kd: "?m' (kpd + 4 * of_nat i) = (if i < Suc k then make_entry (table_at bf i) systempage else 0)" if "i < 1024" for i
  proof (cases "i = k")
    case False
    have "frame_of (kpd + 4 * of_nat i) \<noteq> frame_of (m ?slot)" "kpd + 4 * of_nat i \<noteq> kpd + 4 * of_nat k"
      using ne(3) sl(1) [OF that] slot_nat(2) [OF al(1) that k1] False by auto
    with st(3) up that False show ?thesis by (auto simp: straight_upto_def ms less_Suc_eq)
  qed (use st(1) ms in simp)
  have "?m' (table_at bf i + 4 * of_nat j) = make_entry (of_nat j * 0x1000) systempage" if "i < Suc k" "j < 1024" for i j
  proof (cases "i = k")
    case False
    with that have i: "i < k" "i < n" using k by auto
    have f: "frame_of (table_at bf i + 4 * of_nat j) = frame_of bf + i"
      using slot_nat(1) [OF t(1) that(2)] t(2) i by simp
    then have "frame_of (table_at bf i + 4 * of_nat j) \<noteq> frame_of (m ?slot)" "table_at bf i + 4 * of_nat j \<noteq> kpd + 4 * of_nat k"
      using i sep(1) sl(1) [OF k1] unfolding ft by (simp, metis atLeastLessThan_iff le_add1 nat_add_left_cancel_less)
    with st(3) up that i show ?thesis by (simp add: straight_upto_def ms)
  qed (use st(2) ms that in simp)
  with kt kd show ?thesis by (simp add: straight_upto_def)
qed

lemma straight_loop:
  assumes "page_aligned kpd" and "page_aligned kpt" and "page_aligned bf" and "frame_of kpd \<noteq> frame_of kpt"
    and "frame_of kpd \<notin> {frame_of bf ..< frame_of bf + n}" and "frame_of kpt \<notin> {frame_of bf ..< frame_of bf + n}"
    and "unat bf + n * 4096 \<le> 2 ^ 32" and "n \<le> 1024" and "straight_upto kpd kpt bf n 0 m"
  shows "straight_upto kpd kpt bf n n (fold (straight_table kpd kpt) [0..<n] m)"
proof -
  have "straight_upto kpd kpt bf n k (fold (straight_table kpd kpt) [0..<k] m)" if "k \<le> n" for k
    using that
  proof (induction k)
    case (Suc k)
    then show ?case using straight_step [OF assms(1-8), of k] by simp
  qed (use assms(9) in simp)
  then show ?thesis by simp
qed

lemma straight_translate:
  assumes up: "straight_upto kpd kpt bf n n m" and al: "page_aligned bf" "page_aligned kpd"
    and n: "unat bf + n * 4096 \<le> 2 ^ 32" "n \<le> 1024"
  shows "translate m kpd va = (if unat (dir_index va) < n then Some (va mod 0x400000) else None)"
proof -
  let ?i = "unat (dir_index va)" and ?j = "unat (table_index va)"
  have r: "of_nat (unat w) = w" for w :: u32 by simp
  have d: "m (dir_slot kpd va) = (if ?i < n then make_entry (table_at bf ?i) systempage else 0)"
    using up index_bound(1) [of va] unfolding straight_upto_def dir_slot_eq by (metis r)
  show ?thesis
  proof (cases "?i < n")
    case True
    have c: "caddrEntry (make_entry (table_at bf ?i) systempage) = table_at bf ?i"
      using table_at(1) [OF al(1) n(1) True n(2)] by simp
    have e: "m (table_slot (table_at bf ?i) va) = make_entry (table_index va * 0x1000) systempage"
      using up True index_bound(2) [of va] unfolding straight_upto_def table_slot_eq by (metis r)
    have u: "unat (table_index va * 0x1000) = ?j * 4096" using index_bound(2) [of va] by (subst unat_mult_exact) simp_all
    then have "page_aligned (table_index va * 0x1000)" by (simp add: page_aligned_def)
    moreover have "table_index va * 0x1000 + (va AND 0xfff) = va mod 0x400000"
    proof -
      have "?j = unat va mod 4194304 div 4096" by (simp add: table_index_def unat_div unat_mod)
      moreover have "unat va mod 4096 = unat va mod 4194304 mod 4096" by (simp add: mod_mod_cancel)
      ultimately have "?j * 4096 + unat va mod 4096 = unat va mod 4194304" by presburger
      moreover have "unat va mod 4194304 < 4194304" by simp
      ultimately have "unat (table_index va * 0x1000) + unat (va AND 0xfff) = unat va mod 4194304"
        and "unat va mod 4194304 < 2 ^ 32" unfolding u unat_page_off by simp_all
      then have "unat (table_index va * 0x1000 + (va AND 0xfff)) = unat va mod 4194304"
        by (metis unat_add_exact)
      then show ?thesis by (simp add: word_unat_eq_iff unat_mod)
    qed
    moreover have "odd systempage" by (simp add: systempage_def)
    ultimately show ?thesis using True by (simp add: translate_def Let_def d c e)
  qed (simp add: translate_def Let_def d)
qed

lemma straight_dir_ok:
  assumes up: "straight_upto kpd kpt bf n n m" and al: "page_aligned bf" "page_aligned kpd"
    and n: "unat bf + n * 4096 \<le> 2 ^ 32" "n \<le> 1024"
    and U: "frame_of kpd \<in> U" "{frame_of bf ..< frame_of bf + n} \<subseteq> U - {frame_of kpd}"
  shows "dir_ok m U kpd"
proof -
  have r: "of_nat (unat w) = w" for w :: u32 by simp
  have d: "m (dir_slot kpd va) =
      (if unat (dir_index va) < n then make_entry (table_at bf (unat (dir_index va))) systempage else 0)" for va
    using up index_bound(1) [of va] unfolding straight_upto_def dir_slot_eq by (metis r)
  have f: "frame_of (make_entry (table_at bf i) systempage) = frame_of bf + i" if "i < n" for i
    using table_at [OF al(1) n(1) that n(2)] caddr_aligned(2) [of "make_entry (table_at bf i) systempage"] by simp
  have e: "unat (dir_index va) < n \<and> frame_of (m (dir_slot kpd va)) = frame_of bf + unat (dir_index va)"
    if "isEntryExist (m (dir_slot kpd va))" for va
    using that f [of "unat (dir_index va)"] by (auto simp: d split: if_splits)
  show ?thesis
    unfolding dir_ok_def
  proof (intro conjI allI impI)
    fix va assume x: "isEntryExist (m (dir_slot kpd va))"
    show "frame_of (m (dir_slot kpd va)) \<in> U - {frame_of kpd}" using e [OF x] U(2) by (simp add: subset_iff)
    fix va' assume y: "isEntryExist (m (dir_slot kpd va')) \<and> dir_index va' \<noteq> dir_index va"
    then show "frame_of (m (dir_slot kpd va')) \<noteq> frame_of (m (dir_slot kpd va))"
      using e [OF x] e [of va'] by (simp add: word_unat_eq_iff)
  qed (use al U in auto)
qed

text \<open>Writing the last slot of the directory does not change the translation of the addresses below it.\<close>

lemma last_slot:
  assumes ok: "dir_ok m U kpd" and va: "unat (dir_index va) < 0x3ff"
  shows "translate (editEntry m (kpd + 4 * 0x3ff) p ty) kpd va = translate m kpd va"
proof -
  have al: "page_aligned kpd" by (rule dir_okD(1) [OF ok])
  have "dir_slot kpd va \<noteq> kpd + 4 * 0x3ff"
    unfolding dir_slot_eq using slot_inject [OF al index_bound(1), of "0x3ff" va] va by auto
  moreover have "table_slot (caddrEntry (m (dir_slot kpd va))) va \<noteq> kpd + 4 * 0x3ff" if "isEntryExist (m (dir_slot kpd va))"
  proof -
    have "frame_of (table_slot (caddrEntry (m (dir_slot kpd va))) va) \<noteq> frame_of kpd"
      using dir_okD(3) [OF ok that] by simp
    moreover have "frame_of (kpd + 4 * 0x3ff) = frame_of kpd" by (rule slot_frame [OF al]) simp
    ultimately show ?thesis by metis
  qed
  ultimately show ?thesis by (auto simp: translate_def Let_def editEntry_eq)
qed

lemma disable_slot: "page_aligned t \<Longrightarrow> i < 1024 \<Longrightarrow> disableAllEntry m t (t + 4 * of_nat i) = 0"
  unfolding disableAllEntry_eq by (metis unat_index)

text \<open>The memory in front of the loop over the tables.\<close>

lemma straight_init:
  assumes "page_aligned kpd" and "page_aligned kpt" and "frame_of kpd \<noteq> frame_of kpt" and "n \<le> 1024"
  shows "straight_upto kpd kpt bf n 0
    (disableAllEntry (fold (\<lambda>i m. m(kpt + 4 * of_nat i := bf + ChunkSize * of_nat i)) [0..<n] m) kpd)"
proof -
  let ?m1 = "fold (\<lambda>i m. m(kpt + 4 * of_nat i := bf + ChunkSize * of_nat i)) [0..<n] m"
  have "disableAllEntry ?m1 kpd (kpt + 4 * of_nat i) = table_at bf i" if "i < n" for i
  proof -
    have i: "i < 1024" using that assms(4) by simp
    then have "disableAllEntry ?m1 kpd (kpt + 4 * of_nat i) = ?m1 (kpt + 4 * of_nat i)"
      using assms(1,3) slot_nat(1) [OF assms(2)] by simp
    also have "\<dots> = table_at bf i" using assms(2,4) i that by (subst fold_slots(2)) (simp_all add: table_at_def)
    finally show ?thesis .
  qed
  then show ?thesis using disable_slot [OF assms(1)] by (simp add: straight_upto_def)
qed

text \<open>The three allocations of \<^verbatim>\<open>initPaging\<close> and the tables it builds in them.\<close>

definition straight_mem :: "mem \<Rightarrow> u32 \<Rightarrow> u32 \<Rightarrow> u32 \<Rightarrow> nat \<Rightarrow> mem" where
  "straight_mem m kpd kpt bf n = fold (straight_table kpd kpt) [0..<n]
     (disableAllEntry (fold (\<lambda>i m. m(kpt + 4 * of_nat i := bf + ChunkSize * of_nat i)) [0..<n] m) kpd)"

lemma straight_map:
  fixes m :: mem
  assumes inv: "pfa_inv a" and n: "unat nr < 896"
    and r: "allocChunk a 1 = Inr (kpd, a1)" "allocChunk a1 1 = Inr (kpt, a2)" "allocChunk a2 (ucast nr) = Inr (bf, a3)"
  defines "m3 \<equiv> straight_mem m kpd kpt bf (unat nr)"
  shows "pfa_inv a3 \<and> dir_ok m3 (- free_frames a3) kpd \<and>
    (\<forall>va. translate m3 kpd va = (if unat (dir_index va) < unat nr then Some (va mod 0x400000) else None))"
proof -
  let ?n = "unat nr"
  note k1 = pf.alloc_fresh [OF inv r(1)]
  then have "pfa_inv a1" by simp
  note k2 = pf.alloc_fresh [OF this r(2)]
  then have "pfa_inv a2" by simp
  note k3 = allocChunk_spec [OF this r(3)]
  have u16: "unat (ucast (ucast nr :: u16) :: u32) = ?n"
    using n by (simp add: unsigned_ucast_eq unsigned_take_bit_eq take_bit_nat_eq_self)
  have bf: "page_aligned bf" "unat bf + ?n * 4096 \<le> 2 ^ 32" "{frame_of bf ..< frame_of bf + ?n} \<subseteq> free_frames a2"
    "- free_frames a3 = - free_frames a2 \<union> {frame_of bf ..< frame_of bf + ?n}"
    using k3 u16 by (auto simp: page_aligned_def frame_of_def)
  have sep: "frame_of kpd \<noteq> frame_of kpt" "frame_of kpd \<notin> free_frames a2" "frame_of kpt \<notin> free_frames a2"
    using k1 k2 by auto
  have al: "page_aligned kpd" "page_aligned kpt" using k1 k2 by simp_all
  have up: "straight_upto kpd kpt bf ?n ?n m3"
    unfolding m3_def straight_mem_def using al bf sep n by (intro straight_loop straight_init) auto
  moreover have "dir_ok m3 (- free_frames a3) kpd"
    using up bf al sep n unfolding bf(4) by (intro straight_dir_ok [where n = ?n]) auto
  ultimately show ?thesis using k3 straight_translate [OF up bf(1) al(1) bf(2)] n by simp
qed

lemma initPaging_steps:
  assumes "initPaging v = Inr v'"
  defines "nr \<equiv> mem_size v div dir_entrySize"
  obtains kpd a1 kpt a2 bf a3 m4 where
    "allocChunk (vpfa v) 1 = Inr (kpd, a1)" "allocChunk a1 1 = Inr (kpt, a2)" "allocChunk a2 (ucast nr) = Inr (bf, a3)"
    "map_loop 512 (straight_mem (vmem v) kpd kpt bf (unat nr)) a3 0xe0000000 kpd 0xe0000000 systempage = Inr (m4, vpfa v')"
    "vmem v' = editEntry m4 (kpd + 4 * 0x3ff) (v2ptable v) systempage" "kPdir v' = kpd"
proof -
  have c: "page_ceil 0x200000 div 0x1000 = 0x200" by (simp add: page_ceil_def)
  show ?thesis
    using assms(1) unfolding initPaging_def rbind_eq_Inr Let_def nr_def [symmetric] straight_mem_def [symmetric]
    by (clarsimp simp: rbind_eq_Inr mapping_pmem_def c) (rule that; assumption?; simp)
qed

section \<open>When mapping returns\<close>

lemma map_loop_in_table:
  assumes "dir_ok m U pdir" and "isEntryExist (m (dir_slot pdir va))" and "odd ty" and "page_aligned phys"
    and "\<And>i. i < n \<Longrightarrow> dir_index (va + of_nat i * 0x1000) = dir_index va"
  shows "\<exists>m'. map_loop n m a phys pdir va ty = Inr (m', a)"
  using assms
proof (induction n arbitrary: m va phys)
  case (Suc n)
  let ?t = "caddrEntry (m (dir_slot pdir va))"
  define m1 where "m1 = (if isEntryExist (m (table_slot ?t va)) then m else editEntry m (table_slot ?t va) phys ty)"
  have step: "map_page m a phys pdir va ty = Inr (m1, a)"
    using Suc.prems(2) by (simp add: map_page_def get_table_def m1_def Let_def)
  have ok: "dir_ok m1 U pdir" and ex: "isEntryExist (m1 (dir_slot pdir va))"
  proof -
    have "frame_of ?t \<noteq> frame_of pdir" using dir_okD(3) [OF Suc.prems(1,2)] by simp
    then have "table_slot ?t va \<noteq> dir_slot pdir va" using slots(2) [of ?t va] slots(1) [OF dir_okD(1) [OF Suc.prems(1)]]
      by (metis caddr_aligned(1))
    then show "isEntryExist (m1 (dir_slot pdir va))" using Suc.prems(2) by (simp add: m1_def editEntry_eq)
    show "dir_ok m1 U pdir"
      using fill_entry [OF Suc.prems(1,2) refl Suc.prems(4,3)] Suc.prems(1) by (simp add: m1_def)
  qed
  show ?case
  proof (cases "n = 0")
    case False
    have d: "dir_index (va + 0x1000) = dir_index va" using Suc.prems(5) [of 1] False by simp
    have "dir_index (va + 0x1000 + of_nat i * 0x1000) = dir_index (va + 0x1000)" if "i < n" for i
      using Suc.prems(5) [of "Suc i"] that d by (simp add: algebra_simps)
    from Suc.IH [OF ok _ Suc.prems(3) page_aligned_next [OF Suc.prems(4)] this] ex dir_index_slot [OF d, of pdir]
    show ?thesis using step by simp
  qed (use step in simp)
qed simp

lemma map_vram_returns:
  assumes "pfa_inv a" and "dir_ok m (- free_frames a) pdir" and "allocChunk a 1 = Inr (t, a1)"
  shows "\<exists>m' a'. map_loop 512 m a 0xe0000000 pdir 0xe0000000 systempage = Inr (m', a')"
proof -
  have pre: "odd systempage" "page_aligned 0xe0000000" by (simp_all add: systempage_def page_aligned_def)
  have "\<exists>m1 a'. map_page m a 0xe0000000 pdir 0xe0000000 systempage = Inr (m1, a')"
    using assms(3) by (cases "isEntryExist (m (dir_slot pdir 0xe0000000))") (auto simp: map_page_def get_table_def Let_def)
  then obtain m1 a' where p: "map_page m a 0xe0000000 pdir 0xe0000000 systempage = Inr (m1, a')" by blast
  note e = map_page_spec [OF assms(1,2) pre p]
  then have "translate m1 pdir 0xe0000000 \<noteq> None" by (simp split: option.splits)
  then have ex: "isEntryExist (m1 (dir_slot pdir 0xe0000000))" by (auto simp: translate_def Let_def split: if_splits)
  have d: "dir_index (0xe0001000 + of_nat i * 0x1000) = dir_index 0xe0001000" if "i < 511" for i
  proof -
    have "unat (of_nat i * 0x1000 :: u32) = i * 4096" using that by (subst unat_mult_exact) simp_all
    then have "unat (0xe0001000 + of_nat i * 0x1000 :: u32) = 0xe0001000 + i * 4096"
      using that by (subst unat_add_exact) simp_all
    then show ?thesis using that by (simp add: word_unat_eq_iff dir_index_def unat_div)
  qed
  have "dir_slot pdir 0xe0001000 = dir_slot pdir 0xe0000000" by (simp add: dir_slot_def)
  then have "\<exists>m'. map_loop 511 m1 a' 0xe0001000 pdir 0xe0001000 systempage = Inr (m', a')"
    using e ex pre d page_aligned_next [OF pre(2)] by (intro map_loop_in_table [where U = "- free_frames a'"]) simp_all
  then show ?thesis using p map_loop.simps(2) [of 511 m a "0xe0000000" pdir "0xe0000000" systempage] by auto
qed

section \<open>The memory after copyKernelDir\<close>

lemma copyKernelDir_mem:
  assumes "page_aligned pdir" and "page_aligned (kPdir v)" and "frame_of (kPdir v) \<noteq> frame_of pdir"
    and "unat (mem_size v) < 0xe0000000"
  defines "n \<equiv> unat (mem_size v) div 0x400000"
  shows "frame_of x \<noteq> frame_of pdir \<Longrightarrow> vmem (copyKernelDir v pdir) x = vmem v x"
    and "i < 1024 \<Longrightarrow> vmem (copyKernelDir v pdir) (pdir + 4 * of_nat i) =
      (if i < n \<or> i = 0x380 then vmem v (kPdir v + 4 * of_nat i) else 0)"
proof -
  define F where "F = fold (\<lambda>i m :: mem. m(pdir + 4 * of_nat i := m (kPdir v + 4 * of_nat i)))"
  have n: "n \<le> 1024" and c: "0x381 \<le> (1024 :: nat)" using assms(4) unfolding n_def by simp_all
  have k: "frame_of (kPdir v + 4 * of_nat i) \<noteq> frame_of pdir" if "i < 1024" for i
    using slot_nat(1) [OF assms(2) that] assms(3) by simp
  have F: "frame_of x \<noteq> frame_of pdir \<Longrightarrow> F [a..<b] m x = m x"
    "i < 1024 \<Longrightarrow> F [a..<b] m (pdir + 4 * of_nat i) =
       (if a \<le> i \<and> i < b then m (kPdir v + 4 * of_nat i) else m (pdir + 4 * of_nat i))"
    if "b \<le> 1024" for a b m x i
    unfolding F_def using k by (intro fold_slots [OF assms(1) that]; simp)+
  have run: "vmem (copyKernelDir v pdir) = F [0x380..<0x381] (F [0..<n] (disableAllEntry (vmem v) pdir))"
    by (simp add: copyKernelDir_def Let_def F_def n_def dir_entrySize_def unat_div)
  show "vmem (copyKernelDir v pdir) x = vmem v x" if "frame_of x \<noteq> frame_of pdir"
    by (simp only: run F(1) [OF c that] F(1) [OF n that] disable_other [OF assms(1) that])
  show "vmem (copyKernelDir v pdir) (pdir + 4 * of_nat i) =
      (if i < n \<or> i = 0x380 then vmem v (kPdir v + 4 * of_nat i) else 0)" if "i < 1024"
    unfolding run F(2) [OF c that] F(2) [OF n that] F(1) [OF n k [OF that]]
      disable_slot [OF assms(1) that] disable_other [OF assms(1) k [OF that]]
    by auto
qed

lemma dir_range:
  "unat (dir_index va) < n \<longleftrightarrow> unat va < n * 0x400000"
  "unat (dir_index va) = 0x380 \<longleftrightarrow> 0xe0000000 \<le> unat va \<and> unat va < 0xe0400000"
  by (auto simp: dir_index_def unat_div div_less_iff_less_mult)

section \<open>Properties\<close>

text \<open>
  \<^verbatim>\<open>mapping_pmem(phys, virt, size)\<close> on page-aligned addresses: every address of the pages of the range
  that had no translation is translated to the address at the same distance from \<open>phys\<close>, every other
  address keeps the translation it had, and directory and allocator stay well formed.
\<close>

theorem mapping_pmem_correct:
  assumes "pfa_inv a" and "dir_ok m (- free_frames a) pdir" and "odd ty" and "page_aligned phys" and "page_aligned va"
    and "unat sz + 4095 < 2 ^ 32" and "unat va + (unat sz + 4095) div 4096 * 4096 \<le> 2 ^ 32"
    and "mapping_pmem m a phys va sz pdir ty = Inr (m', a')"
  shows "pfa_inv a' \<and> dir_ok m' (- free_frames a') pdir \<and> free_frames a' \<subseteq> free_frames a \<and>
    (\<forall>x. translate m' pdir x =
      (case translate m pdir x of Some p \<Rightarrow> Some p
       | None \<Rightarrow> if frame_of va \<le> frame_of x \<and> frame_of x < frame_of va + (unat sz + 4095) div 4096
           then Some (phys + (x - va)) else None))"
proof -
  have "unat (sz + 0x1000 - 1) = unat sz + 4095"
  proof -
    have "sz + 0x1000 - 1 = sz + 0xfff" by simp
    then show ?thesis using assms(6) by (simp only:) (subst unat_add_exact, simp_all)
  qed
  then have "unat (page_ceil sz) = (unat sz + 4095) div 4096 * 4096"
    by (simp only: page_ceil_def unat_page_down)
  then have "unat (page_ceil sz div 0x1000) = (unat sz + 4095) div 4096" by (simp add: unat_div)
  then show ?thesis using map_loop_spec [OF assms(1-5), of "(unat sz + 4095) div 4096"] assms(7,8)
    by (simp add: mapping_pmem_def Let_def)
qed

theorem mapping_pmem_correct_witness:
  "\<exists>m' a'. mapping_pmem (\<lambda>_. 0) demo_pfa 0x7000 0x40000000 0x800 0x1000 userpage = Inr (m', a') \<and> pfa_inv a' \<and>
     translate m' 0x1000 0x40000123 = Some 0x7123 \<and> translate m' 0x1000 0x40001123 = None"
proof -
  obtain r1 a1 r2 a2 r3 a3 r4 a4 where a: "allocChunk demo_pfa 1 = Inr (r1, a1)" by (rule demo_allocs) blast
  have al: "page_aligned r1" using pf.alloc_fresh [OF demo_inv a] by simp
  have ty: "odd userpage" and p: "page_aligned 0x7000" "page_aligned 0x40000000"
    by (simp_all add: userpage_def page_aligned_def)
  have n: "page_ceil 0x800 div 0x1000 = 1" by (simp add: page_ceil_def)
  obtain m' where run: "mapping_pmem (\<lambda>_. 0) demo_pfa 0x7000 0x40000000 0x800 0x1000 userpage = Inr (m', a1)"
    using a al by (simp add: mapping_pmem_def Let_def n map_page_def get_table_def)
  have none: "translate (\<lambda>_. 0) 0x1000 x = None" for x by (simp add: translate_def)
  from mapping_pmem_correct [OF demo_inv demo_dir ty p _ _ run] run none show ?thesis
    by (simp add: frame_of_def)
qed

text \<open>
  C19. What \<^verbatim>\<open>initPaging\<close> maps, with less than 3.5 GB of memory: an address below the mapped memory is
  translated to its offset in its 4 MB block, because every table is filled with the frames of the first
  4 MB (\<^verbatim>\<open>j*0x1000\<close>); only the first 4 MB are mapped to themselves. The frame buffer is mapped to itself.
\<close>

theorem initPaging_correct:
  assumes inv: "pfa_inv (vpfa v)" and size: "unat (mem_size v) < 0xe0000000" and run: "initPaging v = Inr v'"
  shows "pfa_inv (vpfa v') \<and>
    (\<forall>va. unat va < unat (mem_size v) div 0x400000 * 0x400000 \<longrightarrow>
       translate (vmem v') (kPdir v') va = Some (va mod 0x400000)) \<and>
    (\<forall>va. 0xe0000000 \<le> va \<and> va < 0xe0200000 \<longrightarrow> translate (vmem v') (kPdir v') va = Some va)"
proof -
  define n where "n = unat (mem_size v div dir_entrySize)"
  have n: "n = unat (mem_size v) div 0x400000" by (simp add: n_def dir_entrySize_def unat_div)
  have n896: "n < 896" using size unfolding n by simp
  obtain kpd a1 kpt a2 bf a3 m4 where
    r: "allocChunk (vpfa v) 1 = Inr (kpd, a1)" "allocChunk a1 1 = Inr (kpt, a2)"
      "allocChunk a2 (ucast (mem_size v div dir_entrySize)) = Inr (bf, a3)"
    and loop: "map_loop 512 (straight_mem (vmem v) kpd kpt bf n) a3 0xe0000000 kpd 0xe0000000 systempage = Inr (m4, vpfa v')"
    and v': "vmem v' = editEntry m4 (kpd + 4 * 0x3ff) (v2ptable v) systempage" "kPdir v' = kpd"
    using initPaging_steps [OF run] unfolding n_def by metis
  from straight_map [OF inv n896 [unfolded n_def] r, of "vmem v"]
  have inv3: "pfa_inv a3" and ok: "dir_ok (straight_mem (vmem v) kpd kpt bf n) (- free_frames a3) kpd"
    and old: "\<And>va. translate (straight_mem (vmem v) kpd kpt bf n) kpd va =
       (if unat (dir_index va) < n then Some (va mod 0x400000) else None)"
    unfolding n_def by simp_all
  have pre: "odd systempage" "page_aligned 0xe0000000" "unat (0xe0000000 :: u32) + 512 * 4096 \<le> 2 ^ 32"
    by (simp_all add: systempage_def page_aligned_def)
  note map = map_loop_spec [OF inv3 ok pre(1,2,2,3) loop]
  have tr: "translate (vmem v') (kPdir v') va = translate m4 kpd va" if "unat va < 0xff000000" for va
    unfolding v' using that last_slot [of m4 "- free_frames (vpfa v')" kpd va "v2ptable v" systempage] map
    by (simp add: dir_index_def unat_div)
  show ?thesis
  proof (intro conjI allI impI)
    show "pfa_inv (vpfa v')" using map by simp
  next
    fix va :: u32 assume "unat va < unat (mem_size v) div 0x400000 * 0x400000"
    then have lt: "unat (dir_index va) < n" "unat va < 0xff000000"
      using n896 unfolding n by (simp_all add: dir_index_def unat_div less_mult_imp_div_less)
    then show "translate (vmem v') (kPdir v') va = Some (va mod 0x400000)"
      using tr map old [of va] by simp
  next
    fix va :: u32 assume "0xe0000000 \<le> va \<and> va < 0xe0200000"
    then have va: "0xe0000000 \<le> unat va" "unat va < 0xe0200000" by (simp_all add: word_le_nat_alt word_less_nat_alt)
    then have "\<not> unat (dir_index va) < n" "frame_of 0xe0000000 \<le> frame_of va" "frame_of va < frame_of 0xe0000000 + 512"
      using n896 by (auto simp: dir_index_def frame_of_def unat_div)
    then show "translate (vmem v') (kPdir v') va = Some va" using tr map old [of va] va by simp
  qed
qed

theorem initPaging_correct_witness:
  "\<exists>v v'. mem_size v = 0x500000 \<and> initPaging v = Inr v' \<and>
     translate (vmem v') (kPdir v') 0x123456 = Some 0x123456 \<and> translate (vmem v') (kPdir v') 0xe0012345 = Some 0xe0012345"
proof -
  define v where "v = \<lparr>vmem = \<lambda>_. 0, vpfa = demo_pfa, kPdir = 0, kPtables = 0, v2ptable = 0, mem_size = 0x500000\<rparr>"
  have nr: "mem_size v div dir_entrySize = 1" by (simp add: v_def dir_entrySize_def)
  obtain kpd a1 kpt a2 bf a3 r4 a4 where a: "allocChunk demo_pfa 1 = Inr (kpd, a1)" "allocChunk a1 1 = Inr (kpt, a2)"
    "allocChunk a2 1 = Inr (bf, a3)" "allocChunk a3 1 = Inr (r4, a4)"
    by (rule demo_allocs) blast
  let ?m = "straight_mem (vmem v) kpd kpt bf 1"
  have "pfa_inv a3" "dir_ok ?m (- free_frames a3) kpd"
    using straight_map [OF demo_inv _ a(1,2), of 1 bf a3 "vmem v"] a(3) by simp_all
  from map_vram_returns [OF this a(4)] obtain m4 a4' where
    l: "map_loop 512 ?m a3 0xe0000000 kpd 0xe0000000 systempage = Inr (m4, a4')" by blast
  have c: "page_ceil 0x200000 div 0x1000 = 0x200" by (simp add: page_ceil_def)
  have "\<exists>v'. initPaging v = Inr v'"
    using a(1-3) l nr by (simp add: initPaging_def mapping_pmem_def c straight_mem_def) (simp add: v_def)
  then obtain v' where run: "initPaging v = Inr v'" by blast
  from initPaging_correct [OF _ _ run] run show ?thesis by (intro exI [of _ v] exI [of _ v']) (simp add: v_def demo_inv)
qed



end
