(* ===== verification/Port_IO.thy ===== *)
theory Port_IO
  imports Kernel_Prelude
begin

text \<open>
  Port input and output, the side of the machine that the disk drivers and the console see.

  The hardware behind the ports is not part of the program: it is the argument \<open>bus\<close>, a record of
  functions on a hardware state of any type. The state of a driver keeps the hardware state and the
  trace, the accesses made so far in order. \<open>inb\<close>, \<open>outb\<close>, \<open>inw\<close> and \<open>outw\<close> are the port instructions of
  \<^verbatim>\<open>src/kernel/asmfunc.cpp\<close> and of \<^verbatim>\<open>src/kernel/ide_hdd.c\<close>; a delay gives the hardware time.
\<close>

datatype access =
    In8 u16 u8
  | In16 u16 u16
  | In32 u16 u32
  | Out8 u16 u8
  | Out16 u16 u16

record 'd bus =
  b_inb :: "u16 \<Rightarrow> 'd \<Rightarrow> u8 \<times> 'd"
  b_inw :: "u16 \<Rightarrow> 'd \<Rightarrow> u16 \<times> 'd"
  b_inl :: "u16 \<Rightarrow> 'd \<Rightarrow> u32 \<times> 'd"
  b_outb :: "u16 \<Rightarrow> u8 \<Rightarrow> 'd \<Rightarrow> 'd"
  b_outw :: "u16 \<Rightarrow> u16 \<Rightarrow> 'd \<Rightarrow> 'd"
  b_delay :: "nat \<Rightarrow> 'd \<Rightarrow> 'd"

record 'd io =
  dev :: 'd
  trace :: "access list"

definition inb :: "('d, 'y) bus_scheme \<Rightarrow> u16 \<Rightarrow> ('d, 'z) io_scheme \<Rightarrow> u8 \<times> ('d, 'z) io_scheme" where
  "inb P port s = (let (v, d) = b_inb P port (dev s) in (v, s\<lparr>dev := d, trace := trace s @ [In8 port v]\<rparr>))"

definition inw :: "('d, 'y) bus_scheme \<Rightarrow> u16 \<Rightarrow> ('d, 'z) io_scheme \<Rightarrow> u16 \<times> ('d, 'z) io_scheme" where
  "inw P port s = (let (v, d) = b_inw P port (dev s) in (v, s\<lparr>dev := d, trace := trace s @ [In16 port v]\<rparr>))"

definition inl :: "('d, 'y) bus_scheme \<Rightarrow> u16 \<Rightarrow> ('d, 'z) io_scheme \<Rightarrow> u32 \<times> ('d, 'z) io_scheme" where
  "inl P port s = (let (v, d) = b_inl P port (dev s) in (v, s\<lparr>dev := d, trace := trace s @ [In32 port v]\<rparr>))"

definition outb :: "('d, 'y) bus_scheme \<Rightarrow> u16 \<Rightarrow> u8 \<Rightarrow> ('d, 'z) io_scheme \<Rightarrow> ('d, 'z) io_scheme" where
  "outb P port v s = s\<lparr>dev := b_outb P port v (dev s), trace := trace s @ [Out8 port v]\<rparr>"

definition outw :: "('d, 'y) bus_scheme \<Rightarrow> u16 \<Rightarrow> u16 \<Rightarrow> ('d, 'z) io_scheme \<Rightarrow> ('d, 'z) io_scheme" where
  "outw P port v s = s\<lparr>dev := b_outw P port v (dev s), trace := trace s @ [Out16 port v]\<rparr>"

definition delay :: "('d, 'y) bus_scheme \<Rightarrow> nat \<Rightarrow> ('d, 'z) io_scheme \<Rightarrow> ('d, 'z) io_scheme" where
  "delay P n s = s\<lparr>dev := b_delay P n (dev s)\<rparr>"

text \<open>The string instructions: \<open>n\<close> words read from, or a list of words written to, one port.\<close>

fun read_words :: "('d, 'y) bus_scheme \<Rightarrow> u16 \<Rightarrow> nat \<Rightarrow> ('d, 'z) io_scheme \<Rightarrow> u16 list \<times> ('d, 'z) io_scheme" where
  "read_words P port 0 s = ([], s)"
| "read_words P port (Suc n) s =
     (let (w, s) = inw P port s; (ws, s) = read_words P port n s in (w # ws, s))"

fun write_words :: "('d, 'y) bus_scheme \<Rightarrow> u16 \<Rightarrow> u16 list \<Rightarrow> ('d, 'z) io_scheme \<Rightarrow> ('d, 'z) io_scheme" where
  "write_words P port [] s = s"
| "write_words P port (w # ws) s = write_words P port ws (outw P port w s)"

section \<open>What the trace says\<close>

named_theorems io_trace "trace and driver fields after a port access"

lemma inb_trace [io_trace]: "inb P port s = (v, s') \<Longrightarrow>
    trace s' = trace s @ [In8 port v] \<and> io.more s' = io.more s"
  by (auto simp: inb_def split: prod.splits)

lemma inw_trace [io_trace]: "inw P port s = (w, s') \<Longrightarrow>
    trace s' = trace s @ [In16 port w] \<and> io.more s' = io.more s"
  by (auto simp: inw_def split: prod.splits)

lemma outb_trace [simp]: "trace (outb P port v s) = trace s @ [Out8 port v]" "io.more (outb P port v s) = io.more s"
  by (simp_all add: outb_def)

lemma outw_trace [simp]: "trace (outw P port w s) = trace s @ [Out16 port w]" "io.more (outw P port w s) = io.more s"
  by (simp_all add: outw_def)

lemma delay_trace [simp]: "trace (delay P n s) = trace s" "io.more (delay P n s) = io.more s"
  by (simp_all add: delay_def)

lemma read_words_trace: "read_words P port n s = (ws, s') \<Longrightarrow>
    length ws = n \<and> trace s' = trace s @ map (In16 port) ws \<and> io.more s' = io.more s"
proof (induction n arbitrary: s ws)
  case (Suc n)
  then show ?case by (fastforce split: prod.splits dest!: inw_trace)
qed simp

lemma write_words_trace [simp]:
  "trace (write_words P port ws s) = trace s @ map (Out16 port) ws"
  "io.more (write_words P port ws s) = io.more s"
  by (induction ws arbitrary: s) simp_all

end
