(* ===== verification/Ide_Hdd.thy ===== *)
theory Ide_Hdd
  imports Port_IO
begin

unbundle bit_operations_syntax

text \<open>
  The IDE disk driver \<^verbatim>\<open>src/kernel/ide_hdd.c\<close>: device selection, sector reads and writes by programmed
  input and output, identification of the drive, and registration.

  The ports are the interface of \<open>Port_IO\<close>; the PCI and block-driver services the file calls belong to
  headers outside the repository and are the further fields of the argument \<open>P\<close>. A \<^verbatim>\<open>sector_t\<close> is the 16-bit
  word that \<^verbatim>\<open>inw\<close> returns. Messages printed with \<^verbatim>\<open>printk\<close> have no effect on the state.
  The loop of \<^verbatim>\<open>do_identify_device\<close> that waits for data has no bound in the source; it takes fuel, and
  \<open>Inl Hang\<close> says that the fuel did not suffice.
\<close>

section \<open>Registers and state\<close>

definition DATA_REGISTER :: u16 where "DATA_REGISTER = 0x01f0"
definition ERROR_REGISTER :: u16 where "ERROR_REGISTER = 0x01f1"
definition FEATURES_REGISTER :: u16 where "FEATURES_REGISTER = 0x01f1"
definition SECTOR_COUNT_REGISTER :: u16 where "SECTOR_COUNT_REGISTER = 0x01f2"
definition SECTOR_NUMBER_REGISTER :: u16 where "SECTOR_NUMBER_REGISTER = 0x01f3"
definition CYLINDER_LOW_REGISTER :: u16 where "CYLINDER_LOW_REGISTER = 0x01f4"
definition CYLINDER_HIGH_REGISTER :: u16 where "CYLINDER_HIGH_REGISTER = 0x01f5"
definition DEVICE_HEAD_REGISTER :: u16 where "DEVICE_HEAD_REGISTER = 0x01f6"
definition STATUS_REGISTER :: u16 where "STATUS_REGISTER = 0x01f7"
definition COMMAND_REGISTER :: u16 where "COMMAND_REGISTER = 0x01f7"
definition ALTERNATE_STATUS_REGISTER :: u16 where "ALTERNATE_STATUS_REGISTER = 0x03f6"
definition DEVICE_CONTROL_REGISTER :: u16 where "DEVICE_CONTROL_REGISTER = 0x03f6"

definition PIO_SECTOR_WRITE_CMD :: u8 where "PIO_SECTOR_WRITE_CMD = 0x30"
definition PIO_SECTOR_READ_CMD :: u8 where "PIO_SECTOR_READ_CMD = 0x20"

text \<open>The services of the system the driver was written for; a PCI device is a number.\<close>

record 'd ide_bus = "'d bus" +
  b_get_pci_device :: "u32 \<Rightarrow> u32 \<Rightarrow> u32 \<Rightarrow> 'd \<Rightarrow> nat option"
  b_pci_data_read :: "nat \<Rightarrow> u32 \<Rightarrow> 'd \<Rightarrow> u32"
  b_pci_data_write :: "nat \<Rightarrow> u32 \<Rightarrow> u32 \<Rightarrow> 'd \<Rightarrow> 'd"
  b_register_blk_driver :: "'d \<Rightarrow> 'd"
  b_remove_blk_driver :: "'d \<Rightarrow> 'd"

record 'd ide = "'d io" +
  max_logical_sector_num :: u32
  this_device :: "nat option"
  base_address :: u32

definition ata_info :: "(u32 \<times> u32 \<times> u32) list" where
  "ata_info = [(0x8086, 0x7010, 1)]"

section \<open>Status bits and device selection\<close>

fun wait_BSY_DRQ_loop :: "('d, 'y) bus_scheme \<Rightarrow> nat \<Rightarrow> u16 \<Rightarrow> ('d, 'z) io_scheme \<Rightarrow> bool \<times> ('d, 'z) io_scheme" where
  "wait_BSY_DRQ_loop P 0 port s = (False, s)"
| "wait_BSY_DRQ_loop P (Suc n) port s =
     (let (data, s) = inb P port s;
          bsy = drop_bit 7 data AND 0x01;
          drq = drop_bit 3 data AND 0x01
      in if \<not> (bsy = 0 \<and> drq = 0) \<and> n > 0 then wait_BSY_DRQ_loop P n port s else (bsy = 0 \<and> drq = 0, s))"

definition wait_until_BSY_and_DRQ_are_zero :: "('d, 'y) bus_scheme \<Rightarrow> u16 \<Rightarrow> ('d, 'z) io_scheme \<Rightarrow> bool \<times> ('d, 'z) io_scheme" where
  "wait_until_BSY_and_DRQ_are_zero P port s = wait_BSY_DRQ_loop P 1000 port s"

fun wait_BSY_loop :: "('d, 'y) bus_scheme \<Rightarrow> nat \<Rightarrow> u16 \<Rightarrow> ('d, 'z) io_scheme \<Rightarrow> bool \<times> ('d, 'z) io_scheme" where
  "wait_BSY_loop P 0 port s = (False, s)"
| "wait_BSY_loop P (Suc n) port s =
     (let (data, s) = inb P port s;
          bsy = drop_bit 7 data AND 0x01
      in if bsy \<noteq> 0 \<and> n > 0 then wait_BSY_loop P n port s else (bsy = 0, s))"

definition wait_until_BSY_is_zero :: "('d, 'y) bus_scheme \<Rightarrow> u16 \<Rightarrow> ('d, 'z) io_scheme \<Rightarrow> bool \<times> ('d, 'z) io_scheme" where
  "wait_until_BSY_is_zero P port s = wait_BSY_loop P 1000 port s"

definition set_device_number :: "('d, 'y) bus_scheme \<Rightarrow> int \<Rightarrow> ('d, 'z) io_scheme \<Rightarrow> ('d, 'z) io_scheme" where
  "set_device_number P device s =
     (let (data, s) = inb P DEVICE_HEAD_REGISTER s;
          data = (if device = 0 then data AND 0xf else data OR 0x10);
          s = outb P DEVICE_HEAD_REGISTER data s
      in delay P 5 s)"

definition do_device_selection_protocol :: "('d, 'y) bus_scheme \<Rightarrow> int \<Rightarrow> ('d, 'z) io_scheme \<Rightarrow> bool \<times> ('d, 'z) io_scheme" where
  "do_device_selection_protocol P device s =
     (let (ret, s) = wait_until_BSY_and_DRQ_are_zero P ALTERNATE_STATUS_REGISTER s in
      if ret then
        (let s = set_device_number P device s; s = delay P 2 s
         in wait_until_BSY_and_DRQ_are_zero P ALTERNATE_STATUS_REGISTER s)
      else (ret, s))"

definition set_cylinder_register :: "('d, 'y) bus_scheme \<Rightarrow> u8 \<Rightarrow> u8 \<Rightarrow> ('d, 'z) io_scheme \<Rightarrow> ('d, 'z) io_scheme" where
  "set_cylinder_register P high low s = outb P CYLINDER_HIGH_REGISTER high (outb P CYLINDER_LOW_REGISTER low s)"

definition get_cylinder_regster :: "('d, 'y) bus_scheme \<Rightarrow> u16 \<Rightarrow> ('d, 'z) io_scheme \<Rightarrow> u8 \<times> ('d, 'z) io_scheme" where
  "get_cylinder_regster P port s = inb P port s"

definition set_sector_count_register :: "('d, 'y) bus_scheme \<Rightarrow> u8 \<Rightarrow> ('d, 'z) io_scheme \<Rightarrow> ('d, 'z) io_scheme" where
  "set_sector_count_register P data s = outb P SECTOR_COUNT_REGISTER data s"

definition get_DRDY :: "('d, 'y) bus_scheme \<Rightarrow> ('d, 'z) io_scheme \<Rightarrow> u8 \<times> ('d, 'z) io_scheme" where
  "get_DRDY P s = (let (data, s) = inb P STATUS_REGISTER s in (drop_bit 6 data AND 0x01, s))"

definition write_command :: "('d, 'y) bus_scheme \<Rightarrow> u8 \<Rightarrow> ('d, 'z) io_scheme \<Rightarrow> ('d, 'z) io_scheme" where
  "write_command P com s = outb P COMMAND_REGISTER com s"

definition is_error :: "u8 \<Rightarrow> bool" where
  "is_error data \<longleftrightarrow> \<not> data AND 0x01 = 0"

definition is_drq_active :: "u8 \<Rightarrow> bool" where
  "is_drq_active data \<longleftrightarrow> drop_bit 3 data AND 0x01 = 1"

definition print_error_register :: "('d, 'y) bus_scheme \<Rightarrow> int \<Rightarrow> ('d, 'z) io_scheme \<Rightarrow> ('d, 'z) io_scheme" where
  "print_error_register P device s =
     (let (b, s) = do_device_selection_protocol P device s in
      if b then snd (inb P ERROR_REGISTER s) else s)"

definition is_device_fault :: "('d, 'y) bus_scheme \<Rightarrow> ('d, 'z) io_scheme \<Rightarrow> bool \<times> ('d, 'z) io_scheme" where
  "is_device_fault P s = (let (data, s) = inb P STATUS_REGISTER s in (drop_bit 5 data AND 0x01 = 1, s))"

fun ready_loop :: "('d, 'y) bus_scheme \<Rightarrow> nat \<Rightarrow> int \<Rightarrow> ('d, 'z) io_scheme \<Rightarrow> bool \<times> ('d, 'z) io_scheme" where
  "ready_loop P 0 device s = (False, s)"
| "ready_loop P (Suc n) device s =
     (let (b, s) = do_device_selection_protocol P device s in
      if b then (b, s) else ready_loop P n device (delay P 5 s))"

definition wait_until_device_is_ready :: "('d, 'y) bus_scheme \<Rightarrow> int \<Rightarrow> ('d, 'z) io_scheme \<Rightarrow> bool \<times> ('d, 'z) io_scheme" where
  "wait_until_device_is_ready P device s = ready_loop P 5 device s"

section \<open>Reading and writing a sector\<close>

text \<open>The label \<^verbatim>\<open>read_status_register_again\<close>; \<open>loop\<close> counts the turns.\<close>

function poll_drq :: "('d, 'y) bus_scheme \<Rightarrow> int \<Rightarrow> nat \<Rightarrow> ('d, 'z) io_scheme \<Rightarrow> bool \<times> ('d, 'z) io_scheme" where
  "poll_drq P device loop s =
     (let (status, s) = inb P STATUS_REGISTER s in
      if is_error status then (False, print_error_register P device s)
      else if \<not> is_drq_active status then
        (if loop > 5 then (False, s) else poll_drq P device (loop + 1) s)
      else (True, s))"
  by pat_completeness auto

termination poll_drq
  by (relation "measure (\<lambda>(_, _, loop, _). 6 - loop)") auto

declare poll_drq.simps [simp del]

definition program_sector :: "('d, 'y) bus_scheme \<Rightarrow> u8 \<Rightarrow> u32 \<Rightarrow> ('d, 'z) io_scheme \<Rightarrow> ('d, 'z) io_scheme" where
  "program_sector P cmd sector s =
     (let s = outb P DEVICE_CONTROL_REGISTER 0x02 s;
          s = outb P FEATURES_REGISTER 0x00 s;
          s = outb P SECTOR_NUMBER_REGISTER (ucast (sector AND 0xff)) s;
          s = outb P CYLINDER_LOW_REGISTER (ucast (drop_bit 8 sector AND 0xff)) s;
          s = outb P CYLINDER_HIGH_REGISTER (ucast (drop_bit 16 sector AND 0xff)) s;
          s = outb P DEVICE_HEAD_REGISTER (ucast ((drop_bit 24 sector AND 0x1f) OR 0x40)) s;
          s = outb P SECTOR_COUNT_REGISTER 1 s
      in outb P COMMAND_REGISTER cmd s)"

definition sector_rw_common :: "('d, 'y) bus_scheme \<Rightarrow> u8 \<Rightarrow> int \<Rightarrow> u32 \<Rightarrow> ('d, 'z) ide_scheme \<Rightarrow> bool \<times> ('d, 'z) ide_scheme" where
  "sector_rw_common P cmd device sector s =
     (if sector > max_logical_sector_num s then (False, s)
      else
        (let (b, s) = wait_until_device_is_ready P device s in
         if \<not> b then (False, s)
         else
           (let s = program_sector P cmd sector s;
                s = delay P 4 s;
                (_, s) = inb P ALTERNATE_STATUS_REGISTER s
            in poll_drq P device 0 s)))"

definition finish_sector_rw :: "('d, 'y) bus_scheme \<Rightarrow> ('d, 'z) io_scheme \<Rightarrow> ('d, 'z) io_scheme" where
  "finish_sector_rw P s =
     (let (_, s) = inb P ALTERNATE_STATUS_REGISTER s; (_, s) = inb P STATUS_REGISTER s in s)"

text \<open>
  The buffer is the list of its words. \<^verbatim>\<open>write_sector\<close> sends the first \<open>buf_size\<close> of them; asking for more
  than the buffer has reads past its end. \<^verbatim>\<open>read_sector\<close> loops for ever on a size other than 256.
\<close>

definition write_sector :: "('d, 'y) bus_scheme \<Rightarrow> int \<Rightarrow> u32 \<Rightarrow> u16 list \<Rightarrow> nat \<Rightarrow> ('d, 'z) ide_scheme \<Rightarrow> (int \<times> ('d, 'z) ide_scheme) kres" where
  "write_sector P device sector buf buf_size s =
     (let (ret, s) = sector_rw_common P PIO_SECTOR_WRITE_CMD device sector s in
      if \<not> ret then Inr (-1, s)
      else
        (let s = finish_sector_rw P s in
         if buf_size > length buf then Inl Out_of_bounds
         else Inr (0, write_words P DATA_REGISTER (take buf_size buf) s)))"

definition read_sector :: "('d, 'y) bus_scheme \<Rightarrow> int \<Rightarrow> u32 \<Rightarrow> u16 list \<Rightarrow> nat \<Rightarrow> ('d, 'z) ide_scheme \<Rightarrow> (int \<times> u16 list \<times> ('d, 'z) ide_scheme) kres" where
  "read_sector P device sector buf buf_size s =
     (if buf_size \<noteq> 256 then Inl Hang
      else
        (let (ret, s) = sector_rw_common P PIO_SECTOR_READ_CMD device sector s in
         if \<not> ret then Inr (-1, buf, s)
         else if buf_size > length buf then Inl Out_of_bounds
         else
           (let (ws, s) = read_words P DATA_REGISTER buf_size s
            in Inr (0, ws @ drop buf_size buf, finish_sector_rw P s))))"

section \<open>Identification\<close>

text \<open>
  The label \<^verbatim>\<open>read_status_register\<close>: \<open>Some False\<close> stands for the return after an error, \<open>Some True\<close> for
  leaving the loop with data ready, and \<open>None\<close> for the loop still running when the fuel ends.
\<close>

fun identify_poll :: "('d, 'y) bus_scheme \<Rightarrow> nat \<Rightarrow> int \<Rightarrow> ('d, 'z) io_scheme \<Rightarrow> bool option \<times> ('d, 'z) io_scheme" where
  "identify_poll P 0 device s = (None, s)"
| "identify_poll P (Suc fuel) device s =
     (let (data, s) = inb P STATUS_REGISTER s in
      if is_error data then (Some False, print_error_register P device s)
      else if \<not> is_drq_active data then identify_poll P fuel device s
      else (Some True, s))"

definition do_identify_device :: "('d, 'y) bus_scheme \<Rightarrow> nat \<Rightarrow> int \<Rightarrow> u16 list \<Rightarrow> ('d, 'z) io_scheme \<Rightarrow> (bool \<times> u16 list \<times> ('d, 'z) io_scheme) kres" where
  "do_identify_device P fuel device buf s =
     (let (_, s) = do_device_selection_protocol P device s;
          (ret, s) = get_DRDY P s in
      if ret \<noteq> 0 then
        (let s = write_command P 0xec s;
             s = delay P 5 s;
             (w, s) = wait_until_BSY_is_zero P STATUS_REGISTER s in
         if \<not> w then Inr (False, buf, s)
         else
           (let (_, s) = inb P ALTERNATE_STATUS_REGISTER s;
                (r, s) = identify_poll P fuel device s in
            case r of
              None \<Rightarrow> Inl Hang
            | Some False \<Rightarrow> Inr (False, buf, s)
            | Some True \<Rightarrow>
                (let (fault, s) = is_device_fault P s in
                 if fault then Inr (False, buf, s)
                 else (let (ws, s) = read_words P DATA_REGISTER 256 s in Inr (True, ws, s)))))
      else Inr (True, buf, s))"

definition do_soft_reset :: "('d, 'y) bus_scheme \<Rightarrow> int \<Rightarrow> ('d, 'z) io_scheme \<Rightarrow> ('d, 'z) io_scheme" where
  "do_soft_reset P device s =
     (let s = set_device_number P device s; s = write_command P 0x08 s in delay P 5 s)"

datatype dev_type = DEV_TYPE_UNKNOWN | DEV_TYPE_ATA | DEV_TYPE_ATAPI

definition get_device_type :: "u8 \<Rightarrow> u8 \<Rightarrow> dev_type" where
  "get_device_type high low =
     (if high = 0x0 \<and> low = 0x0 then DEV_TYPE_ATA
      else if high = 0xeb \<and> low = 0x14 then DEV_TYPE_ATAPI
      else DEV_TYPE_UNKNOWN)"

definition initialize_common :: "('d, 'y) bus_scheme \<Rightarrow> nat \<Rightarrow> int \<Rightarrow> ('d, 'z) ide_scheme \<Rightarrow> (bool \<times> ('d, 'z) ide_scheme) kres" where
  "initialize_common P fuel device s =
     (let buf = replicate 256 0;
          s = do_soft_reset P device s;
          (low, s) = get_cylinder_regster P CYLINDER_LOW_REGISTER s;
          (high, s) = get_cylinder_regster P CYLINDER_HIGH_REGISTER s in
      case get_device_type high low of
        DEV_TYPE_ATA \<Rightarrow>
          rbind (do_identify_device P fuel device buf s) (\<lambda>(ret, buf, s).
            if \<not> ret then Inr (False, s)
            else Inr (True, s\<lparr>max_logical_sector_num := push_bit 16 (ucast (buf ! 61)) OR ucast (buf ! 60)\<rparr>))
      | DEV_TYPE_ATAPI \<Rightarrow> Inr (False, s)
      | DEV_TYPE_UNKNOWN \<Rightarrow> Inr (False, s))"

definition initialize_ata :: "('d, 'y) bus_scheme \<Rightarrow> nat \<Rightarrow> ('d, 'z) ide_scheme \<Rightarrow> (bool \<times> ('d, 'z) ide_scheme) kres" where
  "initialize_ata P fuel s =
     rbind (initialize_common P fuel 0 s) (\<lambda>(ret, s).
       if ret then rbind (initialize_common P fuel 1 s) (\<lambda>(ret, s). Inr (True, s))
       else Inr (ret, s))"

section \<open>The block driver\<close>

text \<open>The test routine is compiled out, \<^verbatim>\<open>sector_rw_test\<close> is empty.\<close>

definition open_ATA_disk :: "('d, 'y) bus_scheme \<Rightarrow> nat \<Rightarrow> ('d, 'z) ide_scheme \<Rightarrow> (int \<times> ('d, 'z) ide_scheme) kres" where
  "open_ATA_disk P fuel s =
     rbind (initialize_ata P fuel s) (\<lambda>(ret, s). Inr (if \<not> ret then -1 else 0, s))"

definition close_ATA_disk :: "('d, 'y) ide_bus_scheme \<Rightarrow> ('d, 'z) ide_scheme \<Rightarrow> int \<times> ('d, 'z) ide_scheme" where
  "close_ATA_disk P s = (0, s\<lparr>dev := b_remove_blk_driver P (dev s)\<rparr>)"

fun find_device :: "('d, 'y) ide_bus_scheme \<Rightarrow> (u32 \<times> u32 \<times> u32) list \<Rightarrow> ('d, 'z) ide_scheme \<Rightarrow> bool \<times> ('d, 'z) ide_scheme" where
  "find_device P [] s = (False, s)"
| "find_device P ((vender, devid, func) # infos) s =
     (let s = s\<lparr>this_device := b_get_pci_device P vender devid func (dev s)\<rparr> in
      if this_device s \<noteq> None then (True, s) else find_device P infos s)"

definition find_ata_device :: "('d, 'y) ide_bus_scheme \<Rightarrow> ('d, 'z) ide_scheme \<Rightarrow> bool \<times> ('d, 'z) ide_scheme" where
  "find_ata_device P s = find_device P ata_info s"

definition set_bus_master_bit :: "('d, 'y) ide_bus_scheme \<Rightarrow> ('d, 'z) ide_scheme \<Rightarrow> (('d, 'z) ide_scheme) kres" where
  "set_bus_master_bit P s =
     rbind (deref (this_device s)) (\<lambda>p.
       (let data = b_pci_data_read P p 0x4 (dev s) OR 0x04
        in Inr (s\<lparr>dev := b_pci_data_write P p 0x04 data (dev s)\<rparr>)))"

fun base_address_loop :: "('d, 'y) ide_bus_scheme \<Rightarrow> nat \<Rightarrow> u32 list \<Rightarrow> ('d, 'z) ide_scheme \<Rightarrow> ('d, 'z) ide_scheme" where
  "base_address_loop P p [] s = s"
| "base_address_loop P p (i # is) s =
     (let s = s\<lparr>base_address := b_pci_data_read P p i (dev s)\<rparr> in
      if base_address s \<noteq> 0 then s else base_address_loop P p is s)"

definition get_base_address :: "('d, 'y) ide_bus_scheme \<Rightarrow> ('d, 'z) ide_scheme \<Rightarrow> (('d, 'z) ide_scheme) kres" where
  "get_base_address P s =
     rbind (deref (this_device s)) (\<lambda>p. Inr (base_address_loop P p [0x10, 0x14, 0x18, 0x1c, 0x20, 0x24] s))"

definition init_ata_disk_driver :: "('d, 'y) ide_bus_scheme \<Rightarrow> ('d, 'z) ide_scheme \<Rightarrow> (bool \<times> ('d, 'z) ide_scheme) kres" where
  "init_ata_disk_driver P s =
     (let (found, s) = find_ata_device P s in
      if \<not> found then Inr (False, s)
      else
        rbind (set_bus_master_bit P s) (\<lambda>s.
        rbind (get_base_address P s) (\<lambda>s.
          Inr (True, s\<lparr>dev := b_register_blk_driver P (dev s)\<rparr>))))"

end
