(* ===== verification/Ide_Hdd_Correct.thy ===== *)
theory Ide_Hdd_Correct
  imports Ide_Hdd
begin

unbundle bit_operations_syntax

text \<open>
  What the IDE driver does on the bus, for every device: the accesses of each routine, the programming
  sequence of a sector command, what a sector read returns, and where the sector number goes.
\<close>

section \<open>Routines that only touch the bus\<close>

text \<open>
  \<open>appends Q s s' es\<close>: the accesses \<open>es\<close>, all of the kind \<open>Q\<close>, were made between \<open>s\<close> and \<open>s'\<close>, and the
  fields of the driver are as they were.
\<close>

definition appends :: "(access \<Rightarrow> bool) \<Rightarrow> ('d, 'z) io_scheme \<Rightarrow> ('d, 'z) io_scheme \<Rightarrow> access list \<Rightarrow> bool" where
  "appends Q s s' es \<longleftrightarrow> trace s' = trace s @ es \<and> list_all Q es \<and> io.more s' = io.more s"

lemma appends_refl [simp]: "appends Q s s []"
  by (simp add: appends_def)

lemma appends_trans: "appends Q s s1 es \<Longrightarrow> appends Q s1 s2 fs \<Longrightarrow> appends Q s s2 (es @ fs)"
  by (simp add: appends_def)

lemma appends_mono: "appends Q s s' es \<Longrightarrow> (\<And>e. Q e \<Longrightarrow> Q' e) \<Longrightarrow> appends Q' s s' es"
  by (auto simp: appends_def list_all_iff)

lemma appends_inb: "inb P port s = (v, s') \<Longrightarrow> Q (In8 port v) \<Longrightarrow> appends Q s s' [In8 port v]"
  by (auto simp: appends_def dest!: inb_trace)

lemma appends_outb: "Q (Out8 port v) \<Longrightarrow> appends Q s (outb P port v s) [Out8 port v]"
  by (simp add: appends_def)

lemma appends_delay [simp]:
  "appends Q s (delay P n s') es \<longleftrightarrow> appends Q s s' es"
  "appends Q (delay P n s) s' es \<longleftrightarrow> appends Q s s' es"
  by (simp_all add: appends_def)

text \<open>The accesses of device selection.\<close>

fun selecting :: "access \<Rightarrow> bool" where
  "selecting (In8 p v) \<longleftrightarrow> p = ALTERNATE_STATUS_REGISTER \<or> p = DEVICE_HEAD_REGISTER"
| "selecting (Out8 p v) \<longleftrightarrow> p = DEVICE_HEAD_REGISTER"
| "selecting _ \<longleftrightarrow> False"

lemma wait_loop_appends:
  "wait_BSY_DRQ_loop P n ALTERNATE_STATUS_REGISTER s = (b, s') \<Longrightarrow> \<exists>es. appends selecting s s' es"
proof (induction n arbitrary: s)
  case 0
  then show ?case by (metis appends_refl wait_BSY_DRQ_loop.simps(1) prod.inject)
next
  case (Suc n)
  obtain v s1 where i: "inb P ALTERNATE_STATUS_REGISTER s = (v, s1)" by fastforce
  have a: "appends selecting s s1 [In8 ALTERNATE_STATUS_REGISTER v]" by (rule appends_inb [OF i]) simp
  show ?case using Suc.prems i a Suc.IH [of s1] by (auto simp: Let_def split: if_splits intro: appends_trans)
qed

lemma set_device_number_appends: "\<exists>es. appends selecting s (set_device_number P device s) es"
proof -
  obtain v s1 where i: "inb P DEVICE_HEAD_REGISTER s = (v, s1)" by fastforce
  have a: "appends selecting s s1 [In8 DEVICE_HEAD_REGISTER v]" by (rule appends_inb [OF i]) simp
  have "appends selecting s1 (outb P DEVICE_HEAD_REGISTER w s1) [Out8 DEVICE_HEAD_REGISTER w]" for w
    by (rule appends_outb) simp
  from appends_trans [OF a this] show ?thesis using i by (auto simp: set_device_number_def Let_def)
qed

lemma selection_appends:
  "do_device_selection_protocol P device s = (b, s') \<Longrightarrow> \<exists>es. appends selecting s s' es"
proof -
  assume run: "do_device_selection_protocol P device s = (b, s')"
  obtain b1 s1 where w: "wait_until_BSY_and_DRQ_are_zero P ALTERNATE_STATUS_REGISTER s = (b1, s1)" by fastforce
  then obtain es where es: "appends selecting s s1 es"
    using wait_loop_appends [of P 1000 s b1 s1] by (auto simp: wait_until_BSY_and_DRQ_are_zero_def)
  show ?thesis
  proof (cases b1)
    case True
    let ?s2 = "set_device_number P device s1"
    obtain fs where fs: "appends selecting s1 ?s2 fs" using set_device_number_appends by blast
    have "wait_BSY_DRQ_loop P 1000 ALTERNATE_STATUS_REGISTER (delay P 2 ?s2) = (b, s')"
      using run w True by (simp add: do_device_selection_protocol_def wait_until_BSY_and_DRQ_are_zero_def)
    from wait_loop_appends [OF this] obtain gs where "appends selecting ?s2 s' gs" by auto
    then show ?thesis using es fs by (blast intro: appends_trans)
  next
    case False
    then show ?thesis using run w es by (auto simp: do_device_selection_protocol_def)
  qed
qed

lemma ready_loop_appends: "ready_loop P n device s = (b, s') \<Longrightarrow> \<exists>es. appends selecting s s' es"
proof (induction n arbitrary: s)
  case 0
  then show ?case by (metis appends_refl ready_loop.simps(1) prod.inject)
next
  case (Suc n)
  obtain b1 s1 where d: "do_device_selection_protocol P device s = (b1, s1)" by fastforce
  then obtain es where es: "appends selecting s s1 es" using selection_appends by blast
  show ?case
  proof (cases b1)
    case False
    with Suc.prems d have "ready_loop P n device (delay P 5 s1) = (b, s')" by simp
    from Suc.IH [OF this] es show ?thesis by (auto intro: appends_trans)
  qed (use Suc.prems d es in auto)
qed

section \<open>The programming sequence\<close>

definition sector_accesses :: "u8 \<Rightarrow> u32 \<Rightarrow> access list" where
  "sector_accesses cmd sector =
     [Out8 DEVICE_CONTROL_REGISTER 0x02,
      Out8 FEATURES_REGISTER 0x00,
      Out8 SECTOR_NUMBER_REGISTER (ucast (sector AND 0xff)),
      Out8 CYLINDER_LOW_REGISTER (ucast (drop_bit 8 sector AND 0xff)),
      Out8 CYLINDER_HIGH_REGISTER (ucast (drop_bit 16 sector AND 0xff)),
      Out8 DEVICE_HEAD_REGISTER (ucast ((drop_bit 24 sector AND 0x1f) OR 0x40)),
      Out8 SECTOR_COUNT_REGISTER 1,
      Out8 COMMAND_REGISTER cmd]"

lemma program_sector_trace [simp]:
  "trace (program_sector P cmd sector s) = trace s @ sector_accesses cmd sector"
  "io.more (program_sector P cmd sector s) = io.more s"
  by (simp_all add: program_sector_def sector_accesses_def Let_def)

text \<open>The statuses read while waiting for data: at most seven, the last one with data ready.\<close>

definition data_ready :: "u8 list \<Rightarrow> bool" where
  "data_ready vs \<longleftrightarrow> vs \<noteq> [] \<and> length vs \<le> 7 \<and> is_drq_active (last vs) \<and> \<not> is_error (last vs) \<and>
     (\<forall>v \<in> set (butlast vs). \<not> is_drq_active v \<and> \<not> is_error v)"

lemma poll_drq_trace:
  assumes "poll_drq P device k s = (True, s')" and "k \<le> 6"
  shows "\<exists>vs. trace s' = trace s @ map (In8 STATUS_REGISTER) vs \<and> io.more s' = io.more s \<and>
    vs \<noteq> [] \<and> length vs + k \<le> 7 \<and> is_drq_active (last vs) \<and> \<not> is_error (last vs) \<and>
    (\<forall>v \<in> set (butlast vs). \<not> is_drq_active v \<and> \<not> is_error v)"
  using assms
proof (induction P device k s rule: poll_drq.induct)
  case (1 P device k s)
  obtain v s1 where i: "inb P STATUS_REGISTER s = (v, s1)" by fastforce
  note t = inb_trace [OF i]
  have ne: "\<not> is_error v" using 1(2) i by (simp add: poll_drq.simps [of P device k] split: if_splits)
  show ?case
  proof (cases "is_drq_active v")
    case True
    with 1 i ne have "s' = s1" by (simp add: poll_drq.simps [of P device k])
    with t True ne 1(3) show ?thesis by (intro exI [of _ "[v]"]) simp
  next
    case False
    with 1(2) i ne have k: "k \<le> 5" and r: "poll_drq P device (k + 1) s1 = (True, s')"
      by (simp_all add: poll_drq.simps [of P device k] split: if_splits)
    from 1(1) [OF i [symmetric] refl ne False _ r] k obtain vs where
      vs: "trace s' = trace s1 @ map (In8 STATUS_REGISTER) vs" "io.more s' = io.more s1" "vs \<noteq> []"
        "length vs + (k + 1) \<le> 7" "is_drq_active (last vs)" "\<not> is_error (last vs)"
        "\<forall>v \<in> set (butlast vs). \<not> is_drq_active v \<and> \<not> is_error v"
      by auto
    then show ?thesis using t ne False by (intro exI [of _ "v # vs"]) auto
  qed
qed

lemma sector_rw_common_trace:
  assumes run: "sector_rw_common P cmd device sector s = (True, s')"
  shows "sector \<le> max_logical_sector_num s \<and> io.more s' = io.more s \<and>
    (\<exists>sel a vs. list_all selecting sel \<and> data_ready vs \<and>
       trace s' = trace s @ sel @ sector_accesses cmd sector @ In8 ALTERNATE_STATUS_REGISTER a # map (In8 STATUS_REGISTER) vs)"
proof -
  have le: "sector \<le> max_logical_sector_num s" using run by (auto simp: sector_rw_common_def not_less split: if_splits)
  obtain b s1 where r: "ready_loop P 5 device s = (b, s1)" by fastforce
  with run le have b: "b" by (auto simp: sector_rw_common_def wait_until_device_is_ready_def split: if_splits)
  let ?s2 = "delay P 4 (program_sector P cmd sector s1)"
  obtain a s3 where i: "inb P ALTERNATE_STATUS_REGISTER ?s2 = (a, s3)" by fastforce
  have p: "poll_drq P device 0 s3 = (True, s')"
    using run le r b i by (simp add: sector_rw_common_def wait_until_device_is_ready_def leD)
  obtain sel where sel: "appends selecting s s1 sel" using ready_loop_appends [OF r] by blast
  from poll_drq_trace [OF p] obtain vs where
    vs: "trace s' = trace s3 @ map (In8 STATUS_REGISTER) vs" "io.more s' = io.more s3" "data_ready vs"
    by (auto simp: data_ready_def)
  then show ?thesis using inb_trace [OF i] sel le
    by (intro conjI exI [of _ sel] exI [of _ a] exI [of _ vs]) (simp_all add: appends_def)
qed

text \<open>A failed command moves no data.\<close>

fun moves_data :: "access \<Rightarrow> bool" where
  "moves_data (In16 _ _) \<longleftrightarrow> True"
| "moves_data (Out16 _ _) \<longleftrightarrow> True"
| "moves_data _ \<longleftrightarrow> False"

lemma selecting_no_data: "selecting e \<Longrightarrow> \<not> moves_data e"
  by (cases e) auto

lemma poll_drq_no_data: "poll_drq P device k s = (b, s') \<Longrightarrow> \<exists>es. appends (\<lambda>e. \<not> moves_data e) s s' es"
proof (induction P device k s rule: poll_drq.induct)
  case (1 P device k s)
  obtain v s1 where i: "inb P STATUS_REGISTER s = (v, s1)" by fastforce
  have a: "appends (\<lambda>e. \<not> moves_data e) s s1 [In8 STATUS_REGISTER v]" by (rule appends_inb [OF i]) simp
  show ?case
  proof (cases "is_error v")
    case True
    obtain c s2 where d: "do_device_selection_protocol P device s1 = (c, s2)" by fastforce
    obtain es where es: "appends selecting s1 s2 es" using selection_appends [OF d] by blast
    obtain w s3 where e: "inb P ERROR_REGISTER s2 = (w, s3)" by fastforce
    have "appends (\<lambda>e. \<not> moves_data e) s2 s3 [In8 ERROR_REGISTER w]" by (rule appends_inb [OF e]) simp
    moreover have "s' = (if c then s3 else s2)"
      using 1(2) i True d e by (auto simp: poll_drq.simps [of P device k] print_error_register_def)
    moreover have "appends (\<lambda>e. \<not> moves_data e) s1 s2 es" by (rule appends_mono [OF es selecting_no_data])
    ultimately show ?thesis using a by (auto intro: appends_trans)
  next
    case ne: False
    show ?thesis
    proof (cases "is_drq_active v \<or> k > 5")
      case True
      with 1(2) i ne a show ?thesis by (auto simp: poll_drq.simps [of P device k] split: if_splits)
    next
      case False
      with 1(2) i ne have r: "poll_drq P device (k + 1) s1 = (b, s')" by (simp add: poll_drq.simps [of P device k])
      from 1(1) [OF i [symmetric] refl ne _ _ r] False a show ?thesis by (auto intro: appends_trans)
    qed
  qed
qed

lemma sector_rw_common_no_data:
  assumes run: "sector_rw_common P cmd device sector s = (b, s')"
  shows "\<exists>es. appends (\<lambda>e. \<not> moves_data e) s s' es"
proof (cases "max_logical_sector_num s < sector")
  case True
  with run show ?thesis by (auto simp: sector_rw_common_def intro: appends_refl)
next
  case False
  obtain c s1 where r: "ready_loop P 5 device s = (c, s1)" by fastforce
  obtain es where "appends selecting s s1 es" using ready_loop_appends [OF r] by blast
  then have es: "appends (\<lambda>e. \<not> moves_data e) s s1 es" by (rule appends_mono [OF _ selecting_no_data])
  show ?thesis
  proof (cases c)
    case True
    let ?s2 = "program_sector P cmd sector s1"
    obtain a s3 where i: "inb P ALTERNATE_STATUS_REGISTER (delay P 4 ?s2) = (a, s3)" by fastforce
    have p: "poll_drq P device 0 s3 = (b, s')"
      using run False r True i by (simp add: sector_rw_common_def wait_until_device_is_ready_def)
    from poll_drq_no_data [OF p] obtain fs where fs: "appends (\<lambda>e. \<not> moves_data e) s3 s' fs" by blast
    have "appends (\<lambda>e. \<not> moves_data e) s1 ?s2 (sector_accesses cmd sector)"
      by (simp add: appends_def sector_accesses_def)
    moreover have "appends (\<lambda>e. \<not> moves_data e) ?s2 s3 [In8 ALTERNATE_STATUS_REGISTER a]"
      using appends_inb [OF i, of "\<lambda>e. \<not> moves_data e"] by simp
    ultimately show ?thesis using es fs by (blast intro: appends_trans)
  next
    case c: False
    with run False r es show ?thesis by (auto simp: sector_rw_common_def wait_until_device_is_ready_def)
  qed
qed

lemma finish_sector_rw_trace: "\<exists>a v. trace (finish_sector_rw P s) =
    trace s @ [In8 ALTERNATE_STATUS_REGISTER a, In8 STATUS_REGISTER v] \<and> io.more (finish_sector_rw P s) = io.more s"
  by (auto simp: finish_sector_rw_def Let_def split: prod.splits dest!: inb_trace)

section \<open>A drive that is always ready\<close>

text \<open>Its status says ready, and data ready once a command was given; every data word is the same.\<close>

definition ready_drive :: "bool bus" where
  "ready_drive =
     \<lparr>b_inb = (\<lambda>port c. (if port = STATUS_REGISTER then (if c then 0x48 else 0x40) else 0, c)),
      b_inw = (\<lambda>port c. (0xabcd, c)), b_inl = (\<lambda>port c. (0, c)),
      b_outb = (\<lambda>port v c. c \<or> port = COMMAND_REGISTER), b_outw = (\<lambda>port v c. c), b_delay = (\<lambda>n c. c)\<rparr>"

definition ready_ide :: "bool ide" where
  "ready_ide = \<lparr>dev = False, trace = [], max_logical_sector_num = 0x10000, this_device = None, base_address = 0\<rparr>"

lemma wait_at_once:
  "inb P port s = (v, s1) \<Longrightarrow> drop_bit 7 v AND 1 = 0 \<Longrightarrow> drop_bit 3 v AND 1 = 0 \<Longrightarrow> 0 < n \<Longrightarrow>
    wait_BSY_DRQ_loop P n port s = (True, s1)"
  by (cases n) simp_all

lemma ready_selects:
  fixes s :: "(bool, 'z) io_scheme"
  shows "fst (do_device_selection_protocol ready_drive device s)"
proof -
  have "inb ready_drive ALTERNATE_STATUS_REGISTER s = (0, s\<lparr>trace := trace s @ [In8 ALTERNATE_STATUS_REGISTER 0]\<rparr>)" for s :: "(bool, 'z) io_scheme"
    by (simp add: inb_def ready_drive_def ALTERNATE_STATUS_REGISTER_def STATUS_REGISTER_def)
  from wait_at_once [OF this] show ?thesis
    by (simp add: do_device_selection_protocol_def wait_until_BSY_and_DRQ_are_zero_def Let_def)
qed

lemma ready_polls: "dev s \<Longrightarrow> fst (poll_drq ready_drive device 0 s)"
  by (simp add: poll_drq.simps [of _ _ 0] inb_def ready_drive_def is_error_def is_drq_active_def)

lemma ready_runs:
  obtains s' where "sector_rw_common ready_drive cmd 0 0x1b8 ready_ide = (True, s')"
proof -
  obtain s1 where d: "do_device_selection_protocol ready_drive 0 ready_ide = (True, s1)"
    using ready_selects [of 0 ready_ide] by (metis prod.collapse)
  have "wait_until_device_is_ready ready_drive 0 ready_ide = (True, s1)"
    by (simp add: wait_until_device_is_ready_def numeral_eq_Suc d)
  moreover have "dev (snd (inb ready_drive ALTERNATE_STATUS_REGISTER (delay ready_drive 4 (program_sector ready_drive cmd 0x1b8 s1))))"
    by (simp add: inb_def delay_def program_sector_def outb_def ready_drive_def Let_def)
  ultimately have "fst (sector_rw_common ready_drive cmd 0 0x1b8 ready_ide)"
    using ready_polls by (auto simp: sector_rw_common_def ready_ide_def Let_def split: prod.splits)
  then show ?thesis using that by (metis prod.collapse)
qed

section \<open>The registers after a sequence of accesses\<close>

fun last_out :: "u16 \<Rightarrow> access list \<Rightarrow> u8" where
  "last_out p [] = 0"
| "last_out p (e # es) = (case e of
     Out8 q v \<Rightarrow> if q = p \<and> \<not> (\<exists>w. Out8 p w \<in> set es) then v else last_out p es
   | _ \<Rightarrow> last_out p es)"

lemmas registers = DATA_REGISTER_def ERROR_REGISTER_def FEATURES_REGISTER_def SECTOR_COUNT_REGISTER_def
  SECTOR_NUMBER_REGISTER_def CYLINDER_LOW_REGISTER_def CYLINDER_HIGH_REGISTER_def DEVICE_HEAD_REGISTER_def
  STATUS_REGISTER_def COMMAND_REGISTER_def ALTERNATE_STATUS_REGISTER_def DEVICE_CONTROL_REGISTER_def

text \<open>The 28-bit block address that the drive takes from its registers, and the number of the drive.\<close>

definition lba28 :: "access list \<Rightarrow> u32" where
  "lba28 es =
     ucast (last_out SECTOR_NUMBER_REGISTER es) OR push_bit 8 (ucast (last_out CYLINDER_LOW_REGISTER es)) OR
     push_bit 16 (ucast (last_out CYLINDER_HIGH_REGISTER es)) OR
     push_bit 24 (ucast (last_out DEVICE_HEAD_REGISTER es) AND 0xf)"

definition drive_bit :: "access list \<Rightarrow> bool" where
  "drive_bit es \<longleftrightarrow> bit (last_out DEVICE_HEAD_REGISTER es) 4"

lemma sector_registers:
  "last_out SECTOR_NUMBER_REGISTER (sector_accesses cmd sector) = ucast (sector AND 0xff)"
  "last_out CYLINDER_LOW_REGISTER (sector_accesses cmd sector) = ucast (drop_bit 8 sector AND 0xff)"
  "last_out CYLINDER_HIGH_REGISTER (sector_accesses cmd sector) = ucast (drop_bit 16 sector AND 0xff)"
  "last_out DEVICE_HEAD_REGISTER (sector_accesses cmd sector) = ucast ((drop_bit 24 sector AND 0x1f) OR 0x40)"
  by (simp_all add: sector_accesses_def registers)

lemma word_masks: "(0xff :: u32) = mask 8" "(0x1f :: u32) = mask 5" "(0xf :: u32) = mask 4" "(0x40 :: u32) = push_bit 6 1"
  by (simp_all add: mask_eq_exp_minus_1 push_bit_eq_mult)

lemma high_bits_clear: "unat (x :: u32) < 2 ^ n \<Longrightarrow> n \<le> i \<Longrightarrow> \<not> bit x i"
proof -
  assume "unat x < 2 ^ n" "n \<le> i"
  then have "unat x < 2 ^ i" by (meson less_le_trans one_le_numeral power_increasing)
  then have "\<not> bit (unat x) i" by (simp add: bit_iff_odd)
  then show "\<not> bit x i" by (simp add: bit_unsigned_iff bit_imp_le_length)
qed

lemma low_bits_64: "k < 4 \<Longrightarrow> \<not> bit (64 :: u32) k"
  using bit_push_bit_iff [of 6 "1 :: u32" k] by simp

section \<open>Properties\<close>



text \<open>
  \<^verbatim>\<open>read_sector\<close> into a buffer of at least 256 words: it returns 0 with the 256 words that were read
  from the data register after the command, in order and nothing else, or it returns -1 with the buffer
  as it was and no word moved.
\<close>

theorem read_sector_correct:
  assumes "256 \<le> length buf"
  shows "\<exists>ret buf' s'. read_sector P device sector buf 256 s = Inr (ret, buf', s') \<and> io.more s' = io.more s \<and>
    (ret = 0 \<and> length (take 256 buf') = 256 \<and> drop 256 buf' = drop 256 buf \<and>
       (\<exists>pre a b. trace s' = trace s @ pre @ map (In16 DATA_REGISTER) (take 256 buf') @
          [In8 ALTERNATE_STATUS_REGISTER a, In8 STATUS_REGISTER b] \<and> list_all (\<lambda>e. \<not> moves_data e) pre) \<or>
     ret = -1 \<and> buf' = buf \<and> (\<exists>es. trace s' = trace s @ es \<and> list_all (\<lambda>e. \<not> moves_data e) es))"
proof -
  obtain ok s1 where r: "sector_rw_common P PIO_SECTOR_READ_CMD device sector s = (ok, s1)" by fastforce
  obtain pre where pre: "appends (\<lambda>e. \<not> moves_data e) s s1 pre" using sector_rw_common_no_data [OF r] by blast
  show ?thesis
  proof (cases ok)
    case True
    obtain ws s2 where w: "read_words P DATA_REGISTER 256 s1 = (ws, s2)" by fastforce
    note t = read_words_trace [OF w]
    obtain a b where f: "trace (finish_sector_rw P s2) = trace s2 @ [In8 ALTERNATE_STATUS_REGISTER a, In8 STATUS_REGISTER b]"
      "io.more (finish_sector_rw P s2) = io.more s2" using finish_sector_rw_trace by blast
    have "read_sector P device sector buf 256 s = Inr (0, ws @ drop 256 buf, finish_sector_rw P s2)"
      using assms r True w by (simp add: read_sector_def del: read_words.simps)
    then show ?thesis using t f pre by (auto simp: appends_def)
  next
    case False
    then have "read_sector P device sector buf 256 s = Inr (-1, buf, s1)" using r by (simp add: read_sector_def)
    then show ?thesis using pre by (auto simp: appends_def)
  qed
qed

theorem read_sector_correct_witness:
  "\<exists>ret buf' s'. read_sector ready_drive 0 0x1b8 (replicate 256 0) 256 ready_ide = Inr (ret, buf', s') \<and>
     ret = 0 \<and> length buf' = 256"
proof -
  obtain s1 where "sector_rw_common ready_drive PIO_SECTOR_READ_CMD 0 0x1b8 ready_ide = (True, s1)" by (rule ready_runs)
  then have "\<nexists>buf' s'. read_sector ready_drive 0 0x1b8 (replicate 256 0) 256 ready_ide = Inr (-1, buf', s')"
    by (simp add: read_sector_def split: prod.splits del: read_words.simps)
  moreover have "256 \<le> length (replicate 256 (0 :: u16))" by simp
  note read_sector_correct [OF this, of ready_drive 0 "0x1b8" ready_ide]
  ultimately show ?thesis
    by (metis append_Nil2 append_take_drop_id drop_all length_replicate order_refl)
qed

text \<open>
  The sector number goes to the drive unchanged for 28-bit numbers, but always to the master: the
  write of the high bits into the device register clears the bit that selects the drive, whichever device
  the caller asked for and \<^verbatim>\<open>do_device_selection_protocol\<close> had selected.
\<close>

theorem sector_address:
  assumes "sector_rw_common P cmd device sector s = (True, s')" and "unat sector < 2 ^ 28"
  shows "\<exists>sel rest. trace s' = trace s @ sel @ sector_accesses cmd sector @ rest \<and>
    lba28 (sector_accesses cmd sector) = sector \<and> \<not> drive_bit (sector_accesses cmd sector)"
proof -
  have hb: "\<not> bit sector i" if "28 \<le> i" for i using high_bits_clear [OF assms(2) that] .
  have "lba28 (sector_accesses cmd sector) = sector"
    unfolding lba28_def sector_registers word_masks
  proof (rule bit_word_eqI)
    fix i assume "i < LENGTH(32)"
    then consider "i < 8" | "8 \<le> i" "i < 16" | "16 \<le> i" "i < 24" | "24 \<le> i" "i < 28" | "28 \<le> i" by fastforce
    then show "bit (ucast (ucast (sector AND mask 8) :: u8) OR push_bit 8 (ucast (ucast (drop_bit 8 sector AND mask 8) :: u8)) OR
        push_bit 16 (ucast (ucast (drop_bit 16 sector AND mask 8) :: u8)) OR
        push_bit 24 (ucast (ucast (drop_bit 24 sector AND mask 5 OR push_bit 6 1) :: u8) AND mask 4) :: u32) i \<longleftrightarrow> bit sector i"
      by cases (use hb low_bits_64 in \<open>auto simp: bit_simps\<close>)
  qed
  moreover have "\<not> drive_bit (sector_accesses cmd sector)"
    unfolding drive_bit_def sector_registers word_masks using hb [of 28] by (simp add: bit_simps bit_1_iff)
  ultimately show ?thesis using sector_rw_common_trace [OF assms(1)] by blast
qed

theorem sector_address_witness:
  "\<exists>s' sel rest. sector_rw_common ready_drive PIO_SECTOR_WRITE_CMD 0 0x1b8 ready_ide = (True, s') \<and>
     trace s' = sel @ sector_accesses PIO_SECTOR_WRITE_CMD 0x1b8 @ rest \<and>
     lba28 (sector_accesses PIO_SECTOR_WRITE_CMD 0x1b8) = 0x1b8"
proof -
  obtain s' where run: "sector_rw_common ready_drive PIO_SECTOR_WRITE_CMD 0 0x1b8 ready_ide = (True, s')"
    by (rule ready_runs)
  moreover have "trace ready_ide = []" by (simp add: ready_ide_def)
  ultimately show ?thesis using sector_address [OF run] by auto
qed

end
