(* ===== verification/Kmalloc.thy ===== *)
theory Kmalloc
  imports PFAllocator
begin

unbundle bit_operations_syntax

text \<open>
  The kernel heap, \<^verbatim>\<open>src/kernel/kmalloc.cpp\<close> and \<^verbatim>\<open>src/include/os/kmalloc.h\<close>.

  A \<^verbatim>\<open>kmalloc_header_ptr\<close> is a 32-bit word: the address of a header, with the lowest bit saying that the
  block it points to is in use. A header is two words in memory, \<^verbatim>\<open>next\<close> and, four bytes on, \<^verbatim>\<open>size\<close>. The
  state has the memory, the two globals and whether interrupts are enabled. Comparisons of header pointers
  in the source convert both sides to \<^verbatim>\<open>u32_t\<close>, which clears the flag.

  The loops follow the links; the fuel is the number of links they may follow, and \<open>Inl Hang\<close> says that
  it did not suffice. The number of headers in the ring is always enough.
\<close>

section \<open>Header pointers\<close>

definition KMALLOC_USED :: u32 where "KMALLOC_USED = 1"
definition KMALLOC_ALIGN :: u32 where "KMALLOC_ALIGN = 4"
definition header_size :: u32 where "header_size = 8"

definition reset_ptr :: "u32 \<Rightarrow> u32" where
  "reset_ptr p = p AND NOT KMALLOC_USED"

definition set_used :: "u32 \<Rightarrow> bool \<Rightarrow> u32" where
  "set_used p used = (if used then p OR KMALLOC_USED else p AND NOT KMALLOC_USED)"

definition is_used :: "u32 \<Rightarrow> bool" where
  "is_used p \<longleftrightarrow> p AND KMALLOC_USED \<noteq> 0"

definition hnext :: "mem \<Rightarrow> u32 \<Rightarrow> u32" where
  "hnext m p = m (reset_ptr p)"

definition hsize :: "mem \<Rightarrow> u32 \<Rightarrow> u32" where
  "hsize m p = m (reset_ptr p + 4)"

definition set_next :: "u32 \<Rightarrow> u32 \<Rightarrow> mem \<Rightarrow> mem" where
  "set_next p v m = m(reset_ptr p := v)"

definition set_size :: "u32 \<Rightarrow> u32 \<Rightarrow> mem \<Rightarrow> mem" where
  "set_size p v m = m(reset_ptr p + 4 := v)"

record kheap =
  kmem :: mem
  kbase :: u32
  next_free :: u32
  interrupts :: bool

section \<open>Operations\<close>

definition init_kmalloc :: "PFAllocator \<Rightarrow> kheap \<Rightarrow> (PFAllocator \<times> kheap) kres" where
  "init_kmalloc a h =
     rbind (allocChunk a 0x20) (\<lambda>(aligned, a1).
       (let m1 = set_next aligned aligned (kmem h);
            m2 = set_size aligned (0x1000 * 0x20) m1
        in Inr (a1, h\<lparr>kmem := m2, kbase := aligned, next_free := aligned\<rparr>)))"

definition request_size :: "u32 \<Rightarrow> u32" where
  "request_size sz = (sz + header_size + KMALLOC_ALIGN - 1) AND (- KMALLOC_ALIGN)"

text \<open>The inner loop: on to the next header that is not in use.\<close>

fun skip_used :: "nat \<Rightarrow> mem \<Rightarrow> u32 \<Rightarrow> u32 option" where
  "skip_used 0 m p = None"
| "skip_used (Suc fuel) m p = (let p = hnext m p in if is_used p then skip_used fuel m p else Some p)"

text \<open>Cutting the request off the end of the block at \<open>p\<close>, the writes in the order of the source.\<close>

definition carve :: "kheap \<Rightarrow> u32 \<Rightarrow> u32 \<Rightarrow> u32 \<times> kheap" where
  "carve h p rsize =
     (let nf = p;
          q = reset_ptr p + hsize (kmem h) nf - rsize;
          q = set_used q True;
          m = set_next q (hnext (kmem h) nf) (kmem h);
          m = set_size q rsize m;
          m = set_next nf q m;
          m = set_size nf (hsize m nf - rsize) m
      in (reset_ptr q + header_size, h\<lparr>kmem := m, next_free := nf\<rparr>))"

fun kmalloc_loop :: "nat \<Rightarrow> kheap \<Rightarrow> u32 \<Rightarrow> u32 \<Rightarrow> (u32 \<times> kheap) kres" where
  "kmalloc_loop 0 h p rsize = Inl Hang"
| "kmalloc_loop (Suc fuel) h p rsize =
     (if rsize \<le> hsize (kmem h) p then Inr (carve h p rsize)
      else
        (case skip_used (Suc fuel) (kmem h) p of
           None \<Rightarrow> Inl Hang
         | Some q \<Rightarrow>
             if reset_ptr q \<noteq> reset_ptr (kbase h) then kmalloc_loop fuel h q rsize
             else Inl (Panic ''malloc error'')))"

definition kmalloc :: "nat \<Rightarrow> kheap \<Rightarrow> u32 \<Rightarrow> (u32 \<times> kheap) kres" where
  "kmalloc fuel h sz =
     (let eflags = interrupts h;
          h = h\<lparr>interrupts := False\<rparr>
      in rbind (kmalloc_loop fuel h (next_free h) (request_size sz)) (\<lambda>(r, h).
           Inr (r, h\<lparr>interrupts := eflags\<rparr>)))"

text \<open>The walk of \<^verbatim>\<open>kfree\<close> to the header in front of the one released.\<close>

fun find_prev :: "nat \<Rightarrow> mem \<Rightarrow> u32 \<Rightarrow> u32 \<Rightarrow> u32 option" where
  "find_prev 0 m p freed = None"
| "find_prev (Suc fuel) m p freed =
     (let tp = hnext m p in if reset_ptr tp \<noteq> reset_ptr freed then find_prev fuel m tp freed else Some p)"

definition unlink :: "mem \<Rightarrow> u32 \<Rightarrow> u32 \<Rightarrow> u32 \<Rightarrow> bool \<Rightarrow> bool \<Rightarrow> mem" where
  "unlink m prv freed nxt is_prev_used is_next_used =
     (if \<not> is_prev_used then
        (let m = set_size prv (hsize m prv + hsize m freed) m;
             m = set_next prv (hnext m freed) m in
         if \<not> is_next_used then
           (let m = set_size prv (hsize m prv + hsize m nxt) m
            in set_next prv (hnext m nxt) m)
         else m)
      else if \<not> is_next_used then
        (let m = set_next prv (set_used (hnext m prv) False) m;
             m = set_size freed (hsize m freed + hsize m nxt) m
         in set_next freed (hnext m nxt) m)
      else set_next prv (set_used freed False) m)"

definition kfree :: "nat \<Rightarrow> kheap \<Rightarrow> u32 \<Rightarrow> kheap kres" where
  "kfree fuel h addr =
     (let eflags = interrupts h;
          h = h\<lparr>interrupts := False\<rparr>;
          freed = addr - header_size in
      case find_prev fuel (kmem h) (kbase h) freed of
        None \<Rightarrow> Inl Hang
      | Some prv \<Rightarrow>
          (let nxt = hnext (kmem h) (hnext (kmem h) prv);
               is_prev_used = is_used prv;
               is_next_used = is_used nxt;
               is_prev_used = (if reset_ptr freed = reset_ptr (kbase h) then True else is_prev_used);
               is_next_used = (if reset_ptr nxt = reset_ptr (kbase h) then True else is_next_used)
           in Inr (h\<lparr>kmem := unlink (kmem h) prv freed nxt is_prev_used is_next_used, interrupts := eflags\<rparr>)))"

end
