(* ===== verification/Kmalloc_Correct.thy ===== *)
theory Kmalloc_Correct
  imports Kmalloc
begin

unbundle bit_operations_syntax

text \<open>
  The heap as a list of blocks: the blocks tile a range of memory, the first one at \<^verbatim>\<open>base\<close>, and the links
  form a ring through them in the order of their addresses. \<^verbatim>\<open>kmalloc\<close> cuts a block off the end of a free
  one, \<^verbatim>\<open>kfree\<close> joins a block with its free neighbours.
\<close>

section \<open>Blocks\<close>

type_synonym block = "nat \<times> nat \<times> bool"  \<comment> \<open>address, size, in use\<close>

fun tiles :: "nat \<Rightarrow> block list \<Rightarrow> nat \<Rightarrow> bool" where
  "tiles a [] e \<longleftrightarrow> a = e"
| "tiles a ((b, n, u) # bs) e \<longleftrightarrow> b = a \<and> 8 \<le> n \<and> n mod 4 = 0 \<and> tiles (a + n) bs e"

text \<open>The word that points to a block, and to the first block of a list that ends with the word \<open>l\<close>.\<close>

fun link_word :: "block \<Rightarrow> u32" where
  "link_word (a, n, u) = (if u then of_nat a OR 1 else of_nat a)"

fun link_to :: "block list \<Rightarrow> u32 \<Rightarrow> u32" where
  "link_to [] l = l"
| "link_to (x # bs) l = link_word x"

fun stored :: "mem \<Rightarrow> u32 \<Rightarrow> block list \<Rightarrow> bool" where
  "stored m l [] \<longleftrightarrow> True"
| "stored m l ((a, n, u) # bs) \<longleftrightarrow> m (of_nat a) = link_to bs l \<and> m (of_nat a + 4) = of_nat n \<and> stored m l bs"

definition aligned :: "block \<Rightarrow> bool" where
  "aligned x \<longleftrightarrow> fst x mod 4 = 0 \<and> fst x + 8 \<le> 2 ^ 32 \<and> fst (snd x) < 2 ^ 32"

definition blocks_ok :: "block list \<Rightarrow> bool" where
  "blocks_ok bs \<longleftrightarrow> bs \<noteq> [] \<and> fst (hd bs) mod 4 = 0 \<and> (\<exists>e < 2 ^ 32. tiles (fst (hd bs)) bs e)"

definition heap_ok :: "kheap \<Rightarrow> block list \<Rightarrow> bool" where
  "heap_ok h bs \<longleftrightarrow> blocks_ok bs \<and> kbase h = of_nat (fst (hd bs)) \<and> \<not> snd (snd (hd bs)) \<and>
     stored (kmem h) (kbase h) bs"

lemma heap_okD:
  assumes "heap_ok h bs"
  shows "blocks_ok bs" and "stored (kmem h) (kbase h) bs" and "kbase h = of_nat (fst (hd bs))"
  using assms unfolding heap_ok_def by blast+

lemma tiles_append: "tiles a (xs @ ys) e \<longleftrightarrow> (\<exists>c. tiles a xs c \<and> tiles c ys e)"
  by (induction xs arbitrary: a) auto

lemma tiles_bounds:
  "tiles a bs e \<Longrightarrow> a mod 4 = 0 \<Longrightarrow> a \<le> e \<and> (\<forall>(b, n, u) \<in> set bs. a \<le> b \<and> b + n \<le> e \<and> b mod 4 = 0 \<and> 8 \<le> n)"
proof (induction bs arbitrary: a)
  case (Cons x bs)
  obtain b n u where x: "x = (b, n, u)" by (cases x)
  with Cons have "tiles (a + n) bs e" "(a + n) mod 4 = 0" "b = a" "8 \<le> n"
    by (auto simp: mod_add_eq [symmetric, of a n])
  with Cons.IH [of "a + n"] Cons.prems(2) x show ?case by fastforce
qed simp

section \<open>Pointers\<close>

lemma flag_bit:
  fixes w :: u32
  assumes "even w"
  shows "w AND NOT 1 = w" and "(w OR 1) AND NOT 1 = w" and "w AND 1 = 0" and "(w OR 1) AND 1 = 1"
proof -
  have b0: "\<not> bit w 0" using assms by (simp add: bit_0)
  have "bit (w AND NOT 1) n = bit w n" "bit ((w OR 1) AND NOT 1) n = bit w n" if "n < 32" for n
    using that b0 by (cases "n = 0"; auto simp: bit_simps bit_1_iff)+
  then show "w AND NOT 1 = w" "(w OR 1) AND NOT 1 = w" by (auto intro!: bit_word_eqI)
  show "w AND 1 = 0" using assms by (metis and_one_eq even_iff_mod_2_eq_zero)
  show "(w OR 1) AND 1 = 1" by (rule bit_word_eqI) (auto simp: bit_simps bit_1_iff)
qed

lemma even_ptr:
  fixes a :: nat
  assumes "a mod 4 = 0"
  shows "reset_ptr (of_nat a) = of_nat a" and "reset_ptr (of_nat a OR 1) = of_nat a"
    and "\<not> is_used (of_nat a)" and "is_used (of_nat a OR 1)"
    and "set_used (of_nat a) True = of_nat a OR 1" and "set_used (of_nat a) False = of_nat a"
    and "set_used (of_nat a OR 1) False = of_nat a"
proof -
  have "even a" using assms by presburger
  then have "even (of_nat a :: u32)" by simp
  note f = flag_bit [OF this]
  show "reset_ptr (of_nat a) = of_nat a" "reset_ptr (of_nat a OR 1) = of_nat a"
    "\<not> is_used (of_nat a)" "is_used (of_nat a OR 1)"
    "set_used (of_nat a) True = of_nat a OR 1" "set_used (of_nat a) False = of_nat a"
    "set_used (of_nat a OR 1) False = of_nat a"
    by (simp_all only: reset_ptr_def is_used_def set_used_def KMALLOC_USED_def f if_True if_False) simp_all
qed

lemma link_word_ptr:
  assumes "aligned x"
  shows "reset_ptr (link_word x) = of_nat (fst x)" and "is_used (link_word x) \<longleftrightarrow> snd (snd x)"
  using assms by (cases x; auto simp: aligned_def even_ptr)+

lemma stored_append: "stored m l (xs @ ys) \<longleftrightarrow> stored m (link_to ys l) xs \<and> stored m l ys"
proof (induction xs)
  case (Cons x xs)
  then show ?case by (cases x; cases xs; auto)
qed simp

lemma stored_frame:
  "(\<And>x. x \<in> set bs \<Longrightarrow> m' (of_nat (fst x)) = m (of_nat (fst x)) \<and> m' (of_nat (fst x) + 4) = m (of_nat (fst x) + 4)) \<Longrightarrow>
    stored m' l bs \<longleftrightarrow> stored m l bs"
  by (induction bs) force+

lemma blocks_aligned: "blocks_ok bs \<Longrightarrow> x \<in> set bs \<Longrightarrow> aligned x"
  using tiles_bounds [of "fst (hd bs)" bs] by (fastforce simp: blocks_ok_def aligned_def)

section \<open>Following the ring\<close>

lemma skip_used_spec:
  assumes "stored m l ((a, n, u) # post)" and "\<forall>x \<in> set post. aligned x" and "\<not> is_used l"
    and "reset_ptr p = of_nat a" and "length post < fuel"
  shows "skip_used fuel m p = Some (link_to (dropWhile (\<lambda>x. snd (snd x)) post) l)"
  using assms
proof (induction post arbitrary: a n u p fuel)
  case Nil
  then show ?case by (cases fuel) (auto simp: hnext_def)
next
  case (Cons x post)
  obtain a' n' u' where x: "x = (a', n', u')" by (cases x)
  obtain f where f: "fuel = Suc f" using Cons.prems(5) by (cases fuel) auto
  have p: "hnext m p = link_word x" using Cons.prems(1,4) by (simp add: hnext_def)
  have al: "aligned x" using Cons.prems(2) by simp
  show ?case
  proof (cases u')
    case True
    have "skip_used f m (link_word x) = Some (link_to (dropWhile (\<lambda>x. snd (snd x)) post) l)"
      using Cons.prems f x link_word_ptr(1) [OF al] by (intro Cons.IH [of a' n' u']) auto
    then show ?thesis using True x f p link_word_ptr(2) [OF al] by simp
  next
    case False
    then show ?thesis using x f p link_word_ptr(2) [OF al] by simp
  qed
qed

text \<open>The search of \<^verbatim>\<open>kmalloc\<close> from a free block: the first free block that is large enough, or none.\<close>

definition fits :: "nat \<Rightarrow> block \<Rightarrow> bool" where
  "fits r x \<longleftrightarrow> \<not> snd (snd x) \<and> r \<le> fst (snd x)"

lemma find_fits_drop: "List.find (fits r) (dropWhile (\<lambda>x. snd (snd x)) xs) = List.find (fits r) xs"
  by (induction xs) (auto simp: fits_def)

lemma kmalloc_loop_spec:
  assumes "stored (kmem h) (kbase h) ((a, n, False) # post)" and "\<forall>x \<in> set ((a, n, False) # post). aligned x"
    and "\<forall>x \<in> set post. of_nat (fst x) \<noteq> kbase h" and "kbase h = of_nat b" "b mod 4 = 0"
    and "length post < fuel" and "r < 2 ^ 32"
  shows "kmalloc_loop fuel h (of_nat a) (of_nat r) =
    (case List.find (fits r) ((a, n, False) # post) of
       Some x \<Rightarrow> Inr (carve h (of_nat (fst x)) (of_nat r))
     | None \<Rightarrow> Inl (Panic ''malloc error''))"
  using assms
proof (induction fuel arbitrary: a n post)
  case (Suc f)
  have al: "a mod 4 = 0" "n < 2 ^ 32" using Suc.prems(2) by (auto simp: aligned_def)
  have sz: "hsize (kmem h) (of_nat a) = of_nat n" using Suc.prems(1) al by (simp add: hsize_def even_ptr)
  have le: "of_nat r \<le> (of_nat n :: u32) \<longleftrightarrow> r \<le> n" using al Suc.prems(7) by (simp add: of_nat_u32_le)
  show ?case
  proof (cases "r \<le> n")
    case True
    then show ?thesis using sz le by (simp add: fits_def)
  next
    case False
    define post' where "post' = dropWhile (\<lambda>x. snd (snd x)) post"
    have nb: "\<not> is_used (kbase h)" "reset_ptr (kbase h) = kbase h" using Suc.prems(4,5) by (simp_all add: even_ptr)
    have skip: "skip_used (Suc f) (kmem h) (of_nat a) = Some (link_to post' (kbase h))"
      unfolding post'_def using Suc.prems al nb by (intro skip_used_spec [of _ _ a n False]) (auto simp: even_ptr)
    have find: "List.find (fits r) ((a, n, False) # post) = List.find (fits r) post'"
      unfolding post'_def find_fits_drop using False by (simp add: fits_def)
    show ?thesis
    proof (cases post')
      case Nil
      then show ?thesis using False sz le skip nb find by simp
    next
      case (Cons y ys)
      obtain a' n' u' where y: "y = (a', n', u')" by (cases y)
      have u': "\<not> u'" using Cons y post'_def hd_dropWhile [of "\<lambda>x. snd (snd x)" post] by (cases "post' = []") auto
      obtain zs where zs: "post = zs @ (a', n', False) # ys"
        using Cons y u' post'_def takeWhile_dropWhile_id [of "\<lambda>x. snd (snd x)" post] by metis
      then have sub: "set ((a', n', False) # ys) \<subseteq> set post" "length ys < length post" by auto
      have st: "stored (kmem h) (kbase h) ((a', n', False) # ys)"
        using Suc.prems(1) unfolding zs by (simp add: stored_append)
      have al': "aligned (a', n', False)" using Suc.prems(2) sub by auto
      have ne: "of_nat a' \<noteq> kbase h" using Suc.prems(3) sub by auto
      have "kmalloc_loop f h (of_nat a') (of_nat r) =
          (case List.find (fits r) ((a', n', False) # ys) of
             Some x \<Rightarrow> Inr (carve h (of_nat (fst x)) (of_nat r)) | None \<Rightarrow> Inl (Panic ''malloc error''))"
        using st Suc.prems sub by (intro Suc.IH) auto
      moreover have "link_to post' (kbase h) = of_nat a'" "reset_ptr (of_nat a' :: u32) = of_nat a'"
        using Cons y u' al' by (simp_all add: aligned_def even_ptr)
      ultimately show ?thesis using False sz le skip nb find Cons y u' ne by simp
    qed
  qed
qed simp

section \<open>Cutting a block off\<close>

definition apart :: "nat \<Rightarrow> nat \<Rightarrow> bool" where
  "apart x y \<longleftrightarrow> x + 8 \<le> y \<or> y + 8 \<le> x"

lemma apart_words:
  assumes "apart x y" and "x + 8 \<le> 2 ^ 32" and "y + 8 \<le> 2 ^ 32"
  shows "(of_nat x :: u32) \<noteq> of_nat y" and "(of_nat x + 4 :: u32) \<noteq> of_nat y"
    and "(of_nat x :: u32) \<noteq> of_nat y + 4" and "(of_nat x + 4 :: u32) \<noteq> of_nat y + 4"
proof -
  have e: "(of_nat z + 4 :: u32) = of_nat (z + 4)" for z by simp
  show "(of_nat x :: u32) \<noteq> of_nat y" "(of_nat x + 4 :: u32) \<noteq> of_nat y"
    "(of_nat x :: u32) \<noteq> of_nat y + 4" "(of_nat x + 4 :: u32) \<noteq> of_nat y + 4"
    unfolding e using assms by (subst of_nat_u32; auto simp: apart_def)+
qed

lemma word_plus_4 [simp]: "(w :: u32) \<noteq> w + 4" "w + 4 \<noteq> w"
  by simp_all

text \<open>The writes of a header leave the headers apart from it alone.\<close>

lemma stored_set:
  assumes "\<forall>x \<in> set bs. apart (fst x) y \<and> aligned x" and "y mod 4 = 0" and "y + 8 \<le> 2 ^ 32"
  shows "stored (set_next (of_nat y) v m) l bs \<longleftrightarrow> stored m l bs" and "stored (set_size (of_nat y) v m) l bs \<longleftrightarrow> stored m l bs"
  using assms apart_words by (auto intro!: stored_frame simp: set_next_def set_size_def even_ptr aligned_def)

lemma tiles_apart:
  assumes "blocks_ok (pre @ (a, n, u) # post)" and "x \<in> set pre \<union> set post"
  shows "fst x + 8 \<le> a \<or> a + n \<le> fst x" and "apart (fst x) a" and "8 \<le> n" and "n mod 4 = 0"
proof -
  obtain b e where t: "tiles b (pre @ (a, n, u) # post) e" "b mod 4 = 0" using assms(1) by (auto simp: blocks_ok_def)
  then obtain c where c: "tiles b pre c" "c = a" "tiles (a + n) post e" "8 \<le> n" "n mod 4 = 0" by (auto simp: tiles_append)
  have "b \<le> a" "a mod 4 = 0"
    using tiles_bounds [OF c(1) t(2)] tiles_bounds [OF t] c(2) by auto
  then have "(a + n) mod 4 = 0" using c(5) by presburger
  with tiles_bounds [OF c(1) t(2)] tiles_bounds [OF c(3)] c(2) assms(2)
  show "fst x + 8 \<le> a \<or> a + n \<le> fst x" by fastforce
  then show "apart (fst x) a" "8 \<le> n" "n mod 4 = 0" using c(4,5) by (auto simp: apart_def)
qed

lemma stored_heap_split:
  "stored m l (pre @ x # post) \<longleftrightarrow> stored m (link_word x) pre \<and> stored m l (x # post)"
  by (simp add: stored_append)

lemma carve_spec:
  assumes ok: "blocks_ok (pre @ (a, n, False) # post)" and st: "stored (kmem h) (kbase h) (pre @ (a, n, False) # post)"
    and r: "8 \<le> r" "r mod 4 = 0" "r + 8 \<le> n"
  defines "q \<equiv> a + n - r"
  shows "\<exists>m. carve h (of_nat a) (of_nat r) = (of_nat (q + 8), h\<lparr>kmem := m, next_free := of_nat a\<rparr>) \<and>
    stored m (kbase h) (pre @ (a, n - r, False) # (q, r, True) # post) \<and>
    (\<forall>x. x \<noteq> of_nat a \<and> x \<noteq> of_nat a + 4 \<and> x \<noteq> of_nat q \<and> x \<noteq> of_nat q + 4 \<longrightarrow> m x = kmem h x)"
proof -
  have al: "aligned (a, n, False)" using blocks_aligned [OF ok] by simp
  have bnd: "a + n < 2 ^ 32" "a mod 4 = 0" "n mod 4 = 0"
  proof -
    obtain b e where t: "tiles b (pre @ (a, n, False) # post) e" "b mod 4 = 0" "e < 2 ^ 32" using ok by (auto simp: blocks_ok_def)
    with tiles_bounds [OF t(1,2)] show "a + n < 2 ^ 32" by auto
    from t(1) show "n mod 4 = 0" by (auto simp: tiles_append)
    show "a mod 4 = 0" using al by (simp add: aligned_def)
  qed
  have q: "q mod 4 = 0" "q + 8 \<le> 2 ^ 32" "apart a q" using r bnd by (auto simp: q_def apart_def)
  have others: "\<forall>x \<in> set pre \<union> set post. apart (fst x) a \<and> apart (fst x) q \<and> aligned x"
    using tiles_apart(1) [OF ok] blocks_aligned [OF ok] r bnd(1) by (fastforce simp: apart_def q_def)
  let ?m1 = "set_size (of_nat q) (of_nat r) (set_next (of_nat q) (link_to post (kbase h)) (kmem h))"
  define m where "m = set_size (of_nat a) (of_nat (n - r)) (set_next (of_nat a) (of_nat q OR 1) ?m1)"
  have heads: "(kmem h) (of_nat a) = link_to post (kbase h)" "(kmem h) (of_nat a + 4) = of_nat n"
    using st by (simp_all add: stored_heap_split)
  note ne = apart_words [OF q(3) _ q(2)]
  have a8: "a + 8 \<le> 2 ^ 32" using r bnd by simp
  have q1: "set_used (reset_ptr (of_nat a) + hsize (kmem h) (of_nat a) - of_nat r) True = of_nat q OR 1"
    using bnd r heads by (simp add: hsize_def even_ptr(1) q_def of_nat_diff set_used_def KMALLOC_USED_def)
  have sz: "hsize (set_next (of_nat a) (of_nat q OR 1) ?m1) (of_nat a) = of_nat n"
    using ne [OF a8] heads bnd q(1) by (auto simp: hsize_def set_next_def set_size_def even_ptr)
  have same: "set_next (of_nat q OR 1) = set_next (of_nat q)" "set_size (of_nat q OR 1) = set_size (of_nat q)"
    using q(1) by (simp_all add: fun_eq_iff set_next_def set_size_def even_ptr)
  have "carve h (of_nat a) (of_nat r) = (of_nat (q + 8), h\<lparr>kmem := m, next_free := of_nat a\<rparr>)"
    unfolding carve_def Let_def q1 same
    using heads bnd q(1) r sz by (simp add: hnext_def even_ptr m_def header_size_def of_nat_diff)
  moreover have "stored m (kbase h) (pre @ (a, n - r, False) # (q, r, True) # post)"
  proof -
    have "stored (kmem h) (of_nat a) pre" "stored (kmem h) (kbase h) post" using st by (simp_all add: stored_heap_split)
    moreover have "stored m (of_nat a) pre = stored (kmem h) (of_nat a) pre" "stored m (kbase h) post = stored (kmem h) (kbase h) post"
      unfolding m_def using others q bnd a8 by (simp_all add: stored_set)
    moreover have "m (of_nat a) = of_nat q OR 1" "m (of_nat a + 4) = of_nat (n - r)"
      "m (of_nat q) = link_to post (kbase h)" "m (of_nat q + 4) = of_nat r"
      using ne [OF a8] bnd q(1) by (auto simp: m_def set_next_def set_size_def even_ptr)
    ultimately show ?thesis by (simp add: stored_heap_split)
  qed
  moreover have "\<forall>x. x \<noteq> of_nat a \<and> x \<noteq> of_nat a + 4 \<and> x \<noteq> of_nat q \<and> x \<noteq> of_nat q + 4 \<longrightarrow> m x = kmem h x"
    using bnd q(1) by (simp add: m_def set_next_def set_size_def even_ptr)
  ultimately show ?thesis by blast
qed

section \<open>Releasing a block\<close>

lemma find_prev_spec:
  assumes "stored m l (x # xs @ (a, n, u) # post)" and "\<forall>y \<in> set (x # xs @ [(a, n, u)]). aligned y"
    and "\<forall>y \<in> set xs. fst y \<noteq> a" and "length xs < fuel"
  shows "find_prev fuel m (link_word x) (of_nat a) = Some (link_word (last (x # xs)))"
  using assms
proof (induction xs arbitrary: x fuel)
  case Nil
  obtain f where f: "fuel = Suc f" using Nil.prems(4) by (cases fuel) auto
  have "hnext m (link_word x) = link_word (a, n, u)"
    using Nil.prems(1,2) link_word_ptr(1) [of x] by (cases x) (simp add: hnext_def)
  then show ?case using f Nil.prems(2) link_word_ptr(1) [of "(a, n, u)"] even_ptr(1) [of a] by (simp add: aligned_def)
next
  case (Cons y ys)
  obtain f where f: "fuel = Suc f" using Cons.prems(4) by (cases fuel) auto
  have y: "hnext m (link_word x) = link_word y"
    using Cons.prems(1,2) link_word_ptr(1) [of x] by (cases x) (simp add: hnext_def)
  have al: "aligned y" "aligned (a, n, u)" using Cons.prems(2) by simp_all
  then have "(of_nat (fst y) :: u32) \<noteq> of_nat a" using Cons.prems(3) by (subst of_nat_u32) (auto simp: aligned_def)
  then have "reset_ptr (link_word y) \<noteq> reset_ptr (of_nat a)"
    using link_word_ptr(1) [OF al(1)] al(2) by (simp add: even_ptr aligned_def)
  moreover have "find_prev f m (link_word y) (of_nat a) = Some (link_word (last (y # ys)))"
    using Cons.prems f by (intro Cons.IH) (cases x; simp)+
  ultimately show ?case using f y by simp
qed

text \<open>What is left of the neighbours of a released block.\<close>

fun release :: "block list \<Rightarrow> block \<Rightarrow> nat \<Rightarrow> nat \<Rightarrow> block list \<Rightarrow> block list" where
  "release pre0 (pa, pn, False) a n ((na, nn, False) # post) = pre0 @ (pa, pn + n + nn, False) # post"
| "release pre0 (pa, pn, False) a n post = pre0 @ (pa, pn + n, False) # post"
| "release pre0 (pa, pn, True) a n ((na, nn, False) # post) = pre0 @ (pa, pn, True) # (a, n + nn, False) # post"
| "release pre0 (pa, pn, True) a n post = pre0 @ (pa, pn, True) # (a, n, False) # post"

lemma release_tiles:
  "tiles b (pre0 @ (pa, pn, pu) # (a, n, True) # post) e \<Longrightarrow> tiles b (release pre0 (pa, pn, pu) a n post) e"
proof -
  assume t: "tiles b (pre0 @ (pa, pn, pu) # (a, n, True) # post) e"
  show ?thesis
  proof (cases "post \<noteq> [] \<and> \<not> snd (snd (hd post))")
    case True
    then obtain na nn post' where "post = (na, nn, False) # post'" by (cases post) auto
    with t show ?thesis by (cases pu) (auto simp: tiles_append add.assoc mod_add_eq [symmetric, of pn])
  next
    case False
    then have "post = [] \<or> (\<exists>na nn post'. post = (na, nn, True) # post')" by (cases post) auto
    with t show ?thesis by (cases pu) (auto simp: tiles_append add.assoc)
  qed
qed

lemma release_heap:
  assumes "heap_ok h (pre0 @ (pa, pn, pu) # (a, n, True) # post)"
  shows "blocks_ok (release pre0 (pa, pn, pu) a n post) \<and>
    kbase h = of_nat (fst (hd (release pre0 (pa, pn, pu) a n post))) \<and>
    \<not> snd (snd (hd (release pre0 (pa, pn, pu) a n post)))"
proof -
  let ?bs = "pre0 @ (pa, pn, pu) # (a, n, True) # post"
  obtain e where e: "e < 2 ^ 32" "tiles (fst (hd ?bs)) ?bs e" using assms by (auto simp: heap_ok_def blocks_ok_def)
  have "pre0 = [] \<Longrightarrow> \<not> pu" using assms by (auto simp: heap_ok_def)
  then have "release pre0 (pa, pn, pu) a n post \<noteq> [] \<and> fst (hd (release pre0 (pa, pn, pu) a n post)) = fst (hd ?bs) \<and>
      snd (snd (hd (release pre0 (pa, pn, pu) a n post))) = snd (snd (hd ?bs))"
    by (cases pre0; cases pu; cases "(pre0, (pa, pn, pu), a, n, post)" rule: release.cases) auto
  then show ?thesis using assms release_tiles [OF e(2)] e(1) by (auto simp: heap_ok_def blocks_ok_def)
qed

lemma heap_base:
  assumes "heap_ok h bs"
  shows "\<not> is_used (kbase h)" and "reset_ptr (kbase h) = kbase h" and "kbase h = link_word (hd bs)"
    and "x \<in> set (tl bs) \<Longrightarrow> of_nat (fst x) \<noteq> kbase h"
proof -
  obtain b n bs' where bs: "bs = (b, n, False) # bs'" using assms by (cases bs) (auto simp: heap_ok_def blocks_ok_def)
  have kb: "kbase h = of_nat b" using assms bs by (simp add: heap_ok_def)
  have b: "b mod 4 = 0" using assms bs by (simp add: heap_ok_def blocks_ok_def)
  show "\<not> is_used (kbase h)" "reset_ptr (kbase h) = kbase h" "kbase h = link_word (hd bs)"
    using kb b bs by (simp_all add: even_ptr)
  assume x: "x \<in> set (tl bs)"
  have ok: "blocks_ok ([] @ (b, n, False) # bs')" using assms bs by (simp add: heap_ok_def)
  have "apart (fst x) b" using tiles_apart(2) [OF ok] x bs by simp
  moreover have "aligned x" "aligned (b, n, False)" using blocks_aligned [OF ok] x bs by auto
  ultimately show "of_nat (fst x) \<noteq> kbase h" unfolding kb by (intro apart_words) (simp_all add: aligned_def)
qed

text \<open>The memory after the release, in the four cases of \<^verbatim>\<open>kfree\<close>.\<close>

lemma unlink_stored:
  fixes pu :: bool
  assumes ok: "blocks_ok (pre0 @ (pa, pn, pu) # (a, n, True) # post)"
    and st: "stored m l (pre0 @ (pa, pn, pu) # (a, n, True) # post)"
  defines "nu \<equiv> post = [] \<or> snd (snd (hd post))"
  shows "stored (unlink m (link_word (pa, pn, pu)) (of_nat a) (link_to post l) pu nu) l
    (release pre0 (pa, pn, pu) a n post)"
proof -
  have al: "aligned (pa, pn, pu)" "aligned (a, n, True)" using blocks_aligned [OF ok] by simp_all
  have al4: "pa mod 4 = 0" "a mod 4 = 0" "pa + 8 \<le> 2 ^ 32" "a + 8 \<le> 2 ^ 32" using al by (simp_all add: aligned_def)
  have rp: "reset_ptr (link_word (pa, pn, pu)) = of_nat pa" using link_word_ptr(1) [OF al(1)] by simp
  have "even a" using al4(2) by presburger
  then have ev: "even (of_nat a :: u32)" by simp
  have ra: "reset_ptr (of_nat a) = of_nat a" using al4 by (simp add: even_ptr)
  have fr: "\<forall>x \<in> set pre0. apart (fst x) pa \<and> apart (fst x) a \<and> aligned x"
    "\<forall>x \<in> set post. apart (fst x) pa \<and> apart (fst x) a \<and> aligned x"
    using tiles_apart(2) [of pre0 pa pn pu "(a, n, True) # post"] tiles_apart(2) [of "pre0 @ [(pa, pn, pu)]" a n True post]
      blocks_aligned [OF ok] ok by auto
  have pa_a: "apart pa a"
    using tiles_apart(2) [of "pre0 @ [(pa, pn, pu)]" a n True post "(pa, pn, pu)"] ok by simp
  have h: "stored m (link_word (pa, pn, pu)) pre0" "m (of_nat pa) = of_nat a OR 1" "m (of_nat pa + 4) = of_nat pn"
    "m (of_nat a) = link_to post l" "m (of_nat a + 4) = of_nat n" "stored m l post"
    using st by (simp_all add: stored_heap_split)
  note ne = apart_words [OF pa_a al4(3,4)]
  have fs: "stored (m'(of_nat y := v)) l' bs = stored m' l' bs" "stored (m'(of_nat y + 4 := v)) l' bs = stored m' l' bs"
    if "bs = pre0 \<or> set bs \<subseteq> set post" "y = pa \<or> y = a" for bs y v m' l'
  proof -
    have y: "y mod 4 = 0" "y + 8 \<le> 2 ^ 32" using that(2) al4 by auto
    have "\<forall>x \<in> set bs. apart (fst x) y \<and> aligned x" using that fr by blast
    note stored_set [OF this y, of v m' l', unfolded set_next_def set_size_def even_ptr(1) [OF y(1)]]
    then show "stored (m'(of_nat y := v)) l' bs = stored m' l' bs" "stored (m'(of_nat y + 4 := v)) l' bs = stored m' l' bs" .
  qed
  note simps = unlink_def Let_def hsize_def hnext_def set_next_def set_size_def rp even_ptr(1,2) [OF al4(1)] ra h ne ne [symmetric] stored_heap_split fs
    set_used_def KMALLOC_USED_def
  show ?thesis
  proof (cases nu)
    case True
    then have "release pre0 (pa, pn, pu) a n post =
        (if pu then pre0 @ (pa, pn, True) # (a, n, False) # post else pre0 @ (pa, pn + n, False) # post)"
      unfolding nu_def by (cases post) (auto split: if_splits)
    then show ?thesis using True h(1) al4(2) flag_bit(1) [OF ev] by (cases pu) (simp_all add: simps even_ptr)
  next
    case False
    then obtain na nn post' where post: "post = (na, nn, False) # post'" unfolding nu_def by (cases post) auto
    have na: "apart na pa" "apart na a" "na mod 4 = 0" "na + 8 \<le> 2 ^ 32" using fr post by (auto simp: aligned_def)
    have nx: "reset_ptr (link_to post l) = of_nat na" "m (of_nat na) = link_to post' l" "m (of_nat na + 4) = of_nat nn"
      "stored m l post'" using h(6) na(3) post by (simp_all add: even_ptr)
    note ne' = apart_words [OF na(1) na(4) al4(3)] apart_words [OF na(2) na(4) al4(4)]
    have sub: "set post' \<subseteq> set post" using post by auto
    show ?thesis using False h(1) sub flag_bit(2) [OF ev] al4(2)
      by (cases pu) (simp_all add: simps nx even_ptr(1) [OF na(3)] ne' post add.assoc)
  qed
qed

section \<open>Requests\<close>

lemma request_size_nat:
  assumes "unat sz + 11 < 2 ^ 32"
  defines "r \<equiv> (unat sz + 11) div 4 * 4"
  shows "request_size sz = of_nat r" and "8 \<le> r" and "r mod 4 = 0" and "r < 2 ^ 32" and "unat sz + 8 \<le> r"
proof -
  have "sz + header_size + KMALLOC_ALIGN - 1 = sz + 11" by (simp add: header_size_def KMALLOC_ALIGN_def)
  then have "unat (sz + header_size + KMALLOC_ALIGN - 1) = unat sz + 11" using assms(1) by (simp only:) (subst unat_add_exact, simp_all)
  moreover have "(- KMALLOC_ALIGN) = NOT (mask 2)" by (simp add: KMALLOC_ALIGN_def mask_eq_exp_minus_1)
  ultimately have "unat (request_size sz) = r" by (simp only: request_size_def unat_and_not_mask r_def) simp
  then show "request_size sz = of_nat r" by (metis of_nat_unat ucast_id)
  show "8 \<le> r" "r mod 4 = 0" "r < 2 ^ 32" "unat sz + 8 \<le> r" using assms(1) unfolding r_def by presburger+
qed

lemma find_split:
  "\<forall>x \<in> set xs. \<not> P x \<Longrightarrow> P y \<Longrightarrow> List.find P (xs @ y # ys) = Some y"
  by (induction xs) auto

lemma carve_blocks:
  assumes "blocks_ok (pre @ (a, n, False) # post)" and "8 \<le> r" and "r mod 4 = 0" and "r + 8 \<le> n"
  shows "blocks_ok (pre @ (a, n - r, False) # (a + n - r, r, True) # post)"
proof -
  have m: "(n - r) mod 4 = 0" if "n mod 4 = 0" using that assms(3,4) by presburger
  obtain e where e: "e < 2 ^ 32" "tiles (fst (hd (pre @ (a, n, False) # post))) (pre @ (a, n, False) # post) e"
    using assms(1) by (auto simp: blocks_ok_def)
  then have "tiles (fst (hd (pre @ (a, n, False) # post))) (pre @ (a, n - r, False) # (a + n - r, r, True) # post) e"
    using assms m by (auto simp: tiles_append)
  moreover have "fst (hd (pre @ (a, n, False) # post)) = fst (hd (pre @ (a, n - r, False) # (a + n - r, r, True) # post))"
    by (cases pre) simp_all
  ultimately show ?thesis using assms(1) e(1) by (auto simp: blocks_ok_def)
qed

lemma heap_ok_interrupts [simp]: "heap_ok (h\<lparr>interrupts := i\<rparr>) bs = heap_ok h bs"
  by (simp add: heap_ok_def)

lemma kmalloc_runs:
  assumes ok: "heap_ok h (pre @ xs @ (b, k, False) # ys)"
    and nf: "next_free h = of_nat (fst (hd (xs @ [(b, k, False)])))" "\<not> snd (snd (hd (xs @ [(b, k, False)])))"
    and r: "unat sz + 11 < 2 ^ 32" "r = (unat sz + 11) div 4 * 4" "\<forall>x \<in> set xs. \<not> fits r x" "r + 8 \<le> k"
    and fuel: "length xs + length ys < fuel"
  shows "\<exists>m. kmalloc fuel h sz = Inr (of_nat (b + k - r + 8), h\<lparr>kmem := m, next_free := of_nat b\<rparr>) \<and>
    heap_ok (h\<lparr>kmem := m, next_free := of_nat b\<rparr>) (pre @ xs @ (b, k - r, False) # (b + k - r, r, True) # ys)"
proof -
  let ?h = "h\<lparr>interrupts := False\<rparr>"
  obtain a n post where suf: "xs @ (b, k, False) # ys = (a, n, False) # post" using nf(2) by (cases xs) auto
  have bs: "blocks_ok (pre @ (a, n, False) # post)" using ok suf by (simp add: heap_ok_def)
  have kb: "kbase h = of_nat (fst (hd (pre @ xs @ (b, k, False) # ys)))" using ok by (simp add: heap_ok_def)
  note rs = request_size_nat [OF r(1), folded r(2)]
  have a: "next_free h = of_nat a" using nf(1) suf by (cases xs) auto
  have st: "stored (kmem h) (kbase h) (pre @ (a, n, False) # post)" using heap_okD(2) [OF ok] suf by simp
  have find: "List.find (fits r) ((a, n, False) # post) = Some (b, k, False)"
    using r(3,4) find_split [of xs "fits r" "(b, k, False)" ys] by (simp add: suf fits_def)
  have "kmalloc_loop fuel ?h (of_nat a) (of_nat r) = Inr (carve ?h (of_nat b) (of_nat r))"
  proof (subst kmalloc_loop_spec [where a = a and n = n and post = post and b = "fst (hd (pre @ xs @ (b, k, False) # ys))"])
    show "stored (kmem ?h) (kbase ?h) ((a, n, False) # post)" using st by (simp add: stored_heap_split)
    show "\<forall>x \<in> set ((a, n, False) # post). aligned x" using blocks_aligned [OF bs] by auto
    show "\<forall>x \<in> set post. of_nat (fst x) \<noteq> kbase ?h" using heap_base(4) [OF ok [unfolded suf]] by (cases pre) auto
    show "fst (hd (pre @ xs @ (b, k, False) # ys)) mod 4 = 0" using ok by (simp add: heap_ok_def blocks_ok_def)
    show "length post < fuel" using fuel arg_cong [OF suf, of length] by simp
  qed (use kb rs(4) find in simp_all)
  moreover obtain m where m: "carve ?h (of_nat b) (of_nat r) = (of_nat (b + k - r + 8), ?h\<lparr>kmem := m, next_free := of_nat b\<rparr>)"
    "stored m (kbase h) (pre @ xs @ (b, k - r, False) # (b + k - r, r, True) # ys)"
    using carve_spec [of "pre @ xs" b k ys ?h r] heap_okD(1,2) [OF ok] rs(2,3) r(4) by auto
  ultimately have "kmalloc fuel h sz = Inr (of_nat (b + k - r + 8), h\<lparr>kmem := m, next_free := of_nat b\<rparr>)"
    using a rs(1) by (simp add: kmalloc_def)
  moreover have "heap_ok (h\<lparr>kmem := m, next_free := of_nat b\<rparr>) (pre @ xs @ (b, k - r, False) # (b + k - r, r, True) # ys)"
    using ok m(2) carve_blocks [of "pre @ xs" b k ys r] rs(2,3) r(4)
    by (cases pre; cases xs) (auto simp: heap_ok_def)
  ultimately show ?thesis by blast
qed

lemma kfree_runs:
  assumes ok: "heap_ok h (pre0 @ (pa, pn, pu) # (a, n, True) # post)" and fuel: "length pre0 < fuel"
  shows "\<exists>m. kfree fuel h (of_nat (a + 8)) = Inr (h\<lparr>kmem := m\<rparr>) \<and>
    heap_ok (h\<lparr>kmem := m\<rparr>) (release pre0 (pa, pn, pu) a n post)"
proof -
  let ?bs = "pre0 @ (pa, pn, pu) # (a, n, True) # post" and ?m = "kmem h"
  define nu where "nu \<longleftrightarrow> post = [] \<or> snd (snd (hd post))"
  note bs = heap_okD(1,2) [OF ok]
  note base = heap_base [OF ok]
  have al: "aligned (a, n, True)" "aligned (pa, pn, pu)" using blocks_aligned [OF bs(1)] by simp_all
  obtain x xs where x: "pre0 @ [(pa, pn, pu)] = x # xs" by (cases "pre0 @ [(pa, pn, pu)]") auto
  then have bsx: "?bs = x # xs @ (a, n, True) # post" by (metis append.assoc append_Cons append_Nil)
  have apart_a: "apart (fst y) a" if "y \<in> set (x # xs)" for y
    using tiles_apart(2) [of "x # xs" a n True post y] bs(1) that unfolding bsx by auto
  have kx: "kbase h = link_word x" using base(3) unfolding bsx by simp
  have last: "last (x # xs) = (pa, pn, pu)" using x by (metis last_snoc)
  have len: "length xs < fuel" using fuel arg_cong [OF x, of length] by simp
  have "find_prev fuel ?m (kbase h) (of_nat a) = Some (link_word (pa, pn, pu))"
    unfolding kx last [symmetric]
  proof (rule find_prev_spec [where l = "kbase h" and post = post])
    show "stored ?m (kbase h) (x # xs @ (a, n, True) # post)" using bs(2) unfolding bsx .
    show "\<forall>y \<in> set (x # xs @ [(a, n, True)]). aligned y" using blocks_aligned [OF bs(1)] unfolding bsx by auto
    show "\<forall>y \<in> set xs. fst y \<noteq> a" using apart_a by (fastforce simp: apart_def)
  qed (rule len)
  moreover have nxt: "hnext ?m (hnext ?m (link_word (pa, pn, pu))) = link_to post (kbase h)"
    using bs(2) link_word_ptr(1) [OF al(1)] link_word_ptr(1) [OF al(2)] by (simp add: stored_heap_split hnext_def)
  moreover have "reset_ptr (of_nat a) \<noteq> reset_ptr (kbase h)"
    using base(2) base(4) [of "(a, n, True)"] al(1) by (cases pre0) (simp_all add: even_ptr aligned_def)
  moreover have "(if reset_ptr (link_to post (kbase h)) = reset_ptr (kbase h) then True else is_used (link_to post (kbase h))) = nu"
  proof (cases post)
    case (Cons y ys)
    have "aligned y" using blocks_aligned [OF bs(1)] Cons by simp
    moreover have "of_nat (fst y) \<noteq> kbase h" using base(4) [of y] Cons by (cases pre0) simp_all
    ultimately show ?thesis using Cons base(2) link_word_ptr [of y] by (simp add: nu_def)
  qed (simp add: nu_def base)
  moreover have "is_used (link_word (pa, pn, pu)) = pu" using link_word_ptr(2) [OF al(2)] by simp
  moreover have "of_nat (a + 8) - header_size = (of_nat a :: u32)" by (simp add: header_size_def)
  ultimately have run: "kfree fuel h (of_nat (a + 8)) =
      Inr (h\<lparr>kmem := unlink ?m (link_word (pa, pn, pu)) (of_nat a) (link_to post (kbase h)) pu nu\<rparr>)"
    by (simp add: kfree_def Let_def del: of_nat_add)
  have "heap_ok (h\<lparr>kmem := unlink ?m (link_word (pa, pn, pu)) (of_nat a) (link_to post (kbase h)) pu nu\<rparr>)
      (release pre0 (pa, pn, pu) a n post)"
    using unlink_stored [OF bs, folded nu_def] release_heap [OF ok] by (simp add: heap_ok_def)
  with run show ?thesis by blast
qed

section \<open>A small heap\<close>

definition demo_heap :: kheap where
  "demo_heap = \<lparr>kmem = (\<lambda>_. 0)(0x1000 := 0x1000, 0x1004 := 0x100), kbase = 0x1000, next_free = 0x1000, interrupts = True\<rparr>"

lemma demo_heap_ok: "heap_ok demo_heap [(0x1000, 0x100, False)]"
  by (simp add: heap_ok_def blocks_ok_def demo_heap_def)

definition used_heap :: kheap where
  "used_heap = \<lparr>kmem = (\<lambda>_. 0)(0x1000 := 0x10c1, 0x1004 := 0xc0, 0x10c0 := 0x1000, 0x10c4 := 0x40),
     kbase = 0x1000, next_free = 0x1000, interrupts = True\<rparr>"

lemma used_heap_ok: "heap_ok used_heap [(0x1000, 0xc0, False), (0x10c0, 0x40, True)]"
  by (simp add: heap_ok_def blocks_ok_def used_heap_def)

text \<open>
  Two blocks are allocated, the upper one is released and allocated from again, so that the search starts
  there, and then the lower one is released, which joins it with both its neighbours. One more request
  follows.
\<close>

definition dangling_run :: "(u32 \<times> kheap) kres" where
  "dangling_run =
     rbind (kmalloc 9 demo_heap 120) (\<lambda>(pA, h).
     rbind (kmalloc 9 h 88) (\<lambda>(pB, h).
     rbind (kfree 9 h pA) (\<lambda>h.
     rbind (kmalloc 9 h 40) (\<lambda>(pC, h).
     rbind (kfree 9 h pB) (\<lambda>h.
       kmalloc 9 h 4)))))"

lemma kmalloc_kfree_runs:
  assumes "heap_ok h (pre @ xs @ (b, k, False) # ys)" and "ys = [] \<or> snd (snd (hd ys))"
    and "next_free h = of_nat (fst (hd (xs @ [(b, k, False)])))" and "\<not> snd (snd (hd (xs @ [(b, k, False)])))"
    and "unat sz + 11 < 2 ^ 32" and "\<forall>x \<in> set xs. \<not> fits ((unat sz + 11) div 4 * 4) x"
    and "(unat sz + 11) div 4 * 4 + 8 \<le> k" and "length pre + length xs + length ys < fuel"
  shows "\<exists>h1 h2. kmalloc fuel h sz = Inr (of_nat (b + k - (unat sz + 11) div 4 * 4 + 8), h1) \<and>
    kfree fuel h1 (of_nat (b + k - (unat sz + 11) div 4 * 4 + 8)) = Inr h2 \<and>
    heap_ok h2 (pre @ xs @ (b, k, False) # ys) \<and> next_free h2 = of_nat b"
proof -
  let ?r = "(unat sz + 11) div 4 * 4"
  have "length xs + length ys < fuel" using assms(8) by simp
  from kmalloc_runs [OF assms(1,3,4,5) refl assms(6,7) this] obtain h1 where
    h1: "kmalloc fuel h sz = Inr (of_nat (b + k - ?r + 8), h1)" "next_free h1 = of_nat b"
    and ok: "heap_ok h1 ((pre @ xs) @ (b, k - ?r, False) # (b + k - ?r, ?r, True) # ys)" by auto
  have "length (pre @ xs) < fuel" using assms(8) by simp
  from kfree_runs [OF ok this] obtain m where
    h2: "kfree fuel h1 (of_nat (b + k - ?r + 8)) = Inr (h1\<lparr>kmem := m\<rparr>)"
    and "heap_ok (h1\<lparr>kmem := m\<rparr>) (release (pre @ xs) (b, k - ?r, False) (b + k - ?r) ?r ys)" by blast
  moreover have "release (pre @ xs) (b, k - ?r, False) (b + k - ?r) ?r ys = pre @ xs @ (b, k, False) # ys"
    using assms(2,7) by (cases ys) auto
  ultimately show ?thesis using h1 by auto
qed

section \<open>Properties\<close>

text \<open>
  C13. \<^verbatim>\<open>kmalloc(size)\<close> on a well-formed heap, when the first free block at or behind \<^verbatim>\<open>next_free\<close> that is
  large enough leaves room for a header: it returns the address behind the header of a new block of at
  least \<open>size\<close> bytes cut off the end of that block, the heap stays well formed, the other blocks are
  unchanged, and the interrupt flag is as before.
\<close>

theorem kmalloc_correct:
  assumes "heap_ok h (pre @ xs @ (b, k, False) # ys)"
    and "next_free h = of_nat (fst (hd (xs @ [(b, k, False)])))" and "\<not> snd (snd (hd (xs @ [(b, k, False)])))"
    and "unat sz + 11 < 2 ^ 32" and "r = (unat sz + 11) div 4 * 4"
    and "\<forall>x \<in> set xs. \<not> fits r x" and "r + 8 \<le> k" and "length xs + length ys < fuel"
  shows "\<exists>h'. kmalloc fuel h sz = Inr (of_nat (b + k - r + 8), h') \<and> unat sz + 8 \<le> r \<and>
    heap_ok h' (pre @ xs @ (b, k - r, False) # (b + k - r, r, True) # ys) \<and>
    next_free h' = of_nat b \<and> interrupts h' = interrupts h"
  using kmalloc_runs [OF assms] request_size_nat(5) [OF assms(4)] assms(5) by auto

theorem kmalloc_correct_witness:
  "\<exists>h'. kmalloc 1 demo_heap 10 = Inr (0x10f4, h') \<and> heap_ok h' [(0x1000, 0xec, False), (0x10ec, 20, True)]"
  using kmalloc_correct [of demo_heap "[]" "[]" "0x1000" "0x100" "[]" 10 20 1] demo_heap_ok by (auto simp: demo_heap_def)

text \<open>
  C14. \<^verbatim>\<open>kfree\<close> of a block in use: it returns, the block is joined with the neighbours that are free, the
  heap stays well formed and the interrupt flag is as before.
\<close>

theorem kfree_correct:
  assumes "heap_ok h (pre0 @ (pa, pn, pu) # (a, n, True) # post)" and "length pre0 < fuel"
  shows "\<exists>h'. kfree fuel h (of_nat (a + 8)) = Inr h' \<and> heap_ok h' (release pre0 (pa, pn, pu) a n post) \<and>
    next_free h' = next_free h \<and> interrupts h' = interrupts h"
  using kfree_runs [OF assms] by auto

theorem kfree_correct_witness:
  "\<exists>h'. kfree 1 used_heap 0x10c8 = Inr h' \<and> heap_ok h' [(0x1000, 0x100, False)]"
  using kfree_correct [of used_heap "[]" "0x1000" "0xc0" False "0x10c0" "0x40" "[]" 1] used_heap_ok by auto

text \<open>
  Round trip: releasing the block just allocated gives the heap its blocks back, when the block
  behind the one it was cut from is not free.
\<close>

theorem kmalloc_kfree_roundtrip:
  assumes "heap_ok h (pre @ xs @ (b, k, False) # ys)" and "ys = [] \<or> snd (snd (hd ys))"
    and "next_free h = of_nat (fst (hd (xs @ [(b, k, False)])))" and "\<not> snd (snd (hd (xs @ [(b, k, False)])))"
    and "unat sz + 11 < 2 ^ 32" and "\<forall>x \<in> set xs. \<not> fits ((unat sz + 11) div 4 * 4) x"
    and "(unat sz + 11) div 4 * 4 + 8 \<le> k" and "length pre + length xs + length ys < fuel"
  shows "\<exists>p h1 h2. kmalloc fuel h sz = Inr (p, h1) \<and> kfree fuel h1 p = Inr h2 \<and>
    heap_ok h2 (pre @ xs @ (b, k, False) # ys)"
  using kmalloc_kfree_runs [OF assms] by blast

theorem kmalloc_kfree_roundtrip_witness:
  "\<exists>p h1 h2. kmalloc 1 demo_heap 10 = Inr (p, h1) \<and> kfree 1 h1 p = Inr h2 \<and> heap_ok h2 [(0x1000, 0x100, False)]"
  using kmalloc_kfree_roundtrip [of demo_heap "[]" "[]" "0x1000" "0x100" "[]" 10 1] demo_heap_ok by (simp add: demo_heap_def)

text \<open>
  \<^verbatim>\<open>kfree\<close> leaves \<^verbatim>\<open>next_free\<close> alone when it joins the block \<^verbatim>\<open>next_free\<close> points to with the one in front:
  the next request is then served from a stale header inside a free block. The block it returns is not in
  the ring, and releasing it never ends, whatever the number of steps.
\<close>

theorem kfree_dangling_next_free:
  "\<exists>p h. dangling_run = Inr (p, h) \<and> hsize (kmem h) (kbase h) = 0xd0 \<and> kbase h < p \<and> p < kbase h + 0xd0 \<and>
     (\<forall>fuel. kfree fuel h p = Inl Hang)"
proof -
  have "case dangling_run of Inl e \<Rightarrow> False | Inr (p, h) \<Rightarrow> p = 0x10cc \<and> kbase h = 0x1000 \<and>
      hsize (kmem h) 0x1000 = 0xd0 \<and> kmem h 0x1000 = 0x10d1 \<and> kmem h 0x10d0 = 0x1000"
    by code_simp
  then obtain h where h: "dangling_run = Inr (0x10cc, h)" "kbase h = 0x1000" "hsize (kmem h) 0x1000 = 0xd0"
    "kmem h 0x1000 = 0x10d1" "kmem h 0x10d0 = 0x1000" by (auto split: sum.splits)
  have "find_prev fuel (kmem h) 0x1000 0x10c4 = None \<and> find_prev fuel (kmem h) 0x10d1 0x10c4 = None" for fuel
    by (induction fuel) (simp_all add: hnext_def reset_ptr_def KMALLOC_USED_def h)
  then have "kfree fuel h 0x10cc = Inl Hang" for fuel
    by (simp add: kfree_def header_size_def h(2))
  with h show ?thesis by (intro exI [of _ "0x10cc"] exI [of _ h]) simp
qed

end
