(* ===== verification/KString_Correct.thy ===== *)
theory KString_Correct
  imports KString
begin

unbundle bit_operations_syntax

text \<open>
  Correctness of the copying routines against the simultaneous copy of a range, and of the number printing
  routines against the value of the digits they write.
\<close>

section \<open>Copying\<close>

text \<open>\<open>copied m m' to from n\<close>: the \<open>n\<close> bytes at \<open>from\<close> in \<open>m\<close> are at \<open>to\<close> in \<open>m'\<close>, and nothing else changed.\<close>

definition copied :: "bmem \<Rightarrow> bmem \<Rightarrow> u32 \<Rightarrow> u32 \<Rightarrow> nat \<Rightarrow> bool" where
  "copied m m' to from n \<longleftrightarrow>
     (\<forall>k < n. m' (to + of_nat k) = m (from + of_nat k)) \<and>
     (\<forall>x. (\<forall>k < n. x \<noteq> to + of_nat k) \<longrightarrow> m' x = m x)"

lemma offset_inject:
  assumes "j < 2 ^ 32" and "k < 2 ^ 32"
  shows "(p :: u32) + of_nat j = p + of_nat k \<longleftrightarrow> j = k"
  using assms by (simp only: add_left_cancel of_nat_u32)

lemma move_up_copied:
  assumes "n \<le> 2 ^ 32" and "\<And>j k. j < k \<Longrightarrow> k < n \<Longrightarrow> src + of_nat k \<noteq> out + of_nat j"
  shows "copied m (move_up out src n m) out src n"
  using assms
proof (induction n arbitrary: out src m)
  case (Suc n)
  let ?m1 = "m(out := m src)"
  have "copied ?m1 (move_up (out + 1) (src + 1) n ?m1) (out + 1) (src + 1) n"
  proof (rule Suc.IH)
    show "src + 1 + of_nat k \<noteq> out + 1 + of_nat j" if "j < k" "k < n" for j k
      using Suc.prems(2) [of "Suc j" "Suc k"] that by (simp add: algebra_simps)
  qed (use Suc.prems(1) in simp)
  then have ih: "\<And>k. k < n \<Longrightarrow> move_up (out + 1) (src + 1) n ?m1 (out + of_nat (Suc k)) = ?m1 (src + of_nat (Suc k))"
    "\<And>x. (\<forall>k < n. x \<noteq> out + of_nat (Suc k)) \<Longrightarrow> move_up (out + 1) (src + 1) n ?m1 x = ?m1 x"
    by (simp_all add: copied_def algebra_simps)
  have first: "move_up (out + 1) (src + 1) n ?m1 out = m src"
  proof -
    have "out \<noteq> out + of_nat (Suc k)" if "k < n" for k
      using offset_inject [of 0 "Suc k" out] that Suc.prems(1) by simp
    then show ?thesis using ih(2) [of out] by simp
  qed
  have rest: "move_up (out + 1) (src + 1) n ?m1 (out + of_nat (Suc k)) = m (src + of_nat (Suc k))" if "k < n" for k
    using ih(1) [OF that] Suc.prems(2) [of 0 "Suc k"] that by simp
  show ?case
    unfolding copied_def move_up.simps
  proof (intro conjI allI impI)
    fix k assume "k < Suc n"
    then show "move_up (out + 1) (src + 1) n ?m1 (out + of_nat k) = m (src + of_nat k)"
      using first rest by (cases k) simp_all
  next
    fix x assume x: "\<forall>k < Suc n. x \<noteq> out + of_nat k"
    then have "x \<noteq> out" using x [rule_format, of 0] by simp
    moreover have "\<forall>k < n. x \<noteq> out + of_nat (Suc k)" using x by blast
    ultimately show "move_up (out + 1) (src + 1) n ?m1 x = m x" using ih(2) [of x] by simp
  qed
qed (simp add: copied_def)

lemma copy_loop_move_up: "copy_loop d s i n m = move_up (d + of_nat i) (s + of_nat i) n m"
  by (induction n arbitrary: i m) (simp_all add: algebra_simps)

lemma move_down_copied:
  assumes "n \<le> 2 ^ 32" and "\<And>j k. j < k \<Longrightarrow> k < n \<Longrightarrow> from + of_nat j \<noteq> to + of_nat k"
  shows "copied m (move_down (to + of_nat n) (from + of_nat n) n m) to from n"
  using assms
proof (induction n arbitrary: m)
  case (Suc n)
  let ?m1 = "m(to + of_nat n := m (from + of_nat n))"
  let ?r = "move_down (to + of_nat n) (from + of_nat n) n ?m1"
  have ih: "copied ?m1 ?r to from n" using Suc.prems by (intro Suc.IH) simp_all
  have "to + of_nat n \<noteq> to + of_nat k" if "k < n" for k using offset_inject [of n k to] that Suc.prems(1) by simp
  then have last: "?r (to + of_nat n) = m (from + of_nat n)" using ih by (simp add: copied_def)
  have rest: "?r (to + of_nat k) = m (from + of_nat k)" if "k < n" for k
    using ih that Suc.prems(2) [of k n] by (simp add: copied_def)
  have step: "move_down (to + of_nat (Suc n)) (from + of_nat (Suc n)) (Suc n) m = ?r"
    by (simp add: algebra_simps)
  show ?case
    unfolding step copied_def
  proof (intro conjI allI impI)
    fix k assume "k < Suc n"
    then show "?r (to + of_nat k) = m (from + of_nat k)" using last rest by (cases "k = n") simp_all
  next
    fix x assume "\<forall>k < Suc n. x \<noteq> to + of_nat k"
    then show "?r x = m x" using ih by (simp add: copied_def less_Suc_eq)
  qed
qed (simp add: copied_def)

lemma offset_unat: "unat (p :: u32) + k < 2 ^ 32 \<Longrightarrow> unat (p + of_nat k) = unat p + k"
  by (simp add: unat_word_ariths unsigned_of_nat take_bit_nat_eq_self)

section \<open>Digits\<close>

definition horner :: "nat \<Rightarrow> nat list \<Rightarrow> nat" where
  "horner b ds = foldl (\<lambda>a d. b * a + d) 0 ds"

lemma horner_Cons: "horner b (d # ds) = d * b ^ length ds + horner b ds"
proof -
  have "foldl (\<lambda>a d. b * a + d) a ds = a * b ^ length ds + foldl (\<lambda>a d. b * a + d) 0 ds" for a
  proof (induction ds arbitrary: a)
    case (Cons d ds)
    have c1: "foldl (\<lambda>a d. b * a + d) a (d # ds) = (b * a + d) * b ^ length ds + foldl (\<lambda>a d. b * a + d) 0 ds"
      unfolding foldl.simps by (rule Cons)
    have c2: "foldl (\<lambda>a d. b * a + d) 0 (d # ds) = d * b ^ length ds + foldl (\<lambda>a d. b * a + d) 0 ds"
      unfolding foldl.simps using Cons [of d] by simp
    show ?case unfolding c1 c2 by (simp add: algebra_simps)
  qed simp
  from this [of d] show ?thesis by (simp add: horner_def)
qed

lemma horner_digits: "horner b (rev (map (\<lambda>k. n div b ^ k mod b) [0..<N])) = n mod b ^ N"
proof (induction N)
  case (Suc N)
  have "n mod b ^ Suc N = b ^ N * (n div b ^ N mod b) + n mod b ^ N"
    by (simp add: mod_mult2_eq mult.commute [of b])
  with Suc show ?case by (simp add: horner_Cons mult.commute)
qed (simp add: horner_def)

definition hex_digit :: "u8 \<Rightarrow> nat" where
  "hex_digit c = (if 0x61 \<le> c then unat c - 0x57 else unat c - 0x30)"

definition dec_digit :: "u8 \<Rightarrow> nat" where
  "dec_digit c = unat c - 0x30"

lemma hex_digit_char:
  assumes "d < 16"
  shows "hex_digit (hex_char (of_nat d)) = d"
proof -
  have "\<forall>d \<in> set [0..<16]. hex_digit (hex_char (of_nat d)) = d" by code_simp
  with assms show ?thesis by simp
qed

lemma dec_digit_char:
  assumes "d < 10"
  shows "dec_digit (0x30 + ucast (of_nat d :: u32)) = d"
proof -
  have "\<forall>d \<in> set [0..<10]. dec_digit (0x30 + ucast (of_nat d :: u32)) = d" by code_simp
  with assms show ?thesis by simp
qed

section \<open>Hexadecimal\<close>

definition hex_at :: "u32 \<Rightarrow> nat \<Rightarrow> u32" where
  "hex_at str k = str + 9 - of_nat k"

lemma hex_at_inject: "j < 2 ^ 32 \<Longrightarrow> k < 2 ^ 32 \<Longrightarrow> hex_at str j = hex_at str k \<longleftrightarrow> j = k"
  unfolding hex_at_def using of_nat_u32 [of j k] by simp

lemma hex_loop_digits:
  assumes "unat num < 16 ^ (8 - i)" and "i \<le> 8" and "k < 10"
  shows "hex_loop i num str m (hex_at str k) =
    (if i \<le> k \<and> unat num div 16 ^ (k - i) \<noteq> 0 then hex_char (of_nat (unat num div 16 ^ (k - i) mod 16)) else m (hex_at str k))"
  using assms
proof (induction i num str m rule: hex_loop.induct)
  case (1 i num str m)
  show ?case
  proof (cases "num = 0")
    case False
    then have i: "i < 8" using 1(2,3) by (cases "i = 8") (auto simp: word_unat_eq_iff)
    have d: "unat (num div 0x10) = unat num div 16" by (simp add: unat_div)
    have "8 - i = Suc (8 - Suc i)" using i by simp
    then have "unat num < 16 ^ (8 - Suc i) * 16" using 1(2) by simp
    then have "unat num div 16 < 16 ^ (8 - Suc i)" by (rule less_mult_imp_div_less)
    then have p: "unat (num div 0x10) < 16 ^ (8 - Suc i)" "Suc i \<le> 8" using d i by simp_all
    note ih = 1(1) [OF False p 1(4), folded hex_at_def, unfolded d]
    have low: "hex_char (num mod 0x10) = hex_char (of_nat (unat num mod 16))"
    proof -
      have "num mod 0x10 = of_nat (unat num mod 16)"
        by (simp add: word_unat_eq_iff unat_mod unsigned_of_nat take_bit_nat_eq_self)
      then show ?thesis by simp
    qed
    have step: "hex_loop i num str m = hex_loop (Suc i) (num div 0x10) str (m(hex_at str i := hex_char (num mod 0x10)))"
      using False by (simp add: hex_loop.simps [of i num] hex_at_def)
    have pw: "unat num div 16 div 16 ^ (k - Suc i) = unat num div 16 ^ (k - i)" if "Suc i \<le> k"
    proof -
      have "k - i = Suc (k - Suc i)" using that by simp
      then show ?thesis by (simp add: div_mult2_eq [symmetric])
    qed
    have nz: "unat num \<noteq> 0" using False by (simp add: unat_eq_0)
    show ?thesis
      unfolding step ih using pw low nz hex_at_inject [of i k str] i 1(4) by (cases "i = k") auto
  qed (simp add: hex_loop.simps)
qed

lemma zero_digits_at:
  "i + n \<le> 2 ^ 32 \<Longrightarrow> j < 2 ^ 32 \<Longrightarrow>
    zero_digits str i n m (str + of_nat j) = (if i \<le> j \<and> j < i + n then 0x30 else m (str + of_nat j))"
proof (induction n arbitrary: i m)
  case (Suc n)
  then show ?case using offset_inject [of i j str] by (auto simp del: of_nat_add)
qed auto

lemma zero_frame: "\<forall>k \<in> {i..<i + n}. x \<noteq> str + of_nat k \<Longrightarrow> zero_digits str i n m x = m x"
proof (induction n arbitrary: i m)
  case (Suc n)
  then have "zero_digits str (Suc i) n (m(str + of_nat i := 0x30)) x = (m(str + of_nat i := 0x30)) x" by (intro Suc.IH) auto
  moreover have "x \<noteq> str + of_nat i" using Suc.prems by simp
  ultimately show ?case by simp
qed simp

lemma hex_loop_frame:
  assumes "unat num < 16 ^ (8 - i)" and "i \<le> 8" and "\<forall>k < 8. x \<noteq> hex_at str k"
  shows "hex_loop i num str m x = m x"
  using assms
proof (induction i num str m rule: hex_loop.induct)
  case (1 i num str m)
  show ?case
  proof (cases "num = 0")
    case False
    then have i: "i < 8" using 1(2,3) by (cases "i = 8") (auto simp: word_unat_eq_iff)
    then have "8 - i = Suc (8 - Suc i)" by simp
    then have "unat num < 16 ^ (8 - Suc i) * 16" using 1(2) by simp
    then have "unat (num div 0x10) < 16 ^ (8 - Suc i)" by (simp add: unat_div less_mult_imp_div_less)
    note ih = 1(1) [OF False this _ 1(4), folded hex_at_def]
    have "hex_loop (Suc i) (num div 0x10) str (m(hex_at str i := hex_char (num mod 0x10))) x =
        (m(hex_at str i := hex_char (num mod 0x10))) x"
      by (rule ih) (use i in simp)
    moreover have "hex_loop i num str m = hex_loop (Suc i) (num div 0x10) str (m(hex_at str i := hex_char (num mod 0x10)))"
      using False by (simp add: hex_loop.simps [of i num] hex_at_def)
    ultimately show ?thesis using i 1(4) by simp
  qed (simp add: hex_loop.simps)
qed

section \<open>Decimal\<close>

lemma fig_loop_power:
  "tmp \<noteq> 0 \<Longrightarrow> \<exists>e. 10 ^ e \<le> tmp \<and> tmp < 10 ^ Suc e \<and> fig_loop tmp fig = fig * 10 ^ Suc e"
proof (induction tmp arbitrary: fig rule: less_induct)
  case (less tmp)
  show ?case
  proof (cases "tmp < 10")
    case True
    then have "tmp div 10 = 0" by simp
    then have "fig_loop tmp fig = fig * 10" using less.prems by (simp add: fig_loop.simps [of tmp] fig_loop.simps [of 0])
    then show ?thesis using True less.prems by (intro exI [of _ 0]) simp
  next
    case False
    then have "tmp div 10 < tmp" "tmp div 10 \<noteq> 0" by (simp_all add: div_eq_0_iff)
    from less.IH [OF this, of "fig * 10"] obtain e where
      e: "10 ^ e \<le> tmp div 10" "tmp div 10 < 10 ^ Suc e" "fig_loop (tmp div 10) (fig * 10) = fig * 10 * 10 ^ Suc e" by blast
    have "10 ^ Suc e \<le> tmp" "tmp < 10 ^ Suc (Suc e)"
      using e(1,2) by (simp_all add: less_eq_div_iff_mult_less_eq div_less_iff_less_mult mult.commute)
    moreover have "fig_loop tmp fig = fig * 10 ^ Suc (Suc e)"
      using e(3) less.prems by (simp add: fig_loop.simps [of tmp] mult.assoc)
    ultimately show ?thesis by blast
  qed
qed

text \<open>The digits that the second loop writes, from a power of ten that fits a machine word.\<close>

lemma digit_loop_spec:
  assumes "n < 10 ^ Suc j" and "j \<le> 9" and "i + Suc j \<le> 100" and "n < 2 ^ 32"
  shows "\<exists>m'. digit_loop i (of_nat n) (of_nat (10 ^ j)) str m = (i + Suc j, m') \<and>
    (\<forall>k \<le> j. m' (str + of_nat (i + k)) = 0x30 + ucast (of_nat (n div 10 ^ (j - k) mod 10) :: u32)) \<and>
    (\<forall>x. (\<forall>k \<le> j. x \<noteq> str + of_nat (i + k)) \<longrightarrow> m' x = m x)"
  using assms
proof (induction j arbitrary: i n m)
  case 0
  have "(of_nat n :: u32) div 1 = of_nat n" "(10 :: u32) ^ 0 div 10 = 0" by simp_all
  then have "digit_loop i (of_nat n) (of_nat (10 ^ 0)) str m = (Suc i, m(str + of_nat i := 0x30 + ucast (of_nat n :: u32)))"
    by (simp add: digit_loop.simps [of i] digit_loop.simps [of "Suc i"])
  with 0 show ?case by simp
next
  case (Suc j)
  have j: "j \<le> 8" using Suc.prems(2) by simp
  have "(10 :: nat) ^ Suc j \<le> 10 ^ 9" using j by (intro power_increasing) simp_all
  then have small: "(10 :: nat) ^ Suc j < 2 ^ 32" by simp
  note dm = of_nat_u32_div_mod [OF Suc.prems(4) small]
  have nz: "(of_nat (10 ^ Suc j) :: u32) \<noteq> 0" using of_nat_u32 [OF small, of 0] by simp
  have fig: "(of_nat (10 ^ Suc j) :: u32) div 10 = of_nat (10 ^ j)"
    using of_nat_u32_div_mod(1) [OF small, of 10] by simp
  let ?q = "n div 10 ^ Suc j" and ?n = "n mod 10 ^ Suc j"
  let ?m1 = "m(str + of_nat i := 0x30 + ucast (of_nat ?q :: u32))"
  have q: "?q mod 10 = ?q" using Suc.prems(1) by (simp add: less_mult_imp_div_less)
  have step: "digit_loop i (of_nat n) (of_nat (10 ^ Suc j)) str m = digit_loop (Suc i) (of_nat ?n) (of_nat (10 ^ j)) str ?m1"
    unfolding digit_loop.simps [of i] using nz by (simp only: dm fig if_True simp_thms)
  have "?n < 10 ^ Suc j" by simp
  moreover from this have "?n < 2 ^ 32" using small by (rule less_trans)
  ultimately obtain m' where m': "digit_loop (Suc i) (of_nat ?n) (of_nat (10 ^ j)) str ?m1 = (Suc i + Suc j, m')"
    "\<And>k. k \<le> j \<Longrightarrow> m' (str + of_nat (Suc i + k)) = 0x30 + ucast (of_nat (?n div 10 ^ (j - k) mod 10) :: u32)"
    "\<And>x. (\<forall>k \<le> j. x \<noteq> str + of_nat (Suc i + k)) \<Longrightarrow> m' x = ?m1 x"
    using Suc.IH [of ?n "Suc i" ?m1] j Suc.prems(3) by fastforce
  have dig: "?n div 10 ^ (j - k) mod 10 = n div 10 ^ (Suc j - Suc k) mod 10" if "k \<le> j" for k
  proof -
    have "(10 :: nat) ^ Suc j = 10 ^ (j - k) * 10 ^ Suc k" using that by (simp add: power_add [symmetric])
    then have "?n div 10 ^ (j - k) = n div 10 ^ (j - k) mod 10 ^ Suc k" by (simp only: mod_mult2_eq) simp
    also have "\<dots> mod 10 = n div 10 ^ (j - k) mod 10" by (rule mod_mod_cancel) simp
    finally show ?thesis by simp
  qed
  have "m' (str + of_nat i) = 0x30 + ucast (of_nat ?q :: u32)"
  proof -
    have "str + of_nat i \<noteq> str + of_nat (Suc i + k)" if "k \<le> j" for k
      using offset_inject [of i "Suc i + k" str] that Suc.prems(3) by simp
    then show ?thesis using m'(3) [of "str + of_nat i"] by simp
  qed
  then have "m' (str + of_nat (i + k)) = 0x30 + ucast (of_nat (n div 10 ^ (Suc j - k) mod 10) :: u32)" if "k \<le> Suc j" for k
    using that m'(2) [of "k - 1"] dig [of "k - 1"] q by (cases k) simp_all
  moreover have "m' x = m x" if x: "\<forall>k \<le> Suc j. x \<noteq> str + of_nat (i + k)" for x
  proof -
    have "\<forall>k \<le> j. x \<noteq> str + of_nat (Suc i + k)" using x by (metis Suc_le_mono add_Suc add_Suc_right)
    moreover have "x \<noteq> str + of_nat i" using x [rule_format, of 0] by simp
    ultimately show ?thesis using m'(3) [of x] by simp
  qed
  ultimately show ?case using step m'(1) by auto
qed

section \<open>Properties\<close>

text \<open>
  C30. \<^verbatim>\<open>memmove\<close> copies as if through a buffer, for every overlap of the two ranges: the bytes of the source
  range before the call are in the destination range after it, and no other byte changes.
\<close>

theorem memmove_correct:
  assumes "unat to + n < 2 ^ 32" and "unat from + n < 2 ^ 32"
  shows "copied m (memmove to from n m) to from n"
proof -
  have n: "n \<le> 2 ^ 32" using assms(1) by simp
  have a: "unat (to + of_nat k) = unat to + k" "unat (from + of_nat k) = unat from + k" if "k \<le> n" for k
    using that assms by (simp_all add: offset_unat)
  have ne: "from + of_nat k \<noteq> to + of_nat j" if "k \<le> n" "j \<le> n" "unat from + k \<noteq> unat to + j" for j k
    using a [OF that(1)] a [OF that(2)] that(3) by metis
  consider "n = 0" | "0 < n" "from + of_nat n \<le> to \<or> to + of_nat n \<le> from"
    | "0 < n" "\<not> (from + of_nat n \<le> to \<or> to + of_nat n \<le> from)" "to < from"
    | "0 < n" "\<not> (from + of_nat n \<le> to \<or> to + of_nat n \<le> from)" "\<not> to < from" by blast
  then show ?thesis
  proof cases
    case 1
    then show ?thesis by (simp add: memmove_def copied_def)
  next
    case 2
    then have "unat from + n \<le> unat to \<or> unat to + n \<le> unat from" using a [of n] by (simp add: word_le_nat_alt)
    then have "copied m (move_up to from n m) to from n" using n by (intro move_up_copied ne) auto
    with 2 show ?thesis by (simp add: memmove_def memcpy_def copy_loop_move_up)
  next
    case 3
    then have "unat to < unat from" by (simp add: word_less_nat_alt)
    then have "copied m (move_up to from n m) to from n" using n by (intro move_up_copied ne) auto
    with 3 show ?thesis by (simp add: memmove_def)
  next
    case 4
    then have "unat from \<le> unat to" by (simp add: word_less_nat_alt)
    then have "copied m (move_down (to + of_nat n) (from + of_nat n) n m) to from n"
      using n by (intro move_down_copied ne) auto
    with 4 show ?thesis by (simp add: memmove_def)
  qed
qed

theorem memmove_correct_witness:
  "(let m = (\<lambda>_. 0)(0x100 := 1, 0x101 := 2, 0x102 := 3) in
    map (memmove 0x101 0x100 3 m) [0x101, 0x102, 0x103] = [1, 2, 3])"
proof -
  define m :: bmem where "m = (\<lambda>_. 0)(0x100 := 1, 0x101 := 2, 0x102 := 3)"
  have "copied m (memmove 0x101 0x100 3 m) 0x101 0x100 3" by (rule memmove_correct) simp_all
  then have "memmove 0x101 0x100 3 m (0x101 + of_nat k) = m (0x100 + of_nat k)" if "k < 3" for k
    using that by (simp add: copied_def)
  from this [of 0] this [of 1] this [of 2] show ?thesis by (simp add: m_def Let_def)
qed

text \<open>
  \<^verbatim>\<open>num2str_hex\<close> writes \<^verbatim>\<open>0x\<close> and eight hexadecimal digits whose value is the number, and changes no byte
  outside these ten.
\<close>

theorem num2str_hex_roundtrip:
  "let m' = num2str_hex num str m in
     m' str = 0x30 \<and> m' (str + 1) = 0x78 \<and>
     horner 16 (map (\<lambda>k. hex_digit (m' (str + of_nat k))) [2..<10]) = unat num \<and>
     (\<forall>x. (\<forall>k \<in> {0..<10}. x \<noteq> str + of_nat k) \<longrightarrow> m' x = m x)"
proof -
  define m0 where "m0 = zero_digits str 2 8 (m(str := 0x30, str + 1 := 0x78))"
  define m' where "m' = num2str_hex num str m"
  have m': "m' = hex_loop 0 num str m0" by (simp add: m'_def m0_def num2str_hex_def)
  have lt: "unat num < 16 ^ (8 - 0)" using unsigned_less [of num] by simp
  have at: "hex_at str k = str + of_nat (9 - k)" if "k < 10" for k
    using that by (simp add: hex_at_def of_nat_diff)
  have zero: "m0 (str + of_nat j) = (if j = 0 then 0x30 else if j = 1 then 0x78 else if j < 10 then 0x30 else m (str + of_nat j))"
    if "j < 2 ^ 32" for j
    using that zero_digits_at [of 2 8 j str "m(str := 0x30, str + 1 := 0x78)"] offset_inject [of j 0 str] offset_inject [of j 1 str]
    by (simp add: m0_def)
  have dig: "m' (hex_at str k) = hex_char (of_nat (unat num div 16 ^ k mod 16))" if "k < 8" for k
  proof -
    have "9 - k \<noteq> 0" "9 - k \<noteq> 1" "9 - k < 10" "k < 10" using that by linarith+
    moreover have "9 - k < 2 ^ 32" by simp
    ultimately have "m0 (hex_at str k) = 0x30" using zero [of "9 - k"] by (simp only: at if_False if_True)
    moreover have "hex_char 0 = 0x30" by (simp add: hex_char_def)
    ultimately show ?thesis using hex_loop_digits [OF lt _, of k str m0] that by (simp add: m')
  qed
  have high: "unat num div 16 ^ k = 0" if "8 \<le> k" for k
    using that lt power_increasing [of 8 k "16 :: nat"] by simp
  have pre: "m' (hex_at str k) = m0 (hex_at str k)" if "8 \<le> k" "k < 10" for k
    using hex_loop_digits [OF lt _ that(2), of str m0] high [OF that(1)] by (simp add: m')
  have "map (\<lambda>k. hex_digit (m' (str + of_nat k))) [2..<10] = rev (map (\<lambda>k. hex_digit (m' (hex_at str k))) [0..<8])"
  proof -
    have "[0..<8] = [0, 1, 2, 3, 4, 5, 6, 7 :: nat]" by (simp add: upt_rec)
    then show ?thesis by (simp add: at)
  qed
  also have "\<dots> = rev (map (\<lambda>k. unat num div 16 ^ k mod 16) [0..<8])"
  proof -
    have "hex_digit (m' (hex_at str k)) = unat num div 16 ^ k mod 16" if "k < 8" for k
      unfolding dig [OF that] by (rule hex_digit_char) simp
    then have "map (\<lambda>k. hex_digit (m' (hex_at str k))) [0..<8] = map (\<lambda>k. unat num div 16 ^ k mod 16) [0..<8]"
      by (intro map_cong) auto
    then show ?thesis by (simp only:)
  qed
  finally have "horner 16 (map (\<lambda>k. hex_digit (m' (str + of_nat k))) [2..<10]) = unat num mod 16 ^ 8"
    by (simp only: horner_digits)
  moreover have "m' str = 0x30" "m' (str + 1) = 0x78"
    using pre [of 9] pre [of 8] at [of 9] at [of 8] zero [of 0] zero [of 1] by simp_all
  moreover have "m' x = m x" if "\<forall>k \<in> {0..<10}. x \<noteq> str + of_nat k" for x
  proof -
    have "x \<noteq> hex_at str k" if k: "k < 8" for k
    proof -
      have "9 - k \<in> {0..<10}" "k < 10" using k by auto
      then show ?thesis using \<open>\<forall>k \<in> {0..<10}. x \<noteq> str + of_nat k\<close> by (simp only: at) blast
    qed
    then have "m' x = m0 x" unfolding m' using lt by (intro hex_loop_frame) auto
    also have "\<dots> = m x"
    proof -
      have "x \<noteq> str" "x \<noteq> str + 1" using that [rule_format, of 0] that [rule_format, of 1] by simp_all
      moreover have "\<forall>k \<in> {2..<2 + 8}. x \<noteq> str + of_nat k" using that by simp
      ultimately show ?thesis unfolding m0_def by (simp only: zero_frame fun_upd_other not_False_eq_True)
    qed
    finally show ?thesis .
  qed
  ultimately show ?thesis unfolding m'_def [symmetric] Let_def using lt by simp
qed

theorem num2str_hex_roundtrip_witness:
  "horner 16 (map (\<lambda>k. hex_digit (num2str_hex 0xbeef 0x2000 (\<lambda>_. 0) (0x2000 + of_nat k))) [2..<10]) = 0xbeef"
  using num2str_hex_roundtrip [of "0xbeef" "0x2000" "\<lambda>_. 0"] unfolding Let_def by simp

text \<open>
  \<^verbatim>\<open>num2str\<close> on a positive number below \<open>10 ^ 9\<close>: it writes decimal digits whose value is the number,
  without a leading zero, and a terminating zero byte behind them.
\<close>

theorem num2str_correct:
  assumes "0 < num" and "num < 10 ^ 9"
  shows "\<exists>e m'. num2str 1 (int num) str m = Inr m' \<and> m' (str + of_nat (Suc e)) = 0 \<and>
    horner 10 (map (\<lambda>k. dec_digit (m' (str + of_nat k))) [0..<Suc e]) = num \<and> 10 ^ e \<le> num"
proof -
  obtain e where e: "10 ^ e \<le> num" "num < 10 ^ Suc e" "fig_loop num 1 = 10 ^ Suc e"
    using fig_loop_power [of num 1] assms(1) by auto
  have "(10 :: nat) ^ e < 10 ^ 9" using e(1) assms(2) by (rule le_less_trans)
  then have e9: "e < 9" by (rule power_less_imp_less_exp [rotated]) simp
  then have "(10 :: nat) ^ Suc e \<le> 10 ^ 9" by (intro power_increasing) simp_all
  then have small: "(10 :: nat) ^ Suc e < 2 ^ 32" by simp
  have fig: "fig_loop num 1 div 10 = of_nat (10 ^ e)"
    using of_nat_u32_div_mod(1) [OF small, of 10] e(3) by simp
  obtain m' where m': "digit_loop 0 (of_nat num) (of_nat (10 ^ e)) str m = (Suc e, m')"
    "\<And>k. k \<le> e \<Longrightarrow> m' (str + of_nat k) = 0x30 + ucast (of_nat (num div 10 ^ (e - k) mod 10) :: u32)"
    using digit_loop_spec [OF e(2), of 0 str m] e9 assms(2) by auto
  let ?m = "m'(str + of_nat (Suc e) := 0)"
  have run: "num2str 1 (int num) str m = Inr ?m"
    using assms(1) m'(1) fig by (simp add: numeral_eq_Suc)
  have dig: "dec_digit (?m (str + of_nat k)) = num div 10 ^ (e - k) mod 10" if "k < Suc e" for k
    using that m'(2) [of k] dec_digit_char [of "num div 10 ^ (e - k) mod 10"] offset_inject [of k "Suc e" str] e9
    by (simp del: of_nat_Suc)
  have "map (\<lambda>k. dec_digit (?m (str + of_nat k))) [0..<Suc e] = map (\<lambda>k. num div 10 ^ (e - k) mod 10) [0..<Suc e]"
    by (rule map_cong [OF refl]) (rule dig, auto)
  also have "\<dots> = rev (map (\<lambda>k. num div 10 ^ k mod 10) [0..<Suc e])"
    by (rule nth_equalityI) (auto simp: rev_nth simp del: upt_Suc)
  finally have "horner 10 (map (\<lambda>k. dec_digit (?m (str + of_nat k))) [0..<Suc e]) = num mod 10 ^ Suc e"
    by (simp only: horner_digits)
  then show ?thesis using run e by (intro exI [of _ e] exI [of _ ?m]) (simp del: upt_Suc of_nat_Suc)
qed

theorem num2str_correct_witness:
  "\<exists>e m'. num2str 1 120459 0x3000 (\<lambda>_. 0) = Inr m' \<and>
     horner 10 (map (\<lambda>k. dec_digit (m' (0x3000 + of_nat k))) [0..<Suc e]) = 120459"
  using num2str_correct [of 120459 "0x3000" "\<lambda>_. 0"] by (auto simp del: upt_Suc)

text \<open>
  Outside that range \<^verbatim>\<open>num2str\<close> fails: the power of ten of a ten-digit number does not fit its 32-bit
  variable, so that the first character written for 2000000000 is not a digit, and the least integer sends
  the routine into a recursion that never ends.
\<close>

theorem num2str_overflow:
  "(\<exists>m'. num2str 1 2000000000 str m = Inr m' \<and> m' str = 0x3e) \<and>
   (\<forall>fuel. num2str fuel (- (2 ^ 31)) str m = Inl Hang)"
proof
  have fig: "fig_loop 2000000000 1 div 10 = 141006540" by (simp add: fig_loop.simps)
  have "\<exists>m'. digit_loop 0 2000000000 141006540 str m = (9, m') \<and> m' str = 0x3e"
    by (simp add: digit_loop.simps)
  then show "\<exists>m'. num2str 1 2000000000 str m = Inr m' \<and> m' str = 0x3e" using fig by auto
  have "abs32 (- (2 ^ 31)) = - (2 ^ 31)" by code_simp
  then show "\<forall>fuel. num2str fuel (- (2 ^ 31)) str m = Inl Hang"
  proof (intro allI)
    fix fuel show "num2str fuel (- (2 ^ 31)) str m = Inl Hang"
      using \<open>abs32 (- (2 ^ 31)) = - (2 ^ 31)\<close> by (induction fuel arbitrary: str m) simp_all
  qed
qed

end
