(* ===== verification/Ata.thy ===== *)
theory Ata
  imports Port_IO Kmalloc KString
begin

unbundle bit_operations_syntax

text \<open>
  The ATA driver of the file system, \<^verbatim>\<open>src/kernel/ata.cpp\<close> and \<^verbatim>\<open>src/include/os/ata.h\<close>: register access on two
  channels, identification of up to four drives, sector transfers in the three addressing modes, ejecting
  a medium, and \<^verbatim>\<open>read\<close> and \<^verbatim>\<open>write\<close> of byte ranges.

  The ports are the interface of \<open>Port_IO\<close>, with one more function: whether an interrupt of the drive comes
  in before the next test of \<^verbatim>\<open>ide_irq_invoked\<close>. The state has the static members of the class, \<^verbatim>\<open>package[0]\<close> of
  the object, the bytes of memory and the kernel heap. The words of the heap headers and the bytes of the
  buffers are kept apart; a copy that would leave the buffer it was given is the outcome
  \<open>Inl Out_of_bounds\<close>. Segments are flat. The polling loops take fuel, and so do the walks of the heap;
  \<open>Inl Hang\<close> says that it did not suffice.
\<close>

section \<open>Constants\<close>

definition ATA_SR_BSY :: u8 where "ATA_SR_BSY = 0x80"
definition ATA_SR_DF :: u8 where "ATA_SR_DF = 0x20"
definition ATA_SR_DRQ :: u8 where "ATA_SR_DRQ = 0x8"
definition ATA_SR_ERR :: u8 where "ATA_SR_ERR = 0x1"
definition ATA_ER_BBK :: u8 where "ATA_ER_BBK = 0x80"
definition ATA_ER_UNC :: u8 where "ATA_ER_UNC = 0x40"
definition ATA_ER_MC :: u8 where "ATA_ER_MC = 0x20"
definition ATA_ER_IDNF :: u8 where "ATA_ER_IDNF = 0x10"
definition ATA_ER_MCR :: u8 where "ATA_ER_MCR = 0x8"
definition ATA_ER_ABRT :: u8 where "ATA_ER_ABRT = 0x4"
definition ATA_ER_TK0NF :: u8 where "ATA_ER_TK0NF = 0x2"
definition ATA_ER_AMNF :: u8 where "ATA_ER_AMNF = 0x1"
definition ATA_CMD_READ_PIO :: u8 where "ATA_CMD_READ_PIO = 0x20"
definition ATA_CMD_READ_PIO_EXT :: u8 where "ATA_CMD_READ_PIO_EXT = 0x24"
definition ATA_CMD_READ_DMA :: u8 where "ATA_CMD_READ_DMA = 0xc8"
definition ATA_CMD_READ_DMA_EXT :: u8 where "ATA_CMD_READ_DMA_EXT = 0x25"
definition ATA_CMD_WRITE_PIO :: u8 where "ATA_CMD_WRITE_PIO = 0x30"
definition ATA_CMD_WRITE_PIO_EXT :: u8 where "ATA_CMD_WRITE_PIO_EXT = 0x34"
definition ATA_CMD_WRITE_DMA :: u8 where "ATA_CMD_WRITE_DMA = 0xca"
definition ATA_CMD_WRITE_DMA_EXT :: u8 where "ATA_CMD_WRITE_DMA_EXT = 0x35"
definition ATA_CMD_CACHE_FLUSH :: u8 where "ATA_CMD_CACHE_FLUSH = 0xe7"
definition ATA_CMD_CACHE_FLUSH_EXT :: u8 where "ATA_CMD_CACHE_FLUSH_EXT = 0xea"
definition ATA_CMD_PACKET :: u8 where "ATA_CMD_PACKET = 0xa0"
definition ATA_CMD_IDENTIFY_PACKET :: u8 where "ATA_CMD_IDENTIFY_PACKET = 0xa1"
definition ATA_CMD_IDENTIFY :: u8 where "ATA_CMD_IDENTIFY = 0xec"
definition ATAPI_CMD_EJECT :: u8 where "ATAPI_CMD_EJECT = 0x1b"
definition ATA_REG_DATA :: u8 where "ATA_REG_DATA = 0x0"
definition ATA_REG_ERROR :: u8 where "ATA_REG_ERROR = 0x1"
definition ATA_REG_SECCOUNT0 :: u8 where "ATA_REG_SECCOUNT0 = 0x2"
definition ATA_REG_LBA0 :: u8 where "ATA_REG_LBA0 = 0x3"
definition ATA_REG_LBA1 :: u8 where "ATA_REG_LBA1 = 0x4"
definition ATA_REG_LBA2 :: u8 where "ATA_REG_LBA2 = 0x5"
definition ATA_REG_HDDEVSEL :: u8 where "ATA_REG_HDDEVSEL = 0x6"
definition ATA_REG_COMMAND :: u8 where "ATA_REG_COMMAND = 0x7"
definition ATA_REG_STATUS :: u8 where "ATA_REG_STATUS = 0x7"
definition ATA_REG_SECCOUNT1 :: u8 where "ATA_REG_SECCOUNT1 = 0x8"
definition ATA_REG_LBA3 :: u8 where "ATA_REG_LBA3 = 0x9"
definition ATA_REG_LBA4 :: u8 where "ATA_REG_LBA4 = 0xa"
definition ATA_REG_LBA5 :: u8 where "ATA_REG_LBA5 = 0xb"
definition ATA_REG_CONTROL :: u8 where "ATA_REG_CONTROL = 0xc"
definition ATA_REG_ALTSTATUS :: u8 where "ATA_REG_ALTSTATUS = 0xc"
definition ATA_PRIMARY :: u8 where "ATA_PRIMARY = 0x0"
definition ATA_SECONDARY :: u8 where "ATA_SECONDARY = 0x1"
definition ATA_READ :: u8 where "ATA_READ = 0x0"
definition ATA_WRITE :: u8 where "ATA_WRITE = 0x1"
definition ATA_IDENT_DEVICETYPE :: u32 where "ATA_IDENT_DEVICETYPE = 0"
definition ATA_IDENT_MODEL :: u32 where "ATA_IDENT_MODEL = 54"
definition ATA_IDENT_CAPABILITIES :: u32 where "ATA_IDENT_CAPABILITIES = 98"
definition ATA_IDENT_MAX_LBA :: u32 where "ATA_IDENT_MAX_LBA = 120"
definition ATA_IDENT_COMMANDSETS :: u32 where "ATA_IDENT_COMMANDSETS = 164"
definition ATA_IDENT_MAX_LBA_EXT :: u32 where "ATA_IDENT_MAX_LBA_EXT = 200"
definition IDE_ATA :: u16 where "IDE_ATA = 0"
definition IDE_ATAPI :: u16 where "IDE_ATAPI = 1"

lemmas ata_consts =
  ATA_SR_BSY_def ATA_SR_DF_def ATA_SR_DRQ_def ATA_SR_ERR_def ATA_ER_BBK_def ATA_ER_UNC_def
  ATA_ER_MC_def ATA_ER_IDNF_def ATA_ER_MCR_def ATA_ER_ABRT_def ATA_ER_TK0NF_def ATA_ER_AMNF_def
  ATA_CMD_READ_PIO_def ATA_CMD_READ_PIO_EXT_def ATA_CMD_READ_DMA_def ATA_CMD_READ_DMA_EXT_def
  ATA_CMD_WRITE_PIO_def ATA_CMD_WRITE_PIO_EXT_def ATA_CMD_WRITE_DMA_def ATA_CMD_WRITE_DMA_EXT_def
  ATA_CMD_CACHE_FLUSH_def ATA_CMD_CACHE_FLUSH_EXT_def ATA_CMD_PACKET_def ATA_CMD_IDENTIFY_PACKET_def
  ATA_CMD_IDENTIFY_def ATAPI_CMD_EJECT_def ATA_REG_DATA_def ATA_REG_ERROR_def ATA_REG_SECCOUNT0_def
  ATA_REG_LBA0_def ATA_REG_LBA1_def ATA_REG_LBA2_def ATA_REG_HDDEVSEL_def ATA_REG_COMMAND_def
  ATA_REG_STATUS_def ATA_REG_SECCOUNT1_def ATA_REG_LBA3_def ATA_REG_LBA4_def ATA_REG_LBA5_def
  ATA_REG_CONTROL_def ATA_REG_ALTSTATUS_def ATA_PRIMARY_def ATA_SECONDARY_def ATA_READ_def
  ATA_WRITE_def

section \<open>State\<close>

record IDEChannelRegisters =
  ch_base :: u16
  ch_ctrl :: u16
  bmide :: u16
  nIEN :: u8

record ide_device =
  Reserved :: u8
  Channel :: u8
  Drive :: u8
  dType :: u16
  Signature :: u16
  Capabilities :: u16
  CommandSets :: u32
  dSize :: u32
  Model :: "u8 list"

record 'd ata_bus = "'d bus" +
  b_irq :: "'d \<Rightarrow> bool \<times> 'd"

record 'd ata = "'d io" +
  channels :: "IDEChannelRegisters list"
  ide_devices :: "ide_device list"
  ide_irq_invoked :: u8
  isInit :: bool
  package0 :: u8
  atapi_packet :: "u8 list"
  amem :: bmem
  aheap :: kheap

text \<open>Bytes of memory as little-endian integers, and the words the string instructions move.\<close>

definition le16 :: "bmem \<Rightarrow> u32 \<Rightarrow> u16" where
  "le16 m p = ucast (m p) OR push_bit 8 (ucast (m (p + 1)))"

definition le32 :: "bmem \<Rightarrow> u32 \<Rightarrow> u32" where
  "le32 m p = ucast (le16 m p) OR push_bit 16 (ucast (le16 m (p + 2)))"

fun store16s :: "u32 \<Rightarrow> u16 list \<Rightarrow> bmem \<Rightarrow> bmem" where
  "store16s p [] m = m"
| "store16s p (w # ws) m = store16s (p + 2) ws (m(p := ucast w, p + 1 := ucast (drop_bit 8 w)))"

fun load16s :: "bmem \<Rightarrow> u32 \<Rightarrow> nat \<Rightarrow> u16 list" where
  "load16s m p 0 = []"
| "load16s m p (Suc n) = le16 m p # load16s m (p + 2) n"

section \<open>Registers\<close>

text \<open>The port of a register; there is none from 0x16 on.\<close>

definition reg_port :: "IDEChannelRegisters \<Rightarrow> u8 \<Rightarrow> u16 option" where
  "reg_port c reg =
     (if reg < 0x08 then Some (ch_base c + ucast reg - 0x00)
      else if reg < 0x0C then Some (ch_base c + ucast reg - 0x06)
      else if reg < 0x0E then Some (ch_ctrl c + ucast reg - 0x0A)
      else if reg < 0x16 then Some (bmide c + ucast reg - 0x0E)
      else None)"

text \<open>The registers 8 to 0xb are the high bytes, reached with the top bit of the control register set.\<close>

definition high_byte :: "u8 \<Rightarrow> bool" where
  "high_byte reg \<longleftrightarrow> reg > 0x07 \<and> reg < 0x0C"

definition out_reg :: "('d, 'y) bus_scheme \<Rightarrow> IDEChannelRegisters \<Rightarrow> u8 \<Rightarrow> u8 \<Rightarrow> 'd ata \<Rightarrow> 'd ata" where
  "out_reg P c reg data s = (case reg_port c reg of None \<Rightarrow> s | Some port \<Rightarrow> outb P port data s)"

text \<open>\<^verbatim>\<open>ide_write\<close> calls itself for the control register, which is not a high byte.\<close>

definition ide_write :: "('d, 'y) bus_scheme \<Rightarrow> u8 \<Rightarrow> u8 \<Rightarrow> u8 \<Rightarrow> 'd ata \<Rightarrow> 'd ata kres" where
  "ide_write P channel reg data s =
     rbind (elem_at (channels s) (unat channel)) (\<lambda>c.
       (let s = (if high_byte reg then out_reg P c ATA_REG_CONTROL (0x80 OR nIEN c) s else s);
            s = out_reg P c reg data s;
            s = (if high_byte reg then out_reg P c ATA_REG_CONTROL (nIEN c) s else s)
        in Inr s))"

definition ide_read :: "('d, 'y) bus_scheme \<Rightarrow> u8 \<Rightarrow> u8 \<Rightarrow> 'd ata \<Rightarrow> (u8 \<times> 'd ata) kres" where
  "ide_read P channel reg s =
     rbind (elem_at (channels s) (unat channel)) (\<lambda>c.
       (let s = (if high_byte reg then out_reg P c ATA_REG_CONTROL (0x80 OR nIEN c) s else s) in
        case reg_port c reg of
          None \<Rightarrow> Inl Uninitialised
        | Some port \<Rightarrow>
            (let (result, s) = inb P port s;
                 s = (if high_byte reg then out_reg P c ATA_REG_CONTROL (nIEN c) s else s)
             in Inr (result, s))))"

text \<open>\<^verbatim>\<open>insl\<close>: \<open>n\<close> double words from a port to memory.\<close>

fun insl :: "('d, 'y) bus_scheme \<Rightarrow> u16 \<Rightarrow> u32 \<Rightarrow> nat \<Rightarrow> 'd ata \<Rightarrow> 'd ata" where
  "insl P port buffer 0 s = s"
| "insl P port buffer (Suc n) s =
     (let (v, s) = inl P port s
      in insl P port (buffer + 4) n (s\<lparr>amem := store16s buffer [ucast v, ucast (drop_bit 16 v)] (amem s)\<rparr>))"

definition ide_read_buffer :: "('d, 'y) bus_scheme \<Rightarrow> u8 \<Rightarrow> u8 \<Rightarrow> u32 \<Rightarrow> nat \<Rightarrow> 'd ata \<Rightarrow> 'd ata kres" where
  "ide_read_buffer P channel reg buffer quads s =
     rbind (elem_at (channels s) (unat channel)) (\<lambda>c.
       (let s = (if high_byte reg then out_reg P c ATA_REG_CONTROL (0x80 OR nIEN c) s else s);
            s = (case reg_port c reg of None \<Rightarrow> s | Some port \<Rightarrow> insl P port buffer quads s);
            s = (if high_byte reg then out_reg P c ATA_REG_CONTROL (nIEN c) s else s)
        in Inr s))"

section \<open>Waiting and errors\<close>

text \<open>The loop \<^verbatim>\<open>while (ide_read(channel, ATA_REG_STATUS) & ATA_SR_BSY);\<close>.\<close>

fun busy_loop :: "('d, 'y) bus_scheme \<Rightarrow> nat \<Rightarrow> u8 \<Rightarrow> 'd ata \<Rightarrow> 'd ata kres" where
  "busy_loop P 0 channel s = Inl Hang"
| "busy_loop P (Suc fuel) channel s =
     rbind (ide_read P channel ATA_REG_STATUS s) (\<lambda>(st, s).
       if st AND ATA_SR_BSY \<noteq> 0 then busy_loop P fuel channel s else Inr s)"

fun read_altstatus :: "('d, 'y) bus_scheme \<Rightarrow> nat \<Rightarrow> u8 \<Rightarrow> 'd ata \<Rightarrow> 'd ata kres" where
  "read_altstatus P 0 channel s = Inr s"
| "read_altstatus P (Suc n) channel s =
     rbind (ide_read P channel ATA_REG_ALTSTATUS s) (\<lambda>(_, s). read_altstatus P n channel s)"

definition ide_polling :: "('d, 'y) bus_scheme \<Rightarrow> nat \<Rightarrow> u8 \<Rightarrow> bool \<Rightarrow> 'd ata \<Rightarrow> (u8 \<times> 'd ata) kres" where
  "ide_polling P fuel channel advanced_check s =
     rbind (read_altstatus P 4 channel s) (\<lambda>s.
     rbind (busy_loop P fuel channel s) (\<lambda>s.
       if advanced_check then
         rbind (ide_read P channel ATA_REG_STATUS s) (\<lambda>(state, s).
           if state AND ATA_SR_ERR \<noteq> 0 then Inr (2, s)
           else if state AND ATA_SR_DF \<noteq> 0 then Inr (1, s)
           else if state AND ATA_SR_DRQ = 0 then Inr (3, s)
           else Inr (0, s))
       else Inr (0, s)))"

text \<open>The error number for the bits of the error register; a later test overrides an earlier one.\<close>

definition error_number :: "u8 \<Rightarrow> u8 \<Rightarrow> u8" where
  "error_number st err =
     (let err = (if st AND ATA_ER_AMNF \<noteq> 0 then 7 else err);
          err = (if st AND ATA_ER_TK0NF \<noteq> 0 then 3 else err);
          err = (if st AND ATA_ER_ABRT \<noteq> 0 then 20 else err);
          err = (if st AND ATA_ER_MCR \<noteq> 0 then 3 else err);
          err = (if st AND ATA_ER_IDNF \<noteq> 0 then 21 else err);
          err = (if st AND ATA_ER_MC \<noteq> 0 then 3 else err);
          err = (if st AND ATA_ER_UNC \<noteq> 0 then 22 else err)
      in if st AND ATA_ER_BBK \<noteq> 0 then 13 else err)"

definition ide_print_error :: "('d, 'y) bus_scheme \<Rightarrow> u8 \<Rightarrow> u8 \<Rightarrow> 'd ata \<Rightarrow> (u8 \<times> 'd ata) kres" where
  "ide_print_error P drive err s =
     (if err = 0 then Inr (err, s)
      else if err = 1 then Inr (19, s)
      else if err = 2 then
        rbind (elem_at (ide_devices s) (unat drive)) (\<lambda>dv.
        rbind (ide_read P (Channel dv) ATA_REG_ERROR s) (\<lambda>(st, s). Inr (error_number st err, s)))
      else if err = 3 then Inr (23, s)
      else if err = 4 then Inr (8, s)
      else Inr (err, s))"

section \<open>Sector transfers\<close>

text \<open>
  The addressing mode (0 for cylinder, head and sector, 1 for 28-bit and 2 for 48-bit block addresses),
  the six address bytes and the head, from the capabilities of the drive and the block address.
\<close>

definition lba_split :: "u16 \<Rightarrow> u32 \<Rightarrow> nat \<times> u8 list \<times> u8" where
  "lba_split caps lba =
     (if lba \<ge> 0x10000000 then
        (2, [ucast (lba AND 0xFF), ucast (drop_bit 8 (lba AND 0xFF00)), ucast (drop_bit 16 (lba AND 0xFF0000)),
             ucast (drop_bit 24 (lba AND 0xFF000000)), 0, 0], 0)
      else if caps AND 0x200 \<noteq> 0 then
        (1, [ucast (lba AND 0xFF), ucast (drop_bit 8 (lba AND 0xFF00)), ucast (drop_bit 16 (lba AND 0xFF0000)),
             0, 0, 0], ucast (drop_bit 24 (lba AND 0xF000000)))
      else
        (let sect = ucast (lba mod 63 + 1) :: u8;
             cyl = ucast ((lba + 1 - ucast sect) div (16 * 63)) :: u16
         in (0, [sect, ucast (cyl AND 0xFF), ucast (drop_bit 8 cyl AND 0xFF), 0, 0, 0],
             ucast ((lba + 1 - ucast sect) mod (16 * 63) div 63))))"

text \<open>The command; \<^verbatim>\<open>dma\<close> is 0 throughout the source, and the rows for 1 are never taken.\<close>

definition ata_command :: "nat \<Rightarrow> bool \<Rightarrow> u8 \<Rightarrow> u8 kres" where
  "ata_command lba_mode dma direction =
     (if direction = 0 then
        (if lba_mode = 2 then Inr (if dma then ATA_CMD_READ_DMA_EXT else ATA_CMD_READ_PIO_EXT)
         else Inr (if dma then ATA_CMD_READ_DMA else ATA_CMD_READ_PIO))
      else if direction = 1 then
        (if lba_mode = 2 then Inr (if dma then ATA_CMD_WRITE_DMA_EXT else ATA_CMD_WRITE_PIO_EXT)
         else Inr (if dma then ATA_CMD_WRITE_DMA else ATA_CMD_WRITE_PIO))
      else Inl Uninitialised)"

text \<open>A sequence of register writes.\<close>

fun ide_writes :: "('d, 'y) bus_scheme \<Rightarrow> u8 \<Rightarrow> (u8 \<times> u8) list \<Rightarrow> 'd ata \<Rightarrow> 'd ata kres" where
  "ide_writes P channel [] s = Inr s"
| "ide_writes P channel ((reg, data) # rs) s =
     rbind (ide_write P channel reg data s) (\<lambda>s. ide_writes P channel rs s)"

definition access_writes :: "nat \<Rightarrow> u8 list \<Rightarrow> u8 \<Rightarrow> u8 \<Rightarrow> u8 \<Rightarrow> (u8 \<times> u8) list" where
  "access_writes lba_mode lba_io head slavebit numsects =
     [(ATA_REG_HDDEVSEL, (if lba_mode = 0 then 0xA0 else 0xE0) OR push_bit 4 slavebit OR head)] @
     (if lba_mode = 2 then
        [(ATA_REG_SECCOUNT1, 0), (ATA_REG_LBA3, lba_io ! 3), (ATA_REG_LBA4, lba_io ! 4), (ATA_REG_LBA5, lba_io ! 5)]
      else []) @
     [(ATA_REG_SECCOUNT0, numsects), (ATA_REG_LBA0, lba_io ! 0), (ATA_REG_LBA1, lba_io ! 1), (ATA_REG_LBA2, lba_io ! 2)]"

text \<open>The loops over the sectors, \<open>n\<close> of them left.\<close>

fun pio_read :: "('d, 'y) bus_scheme \<Rightarrow> nat \<Rightarrow> u8 \<Rightarrow> u16 \<Rightarrow> nat \<Rightarrow> u32 \<Rightarrow> 'd ata \<Rightarrow> (u8 \<times> 'd ata) kres" where
  "pio_read P fuel channel bus 0 edi s = Inr (0, s)"
| "pio_read P fuel channel bus (Suc n) edi s =
     rbind (ide_polling P fuel channel True s) (\<lambda>(err, s).
       if err \<noteq> 0 then Inr (err, s)
       else
         (let (ws, s) = read_words P bus 256 s;
              s = s\<lparr>amem := store16s edi ws (amem s)\<rparr>
          in pio_read P fuel channel bus n (edi + 512) s))"

fun pio_write :: "('d, 'y) bus_scheme \<Rightarrow> nat \<Rightarrow> u8 \<Rightarrow> u16 \<Rightarrow> nat \<Rightarrow> u32 \<Rightarrow> 'd ata \<Rightarrow> 'd ata kres" where
  "pio_write P fuel channel bus 0 edi s = Inr s"
| "pio_write P fuel channel bus (Suc n) edi s =
     rbind (ide_polling P fuel channel False s) (\<lambda>(_, s).
       pio_write P fuel channel bus n (edi + 512) (write_words P bus (load16s (amem s) edi 256) s))"

definition set_nIEN :: "nat \<Rightarrow> u8 \<Rightarrow> 'd ata \<Rightarrow> 'd ata kres" where
  "set_nIEN channel v s =
     rbind (elem_at (channels s) channel) (\<lambda>c. Inr (s\<lparr>channels := (channels s)[channel := c\<lparr>nIEN := v\<rparr>]\<rparr>))"

text \<open>What follows the command: the sectors, and for a write the flush of the cache.\<close>

definition ata_transfer :: "('d, 'y) bus_scheme \<Rightarrow> nat \<Rightarrow> u8 \<Rightarrow> u8 \<Rightarrow> u16 \<Rightarrow> nat \<Rightarrow> u8 \<Rightarrow> u32 \<Rightarrow> 'd ata \<Rightarrow> (u8 \<times> 'd ata) kres" where
  "ata_transfer P fuel direction channel bus lba_mode numsects edi s =
     (if direction = 0 then pio_read P fuel channel bus (unat numsects) edi s
      else
        rbind (pio_write P fuel channel bus (unat numsects) edi s) (\<lambda>s.
        rbind (ide_write P channel ATA_REG_COMMAND
                 (if lba_mode = 2 then ATA_CMD_CACHE_FLUSH_EXT else ATA_CMD_CACHE_FLUSH) s) (\<lambda>s.
        rbind (ide_polling P fuel channel False s) (\<lambda>(_, s). Inr (0, s)))))"

definition ide_ata_access :: "('d, 'y) bus_scheme \<Rightarrow> nat \<Rightarrow> u8 \<Rightarrow> u8 \<Rightarrow> u32 \<Rightarrow> u8 \<Rightarrow> u32 \<Rightarrow> 'd ata \<Rightarrow> (u8 \<times> 'd ata) kres" where
  "ide_ata_access P fuel direction drive lba numsects edi s =
     rbind (elem_at (ide_devices s) (unat drive)) (\<lambda>dv.
     rbind (elem_at (channels s) (unat (Channel dv))) (\<lambda>c.
       (let channel = Channel dv; bus = ch_base c; s = s\<lparr>ide_irq_invoked := 0\<rparr> in
        rbind (set_nIEN (unat channel) 0x02 s) (\<lambda>s.
        rbind (ide_write P channel ATA_REG_CONTROL 0x02 s) (\<lambda>s.
          (let (lba_mode, lba_io, head) = lba_split (Capabilities dv) lba in
           rbind (busy_loop P fuel channel s) (\<lambda>s.
           rbind (ide_writes P channel (access_writes lba_mode lba_io head (Drive dv) numsects) s) (\<lambda>s.
           rbind (ata_command lba_mode False direction) (\<lambda>cmd.
           rbind (ide_write P channel ATA_REG_COMMAND cmd s) (\<lambda>s.
             ata_transfer P fuel direction channel bus lba_mode numsects edi s))))))))))"

definition ide_read_sectors :: "('d, 'y) bus_scheme \<Rightarrow> nat \<Rightarrow> u8 \<Rightarrow> u8 \<Rightarrow> u32 \<Rightarrow> u32 \<Rightarrow> 'd ata \<Rightarrow> 'd ata kres" where
  "ide_read_sectors P fuel drive numsects lba edi s =
     (if drive > 3 then Inr (s\<lparr>package0 := 0x1\<rparr>)
      else
        rbind (elem_at (ide_devices s) (unat drive)) (\<lambda>dv.
          if Reserved dv = 0 then Inr (s\<lparr>package0 := 0x1\<rparr>)
          else if lba + ucast numsects > dSize dv \<and> dType dv = IDE_ATA then Inr (s\<lparr>package0 := 0x2\<rparr>)
          else if dType dv = IDE_ATA then
            rbind (ide_ata_access P fuel ATA_READ drive lba numsects edi s) (\<lambda>(err, s).
            rbind (ide_print_error P drive err s) (\<lambda>(e, s). Inr (s\<lparr>package0 := e\<rparr>)))
          else Inl Uninitialised))"

definition ide_write_sectors :: "('d, 'y) bus_scheme \<Rightarrow> nat \<Rightarrow> u8 \<Rightarrow> u8 \<Rightarrow> u32 \<Rightarrow> u32 \<Rightarrow> 'd ata \<Rightarrow> 'd ata kres" where
  "ide_write_sectors P fuel drive numsects lba edi s =
     (if drive > 3 then Inr (s\<lparr>package0 := 0x1\<rparr>)
      else
        rbind (elem_at (ide_devices s) (unat drive)) (\<lambda>dv.
          if Reserved dv = 0 then Inr (s\<lparr>package0 := 0x1\<rparr>)
          else if lba + ucast numsects > dSize dv \<and> dType dv = IDE_ATA then Inr (s\<lparr>package0 := 0x2\<rparr>)
          else
            rbind (if dType dv = IDE_ATA then ide_ata_access P fuel ATA_WRITE drive lba numsects edi s
                   else if dType dv = IDE_ATAPI then Inr (4, s) else Inl Uninitialised) (\<lambda>(err, s).
            rbind (ide_print_error P drive err s) (\<lambda>(e, s). Inr (s\<lparr>package0 := e\<rparr>)))))"

section \<open>Interrupts and ejecting\<close>

definition ide_irq :: "'d ata \<Rightarrow> 'd ata" where
  "ide_irq s = s\<lparr>ide_irq_invoked := 1\<rparr>"

text \<open>Before each test of the flag the drive may interrupt, which runs \<^verbatim>\<open>atapi_irq_handler_primary\<close> or \<^verbatim>\<open>_secondary\<close>.\<close>

fun ide_wait_irq :: "('d, 'y) ata_bus_scheme \<Rightarrow> nat \<Rightarrow> 'd ata \<Rightarrow> 'd ata kres" where
  "ide_wait_irq P 0 s = Inl Hang"
| "ide_wait_irq P (Suc fuel) s =
     (let (raised, d) = b_irq P (dev s);
          s = s\<lparr>dev := d\<rparr>;
          s = (if raised then ide_irq s else s) in
      if ide_irq_invoked s = 0 then ide_wait_irq P fuel s else Inr (s\<lparr>ide_irq_invoked := 0\<rparr>))"

fun pack16 :: "u8 list \<Rightarrow> u16 list" where
  "pack16 (a # b # bs) = (ucast a OR push_bit 8 (ucast b)) # pack16 bs"
| "pack16 bs = []"

definition eject_packet :: "u8 list" where
  "eject_packet = [ATAPI_CMD_EJECT, 0, 0, 0, 2, 0, 0, 0, 0, 0, 0, 0]"

definition ide_atapi_eject :: "('d, 'y) ata_bus_scheme \<Rightarrow> nat \<Rightarrow> u8 \<Rightarrow> 'd ata \<Rightarrow> 'd ata kres" where
  "ide_atapi_eject P fuel drive s =
     rbind (elem_at (ide_devices s) (unat drive)) (\<lambda>dv.
     rbind (elem_at (channels s) (unat (Channel dv))) (\<lambda>c.
       (let channel = Channel dv; slavebit = Drive dv; bus = ch_base c; s = s\<lparr>ide_irq_invoked := 0\<rparr> in
        if drive > 3 \<or> Reserved dv = 0 then Inr (s\<lparr>package0 := 0x1\<rparr>)
        else if dType dv = IDE_ATA then Inr (s\<lparr>package0 := 20\<rparr>)
        else
          rbind (set_nIEN (unat channel) 0 (s\<lparr>ide_irq_invoked := 0\<rparr>)) (\<lambda>s.
          rbind (ide_write P channel ATA_REG_CONTROL 0 s) (\<lambda>s.
            (let s = s\<lparr>atapi_packet := eject_packet\<rparr> in
             rbind (ide_write P channel ATA_REG_HDDEVSEL (push_bit 4 slavebit) s) (\<lambda>s.
             rbind (read_altstatus P 4 channel s) (\<lambda>s.
             rbind (ide_write P channel ATA_REG_COMMAND ATA_CMD_PACKET s) (\<lambda>s.
             rbind (ide_polling P fuel channel True s) (\<lambda>(_, s).
               (let s = write_words P bus (pack16 (atapi_packet s)) s in
                rbind (ide_wait_irq P fuel s) (\<lambda>s.
                rbind (ide_polling P fuel channel True s) (\<lambda>(err, s).
                  (let err = (if err = 3 then 0 else err) in
                   rbind (ide_print_error P drive err s) (\<lambda>(e, s). Inr (s\<lparr>package0 := e\<rparr>))))))))))))))))"
section \<open>Identification\<close>

text \<open>The endless loop that waits for data or an error; the result says whether an error ended it.\<close>

fun identify_loop :: "('d, 'y) bus_scheme \<Rightarrow> nat \<Rightarrow> u8 \<Rightarrow> 'd ata \<Rightarrow> (bool \<times> 'd ata) kres" where
  "identify_loop P 0 channel s = Inl Hang"
| "identify_loop P (Suc fuel) channel s =
     rbind (ide_read P channel ATA_REG_STATUS s) (\<lambda>(status, s).
       if status AND ATA_SR_ERR \<noteq> 0 then Inr (True, s)
       else if status AND ATA_SR_BSY = 0 \<and> status AND ATA_SR_DRQ \<noteq> 0 then Inr (False, s)
       else identify_loop P fuel channel s)"

text \<open>The model name has the two bytes of each word exchanged, and a terminating zero.\<close>

definition model_name :: "bmem \<Rightarrow> u32 \<Rightarrow> u8 list" where
  "model_name m ide_buf =
     concat (map (\<lambda>i. [m (ide_buf + ATA_IDENT_MODEL + of_nat (2 * i + 1)), m (ide_buf + ATA_IDENT_MODEL + of_nat (2 * i))])
               [0..<20]) @ [0]"

definition describe :: "bmem \<Rightarrow> u32 \<Rightarrow> u16 \<Rightarrow> u8 \<Rightarrow> u8 \<Rightarrow> ide_device" where
  "describe m ide_buf type i j =
     (let sets = le32 m (ide_buf + ATA_IDENT_COMMANDSETS)
      in \<lparr>Reserved = 1, Channel = i, Drive = j, dType = type,
          Signature = le16 m (ide_buf + ATA_IDENT_DEVICETYPE),
          Capabilities = le16 m (ide_buf + ATA_IDENT_CAPABILITIES),
          CommandSets = sets,
          dSize = (if sets AND push_bit 26 1 \<noteq> 0 then le32 m (ide_buf + ATA_IDENT_MAX_LBA_EXT)
                   else le32 m (ide_buf + ATA_IDENT_MAX_LBA)),
          Model = model_name m ide_buf\<rparr>)"

text \<open>
  One turn of the two nested loops, for channel \<open>i\<close> and drive \<open>j\<close>: the number of drives found so far goes
  in and comes out. The delays give the hardware time.
\<close>

definition probe :: "('d, 'y) bus_scheme \<Rightarrow> nat \<Rightarrow> u32 \<Rightarrow> u8 \<Rightarrow> u8 \<Rightarrow> nat \<Rightarrow> 'd ata \<Rightarrow> (nat \<times> 'd ata) kres" where
  "probe P fuel ide_buf i j n s =
     rbind (elem_at (ide_devices s) n) (\<lambda>dv.
       (let s = s\<lparr>ide_devices := (ide_devices s)[n := dv\<lparr>Reserved := 0\<rparr>]\<rparr> in
        rbind (ide_write P i ATA_REG_HDDEVSEL (0xA0 OR push_bit 4 j) s) (\<lambda>s.
        rbind (ide_write P i ATA_REG_COMMAND ATA_CMD_IDENTIFY (delay P 1 s)) (\<lambda>s.
        rbind (ide_read P i ATA_REG_STATUS (delay P 1 s)) (\<lambda>(st, s).
          if st = 0 then Inr (n, s)
          else
            rbind (identify_loop P fuel i s) (\<lambda>(err, s).
            rbind (if err then
                     rbind (ide_read P i ATA_REG_LBA1 s) (\<lambda>(cl, s).
                     rbind (ide_read P i ATA_REG_LBA2 s) (\<lambda>(ch, s).
                       if cl = 0x14 \<and> ch = 0xEB \<or> cl = 0x69 \<and> ch = 0x96 then
                         rbind (ide_write P i ATA_REG_COMMAND ATA_CMD_IDENTIFY_PACKET s) (\<lambda>s.
                           Inr (Some IDE_ATAPI, delay P 1 s))
                       else Inr (None, s)))
                   else Inr (Some IDE_ATA, s)) (\<lambda>(type, s).
              case type of
                None \<Rightarrow> Inr (n, s)
              | Some ty \<Rightarrow>
                  rbind (ide_read_buffer P i ATA_REG_DATA ide_buf 128 s) (\<lambda>s.
                    Inr (n + 1, s\<lparr>ide_devices := (ide_devices s)[n := describe (amem s) ide_buf ty i j]\<rparr>)))))))))"

fun probe_all :: "('d, 'y) bus_scheme \<Rightarrow> nat \<Rightarrow> u32 \<Rightarrow> (u8 \<times> u8) list \<Rightarrow> nat \<Rightarrow> 'd ata \<Rightarrow> 'd ata kres" where
  "probe_all P fuel ide_buf [] n s = Inr s"
| "probe_all P fuel ide_buf ((i, j) # ps) n s =
     rbind (probe P fuel ide_buf i j n s) (\<lambda>(n, s). probe_all P fuel ide_buf ps n s)"

text \<open>An object of the class has \<^verbatim>\<open>ata_drive\<close> and \<^verbatim>\<open>package[8]\<close>.\<close>

definition Ata_size :: u32 where "Ata_size = 9"

text \<open>\<^verbatim>\<open>Ata(char*, u8_t)\<close> for the object at \<open>this\<close>: the drive it stands for.\<close>

definition Ata_drive :: "nat \<Rightarrow> u32 \<Rightarrow> u8 \<Rightarrow> 'd ata \<Rightarrow> (u8 \<times> 'd ata) kres" where
  "Ata_drive fuel this drive s =
     (let drive = (if drive > 4 then 4 else drive) in
      rbind (elem_at (ide_devices s) (unat drive)) (\<lambda>dv.
        if Reserved dv \<noteq> 1 then rbind (kfree fuel (aheap s) this) (\<lambda>h. Inr (drive, s\<lparr>aheap := h\<rparr>))
        else Inr (drive, s)))"

fun new_drives :: "nat \<Rightarrow> nat list \<Rightarrow> 'd ata \<Rightarrow> 'd ata kres" where
  "new_drives fuel [] s = Inr s"
| "new_drives fuel (i # is) s =
     rbind (elem_at (ide_devices s) i) (\<lambda>dv.
       if Reserved dv = 1 then
         rbind (kmalloc fuel (aheap s) Ata_size) (\<lambda>(this, h).
         rbind (Ata_drive fuel this (of_nat i) (s\<lparr>aheap := h\<rparr>)) (\<lambda>(_, s). new_drives fuel is s))
       else new_drives fuel is s)"

definition bar :: "u32 \<Rightarrow> u32 \<Rightarrow> u16" where
  "bar BAR dflt = ucast ((BAR AND 0xFFFFFFFC) + dflt * (if BAR = 0 then 1 else 0))"

definition ide_initialize :: "('d, 'y) bus_scheme \<Rightarrow> nat \<Rightarrow> u32 \<Rightarrow> u32 \<Rightarrow> u32 \<Rightarrow> u32 \<Rightarrow> u32 \<Rightarrow> u32 \<Rightarrow> 'd ata \<Rightarrow> 'd ata kres" where
  "ide_initialize P fuel ide_buf BAR0 BAR1 BAR2 BAR3 BAR4 s =
     rbind (elem_at (channels s) 0) (\<lambda>c0.
     rbind (elem_at (channels s) 1) (\<lambda>c1.
       (let s = s\<lparr>amem := memset ide_buf 0 2048 (amem s),
                  channels :=
                    [c0\<lparr>ch_base := bar BAR0 0x1F0, ch_ctrl := bar BAR1 0x3F4, bmide := ucast ((BAR4 AND 0xFFFFFFFC) + 0)\<rparr>,
                     c1\<lparr>ch_base := bar BAR2 0x170, ch_ctrl := bar BAR3 0x374, bmide := ucast ((BAR4 AND 0xFFFFFFFC) + 8)\<rparr>]\<rparr> in
        rbind (ide_write P ATA_PRIMARY ATA_REG_CONTROL 2 s) (\<lambda>s.
        rbind (ide_write P ATA_SECONDARY ATA_REG_CONTROL 2 s) (\<lambda>s.
        rbind (probe_all P fuel ide_buf [(0, 0), (0, 1), (1, 0), (1, 1)] 0 s) (\<lambda>s.
          new_drives fuel [0, 1, 2, 3] s))))))"

text \<open>\<^verbatim>\<open>Ata(char*)\<close>, which stands for drive 0.\<close>

definition Ata_new :: "('d, 'y) bus_scheme \<Rightarrow> nat \<Rightarrow> u32 \<Rightarrow> 'd ata \<Rightarrow> (u8 \<times> 'd ata) kres" where
  "Ata_new P fuel ide_buf s =
     (if \<not> isInit s then
        rbind (ide_initialize P fuel ide_buf 0x1F0 0x3F4 0x170 0x374 0x000 s) (\<lambda>s. Inr (0, s\<lparr>isInit := True\<rparr>))
      else Inr (0, s))"

section \<open>Byte ranges\<close>

text \<open>The part \<open>n\<close> bytes long at \<open>off\<close> of a buffer of \<open>blocks\<close> sectors lies inside it.\<close>

definition in_buffer :: "int \<Rightarrow> int \<Rightarrow> u32 \<Rightarrow> bool" where
  "in_buffer blocks off n \<longleftrightarrow> 0 \<le> off \<and> off + uint n \<le> blocks * 512"

definition Ata_read :: "('d, 'y) bus_scheme \<Rightarrow> nat \<Rightarrow> u8 \<Rightarrow> u32 \<Rightarrow> u32 \<Rightarrow> u32 \<Rightarrow> 'd ata \<Rightarrow> (u32 \<times> 'd ata) kres" where
  "Ata_read P fuel ata_drive pos buffer sizee s =
     (if buffer = 0 then Inr (- 1, s)
      else
        (let offset = sint pos;
             bl_begin = offset sdiv 512;
             bl_end = sint (pos + sizee) sdiv 512;
             blocks = bl_end - bl_begin + 1 in
         if blocks > 255 then Inr (0, s)
         else
           rbind (kmalloc fuel (aheap s) (word_of_int (blocks * 512))) (\<lambda>(bl_buffer, h).
           rbind (ide_read_sectors P fuel ata_drive (word_of_int blocks) (word_of_int bl_begin) bl_buffer (s\<lparr>aheap := h\<rparr>)) (\<lambda>s.
             if \<not> in_buffer blocks (offset smod 512) sizee then Inl Out_of_bounds
             else
               rbind (kfree fuel (aheap s) bl_buffer) (\<lambda>h.
                 Inr (sizee, s\<lparr>amem := memcpy buffer (bl_buffer + word_of_int (offset smod 512)) (unat sizee) (amem s),
                               aheap := h\<rparr>))))))"

definition Ata_write :: "('d, 'y) bus_scheme \<Rightarrow> nat \<Rightarrow> u8 \<Rightarrow> u32 \<Rightarrow> u32 \<Rightarrow> u32 \<Rightarrow> 'd ata \<Rightarrow> (u32 \<times> 'd ata) kres" where
  "Ata_write P fuel ata_drive pos buffer sizee s =
     (if buffer = 0 then Inr (- 1, s)
      else
        (let offset = sint pos;
             bl_begin = offset sdiv 512;
             bl_end = sint (pos + sizee) sdiv 512;
             blocks = (if sizee mod 512 = 0 then bl_end - bl_begin else bl_end - bl_begin + 1) in
         rbind (kmalloc fuel (aheap s) (word_of_int (blocks * 512))) (\<lambda>(bl_buffer, h).
         rbind (ide_read_sectors P fuel ata_drive (word_of_int blocks) (word_of_int bl_begin) bl_buffer (s\<lparr>aheap := h\<rparr>)) (\<lambda>s.
           if \<not> in_buffer blocks (offset smod 512) sizee then Inl Out_of_bounds
           else
             (let s = s\<lparr>amem := memcpy (bl_buffer + word_of_int (offset smod 512)) buffer (unat sizee) (amem s)\<rparr> in
              rbind (ide_write_sectors P fuel ata_drive (word_of_int blocks) (word_of_int bl_begin) bl_buffer s) (\<lambda>s.
              rbind (kfree fuel (aheap s) bl_buffer) (\<lambda>h. Inr (sizee, s\<lparr>aheap := h\<rparr>))))))))"

definition Ata_ioctl :: "u32 \<Rightarrow> u32" where
  "Ata_ioctl idd = (if idd = 0x01 then 0x02 else if idd = 0x02 then 0x01 else if idd = 0x03 then 0x02 else 0)"

definition Ata_remove :: "nat \<Rightarrow> u32 \<Rightarrow> 'd ata \<Rightarrow> (u32 \<times> 'd ata) kres" where
  "Ata_remove fuel this s = rbind (kfree fuel (aheap s) this) (\<lambda>h. Inr (1, s\<lparr>aheap := h\<rparr>))"

end
