(* ===== verification/Block_Device.thy ===== *)
theory Block_Device
  imports Kernel_Prelude
begin

text \<open>
  The interface between the disk driver and the file system.

  The file system calls \<^verbatim>\<open>atadriver->read(pos, buffer, n)\<close> and looks at the buffer: a \<open>driver\<close> returns the bytes
  that are in the buffer after the call. The locale \<open>block_device\<close> states what the file system relies on:
  in the states \<open>ok\<close>, a read of up to a page that ends before the capacity comes back with the bytes the
  disk holds there, and leaves the driver in such a state.
\<close>

type_synonym 's driver = "u32 \<Rightarrow> nat \<Rightarrow> 's \<Rightarrow> (u8 list \<times> 's) kres"

definition disk_bytes :: "(nat \<Rightarrow> u8) \<Rightarrow> nat \<Rightarrow> nat \<Rightarrow> u8 list" where
  "disk_bytes content pos n = map content [pos..<pos + n]"

lemma length_disk_bytes [simp]: "length (disk_bytes content pos n) = n"
  by (simp add: disk_bytes_def)

lemma nth_disk_bytes [simp]: "i < n \<Longrightarrow> disk_bytes content pos n ! i = content (pos + i)"
  by (simp add: disk_bytes_def)

lemma take_disk_bytes [simp]: "k \<le> n \<Longrightarrow> take k (disk_bytes content pos n) = disk_bytes content pos k"
  by (simp add: disk_bytes_def take_map)

lemma drop_disk_bytes [simp]: "drop k (disk_bytes content pos n) = disk_bytes content (pos + k) (n - k)"
  by (rule nth_equalityI) (auto simp: disk_bytes_def add.assoc)

lemma disk_bytes_append: "disk_bytes content pos m @ disk_bytes content (pos + m) n = disk_bytes content pos (m + n)"
  by (rule nth_equalityI) (auto simp: disk_bytes_def nth_append)

locale block_device =
  fixes rd :: "'s driver" and content :: "nat \<Rightarrow> u8" and capacity :: nat and ok :: "'s \<Rightarrow> bool"
  assumes rd_returns: "ok s \<Longrightarrow> n \<le> 0x1000 \<Longrightarrow> unat pos + n < capacity \<Longrightarrow>
    \<exists>s'. rd pos n s = Inr (disk_bytes content (unat pos) n, s') \<and> ok s'"
begin

text \<open>A read in front of other work: what follows gets the bytes on the disk and a state that is \<open>ok\<close>.\<close>

lemma rd_bind:
  assumes "ok s" and "n \<le> 0x1000" and "unat pos + n < capacity"
    and "\<And>s'. ok s' \<Longrightarrow> \<exists>r s''. f (disk_bytes content (unat pos) n, s') = Inr (r, s'') \<and> ok s'' \<and> Q r"
  shows "\<exists>r s''. rbind (rd pos n s) f = Inr (r, s'') \<and> ok s'' \<and> Q r"
  using rd_returns [OF assms(1-3)] assms(4) by auto

end

end
