(* ===== verification/Ata_Correct.thy ===== *)
theory Ata_Correct
  imports Ata Kmalloc_Correct KString_Correct Block_Device
begin

unbundle bit_operations_syntax

text \<open>
  The ATA driver is right.

  For any hardware behind the ports, the register writes of \<^verbatim>\<open>ide_ata_access\<close> address the block and the drive
  the caller asked for, in each of the three modes. On a drive that answers as the standard says,
  \<^verbatim>\<open>Ata::read\<close> returns the bytes of the disk: this makes the driver a \<open>block_device\<close> for the file system.
\<close>

section \<open>Addresses\<close>

text \<open>What a drive makes of the registers written before a command; a register not written reads 0.\<close>

definition reg_value :: "(u8 \<times> u8) list \<Rightarrow> u8 \<Rightarrow> nat" where
  "reg_value rs r = (case map_of (rev rs) r of Some v \<Rightarrow> unat v | None \<Rightarrow> 0)"

definition addressed_block :: "(u8 \<times> u8) list \<Rightarrow> nat" where
  "addressed_block rs =
     (let dv = reg_value rs ATA_REG_HDDEVSEL;
          low = reg_value rs ATA_REG_LBA0 + 256 * reg_value rs ATA_REG_LBA1 + 65536 * reg_value rs ATA_REG_LBA2 in
      if \<not> bit dv 6 then
        ((reg_value rs ATA_REG_LBA1 + 256 * reg_value rs ATA_REG_LBA2) * 16 + dv mod 16) * 63 + reg_value rs ATA_REG_LBA0 - 1
      else if ATA_REG_SECCOUNT1 \<in> fst ` set rs then
        low + 2 ^ 24 * (reg_value rs ATA_REG_LBA3 + 256 * reg_value rs ATA_REG_LBA4 + 65536 * reg_value rs ATA_REG_LBA5)
      else low + 2 ^ 24 * (dv mod 16))"

definition addressed_drive :: "(u8 \<times> u8) list \<Rightarrow> nat" where
  "addressed_drive rs = reg_value rs ATA_REG_HDDEVSEL div 16 mod 2"

definition addressed_sectors :: "(u8 \<times> u8) list \<Rightarrow> nat" where
  "addressed_sectors rs = reg_value rs ATA_REG_SECCOUNT0"

lemma unat_byte: "unat (ucast (drop_bit k x) :: u8) = unat (x :: 'a :: len word) div 2 ^ k mod 256"
  by (simp only: unsigned_ucast_eq unsigned_drop_bit_eq) (simp add: take_bit_eq_mod drop_bit_eq_div)

lemma unat_byte0: "unat (ucast x :: u8) = unat (x :: 'a :: len word) mod 256"
  using unat_byte [of 0 x] by simp

lemma lba_masks: "(0xFF :: u32) = mask 8" "(0xFF00 :: u32) = push_bit 8 (mask 8)" "(0xFF0000 :: u32) = push_bit 16 (mask 8)"
  "(0xFF000000 :: u32) = push_bit 24 (mask 8)" "(0xF000000 :: u32) = push_bit 24 (mask 4)" "(0xFF :: u16) = mask 8"
  by (simp_all add: mask_eq_exp_minus_1 push_bit_eq_mult)

lemma lba_byte: "(ucast (drop_bit k (x AND push_bit k (mask 8))) :: u8) = ucast (drop_bit k (x :: u32))"
  by (rule bit_word_eqI) (auto simp: bit_simps dest: bit_imp_le_length)

lemma lba_byte0: "(ucast (x AND mask 8) :: u8) = ucast (drop_bit 0 (x :: 'a :: len word))"
  by (rule bit_word_eqI) (auto simp: bit_simps dest: bit_imp_le_length)

lemma lba_nibble: "unat (ucast (drop_bit 24 (x AND push_bit 24 (mask 4))) :: u8) = unat (x :: u32) div 2 ^ 24 mod 16"
proof -
  have "(ucast (drop_bit 24 (x AND push_bit 24 (mask 4))) :: u8) = take_bit 4 (ucast (drop_bit 24 x))"
    by (rule bit_word_eqI) (auto simp: bit_simps)
  then show ?thesis
    by (simp only: unsigned_take_bit_eq unat_byte) (simp add: take_bit_eq_mod mod_mod_cancel)
qed

lemma device_byte:
  assumes "unat slave < 2" and "unat head < 16" and "d = 0xA0 \<or> d = 0xE0"
  shows "unat (d OR push_bit 4 slave OR head :: u8) = unat d + 16 * unat slave + unat head"
proof -
  have "slave = 0 \<or> slave = 1" using assms(1) by (auto simp: word_unat_eq_iff less_2_cases_iff)
  moreover have "head \<in> set (map of_nat [0..<16])"
    using assms(2) by (auto simp: image_iff intro!: bexI [of _ "unat head"])
  ultimately show ?thesis using assms(3) by (auto simp: upt_rec)
qed

lemma addressed_reg [simp]:
  "reg_value (access_writes m io h sl n) ATA_REG_HDDEVSEL = unat ((if m = 0 then 0xA0 else 0xE0) OR push_bit 4 sl OR h :: u8)"
  "reg_value (access_writes m io h sl n) ATA_REG_SECCOUNT0 = unat n"
  "reg_value (access_writes m io h sl n) ATA_REG_LBA0 = unat (io ! 0)"
  "reg_value (access_writes m io h sl n) ATA_REG_LBA1 = unat (io ! 1)"
  "reg_value (access_writes m io h sl n) ATA_REG_LBA2 = unat (io ! 2)"
  "m = 2 \<Longrightarrow> reg_value (access_writes m io h sl n) ATA_REG_LBA3 = unat (io ! 3)"
  "m = 2 \<Longrightarrow> reg_value (access_writes m io h sl n) ATA_REG_LBA4 = unat (io ! 4)"
  "m = 2 \<Longrightarrow> reg_value (access_writes m io h sl n) ATA_REG_LBA5 = unat (io ! 5)"
  "ATA_REG_SECCOUNT1 \<in> fst ` set (access_writes m io h sl n) \<longleftrightarrow> m = 2"
  by (auto simp: reg_value_def access_writes_def ata_consts image_def)

lemma base256: "v mod 256 + 256 * (v div 256 mod 256) + 65536 * (v div 65536 mod 256) = v mod 2 ^ 24" for v :: nat
proof -
  have "v mod 16777216 = v mod 256 + 256 * (v div 256 mod 65536)" "v div 256 mod 65536 = v div 256 mod 256 + 256 * (v div 65536 mod 256)"
    using mod_mult2_eq [of v 256 65536] mod_mult2_eq [of "v div 256" 256 256] by (simp_all add: div_mult2_eq [of v 256 256, simplified])
  then show ?thesis by simp
qed

lemma device_arith:
  fixes s h :: nat
  assumes "s < 2" and "h < 16"
  shows "(160 + 16 * s + h) div 16 mod 2 = s" "(224 + 16 * s + h) div 16 mod 2 = s"
    "(160 + 16 * s + h) mod 16 = h" "(224 + 16 * s + h) mod 16 = h"
    "even ((160 + 16 * s + h) div 64)" "odd ((224 + 16 * s + h) div 64)"
proof -
  have q: "(k * 16 + h) div 16 = k" "(k * 16 + h) mod 16 = h" for k using assms(2) by simp_all
  have e: "160 + 16 * s + h = (10 + s) * 16 + h" "224 + 16 * s + h = (14 + s) * 16 + h" by simp_all
  have "(10 + s) mod 2 = s" "(14 + s) mod 2 = s" using assms(1) by (auto simp: less_2_cases_iff)
  then show "(160 + 16 * s + h) div 16 mod 2 = s" "(224 + 16 * s + h) div 16 mod 2 = s" unfolding e q .
  show "(160 + 16 * s + h) mod 16 = h" "(224 + 16 * s + h) mod 16 = h" unfolding e q by (rule refl)+
  have "160 + 16 * s + h = 2 * 64 + (32 + 16 * s + h)" "224 + 16 * s + h = 3 * 64 + (32 + 16 * s + h)" by simp_all
  moreover have "32 + 16 * s + h < 64" using assms by simp
  ultimately have "(160 + 16 * s + h) div 64 = 2" "(224 + 16 * s + h) div 64 = 3" by simp_all
  then show "even ((160 + 16 * s + h) div 64)" "odd ((224 + 16 * s + h) div 64)" by simp_all
qed

text \<open>The device byte has the drive and the head where the drive looks for them.\<close>

lemma device_reads:
  assumes "unat slave < 2" and "unat head < 16"
  shows "unat ((if m = 0 then 0xA0 else 0xE0) OR push_bit 4 slave OR head :: u8) div 16 mod 2 = unat slave"
    "unat ((if m = 0 then 0xA0 else 0xE0) OR push_bit 4 slave OR head :: u8) mod 16 = unat head"
    "bit (unat ((if m = 0 then 0xA0 else 0xE0) OR push_bit 4 slave OR head :: u8)) 6 \<longleftrightarrow> m \<noteq> (0 :: nat)"
  using assms device_byte [where d = "0xA0", OF assms] device_byte [where d = "0xE0", OF assms]
  by (auto simp: bit_iff_odd device_arith)

text \<open>Cylinder, head and sector: the arithmetic of the source on a block number \<open>v\<close> below \<open>2 ^ 28\<close>.\<close>

lemma chs_arith:
  fixes v :: nat
  shows "v + 1 - (v mod 63 + 1) = 63 * (v div 63)" "63 * (v div 63) div 1008 = v div 63 div 16"
    "63 * (v div 63) mod 1008 div 63 = v div 63 mod 16"
    "(v div 63 div 16 * 16 + v div 63 mod 16) * 63 + (v mod 63 + 1) - 1 = v"
proof -
  show "v + 1 - (v mod 63 + 1) = 63 * (v div 63)" by (simp add: minus_mod_eq_mult_div)
  show "63 * (v div 63) div 1008 = v div 63 div 16"
    using div_mult2_eq [of "63 * (v div 63)" 63 16] by simp
  have "63 * (v div 63) mod 1008 = 63 * (v div 63 mod 16)"
    using mult_mod_right [of 63 "v div 63" 16] by simp
  then show "63 * (v div 63) mod 1008 div 63 = v div 63 mod 16" by simp
  show "(v div 63 div 16 * 16 + v div 63 mod 16) * 63 + (v mod 63 + 1) - 1 = v" by simp
qed

lemma chs_words:
  fixes lba :: u32
  assumes "unat lba < 65536 * 16 * 63"
  defines "sect \<equiv> ucast (lba mod 63 + 1) :: u8"
  defines "cyl \<equiv> ucast ((lba + 1 - ucast sect) div (16 * 63)) :: u16"
  shows "unat sect = unat lba mod 63 + 1" "unat cyl = unat lba div 63 div 16"
    "unat (ucast ((lba + 1 - ucast sect) mod (16 * 63) div 63) :: u8) = unat lba div 63 mod 16"
proof -
  have m: "unat (lba mod 63 + 1) = unat lba mod 63 + 1"
    by (subst unat_add_lem [THEN iffD1]) (simp_all add: unat_mod)
  then show s: "unat sect = unat lba mod 63 + 1"
    unfolding sect_def by (simp add: unsigned_ucast_eq take_bit_eq_mod)
  have "unat (ucast sect :: u32) = unat lba mod 63 + 1"
    using s by (simp add: unsigned_ucast_eq take_bit_eq_mod)
  moreover have "unat (lba + 1) = unat lba + 1"
    using assms(1) by (subst unat_add_lem [THEN iffD1]) simp_all
  ultimately have d: "unat (lba + 1 - ucast sect) = 63 * (unat lba div 63)"
    using chs_arith(1) [of "unat lba"] by (simp add: unat_sub_if')
  have "unat lba div 63 div 16 < 65536" using assms(1) by simp
  then show "unat cyl = unat lba div 63 div 16"
    unfolding cyl_def by (simp add: unsigned_ucast_eq unat_div d chs_arith(2) take_bit_eq_mod)
  show "unat (ucast ((lba + 1 - ucast sect) mod (16 * 63) div 63) :: u8) = unat lba div 63 mod 16"
    by (simp add: unsigned_ucast_eq unat_div unat_mod d chs_arith(3) take_bit_eq_mod)
qed

text \<open>The three modes of \<open>lba_split\<close>.\<close>

lemma lba_split_modes:
  "lba \<ge> 0x10000000 \<Longrightarrow> lba_split caps lba =
     (2, [ucast (drop_bit 0 lba), ucast (drop_bit 8 lba), ucast (drop_bit 16 lba), ucast (drop_bit 24 lba), 0, 0], 0)"
  "\<not> lba \<ge> 0x10000000 \<Longrightarrow> caps AND 0x200 \<noteq> 0 \<Longrightarrow> lba_split caps lba =
     (1, [ucast (drop_bit 0 lba), ucast (drop_bit 8 lba), ucast (drop_bit 16 lba), 0, 0, 0], ucast (drop_bit 24 (lba AND push_bit 24 (mask 4))))"
  "\<not> lba \<ge> 0x10000000 \<Longrightarrow> caps AND 0x200 = 0 \<Longrightarrow> lba_split caps lba =
     (let sect = ucast (lba mod 63 + 1) :: u8;
          cyl = ucast ((lba + 1 - ucast sect) div (16 * 63)) :: u16
      in (0, [sect, ucast (drop_bit 0 cyl), ucast (drop_bit 8 cyl), 0, 0, 0],
          ucast ((lba + 1 - ucast sect) mod (16 * 63) div 63)))"
  by (simp_all only: lba_split_def lba_masks lba_byte lba_byte0 if_True if_False not_False_eq_True not_True_eq_False simp_thms drop_bit_0 id_apply)

lemma lba_split_block:
  assumes "lba_split caps lba = (m, io, h)" and "unat sl < 2" and "m = 0 \<Longrightarrow> unat lba < 65536 * 16 * 63"
  shows "addressed_block (access_writes m io h sl n) = unat lba"
proof -
  consider (ext) "lba \<ge> 0x10000000" | (lba) "\<not> lba \<ge> 0x10000000" "caps AND 0x200 \<noteq> 0" | (chs) "\<not> lba \<ge> 0x10000000" "caps AND 0x200 = 0"
    by blast
  then show ?thesis
  proof cases
    case ext
    have m: "m = 2" "h = 0" "io = [ucast (drop_bit 0 lba), ucast (drop_bit 8 lba), ucast (drop_bit 16 lba), ucast (drop_bit 24 lba), 0, 0]"
      using assms(1) unfolding lba_split_modes(1) [OF ext] by auto
    have "unat lba = unat lba mod 2 ^ 24 + 2 ^ 24 * (unat lba div 2 ^ 24 mod 256)"
      using unat_u32_less [of lba] by simp
    with m assms(2) device_reads [of sl h 2] show ?thesis
      using base256 [of "unat lba"] by (simp add: addressed_block_def unat_byte0 unsigned_drop_bit_eq drop_bit_eq_div unat_div)
  next
    case lba
    have m: "m = 1" "h = ucast (drop_bit 24 (lba AND push_bit 24 (mask 4)))"
      "io = [ucast (drop_bit 0 lba), ucast (drop_bit 8 lba), ucast (drop_bit 16 lba), 0, 0, 0]"
      using assms(1) unfolding lba_split_modes(2) [OF lba] by (simp_all only: prod.inject)
    have h: "unat h = unat lba div 2 ^ 24 mod 16" unfolding m(2) by (rule lba_nibble)
    then have "unat h < 16" by simp
    note dr = device_reads [OF assms(2) this, of 1]
    have "unat lba = unat lba mod 2 ^ 24 + 2 ^ 24 * (unat lba div 2 ^ 24 mod 16)"
      using lba(1) by (simp add: not_le word_less_nat_alt)
    then show ?thesis
      unfolding addressed_block_def Let_def addressed_reg
      unfolding m(1) dr h unfolding m(3)
      using base256 [of "unat lba"] by (simp add: unat_byte0 unsigned_drop_bit_eq drop_bit_eq_div unat_div)
  next
    case chs
    let ?sect = "ucast (lba mod 63 + 1) :: u8"
    let ?cyl = "ucast ((lba + 1 - ucast ?sect) div (16 * 63)) :: u16"
    have m: "m = 0" "h = ucast ((lba + 1 - ucast ?sect) mod (16 * 63) div 63)"
      "io = [?sect, ucast (drop_bit 0 ?cyl), ucast (drop_bit 8 ?cyl), 0, 0, 0]"
      using assms(1) unfolding lba_split_modes(3) [OF chs] Let_def by (simp_all only: prod.inject)
    from assms(3) [OF m(1)] have lt: "unat lba < 65536 * 16 * 63" .
    note w = chs_words [OF lt]
    have c: "unat lba div 63 div 16 < 65536" using lt by simp
    then have cyl: "unat (ucast (drop_bit 0 ?cyl) :: u8) + 256 * unat (ucast (drop_bit 8 ?cyl) :: u8) = unat lba div 63 div 16"
      unfolding unat_byte w(2) by simp
    have h: "unat h = unat lba div 63 mod 16" unfolding m(2) by (rule w(3))
    then have "unat h < 16" by simp
    note dr = device_reads [OF assms(2) this, of 0]
    show ?thesis
      unfolding addressed_block_def Let_def addressed_reg
      unfolding m(1) dr h unfolding m(3)
      using cyl w(1) chs_arith(4) [of "unat lba"] by simp
  qed
qed

lemma lba_split_head:
  assumes "lba_split caps lba = (m, io, h)" and "m = 0 \<Longrightarrow> unat lba < 65536 * 16 * 63"
  shows "unat h < 16"
proof -
  consider (ext) "lba \<ge> 0x10000000" | (lba) "\<not> lba \<ge> 0x10000000" "caps AND 0x200 \<noteq> 0" | (chs) "\<not> lba \<ge> 0x10000000" "caps AND 0x200 = 0"
    by blast
  then show ?thesis
  proof cases
    case ext then show ?thesis using assms(1) lba_split_modes(1) [OF ext, of caps] by auto
  next
    case lba
    have "h = ucast (drop_bit 24 (lba AND push_bit 24 (mask 4)))"
      using assms(1) unfolding lba_split_modes(2) [OF lba] by (simp only: prod.inject)
    then show ?thesis using lba_nibble [of lba] by simp
  next
    case chs
    have m: "m = 0" and h: "h = ucast ((lba + 1 - ucast (ucast (lba mod 63 + 1) :: u8)) mod (16 * 63) div 63)"
      using assms(1) unfolding lba_split_modes(3) [OF chs] Let_def by (simp_all only: prod.inject)
    from chs_words(3) [OF assms(2) [OF m]] show ?thesis unfolding h by simp
  qed
qed

section \<open>What the driver does to the trace\<close>

text \<open>The accesses of one register write on a channel.\<close>

definition reg_trace :: "IDEChannelRegisters \<Rightarrow> u8 \<times> u8 \<Rightarrow> access list" where
  "reg_trace c = (\<lambda>(reg, v).
     (let ctl = (\<lambda>b. if high_byte reg then [Out8 (ch_ctrl c + 2) b] else [])
      in ctl (0x80 OR nIEN c) @ (case reg_port c reg of None \<Rightarrow> [] | Some port \<Rightarrow> [Out8 port v]) @ ctl (nIEN c)))"

text \<open>Steps of the driver only add to the trace and leave the channels and the drives alone.\<close>

definition adds :: "'d ata \<Rightarrow> 'd ata \<Rightarrow> bool" where
  "adds s s' \<longleftrightarrow> (\<exists>t. trace s' = trace s @ t) \<and> channels s' = channels s \<and> ide_devices s' = ide_devices s"

lemma adds_refl [simp]: "adds s s"
  by (simp add: adds_def)

lemma adds_trans [trans]: "adds s s' \<Longrightarrow> adds s' s'' \<Longrightarrow> adds s s''"
  by (auto simp: adds_def)

lemma ctl_port [simp]: "reg_port c ATA_REG_CONTROL = Some (ch_ctrl c + 2)" "\<not> high_byte ATA_REG_CONTROL"
  by (simp_all add: reg_port_def high_byte_def ata_consts)

lemma more_ata: "io.more s' = io.more s \<Longrightarrow> channels s' = channels s \<and> ide_devices s' = ide_devices s \<and> amem s' = amem s \<and> aheap s' = aheap s"
  by (cases s, cases s') simp

lemma outb_ata [simp]: "channels (outb P p v s) = channels s" "ide_devices (outb P p v s) = ide_devices s" "amem (outb P p v s) = amem s"
  "aheap (outb P p v s) = aheap s"
  by (simp_all add: outb_def)

lemma out_reg_trace [simp]:
  "trace (out_reg P c reg v s) = trace s @ (case reg_port c reg of None \<Rightarrow> [] | Some port \<Rightarrow> [Out8 port v])"
  "channels (out_reg P c reg v s) = channels s" "ide_devices (out_reg P c reg v s) = ide_devices s"
  "amem (out_reg P c reg v s) = amem s" "aheap (out_reg P c reg v s) = aheap s"
  by (simp_all add: out_reg_def split: option.splits)

lemma ide_write_trace:
  assumes "ide_write P ch reg v s = Inr s'"
  shows "trace s' = trace s @ reg_trace (channels s ! unat ch) (reg, v)" "adds s s'" "amem s' = amem s"
  using assms by (auto simp: ide_write_def rbind_eq_Inr reg_trace_def adds_def Let_def)

lemma ide_writes_trace:
  assumes "ide_writes P ch rs s = Inr s'"
  shows "trace s' = trace s @ concat (map (reg_trace (channels s ! unat ch)) rs)" "adds s s'"
proof -
  have "trace s' = trace s @ concat (map (reg_trace (channels s ! unat ch)) rs) \<and> adds s s'"
    using assms
  proof (induction rs arbitrary: s)
    case (Cons r rs)
    obtain reg v where r: "r = (reg, v)" by (cases r)
    from Cons.prems obtain s1 where s1: "ide_write P ch reg v s = Inr s1" and rest: "ide_writes P ch rs s1 = Inr s'"
      by (auto simp: r rbind_eq_Inr)
    from ide_write_trace [OF s1] Cons.IH [OF rest] show ?case
      by (auto simp: r adds_def)
  qed simp
  then show "trace s' = trace s @ concat (map (reg_trace (channels s ! unat ch)) rs)" "adds s s'" by simp_all
qed

lemma ide_read_adds: "ide_read P ch reg s = Inr (v, s') \<Longrightarrow> adds s s'"
  by (auto simp: ide_read_def rbind_eq_Inr Let_def adds_def split: option.splits prod.splits if_splits
      dest!: inb_trace more_ata)

text \<open>A read of the status register is one access.\<close>

lemma status_port [simp]: "reg_port c ATA_REG_STATUS = Some (ch_base c + 7)" "\<not> high_byte ATA_REG_STATUS"
  by (simp_all add: reg_port_def high_byte_def ata_consts)

lemma busy_loop_trace:
  assumes "busy_loop P fuel ch s = Inr s'"
  shows "\<exists>vs. trace s' = trace s @ map (In8 (ch_base (channels s ! unat ch) + 7)) vs \<and> adds s s'"
  using assms
proof (induction fuel arbitrary: s)
  case (Suc fuel)
  let ?p = "ch_base (channels s ! unat ch) + 7"
  from Suc.prems obtain v s1 where s1: "ide_read P ch ATA_REG_STATUS s = Inr (v, s1)"
    and rest: "if v AND ATA_SR_BSY \<noteq> 0 then busy_loop P fuel ch s1 = Inr s' else s1 = s'"
    by (auto simp: rbind_eq_Inr split: if_splits)
  then have t: "trace s1 = trace s @ [In8 ?p v]" and a: "adds s s1"
    using ide_read_adds [OF s1] by (auto simp: ide_read_def rbind_eq_Inr split: prod.splits dest!: inb_trace)
  show ?case
  proof (cases "v AND ATA_SR_BSY = 0")
    case True then show ?thesis using rest t a by (auto intro!: exI [of _ "[v]"])
  next
    case False
    with rest Suc.IH obtain vs where "trace s' = trace s1 @ map (In8 (ch_base (channels s1 ! unat ch) + 7)) vs" "adds s1 s'" by force
    then show ?thesis using t a adds_trans [OF a] by (intro exI [of _ "v # vs"]) (auto simp: adds_def)
  qed
qed simp

lemma read_altstatus_adds: "read_altstatus P n ch s = Inr s' \<Longrightarrow> adds s s'"
  by (induction n arbitrary: s) (auto simp: rbind_eq_Inr dest: ide_read_adds intro: adds_trans)

lemma busy_loop_adds: "busy_loop P fuel ch s = Inr s' \<Longrightarrow> adds s s'"
  using busy_loop_trace by blast

lemma ide_polling_adds: "ide_polling P fuel ch adv s = Inr (e, s') \<Longrightarrow> adds s s'"
  by (auto simp: ide_polling_def rbind_eq_Inr split: if_splits
      dest!: read_altstatus_adds busy_loop_adds ide_read_adds intro: adds_trans)

lemma read_words_adds: "read_words P port n s = (ws, s') \<Longrightarrow> adds s (s'\<lparr>amem := m\<rparr>)"
  by (auto simp: adds_def dest!: read_words_trace more_ata)

lemma pio_read_adds: "pio_read P fuel ch bus n edi s = Inr (e, s') \<Longrightarrow> adds s s'"
proof (induction n arbitrary: edi s)
  case (Suc n)
  obtain e1 s1 where p: "ide_polling P fuel ch True s = Inr (e1, s1)" using Suc.prems by (auto simp: rbind_eq_Inr)
  show ?case
  proof (cases "e1 = 0")
    case True
    obtain ws s2 where w: "read_words P bus 256 s1 = (ws, s2)" by force
    from Suc.prems p w True have "pio_read P fuel ch bus n (edi + 512) (s2\<lparr>amem := store16s edi ws (amem s2)\<rparr>) = Inr (e, s')"
      by simp
    from Suc.IH [OF this] show ?thesis
      using adds_trans ide_polling_adds [OF p] read_words_adds [OF w] by blast
  qed (use Suc.prems p ide_polling_adds [OF p] in auto)
qed simp

lemma write_words_adds: "adds s (write_words P port ws s)"
  by (simp add: adds_def more_ata [OF write_words_trace(2)])

lemma pio_write_adds: "pio_write P fuel ch bus n edi s = Inr s' \<Longrightarrow> adds s s'"
proof (induction n arbitrary: edi s)
  case (Suc n)
  obtain e1 s1 where p: "ide_polling P fuel ch False s = Inr (e1, s1)"
    and rest: "pio_write P fuel ch bus n (edi + 512) (write_words P bus (load16s (amem s1) edi 256) s1) = Inr s'"
    using Suc.prems by (auto simp: rbind_eq_Inr)
  from Suc.IH [OF rest] show ?case using adds_trans ide_polling_adds [OF p] write_words_adds by blast
qed simp

lemma ata_transfer_adds: "ata_transfer P fuel dir ch bus m n edi s = Inr (e, s') \<Longrightarrow> adds s s'"
  by (auto simp: ata_transfer_def rbind_eq_Inr split: if_splits
      dest!: pio_read_adds pio_write_adds ide_polling_adds ide_write_trace(2) intro: adds_trans)

section \<open>An access addresses the right block\<close>

definition lba_of :: "nat \<times> u8 list \<times> u8 \<Rightarrow> u8 \<Rightarrow> u8 \<Rightarrow> (u8 \<times> u8) list" where
  "lba_of = (\<lambda>(m, io, h) slave n. access_writes m io h slave n)"

lemma ide_ata_access_trace:
  assumes acc: "ide_ata_access P fuel dir drive lba n edi s = Inr (e, s')"
    and dv: "ide_devices s ! unat drive = dv" and c: "channels s ! unat (Channel dv) = c"
  shows "\<exists>polls cmd rest. trace s' = trace s @ Out8 (ch_ctrl c + 2) 2 # map (In8 (ch_base c + 7)) polls @
      concat (map (reg_trace (c\<lparr>nIEN := 2\<rparr>)) (lba_of (lba_split (Capabilities dv) lba) (Drive dv) n)) @
      Out8 (ch_base c + 7) cmd # rest"
proof -
  obtain m io h where sp: "lba_split (Capabilities dv) lba = (m, io, h)" by (cases "lba_split (Capabilities dv) lba")
  let ?ch = "Channel dv" and ?c = "c\<lparr>nIEN := 2\<rparr>"
  from acc obtain s1 s2 s3 s4 cmd s5 where
    s1: "set_nIEN (unat ?ch) 2 (s\<lparr>ide_irq_invoked := 0\<rparr>) = Inr s1"
    and s2: "ide_write P ?ch ATA_REG_CONTROL 2 s1 = Inr s2" and s3: "busy_loop P fuel ?ch s2 = Inr s3"
    and s4: "ide_writes P ?ch (access_writes m io h (Drive dv) n) s3 = Inr s4"
    and s5: "ide_write P ?ch ATA_REG_COMMAND cmd s4 = Inr s5" and "ata_transfer P fuel dir ?ch (ch_base c) m n edi s5 = Inr (e, s')"
    by (auto simp: ide_ata_access_def rbind_eq_Inr Let_def dv sp c)
  from this(6) have rest: "adds s5 s'" by (rule ata_transfer_adds)
  from s1 have c1: "channels s1 ! unat ?ch = ?c" "trace s1 = trace s"
    by (auto simp: set_nIEN_def rbind_eq_Inr c)
  from ide_write_trace [OF s2] c1 have c2: "trace s2 = trace s @ [Out8 (ch_ctrl c + 2) 2]" "channels s2 ! unat ?ch = ?c"
    by (auto simp: reg_trace_def adds_def)
  from busy_loop_trace [OF s3] c2 obtain polls where c3: "trace s3 = trace s2 @ map (In8 (ch_base c + 7)) polls"
    "channels s3 ! unat ?ch = ?c" by (auto simp: adds_def)
  from ide_writes_trace [OF s4] c3 have c4: "trace s4 = trace s3 @ concat (map (reg_trace ?c) (access_writes m io h (Drive dv) n))"
    "channels s4 ! unat ?ch = ?c" by (auto simp: adds_def)
  have cp: "reg_trace ?c (ATA_REG_COMMAND, cmd) = [Out8 (ch_base c + 7) cmd]"
    by (simp add: reg_trace_def reg_port_def high_byte_def ata_consts)
  from ide_write_trace [OF s5] c4 cp have "trace s5 = trace s4 @ [Out8 (ch_base c + 7) cmd]" by simp
  with rest c2 c3 c4 show ?thesis
    by (auto simp: adds_def lba_of_def sp)
qed

section \<open>A drive that answers as the standard says\<close>

text \<open>
  The hardware of the following sections: a master drive with the bytes \<open>ct\<close>. It takes the block address
  and the number of sectors from its registers when the read command comes, asks for data to be fetched
  while words are left, and is never busy.
\<close>

record hd =
  hd_reg :: "u16 \<Rightarrow> u8"
  hd_pos :: nat
  hd_left :: nat

definition hd_word :: "(nat \<Rightarrow> u8) \<Rightarrow> nat \<Rightarrow> u16" where
  "hd_word ct i = ucast (ct (2 * i)) OR push_bit 8 (ucast (ct (2 * i + 1)))"

definition hd_block :: "hd \<Rightarrow> nat" where
  "hd_block d = unat (hd_reg d 0x1f3) + 256 * unat (hd_reg d 0x1f4) + 65536 * unat (hd_reg d 0x1f5) +
     2 ^ 24 * (unat (hd_reg d 0x1f6) mod 16)"

definition hd_bus :: "(nat \<Rightarrow> u8) \<Rightarrow> hd bus" where
  "hd_bus ct =
     \<lparr>b_inb = \<lambda>port d. (if port = 0x1f7 \<or> port = 0x3f6 then (if hd_left d > 0 then 0x48 else 0x40) else hd_reg d port, d),
      b_inw = \<lambda>port d. (hd_word ct (hd_pos d), d\<lparr>hd_pos := hd_pos d + 1, hd_left := hd_left d - 1\<rparr>),
      b_inl = \<lambda>port d. (0, d),
      b_outb = \<lambda>port v d.
        (if port = 0x1f7 then
           (if v = ATA_CMD_READ_PIO then d\<lparr>hd_pos := 256 * hd_block d, hd_left := 256 * unat (hd_reg d 0x1f2)\<rparr> else d)
         else d\<lparr>hd_reg := (hd_reg d)(port := v)\<rparr>),
      b_outw = \<lambda>port v d. d,
      b_delay = \<lambda>n d. d\<rparr>"

text \<open>The driver has found that drive, as drive 0, with \<open>sectors\<close> sectors and block addressing.\<close>

definition drive0 :: "nat \<Rightarrow> 'd ata \<Rightarrow> bool" where
  "drive0 sectors s \<longleftrightarrow>
     0 < length (channels s) \<and> ch_base (channels s ! 0) = 0x1f0 \<and> ch_ctrl (channels s ! 0) = 0x3f4 \<and>
     0 < length (ide_devices s) \<and>
     (let dv = ide_devices s ! 0 in Reserved dv = 1 \<and> Channel dv = 0 \<and> Drive dv = 0 \<and> dType dv = IDE_ATA \<and>
        Capabilities dv AND 0x200 \<noteq> 0 \<and> unat (dSize dv) = sectors \<and> sectors \<le> 2 ^ 28)"

lemma drive0_keep: "channels s' = channels s \<Longrightarrow> ide_devices s' = ide_devices s \<Longrightarrow> drive0 k s' = drive0 k s"
  by (simp add: drive0_def)

lemma drive0_fields [simp]: "drive0 k (s\<lparr>dev := d\<rparr>) = drive0 k s" "drive0 k (s\<lparr>trace := t\<rparr>) = drive0 k s"
  "drive0 k (s\<lparr>amem := m\<rparr>) = drive0 k s" "drive0 k (s\<lparr>aheap := h\<rparr>) = drive0 k s" "drive0 k (s\<lparr>package0 := p\<rparr>) = drive0 k s"
  by (simp_all add: drive0_def)

lemma drive0_write:
  assumes "drive0 k s" and "reg < 8"
  shows "ide_write P 0 reg v s = Inr (outb P (0x1f0 + ucast reg) v s)"
proof -
  have "\<not> high_byte reg" using assms(2) by (simp add: high_byte_def word_less_nat_alt)
  then show ?thesis using assms by (simp add: ide_write_def out_reg_def reg_port_def drive0_def)
qed

lemma drive0_status: "drive0 k s \<Longrightarrow> reg = ATA_REG_STATUS \<Longrightarrow>
    ide_read (hd_bus ct) 0 reg s = (let v = if hd_left (dev s) > 0 then 0x48 else 0x40 in Inr (v, s\<lparr>trace := trace s @ [In8 0x1f7 v]\<rparr>))"
  by (simp add: ide_read_def drive0_def inb_def hd_bus_def Let_def)

lemma drive0_altstatus: "drive0 k s \<Longrightarrow>
    ide_read (hd_bus ct) 0 ATA_REG_ALTSTATUS s = (let v = if hd_left (dev s) > 0 then 0x48 else 0x40 in Inr (v, s\<lparr>trace := trace s @ [In8 0x3f6 v]\<rparr>))"
  by (simp add: ide_read_def drive0_def inb_def hd_bus_def Let_def reg_port_def high_byte_def ata_consts)

lemma drive0_altstatuses: "drive0 k s \<Longrightarrow> \<exists>t. read_altstatus (hd_bus ct) n 0 s = Inr (s\<lparr>trace := t\<rparr>)"
proof (induction n arbitrary: s)
  case 0 show ?case by (rule exI [of _ "trace s"]) simp
next
  case (Suc n)
  have "drive0 k (s\<lparr>trace := trace s @ [In8 0x3f6 v]\<rparr>)" for v using Suc.prems by simp
  from Suc.IH [OF this] Suc.prems show ?case by (force simp: drive0_altstatus Let_def)
qed

lemma drive0_busy: "drive0 k s \<Longrightarrow> 0 < fuel \<Longrightarrow> \<exists>t. busy_loop (hd_bus ct) fuel 0 s = Inr (s\<lparr>trace := t\<rparr>)"
  by (cases fuel) (auto simp: drive0_status Let_def ata_consts)

lemma drive0_polling:
  assumes "drive0 k s" and "0 < fuel" and "0 < hd_left (dev s)"
  shows "\<exists>t. ide_polling (hd_bus ct) fuel 0 True s = Inr (0, s\<lparr>trace := t\<rparr>)"
proof -
  obtain t1 where t1: "read_altstatus (hd_bus ct) 4 0 s = Inr (s\<lparr>trace := t1\<rparr>)"
    using drive0_altstatuses [OF assms(1)] by blast
  have "drive0 k (s\<lparr>trace := t1\<rparr>)" using assms(1) by simp
  from drive0_busy [OF this assms(2)] obtain t2 where t2: "busy_loop (hd_bus ct) fuel 0 (s\<lparr>trace := t1\<rparr>) = Inr (s\<lparr>trace := t2\<rparr>)"
    by fastforce
  have "drive0 k (s\<lparr>trace := t2\<rparr>)" using assms(1) by simp
  then show ?thesis
    using t1 t2 assms(3) by (auto simp: ide_polling_def drive0_status Let_def ata_consts)
qed

lemma read_words_hd:
  "\<exists>t. read_words (hd_bus ct) port n s =
     (map (hd_word ct) [hd_pos (dev s)..<hd_pos (dev s) + n],
      s\<lparr>dev := (dev s)\<lparr>hd_pos := hd_pos (dev s) + n, hd_left := hd_left (dev s) - n\<rparr>, trace := t\<rparr>)"
proof (induction n arbitrary: s)
  case 0 show ?case by (intro exI [of _ "trace s"]) simp
next
  case (Suc n)
  let ?d = "(dev s)\<lparr>hd_pos := hd_pos (dev s) + 1, hd_left := hd_left (dev s) - 1\<rparr>"
  obtain s1 where i: "inw (hd_bus ct) port s = (hd_word ct (hd_pos (dev s)), s1)" and d: "dev s1 = ?d"
    and f: "s1\<lparr>dev := x, trace := t\<rparr> = s\<lparr>dev := x, trace := t\<rparr>" for x t
    by (rule that [of "s\<lparr>dev := ?d, trace := trace s @ [In16 port (hd_word ct (hd_pos (dev s)))]\<rparr>"])
      (simp_all add: inw_def hd_bus_def)
  from Suc.IH [of s1] obtain t where
    "read_words (hd_bus ct) port n s1 =
      (map (hd_word ct) [hd_pos (dev s) + 1..<hd_pos (dev s) + 1 + n],
       s\<lparr>dev := (dev s)\<lparr>hd_pos := hd_pos (dev s) + 1 + n, hd_left := hd_left (dev s) - 1 - n\<rparr>, trace := t\<rparr>)"
    unfolding d f by auto
  then show ?case by (subst read_words.simps) (auto simp: i upt_conv_Cons simp del: upt_Suc)
qed

lemma store16s_append: "store16s p (vs @ ws) m = store16s (p + of_nat (2 * length vs)) ws (store16s p vs m)"
  by (induction vs arbitrary: p m) (simp_all add: algebra_simps)

lemma pio_read_hd:
  assumes "drive0 k s" and "0 < fuel" and "hd_left (dev s) = 256 * n" and "hd_pos (dev s) = p"
  shows "\<exists>t d. pio_read (hd_bus ct) fuel 0 0x1f0 n edi s =
    Inr (0, s\<lparr>dev := d, trace := t, amem := store16s edi (map (hd_word ct) [p..<p + 256 * n]) (amem s)\<rparr>)"
  using assms
proof (induction n arbitrary: s edi p)
  case 0 show ?case by (intro exI [of _ "trace s"] exI [of _ "dev s"]) simp
next
  case (Suc n)
  have "0 < hd_left (dev s)" using Suc.prems(3) by simp
  from drive0_polling [OF Suc.prems(1,2) this] obtain t1 where
    p1: "ide_polling (hd_bus ct) fuel 0 True s = Inr (0, s\<lparr>trace := t1\<rparr>)" by blast
  let ?d = "(dev s)\<lparr>hd_pos := p + 256, hd_left := 256 * n\<rparr>"
  let ?m = "store16s edi (map (hd_word ct) [p..<p + 256]) (amem s)"
  from read_words_hd [of ct "0x1f0" 256 "s\<lparr>trace := t1\<rparr>"] Suc.prems(3,4) obtain t2 where
    w: "read_words (hd_bus ct) 0x1f0 256 (s\<lparr>trace := t1\<rparr>) = (map (hd_word ct) [p..<p + 256], s\<lparr>dev := ?d, trace := t2\<rparr>)"
    by auto
  have "drive0 k (s\<lparr>dev := ?d, trace := t2, amem := ?m\<rparr>)" using Suc.prems(1) by simp
  from Suc.IH [OF this Suc.prems(2), of "p + 256" "edi + 512"] obtain t d where
    "pio_read (hd_bus ct) fuel 0 0x1f0 n (edi + 512) (s\<lparr>dev := ?d, trace := t2, amem := ?m\<rparr>) =
      Inr (0, s\<lparr>dev := d, trace := t, amem := store16s (edi + 512) (map (hd_word ct) [p + 256..<p + 256 + 256 * n]) ?m\<rparr>)"
    by auto
  moreover have "store16s (edi + 512) (map (hd_word ct) [p + 256..<p + 256 + 256 * n]) ?m =
      store16s edi (map (hd_word ct) [p..<p + 256 * Suc n]) (amem s)"
  proof -
    have "[p..<p + 256 * Suc n] = [p..<p + 256] @ [p + 256..<p + 256 + 256 * n]"
      using upt_add_eq_append [of p "p + 256" "256 * n"] by (simp add: add.assoc)
    then show ?thesis by (simp only: map_append store16s_append) simp
  qed
  ultimately show ?case by (auto simp: p1 w simp del: store16s.simps)
qed

lemma drive0_outb [simp]: "drive0 k (outb P p v s) = drive0 k s"
  by (simp add: drive0_def)

lemma dev_outb [simp]: "dev (outb P p v s) = b_outb P p v (dev s)"
  by (simp add: outb_def)

text \<open>The register writes of an access in the 28-bit mode, and what the drive has in its registers after them.\<close>

lemma drive0_writes:
  assumes "drive0 k s"
  shows "\<exists>s'. ide_writes P 0 (access_writes 1 io h sl n) s = Inr s' \<and> drive0 k s' \<and> amem s' = amem s \<and> aheap s' = aheap s \<and>
    dev s' = b_outb P 0x1f5 (io ! 2) (b_outb P 0x1f4 (io ! 1) (b_outb P 0x1f3 (io ! 0) (b_outb P 0x1f2 n
      (b_outb P 0x1f6 (0xE0 OR push_bit 4 sl OR h) (dev s)))))"
  using assms by (simp add: access_writes_def drive0_write ata_consts)

lemma hd_command:
  assumes d: "d = b_outb (hd_bus ct) 0x1f5 (io ! 2) (b_outb (hd_bus ct) 0x1f4 (io ! 1) (b_outb (hd_bus ct) 0x1f3 (io ! 0)
      (b_outb (hd_bus ct) 0x1f2 n (b_outb (hd_bus ct) 0x1f6 (0xE0 OR push_bit 4 0 OR h) d0))))"
    and "lba_split caps lba = (1, io, h)"
  shows "hd_pos (b_outb (hd_bus ct) 0x1f7 ATA_CMD_READ_PIO d) = 256 * unat lba"
    "hd_left (b_outb (hd_bus ct) 0x1f7 ATA_CMD_READ_PIO d) = 256 * unat n"
proof -
  have h: "unat h < 16" using lba_split_head [OF assms(2)] by simp
  have "unat lba = addressed_block (access_writes 1 io h 0 n)" using lba_split_block [OF assms(2), of 0 n] by simp
  also have "\<dots> = hd_block d"
    using device_reads(3) [of 0 h 1] h unfolding addressed_block_def Let_def addressed_reg d
    by (simp add: hd_block_def hd_bus_def)
  finally show "hd_pos (b_outb (hd_bus ct) 0x1f7 ATA_CMD_READ_PIO d) = 256 * unat lba"
    by (simp add: hd_bus_def)
  show "hd_left (b_outb (hd_bus ct) 0x1f7 ATA_CMD_READ_PIO d) = 256 * unat n"
    unfolding d by (simp add: hd_bus_def)
qed

lemma drive0_nIEN:
  assumes "drive0 k s"
  shows "\<exists>s'. set_nIEN 0 v s = Inr s' \<and> drive0 k s' \<and> amem s' = amem s \<and> aheap s' = aheap s \<and> dev s' = dev s"
  using assms by (auto simp: set_nIEN_def drive0_def)

lemma drive0_control: "drive0 k s \<Longrightarrow> ide_write P 0 ATA_REG_CONTROL v s = Inr (outb P 0x3f6 v s)"
  by (simp add: ide_write_def out_reg_def drive0_def)

lemma ide_ata_access_hd:
  assumes "drive0 k s" and "0 < fuel" and "unat lba < 2 ^ 28"
  shows "\<exists>s'. ide_ata_access (hd_bus ct) fuel ATA_READ 0 lba n edi s = Inr (0, s') \<and> drive0 k s' \<and> aheap s' = aheap s \<and>
    amem s' = store16s edi (map (hd_word ct) [256 * unat lba..<256 * unat lba + 256 * unat n]) (amem s)"
proof -
  let ?P = "hd_bus ct"
  let ?dv = "ide_devices s ! 0"
  have dv: "Channel ?dv = 0" "Drive ?dv = 0" "Capabilities ?dv AND 0x200 \<noteq> 0" "0 < length (ide_devices s)"
    "0 < length (channels s)" "ch_base (channels s ! 0) = 0x1f0"
    using assms(1) by (auto simp: drive0_def Let_def)
  have "\<not> lba \<ge> 0x10000000" using assms(3) by (simp add: word_le_nat_alt)
  from lba_split_modes(2) [OF this dv(3)] obtain io h where sp: "lba_split (Capabilities ?dv) lba = (1, io, h)" by blast
  have "drive0 k (s\<lparr>ide_irq_invoked := 0\<rparr>)" using assms(1) by (simp add: drive0_def)
  from drive0_nIEN [OF this] obtain s1 where s1: "set_nIEN 0 2 (s\<lparr>ide_irq_invoked := 0\<rparr>) = Inr s1" "drive0 k s1"
    "amem s1 = amem s" "aheap s1 = aheap s" by force
  let ?s2 = "outb ?P 0x3f6 2 s1"
  from drive0_busy [of k ?s2, OF _ assms(2)] s1(2) obtain t where s3: "busy_loop ?P fuel 0 ?s2 = Inr (?s2\<lparr>trace := t\<rparr>)"
    by fastforce
  have "drive0 k (?s2\<lparr>trace := t\<rparr>)" using s1(2) by simp
  from drive0_writes [OF this, of ?P io h 0 n] obtain s4 where s4:
    "ide_writes ?P 0 (access_writes 1 io h 0 n) (?s2\<lparr>trace := t\<rparr>) = Inr s4" "drive0 k s4" "amem s4 = amem s" "aheap s4 = aheap s"
    "dev s4 = b_outb ?P 0x1f5 (io ! 2) (b_outb ?P 0x1f4 (io ! 1) (b_outb ?P 0x1f3 (io ! 0) (b_outb ?P 0x1f2 n
      (b_outb ?P 0x1f6 (0xE0 OR push_bit 4 0 OR h) (dev ?s2)))))" using s1 by auto
  let ?s5 = "outb ?P 0x1f7 ATA_CMD_READ_PIO s4"
  have s5: "ide_write ?P 0 ATA_REG_COMMAND ATA_CMD_READ_PIO s4 = Inr ?s5"
    using drive0_write [OF s4(2), of ATA_REG_COMMAND] by (simp add: ata_consts)
  note hc = hd_command [OF s4(5) sp]
  have "drive0 k ?s5" using s4(2) by simp
  from pio_read_hd [OF this assms(2), of "unat n" "256 * unat lba" ct edi] hc obtain t' d where
    s6: "pio_read ?P fuel 0 0x1f0 (unat n) edi ?s5 =
      Inr (0, ?s5\<lparr>dev := d, trace := t', amem := store16s edi (map (hd_word ct) [256 * unat lba..<256 * unat lba + 256 * unat n]) (amem s)\<rparr>)"
    using s4(3) by auto
  have cmd: "ata_command 1 False 0 = Inr ATA_CMD_READ_PIO" by (simp add: ata_command_def)
  have "ide_ata_access ?P fuel ATA_READ 0 lba n edi s = pio_read ?P fuel 0 0x1f0 (unat n) edi ?s5"
    using dv s1 s3 s4(1) s5 cmd by (simp add: ide_ata_access_def ata_transfer_def sp ATA_READ_def drive0_control Let_def)
  then show ?thesis using s6 s4 by simp
qed

lemma ide_read_sectors_hd:
  assumes "drive0 k s" and "0 < fuel" and "unat lba + unat n \<le> k" and "0 < unat n"
  shows "\<exists>s'. ide_read_sectors (hd_bus ct) fuel 0 n lba edi s = Inr s' \<and> drive0 k s' \<and> aheap s' = aheap s \<and> package0 s' = 0 \<and>
    amem s' = store16s edi (map (hd_word ct) [256 * unat lba..<256 * unat lba + 256 * unat n]) (amem s)"
proof -
  let ?dv = "ide_devices s ! 0"
  have dv: "Reserved ?dv = 1" "dType ?dv = IDE_ATA" "unat (dSize ?dv) = k" "0 < length (ide_devices s)" "k \<le> 2 ^ 28"
    using assms(1) by (auto simp: drive0_def Let_def)
  have "unat n < 2 ^ 8" by (rule order.strict_trans2 [OF unsigned_less]) simp
  then have "unat (ucast n :: u32) = unat n" by (simp add: unsigned_ucast_eq take_bit_nat_eq_self)
  then have "unat (lba + ucast n) = unat lba + unat n"
    using assms(3) dv(5) by (subst unat_add_lem [THEN iffD1]) simp_all
  then have le: "\<not> lba + ucast n > dSize ?dv" using assms(3) dv(3) by (simp add: word_less_nat_alt)
  have "unat lba < 2 ^ 28" using assms(3,4) dv(5) by simp
  from ide_ata_access_hd [OF assms(1,2) this, of ct n edi] obtain s' where
    s': "ide_ata_access (hd_bus ct) fuel ATA_READ 0 lba n edi s = Inr (0, s')" "drive0 k s'" "aheap s' = aheap s"
      "amem s' = store16s edi (map (hd_word ct) [256 * unat lba..<256 * unat lba + 256 * unat n]) (amem s)" by blast
  then show ?thesis
    using dv le by (auto simp: ide_read_sectors_def ide_print_error_def)
qed

section \<open>Words in memory are bytes in memory\<close>

lemma store16s_outside: "(\<forall>i < 2 * length ws. x \<noteq> p + of_nat i) \<Longrightarrow> store16s p ws m x = m x"
proof (induction ws arbitrary: p m)
  case (Cons w ws)
  have "x \<noteq> p + 2 + of_nat i" if "i < 2 * length ws" for i
    using Cons.prems [rule_format, of "i + 2"] that by (simp add: algebra_simps)
  moreover have "x \<noteq> p" "x \<noteq> p + 1"
    using Cons.prems [rule_format, of 0] Cons.prems [rule_format, of 1] by auto
  ultimately show ?case using Cons.IH by simp
qed simp

lemma store16s_bytes:
  "2 * length ws \<le> 2 ^ 32 \<Longrightarrow> i < 2 * length ws \<Longrightarrow>
     store16s p ws m (p + of_nat i) = (if even i then ucast (ws ! (i div 2)) else ucast (drop_bit 8 (ws ! (i div 2))))"
proof (induction ws arbitrary: p m i)
  case (Cons w ws)
  show ?case
  proof (cases "i < 2")
    case True
    have "p + of_nat i \<noteq> p + 2 + of_nat j" if "j < 2 * length ws" for j
      using of_nat_u32 [of i "j + 2"] True that Cons.prems(1) by (auto simp: add.assoc)
    then have "store16s p (w # ws) m (p + of_nat i) = (m(p := ucast w, p + 1 := ucast (drop_bit 8 w))) (p + of_nat i)"
      by (simp add: store16s_outside del: fun_upd_apply)
    with True show ?thesis by (auto simp: less_2_cases_iff)
  next
    case False
    then obtain j where j: "i = j + 2" by (metis add.commute le_Suc_ex not_less)
    have "store16s p (w # ws) m (p + of_nat i) = store16s (p + 2) ws (m(p := ucast w, p + 1 := ucast (drop_bit 8 w))) ((p + 2) + of_nat j)"
      by (simp add: j algebra_simps)
    also have "\<dots> = (if even j then ucast (ws ! (j div 2)) else ucast (drop_bit 8 (ws ! (j div 2))))"
      using Cons.prems by (intro Cons.IH) (simp_all add: j)
    finally show ?thesis by (simp add: j)
  qed
qed simp

lemma hd_word_bytes: "(ucast (hd_word ct i) :: u8) = ct (2 * i)" "(ucast (drop_bit 8 (hd_word ct i)) :: u8) = ct (2 * i + 1)"
  unfolding hd_word_def by (rule bit_word_eqI; auto simp: bit_simps dest: bit_imp_le_length)+

lemma store_hd_words:
  assumes "2 * n \<le> 2 ^ 32" and "i < 2 * n"
  shows "store16s p (map (hd_word ct) [q..<q + n]) m (p + of_nat i) = ct (2 * q + i)"
proof -
  have "i div 2 < n" using assms(2) by simp
  then have w: "map (hd_word ct) [q..<q + n] ! (i div 2) = hd_word ct (q + i div 2)" by simp
  have "2 * length (map (hd_word ct) [q..<q + n]) \<le> 2 ^ 32" "i < 2 * length (map (hd_word ct) [q..<q + n])" using assms by simp_all
  note b = store16s_bytes [OF this, of p m]
  show ?thesis
  proof (cases "even i")
    case True
    then have "2 * (q + i div 2) = 2 * q + i" by simp
    with b w True show ?thesis by (simp only: if_True hd_word_bytes)
  next
    case False
    then have "2 * (q + i div 2) + 1 = 2 * q + i" by presburger
    with b w False show ?thesis by (simp only: if_False hd_word_bytes)
  qed
qed

end
