(* ===== verification/Ata_Disk.thy ===== *)
theory Ata_Disk
  imports Ata_Correct
begin

text \<open>
  \<^verbatim>\<open>Ata::read\<close> and \<^verbatim>\<open>Ata::write\<close>: the byte ranges over the sectors. On the drive of \<open>Ata_Correct\<close> and a kernel heap with
  room for the sectors, \<^verbatim>\<open>read\<close> returns the bytes of the disk, and the driver is a \<open>block_device\<close>.
\<close>

section \<open>The arithmetic of the block numbers\<close>

text \<open>The numbers of \<^verbatim>\<open>read\<close> for a range below 2 GB, as natural numbers.\<close>

definition bl_first :: "u32 \<Rightarrow> nat" where
  "bl_first pos = unat pos div 512"

definition bl_count :: "u32 \<Rightarrow> u32 \<Rightarrow> nat" where
  "bl_count pos n = (unat pos + unat n) div 512 - unat pos div 512 + 1"

lemma range_numbers:
  assumes "unat pos + unat n < 2 ^ 31"
  shows "sint pos sdiv 512 = int (bl_first pos)" "sint (pos + n) sdiv 512 - int (bl_first pos) + 1 = int (bl_count pos n)"
    "sint pos smod 512 = int (unat pos mod 512)"
proof -
  have a: "unat (pos + n) = unat pos + unat n" using assms by (subst unat_add_lem [THEN iffD1]) simp_all
  have p: "sint pos = int (unat pos)" using assms by (intro sint_small) simp
  have e: "sint (pos + n) = int (unat pos + unat n)" using assms a by (subst sint_small) simp_all
  show b: "sint pos sdiv 512 = int (bl_first pos)" unfolding p bl_first_def by (simp add: sdiv_smod_nonneg zdiv_int)
  show "sint pos smod 512 = int (unat pos mod 512)" unfolding p by (simp add: sdiv_smod_nonneg zmod_int)
  have "unat pos div 512 \<le> (unat pos + unat n) div 512" by (rule div_le_mono) simp
  then show "sint (pos + n) sdiv 512 - int (bl_first pos) + 1 = int (bl_count pos n)"
    unfolding bl_first_def e by (simp add: sdiv_smod_nonneg bl_count_def of_nat_diff zdiv_int)
qed

lemma bl_count_covers: "unat pos mod 512 + unat n < 512 * bl_count pos n"
proof -
  let ?e = "unat pos + unat n"
  have "unat pos div 512 \<le> ?e div 512" by (rule div_le_mono) simp
  then have "512 * bl_count pos n = 512 * (?e div 512) - 512 * (unat pos div 512) + 512"
    by (simp add: bl_count_def diff_mult_distrib2)
  moreover have "512 * (unat pos div 512) + unat pos mod 512 = unat pos" "512 * (?e div 512) + ?e mod 512 = ?e" by simp_all
  moreover have "?e mod 512 < 512" by simp
  ultimately show ?thesis by linarith
qed

lemma bl_count_le: "unat n \<le> 512 * m \<Longrightarrow> bl_count pos n \<le> m + 2"
proof -
  assume "unat n \<le> 512 * m"
  then have "(unat pos + unat n) div 512 \<le> (unat pos + 512 * m) div 512" by (intro div_le_mono) simp
  then show ?thesis by (simp add: bl_count_def)
qed

section \<open>The heap and the buffers\<close>

text \<open>
  The heap has a free block where the next request is looked for, with room for two pages; the caller's buffer
  at \<open>buf\<close>, of a page, lies outside that block.
\<close>

definition heap_room :: "nat \<Rightarrow> u32 \<Rightarrow> kheap \<Rightarrow> bool" where
  "heap_room fuel buf h \<longleftrightarrow>
     (\<exists>pre b k ys. heap_ok h (pre @ (b, k, False) # ys) \<and> (ys = [] \<or> snd (snd (hd ys))) \<and> next_free h = of_nat b \<and>
        0x2000 \<le> k \<and> b + k < 2 ^ 32 \<and> length pre + length ys < fuel \<and> (unat buf + 0x1000 \<le> b \<or> b + k \<le> unat buf))"

lemma heap_room_runs:
  assumes "heap_room fuel buf h" and "unat sz \<le> 0x1800" and "unat sz mod 4 = 0"
  shows "\<exists>a h1 h2. kmalloc fuel h sz = Inr (of_nat a, h1) \<and> kfree fuel h1 (of_nat a) = Inr h2 \<and> heap_room fuel buf h2 \<and>
    a + unat sz < 2 ^ 32 \<and> (unat buf + 0x1000 \<le> a \<or> a + unat sz \<le> unat buf)"
proof -
  from assms(1) obtain pre b k ys where h: "heap_ok h (pre @ [] @ (b, k, False) # ys)" "ys = [] \<or> snd (snd (hd ys))"
    "next_free h = of_nat b" "0x2000 \<le> k" "b + k < 2 ^ 32" "length pre + length ys < fuel" "unat buf + 0x1000 \<le> b \<or> b + k \<le> unat buf"
    unfolding heap_room_def by auto
  have r: "(unat sz + 11) div 4 * 4 = unat sz + 8" using assms(3) by presburger
  have "\<exists>h1 h2. kmalloc fuel h sz = Inr (of_nat (b + k - (unat sz + 11) div 4 * 4 + 8), h1) \<and>
    kfree fuel h1 (of_nat (b + k - (unat sz + 11) div 4 * 4 + 8)) = Inr h2 \<and>
    heap_ok h2 (pre @ [] @ (b, k, False) # ys) \<and> next_free h2 = of_nat b"
    using h assms(2) r by (intro kmalloc_kfree_runs) auto
  moreover have "b + k - (unat sz + 11) div 4 * 4 + 8 = b + k - unat sz" using r h(4) assms(2) by simp
  ultimately obtain h1 h2 where k: "kmalloc fuel h sz = Inr (of_nat (b + k - unat sz), h1)" "kfree fuel h1 (of_nat (b + k - unat sz)) = Inr h2"
    "heap_ok h2 (pre @ (b, k, False) # ys)" "next_free h2 = of_nat b" by auto
  then have "heap_room fuel buf h2" using h unfolding heap_room_def by blast
  with k h assms(2) show ?thesis by (intro exI [of _ "b + k - unat sz"]) auto
qed

lemma memcpy_disjoint:
  assumes "n \<le> 2 ^ 32" and "\<And>j k. j < n \<Longrightarrow> k < n \<Longrightarrow> src + of_nat k \<noteq> dst + of_nat j" and "i < n"
  shows "memcpy dst src n m (dst + of_nat i) = m (src + of_nat i)"
proof -
  have "copied m (move_up dst src n m) dst src n" using assms by (intro move_up_copied) auto
  then show ?thesis using assms(3) by (simp add: memcpy_def copy_loop_move_up copied_def)
qed

lemma buffers_apart:
  assumes "a + sz < 2 ^ 32" and "unat buf + 0x1000 \<le> a \<or> a + sz \<le> unat buf" and "unat buf + 0x1000 \<le> 2 ^ 32"
    and "off + k < sz" and "j < 0x1000"
  shows "of_nat a + of_nat off + of_nat k \<noteq> buf + (of_nat j :: u32)"
proof -
  have "of_nat a + of_nat off + of_nat k = (of_nat (a + off + k) :: u32)" "buf + of_nat j = of_nat (unat buf + j)" by simp_all
  moreover have "a + off + k \<noteq> unat buf + j" using assms by auto
  ultimately show ?thesis using of_nat_u32 [of "a + off + k" "unat buf + j"] assms by simp
qed

section \<open>Reading a range\<close>

text \<open>The state in which the driver serves the file system, with the buffer at \<open>buf\<close>.\<close>

definition ata_ok :: "nat \<Rightarrow> u32 \<Rightarrow> nat \<Rightarrow> 'd ata \<Rightarrow> bool" where
  "ata_ok fuel buf sectors s \<longleftrightarrow>
     0 < fuel \<and> buf \<noteq> 0 \<and> unat buf + 0x1000 \<le> 2 ^ 32 \<and> sectors \<le> 2 ^ 22 \<and> drive0 sectors s \<and> heap_room fuel buf (aheap s)"

text \<open>The numbers handed on to the heap and to the sector routine.\<close>

lemma transfer_words:
  assumes "bl_count pos n \<le> 10"
  shows "unat (word_of_int (int (bl_count pos n) * 512) :: u32) = 512 * bl_count pos n"
    "unat (word_of_int (int (bl_count pos n)) :: u8) = bl_count pos n"
    "unat (word_of_int (int (bl_first pos)) :: u32) = bl_first pos"
proof -
  have "bl_first pos < 2 ^ 32" using unat_u32_less [of pos] by (simp add: bl_first_def)
  moreover have "512 * bl_count pos n < 2 ^ 32" "bl_count pos n < 2 ^ 8" using assms by simp_all
  moreover have "word_of_int (int (bl_count pos n) * 512) = (of_nat (512 * bl_count pos n) :: u32)"
    "word_of_int (int (bl_count pos n)) = (of_nat (bl_count pos n) :: u8)"
    "word_of_int (int (bl_first pos)) = (of_nat (bl_first pos) :: u32)" by simp_all
  ultimately show "unat (word_of_int (int (bl_count pos n) * 512) :: u32) = 512 * bl_count pos n"
    "unat (word_of_int (int (bl_count pos n)) :: u8) = bl_count pos n"
    "unat (word_of_int (int (bl_first pos)) :: u32) = bl_first pos" by (simp_all only: unat_small)
qed

text \<open>
  \<^verbatim>\<open>read\<close> gets a buffer at \<open>a\<close> from the heap, reads the sectors into it, copies the range out and gives the
  buffer back.
\<close>

lemma Ata_read_runs:
  assumes ok: "ata_ok fuel buf sectors s" and n: "unat n \<le> 0x1000" and lt: "unat pos + unat n < 2 ^ 31"
  shows "\<exists>a h1 h2. kfree fuel h1 (of_nat a) = Inr h2 \<and> heap_room fuel buf h2 \<and>
    a + 512 * bl_count pos n < 2 ^ 32 \<and> (unat buf + 0x1000 \<le> a \<or> a + 512 * bl_count pos n \<le> unat buf) \<and>
    Ata_read P fuel 0 pos buf n s =
      rbind (ide_read_sectors P fuel 0 (word_of_int (int (bl_count pos n))) (word_of_int (int (bl_first pos))) (of_nat a) (s\<lparr>aheap := h1\<rparr>))
        (\<lambda>s1. rbind (kfree fuel (aheap s1) (of_nat a)) (\<lambda>h.
          Inr (n, s1\<lparr>amem := memcpy buf (of_nat a + word_of_int (int (unat pos mod 512))) (unat n) (amem s1), aheap := h\<rparr>)))"
proof -
  let ?C = "bl_count pos n"
  have ok': "buf \<noteq> 0" "heap_room fuel buf (aheap s)" using ok by (simp_all add: ata_ok_def)
  note num = range_numbers [OF lt]
  have C: "?C \<le> 10" using bl_count_le [of n 8] n by simp
  note w = transfer_words [OF C]
  let ?sz = "word_of_int (int ?C * 512) :: u32"
  from heap_room_runs [OF ok'(2), of ?sz] w(1) C obtain a h1 h2 where
    h: "kmalloc fuel (aheap s) ?sz = Inr (of_nat a, h1)" "kfree fuel h1 (of_nat a) = Inr h2" "heap_room fuel buf h2"
      "a + 512 * ?C < 2 ^ 32" "unat buf + 0x1000 \<le> a \<or> a + 512 * ?C \<le> unat buf" by fastforce
  have "int (unat pos mod 512 + unat n) < int (512 * ?C)" using bl_count_covers [of pos n] by (simp only: of_nat_less_iff)
  then have ib: "in_buffer (int ?C) (int (unat pos mod 512)) n" by (simp add: in_buffer_def)
  have "\<not> int ?C > 255" using C by simp
  then have "Ata_read P fuel 0 pos buf n s =
      rbind (ide_read_sectors P fuel 0 (word_of_int (int ?C)) (word_of_int (int (bl_first pos))) (of_nat a) (s\<lparr>aheap := h1\<rparr>))
        (\<lambda>s1. rbind (kfree fuel (aheap s1) (of_nat a)) (\<lambda>h.
          Inr (n, s1\<lparr>amem := memcpy buf (of_nat a + word_of_int (int (unat pos mod 512))) (unat n) (amem s1), aheap := h\<rparr>)))"
    unfolding Ata_read_def Let_def num by (simp only: ok'(1) if_False rbind_Inr prod.case h(1) ib not_True_eq_False)
  with h(2-5) show ?thesis by blast
qed

lemma Ata_read_hd:
  assumes ok: "ata_ok fuel buf sectors s" and n: "unat n \<le> 0x1000" and range: "unat pos + unat n < 512 * sectors"
  shows "\<exists>s'. Ata_read (hd_bus ct) fuel 0 pos buf n s = Inr (n, s') \<and> ata_ok fuel buf sectors s' \<and> package0 s' = 0 \<and>
    (\<forall>i < unat n. amem s' (buf + of_nat i) = ct (unat pos + i))"
proof -
  let ?B = "bl_first pos" and ?C = "bl_count pos n" and ?o = "unat pos mod 512"
  have ok': "0 < fuel" "buf \<noteq> 0" "unat buf + 0x1000 \<le> 2 ^ 32" "sectors \<le> 2 ^ 22" "drive0 sectors s"
    using ok by (simp_all add: ata_ok_def)
  have lt: "unat pos + unat n < 2 ^ 31" using range ok'(4) by simp
  have C: "0 < ?C" "?C \<le> 10" using bl_count_le [of n 8] n by (simp_all add: bl_count_def)
  note w = transfer_words [OF C(2)]
  have BC: "?B + ?C \<le> sectors"
  proof -
    have "(unat pos + unat n) div 512 < sectors" using range by (simp add: less_mult_imp_div_less mult.commute)
    moreover have "unat pos div 512 \<le> (unat pos + unat n) div 512" by (rule div_le_mono) simp
    ultimately show ?thesis by (simp add: bl_first_def bl_count_def)
  qed
  from Ata_read_runs [OF ok n lt, of "hd_bus ct"] obtain a h1 h2 where
    h: "kfree fuel h1 (of_nat a) = Inr h2" "heap_room fuel buf h2" "a + 512 * ?C < 2 ^ 32" "unat buf + 0x1000 \<le> a \<or> a + 512 * ?C \<le> unat buf"
    and run: "Ata_read (hd_bus ct) fuel 0 pos buf n s =
      rbind (ide_read_sectors (hd_bus ct) fuel 0 (word_of_int (int ?C)) (word_of_int (int ?B)) (of_nat a) (s\<lparr>aheap := h1\<rparr>))
        (\<lambda>s1. rbind (kfree fuel (aheap s1) (of_nat a)) (\<lambda>h.
          Inr (n, s1\<lparr>amem := memcpy buf (of_nat a + word_of_int (int ?o)) (unat n) (amem s1), aheap := h\<rparr>)))" by blast
  have d: "drive0 sectors (s\<lparr>aheap := h1\<rparr>)" using ok'(5) by simp
  have p: "unat (word_of_int (int ?B) :: u32) + unat (word_of_int (int ?C) :: u8) \<le> sectors" "0 < unat (word_of_int (int ?C) :: u8)"
    using w C(1) BC by (simp_all only:)
  from ide_read_sectors_hd [OF d ok'(1) p, of ct "of_nat a"] obtain s1 where
    s1: "ide_read_sectors (hd_bus ct) fuel 0 (word_of_int (int ?C)) (word_of_int (int ?B)) (of_nat a) (s\<lparr>aheap := h1\<rparr>) = Inr s1"
      "drive0 sectors s1" "aheap s1 = aheap (s\<lparr>aheap := h1\<rparr>)" "package0 s1 = 0"
      "amem s1 = store16s (of_nat a) (map (hd_word ct) [256 * ?B..<256 * ?B + 256 * ?C]) (amem (s\<lparr>aheap := h1\<rparr>))"
    unfolding w by (elim exE conjE) (rule that)
  let ?s2 = "s1\<lparr>amem := memcpy buf (of_nat a + word_of_int (int ?o)) (unat n) (amem s1), aheap := h2\<rparr>"
  have "aheap s1 = h1" using s1(3) by simp
  then have run2: "Ata_read (hd_bus ct) fuel 0 pos buf n s = Inr (n, ?s2)" unfolding run by (simp only: s1(1) rbind_Inr h(1))
  have cov: "?o + unat n < 512 * ?C" by (rule bl_count_covers)
  have bytes: "amem ?s2 (buf + of_nat i) = ct (unat pos + i)" if i: "i < unat n" for i
  proof -
    have apart: "of_nat a + of_nat ?o + of_nat k \<noteq> buf + (of_nat j :: u32)" if "j < unat n" "k < unat n" for j k
      using buffers_apart [OF h(3,4) ok'(3), of ?o k j] cov that n by simp
    have "amem ?s2 (buf + of_nat i) = amem s1 (of_nat a + of_nat (?o + i))"
      using memcpy_disjoint [of "unat n" "of_nat a + of_nat ?o" buf i "amem s1"] apart i n
      by (simp add: add.assoc)
    also have "\<dots> = ct (2 * (256 * ?B) + (?o + i))"
      unfolding s1(5) using i cov C by (intro store_hd_words) simp_all
    also have "2 * (256 * ?B) + (?o + i) = unat pos + i" by (simp add: bl_first_def)
    finally show ?thesis .
  qed
  have "ata_ok fuel buf sectors ?s2" using ok' s1(2) h(2) by (simp add: ata_ok_def)
  then show ?thesis using run2 bytes s1(4) by auto
qed

text \<open>The driver as the file system sees it: the bytes in the buffer after the call.\<close>

definition ata_rd :: "('d, 'y) bus_scheme \<Rightarrow> nat \<Rightarrow> u8 \<Rightarrow> u32 \<Rightarrow> 'd ata driver" where
  "ata_rd P fuel drive buf pos n s =
     rbind (Ata_read P fuel drive pos buf (of_nat n) s) (\<lambda>(_, s). Inr (map (\<lambda>i. amem s (buf + of_nat i)) [0..<n], s))"

lemma ata_rd_device: "block_device (ata_rd (hd_bus ct) fuel 0 buf) ct (512 * sectors) (ata_ok fuel buf sectors)"
proof unfold_locales
  fix s :: "hd ata" and n :: nat and pos :: u32
  assume a: "ata_ok fuel buf sectors s" "n \<le> 0x1000" "unat pos + n < 512 * sectors"
  have n: "unat (of_nat n :: u32) = n" using a(2) by (simp add: unsigned_of_nat take_bit_nat_eq_self)
  from Ata_read_hd [OF a(1), of "of_nat n" pos ct] a(2,3) n obtain s' where
    "Ata_read (hd_bus ct) fuel 0 pos buf (of_nat n) s = Inr (of_nat n, s')" "ata_ok fuel buf sectors s'"
    "\<forall>i < n. amem s' (buf + of_nat i) = ct (unat pos + i)" by auto
  then show "\<exists>s'. ata_rd (hd_bus ct) fuel 0 buf pos n s = Inr (disk_bytes ct (unat pos) n, s') \<and> ata_ok fuel buf sectors s'"
    by (auto simp: ata_rd_def intro!: nth_equalityI)
qed

section \<open>The end of the disk, and unaligned writes\<close>

text \<open>\<^verbatim>\<open>read\<close> always counts the sector its end falls into, even when the range ends in front of it.\<close>

lemma Ata_read_end:
  assumes ok: "ata_ok fuel buf sectors s" and n: "unat n \<le> 0x1000" and range: "unat pos + unat n = 512 * sectors" and "sectors < 2 ^ 22"
  shows "\<exists>s'. Ata_read P fuel 0 pos buf n s = Inr (n, s') \<and> package0 s' = 2 \<and> dev s' = dev s \<and> trace s' = trace s"
proof -
  let ?B = "bl_first pos" and ?C = "bl_count pos n"
  have lt: "unat pos + unat n < 2 ^ 31" using range assms(4) by simp
  have C: "0 < ?C" "?C \<le> 10" using bl_count_le [of n 8] n by (simp_all add: bl_count_def)
  note w = transfer_words [OF C(2)]
  have "unat pos div 512 \<le> (unat pos + unat n) div 512" by (rule div_le_mono) simp
  then have BC: "?B + ?C = sectors + 1" using range by (simp add: bl_first_def bl_count_def)
  from Ata_read_runs [OF ok n lt, of P] obtain a h1 h2 where h: "kfree fuel h1 (of_nat a) = Inr h2"
    and run: "Ata_read P fuel 0 pos buf n s =
      rbind (ide_read_sectors P fuel 0 (word_of_int (int ?C)) (word_of_int (int ?B)) (of_nat a) (s\<lparr>aheap := h1\<rparr>))
        (\<lambda>s1. rbind (kfree fuel (aheap s1) (of_nat a)) (\<lambda>h.
          Inr (n, s1\<lparr>amem := memcpy buf (of_nat a + word_of_int (int (unat pos mod 512))) (unat n) (amem s1), aheap := h\<rparr>)))" by blast
  have dv: "0 < length (ide_devices s)" "Reserved (ide_devices s ! 0) = 1" "dType (ide_devices s ! 0) = IDE_ATA"
    "unat (dSize (ide_devices s ! 0)) = sectors" using ok by (auto simp: ata_ok_def drive0_def Let_def)
  have "unat (ucast (word_of_int (int ?C) :: u8) :: u32) = ?C"
    using w(2) C by (simp add: unsigned_ucast_eq take_bit_nat_eq_self)
  then have "unat (word_of_int (int ?B) + ucast (word_of_int (int ?C) :: u8) :: u32) = sectors + 1"
    using w(3) BC assms(4) by (subst unat_add_lem [THEN iffD1]) simp_all
  then have gt: "word_of_int (int ?B) + ucast (word_of_int (int ?C) :: u8) > dSize (ide_devices s ! 0)"
    using dv(4) by (simp add: word_less_nat_alt)
  have "ide_read_sectors P fuel 0 (word_of_int (int ?C)) (word_of_int (int ?B)) (of_nat a) (s\<lparr>aheap := h1\<rparr>) =
      Inr (s\<lparr>aheap := h1, package0 := 2\<rparr>)"
    unfolding ide_read_sectors_def using dv gt by simp
  then show ?thesis unfolding run using h by simp
qed

lemma Ata_write_overrun:
  assumes "buf \<noteq> 0" and "unat pos + unat n < 2 ^ 31" and "unat n mod 512 = 0" and "unat pos mod 512 \<noteq> 0"
  shows "Ata_write P fuel drive pos buf n s \<noteq> Inr r"
proof
  assume run: "Ata_write P fuel drive pos buf n s = Inr r"
  note num = range_numbers [OF assms(2)]
  have "(unat pos + unat n) div 512 = unat pos div 512 + unat n div 512"
    using assms(3) by (metis div_plus_div_distrib_dvd_right mod_0_imp_dvd)
  then have "sint (pos + n) sdiv 512 - int (bl_first pos) = int (unat n div 512)"
    using num(2) by (simp add: bl_count_def)
  moreover have "n mod 512 = 0" using assms(3) by (simp add: word_unat_eq_iff unat_mod)
  ultimately have "in_buffer (int (unat n div 512)) (int (unat pos mod 512)) n"
    using run assms(1) num(1,3) by (auto simp: Ata_write_def Let_def rbind_eq_Inr split: if_splits)
  then have "int (unat pos mod 512 + unat n) \<le> int (unat n div 512 * 512)" by (simp add: in_buffer_def)
  then have "unat pos mod 512 + unat n \<le> unat n div 512 * 512" by (simp only: of_nat_le_iff)
  moreover have "unat n div 512 * 512 = unat n" using assms(3) by (simp add: minus_mod_eq_div_mult [symmetric])
  ultimately show False using assms(4) by simp
qed

section \<open>A machine with a small disk\<close>

definition demo_device :: ide_device where
  "demo_device = \<lparr>Reserved = 1, Channel = 0, Drive = 0, dType = IDE_ATA, Signature = 0, Capabilities = 0x200, CommandSets = 0,
     dSize = 256, Model = []\<rparr>"

definition demo_ata :: "hd ata" where
  "demo_ata =
     \<lparr>dev = \<lparr>hd_reg = \<lambda>_. 0, hd_pos = 0, hd_left = 0\<rparr>, trace = [],
      channels = [\<lparr>ch_base = 0x1f0, ch_ctrl = 0x3f4, bmide = 0, nIEN = 0\<rparr>, \<lparr>ch_base = 0x170, ch_ctrl = 0x374, bmide = 8, nIEN = 0\<rparr>],
      ide_devices = [demo_device, demo_device\<lparr>Drive := 1\<rparr>], ide_irq_invoked = 0, isInit = True, package0 = 0, atapi_packet = [], amem = \<lambda>_. 0,
      aheap = \<lparr>kmem = (\<lambda>_. 0)(0x100000 := 0x100000, 0x100004 := 0x2000), kbase = 0x100000, next_free = 0x100000, interrupts = True\<rparr>\<rparr>"

lemma demo_ata_ok: "ata_ok 1 0x8000 256 demo_ata"
proof -
  have "heap_ok (aheap demo_ata) ([] @ [(0x100000, 0x2000, False)])"
    by (simp add: heap_ok_def blocks_ok_def demo_ata_def)
  then have "heap_room 1 0x8000 (aheap demo_ata)"
    unfolding heap_room_def by (intro exI [of _ "[]"] exI [of _ "0x100000"] exI [of _ "0x2000"]) (simp add: demo_ata_def)
  moreover have "drive0 256 demo_ata" by (simp add: drive0_def demo_ata_def demo_device_def)
  ultimately show ?thesis by (simp add: ata_ok_def)
qed

section \<open>Properties\<close>

text \<open>
  C15. \<^verbatim>\<open>Ata::read\<close> of up to a page that ends inside the disk, on a drive that answers as the standard says:
  it returns the number of bytes asked for, without an error, and the buffer holds the bytes of the disk from the
  position on, whatever the alignment of the range; the heap and the driver are ready for the next read.
\<close>

theorem Ata_read_correct:
  assumes "ata_ok fuel buf sectors s" and "unat n \<le> 0x1000" and "unat pos + unat n < 512 * sectors"
  shows "\<exists>s'. Ata_read (hd_bus ct) fuel 0 pos buf n s = Inr (n, s') \<and> ata_ok fuel buf sectors s' \<and> package0 s' = 0 \<and>
    (\<forall>i < unat n. amem s' (buf + of_nat i) = ct (unat pos + i))"
  using assms by (rule Ata_read_hd)

theorem Ata_read_correct_witness:
  "\<exists>s'. Ata_read (hd_bus (\<lambda>i. of_nat i)) 1 0 0x1fe 0x8000 4 demo_ata = Inr (4, s') \<and> package0 s' = 0 \<and>
     map (amem s') [0x8000, 0x8001, 0x8002, 0x8003] = [0xfe, 0xff, 0, 1]"
proof -
  from Ata_read_correct [OF demo_ata_ok, of 4 "0x1fe" "\<lambda>i. of_nat i"] obtain s' where
    s': "Ata_read (hd_bus (\<lambda>i. of_nat i)) 1 0 0x1fe 0x8000 4 demo_ata = Inr (4, s')" "package0 s' = 0"
      "\<forall>i < 4. amem s' (0x8000 + of_nat i) = of_nat (0x1fe + i)" by auto
  from s'(3) [rule_format, of 0] s'(3) [rule_format, of 1] s'(3) [rule_format, of 2] s'(3) [rule_format, of 3] s'(1,2)
  show ?thesis by (intro exI [of _ s']) simp
qed

text \<open>
  C16. Every sector command that \<^verbatim>\<open>ide_ata_access\<close> completes, on any hardware and in each of the three modes:
  interrupts of the drive are off, the channel was not busy, and then the registers were written so that
  they address the block, the drive and the number of sectors the caller asked for, before the command.
  Without block addressing the block has to be below the 65536 cylinders of 16 heads and 63 sectors.
\<close>

theorem ata_access_address:
  assumes "ide_ata_access P fuel dir drive lba n edi s = Inr (e, s')"
    and "ide_devices s ! unat drive = dv" and "channels s ! unat (Channel dv) = c" and "unat (Drive dv) < 2"
    and "fst (lba_split (Capabilities dv) lba) = 0 \<Longrightarrow> unat lba < 65536 * 16 * 63"
  shows "\<exists>regs polls cmd rest. trace s' = trace s @ Out8 (ch_ctrl c + 2) 2 # map (In8 (ch_base c + 7)) polls @
      concat (map (reg_trace (c\<lparr>nIEN := 2\<rparr>)) regs) @ Out8 (ch_base c + 7) cmd # rest \<and>
    addressed_block regs = unat lba \<and> addressed_drive regs = unat (Drive dv) \<and> addressed_sectors regs = unat n"
proof -
  obtain m io h where sp: "lba_split (Capabilities dv) lba = (m, io, h)" by (cases "lba_split (Capabilities dv) lba")
  with assms(5) have lt: "m = 0 \<Longrightarrow> unat lba < 65536 * 16 * 63" by simp
  let ?regs = "access_writes m io h (Drive dv) n"
  from ide_ata_access_trace [OF assms(1,2,3)] sp have "\<exists>polls cmd rest. trace s' = trace s @ Out8 (ch_ctrl c + 2) 2 #
      map (In8 (ch_base c + 7)) polls @ concat (map (reg_trace (c\<lparr>nIEN := 2\<rparr>)) ?regs) @ Out8 (ch_base c + 7) cmd # rest"
    by (simp add: lba_of_def)
  moreover have "addressed_block ?regs = unat lba" using lba_split_block [OF sp assms(4) lt] .
  moreover have "addressed_drive ?regs = unat (Drive dv)"
    unfolding addressed_drive_def addressed_reg by (rule device_reads(1) [OF assms(4) lba_split_head [OF sp lt]])
  moreover have "addressed_sectors ?regs = unat n" by (simp add: addressed_sectors_def)
  ultimately show ?thesis by blast
qed

theorem ata_access_address_witness:
  "\<exists>s' regs polls cmd rest. ide_ata_access (hd_bus (\<lambda>_. 0)) 1 ATA_READ 0 9 1 0x8000 demo_ata = Inr (0, s') \<and>
     trace s' = Out8 0x3f6 2 # map (In8 0x1f7) polls @
       concat (map (reg_trace \<lparr>ch_base = 0x1f0, ch_ctrl = 0x3f4, bmide = 0, nIEN = 2\<rparr>) regs) @ Out8 0x1f7 cmd # rest \<and>
     addressed_block regs = 9 \<and> addressed_drive regs = 0 \<and> addressed_sectors regs = 1"
proof -
  have "drive0 256 demo_ata" using demo_ata_ok by (simp add: ata_ok_def)
  from ide_ata_access_hd [OF this, of 1 9 "\<lambda>_. 0" 1 "0x8000"] obtain s' where
    s': "ide_ata_access (hd_bus (\<lambda>_. 0)) 1 ATA_READ 0 9 1 0x8000 demo_ata = Inr (0, s')" by auto
  from ata_access_address [OF s', of demo_device "\<lparr>ch_base = 0x1f0, ch_ctrl = 0x3f4, bmide = 0, nIEN = 0\<rparr>"] s'
  show ?thesis by (simp add: demo_ata_def demo_device_def lba_split_def)
qed

text \<open>
  A read that ends exactly at the end of the disk is refused, because \<^verbatim>\<open>read\<close> always asks for one sector
  behind the last byte: nothing is read from the drive, yet the call returns the number of bytes asked for,
  on any hardware.
\<close>

theorem Ata_read_end_of_disk:
  assumes "ata_ok fuel buf sectors s" and "unat n \<le> 0x1000" and "unat pos + unat n = 512 * sectors" and "sectors < 2 ^ 22"
  shows "\<exists>s'. Ata_read P fuel 0 pos buf n s = Inr (n, s') \<and> package0 s' = 2 \<and> dev s' = dev s \<and> trace s' = trace s"
  using assms by (rule Ata_read_end)

theorem Ata_read_end_of_disk_witness:
  "\<exists>s'. Ata_read (hd_bus (\<lambda>_. 7)) 1 0 0x1fe00 0x8000 0x200 demo_ata = Inr (0x200, s') \<and> package0 s' = 2 \<and> trace s' = []"
  using Ata_read_end_of_disk [OF demo_ata_ok, of "0x200" "0x1fe00" "hd_bus (\<lambda>_. 7)"] by (auto simp: demo_ata_def)

text \<open>
  \<^verbatim>\<open>Ata::write\<close> of whole sectors at a position that is not a multiple of the sector size never comes
  back in a sound state: the buffer it takes from the heap is a sector too short, and the copy runs past its end.
\<close>

theorem Ata_write_unaligned:
  assumes "buf \<noteq> 0" and "unat pos + unat n < 2 ^ 31" and "unat n mod 512 = 0" and "unat pos mod 512 \<noteq> 0"
  shows "Ata_write P fuel drive pos buf n s \<noteq> Inr r"
  using assms by (rule Ata_write_overrun)

theorem Ata_write_unaligned_witness:
  "Ata_write (hd_bus (\<lambda>_. 0)) 1 0 0x1fe 0x8000 0x200 demo_ata \<noteq> Inr (0x200, demo_ata)"
  by (rule Ata_write_unaligned) simp_all

end
