(* ===== verification/Utilclass.thy ===== *)
theory Utilclass
  imports KString
begin

text \<open>
  The string and vector classes of the kernel, \<^verbatim>\<open>src/include/os/Utilclass.hpp\<close>.

  A \<open>kstring\<close> is its characters up to the terminating zero and the member \<^verbatim>\<open>len\<close>, which the constructor
  with a length does not bound by the characters there are. An object without characters has the empty
  list. A \<open>kvector\<close> is its elements, \<^verbatim>\<open>max_elem\<close> of them, and \<^verbatim>\<open>num_elem\<close>. Where the storage of the elements
  lies is not part of the model: every object owns its storage, and the copies are deep.
\<close>

section \<open>Strings\<close>

record kstring =
  chars :: "u8 list"
  klen :: nat

definition kstring_empty :: kstring where
  "kstring_empty = \<lparr>chars = [], klen = 0\<rparr>"

text \<open>The characters of a zero-terminated array, as far as \<^verbatim>\<open>strlen\<close> looks.\<close>

definition c_str :: "u8 list \<Rightarrow> u8 list" where
  "c_str bs = take STRLEN_MAX (takeWhile (\<lambda>c. c \<noteq> 0) bs)"

definition kstring_of :: "u8 list \<Rightarrow> kstring" where
  "kstring_of str = \<lparr>chars = c_str str, klen = length (c_str str)\<rparr>"

definition kstring_len :: "u8 list \<Rightarrow> nat \<Rightarrow> kstring" where
  "kstring_len str len = \<lparr>chars = take len (c_str str), klen = len\<rparr>"

definition kstring_copy :: "kstring \<Rightarrow> kstring" where
  "kstring_copy copied = \<lparr>chars = take (klen copied) (chars copied), klen = klen copied\<rparr>"

text \<open>\<^verbatim>\<open>strcmp\<close> of the two arrays: the lengths agree, and so do the first \<open>num\<close> characters.\<close>

definition chars_differ :: "u8 list \<Rightarrow> u8 list \<Rightarrow> nat \<Rightarrow> bool" where
  "chars_differ s1 s2 num \<longleftrightarrow>
     length s1 \<noteq> length s2 \<or> take (min num (length s1)) s1 \<noteq> take (min num (length s1)) s2"

definition kstring_eq :: "kstring \<Rightarrow> kstring \<Rightarrow> bool" where
  "kstring_eq lh rh \<longleftrightarrow> (if klen rh \<noteq> klen lh then False else \<not> chars_differ (chars lh) (chars rh) (klen lh))"

section \<open>Vectors\<close>

record 'a kvector =
  elems :: "'a list"
  num_elem :: nat

definition kvector_new :: "'a \<Rightarrow> nat \<Rightarrow> 'a kvector" where
  "kvector_new x max_elem = \<lparr>elems = replicate max_elem x, num_elem = max_elem\<rparr>"

definition kvector_at :: "'a kvector \<Rightarrow> nat \<Rightarrow> 'a kres" where
  "kvector_at v i = (if i \<ge> length (elems v) then Inl Null_deref else Inr (elems v ! i))"

definition kvector_set :: "'a kvector \<Rightarrow> nat \<Rightarrow> 'a \<Rightarrow> 'a kvector kres" where
  "kvector_set v i x = (if i \<ge> length (elems v) then Inl Null_deref else Inr (v\<lparr>elems := (elems v)[i := x]\<rparr>))"

definition set_nr_elem :: "'a kvector \<Rightarrow> nat \<Rightarrow> bool \<times> 'a kvector" where
  "set_nr_elem v nr_elem = (if nr_elem < length (elems v) then (True, v\<lparr>num_elem := nr_elem\<rparr>) else (False, v))"

definition kvector_copy :: "('a \<Rightarrow> 'a) \<Rightarrow> 'a kvector \<Rightarrow> 'a kvector" where
  "kvector_copy f copied = \<lparr>elems = map f (elems copied), num_elem = num_elem copied\<rparr>"

section \<open>What a string object stands for\<close>

text \<open>Objects made by the constructors have as many characters as their length says, or fewer.\<close>

definition kstring_wf :: "kstring \<Rightarrow> bool" where
  "kstring_wf s \<longleftrightarrow> length (chars s) \<le> klen s \<and> 0 \<notin> set (chars s)"

lemma c_str_nonzero: "0 \<notin> set (c_str bs)"
  by (auto simp: c_str_def dest!: in_set_takeD set_takeWhileD)

lemma kstring_wf_intros [simp]: "kstring_wf kstring_empty" "kstring_wf (kstring_of str)" "kstring_wf (kstring_len str len)"
  "kstring_wf s \<Longrightarrow> kstring_wf (kstring_copy s)"
  using c_str_nonzero
  by (auto simp: kstring_wf_def kstring_empty_def kstring_of_def kstring_len_def kstring_copy_def dest: in_set_takeD)

lemma kstring_copy_id [simp]: "kstring_wf s \<Longrightarrow> kstring_copy s = s"
  by (simp add: kstring_copy_def kstring_wf_def)

lemma kstring_eq_iff: "kstring_wf s \<Longrightarrow> kstring_wf t \<Longrightarrow> kstring_eq s t \<longleftrightarrow> s = t"
  by (cases s; cases t) (auto simp: kstring_eq_def chars_differ_def kstring_wf_def)

end
