(* ===== verification/Ext2.thy ===== *)
theory Ext2
  imports Utilclass Block_Device
begin

unbundle bit_operations_syntax

text \<open>
  The Ext2 file system reader, \<^verbatim>\<open>src/kernel/Ext2.cpp\<close> and \<^verbatim>\<open>src/include/os/Ext2.h\<close>.

  The disk driver is the argument \<open>rd\<close>: \<open>rd pos n s\<close> is \<^verbatim>\<open>atadriver->read(pos, buffer, n)\<close>, the bytes that are
  in the buffer afterwards. The structures on disk are layouts, the sequence of the fields of the C
  structure with their sizes, and an integer field is read at the sum of the sizes before it, least
  significant byte first. The objects that \<^verbatim>\<open>new\<close> makes for a read hold the bytes read and nothing else.
\<close>

section \<open>Structures on disk\<close>

type_synonym layout = "(string \<times> nat) list"

definition layout_size :: "layout \<Rightarrow> nat" where
  "layout_size L = sum_list (map snd L)"

fun offset_of :: "layout \<Rightarrow> string \<Rightarrow> nat" where
  "offset_of [] f = 0"
| "offset_of ((g, w) # L) f = (if f = g then 0 else w + offset_of L f)"

fun le_nat :: "u8 list \<Rightarrow> nat" where
  "le_nat [] = 0"
| "le_nat (b # bs) = unat b + 256 * le_nat bs"

definition le_at :: "u8 list \<Rightarrow> nat \<Rightarrow> nat \<Rightarrow> nat" where
  "le_at bs off w = le_nat (take w (drop off bs))"

definition field16 :: "layout \<Rightarrow> string \<Rightarrow> u8 list \<Rightarrow> u16" where
  "field16 L f bs = of_nat (le_at bs (offset_of L f) 2)"

definition field32 :: "layout \<Rightarrow> string \<Rightarrow> u8 list \<Rightarrow> u32" where
  "field32 L f bs = of_nat (le_at bs (offset_of L f) 4)"

definition array32 :: "layout \<Rightarrow> string \<Rightarrow> nat \<Rightarrow> u8 list \<Rightarrow> u32 list" where
  "array32 L f n bs = map (\<lambda>i. of_nat (le_at bs (offset_of L f + 4 * i) 4)) [0..<n]"

definition ext2_group_desc :: layout where
  "ext2_group_desc =
     [(''bg_block_bitmap'', 4), (''bg_inode_bitmap'', 4), (''bg_inode_table'', 4), (''bg_free_blocks_count'', 2),
      (''bg_free_inodes_count'', 2), (''bg_used_dirs_count'', 2), (''bg_pad'', 2), (''bg_reserved'', 12)]"

definition EXT2_NDIR_BLOCKS :: nat where "EXT2_NDIR_BLOCKS = 12"
definition EXT2_IND_BLOCK :: nat where "EXT2_IND_BLOCK = EXT2_NDIR_BLOCKS"
definition EXT2_DIND_BLOCK :: nat where "EXT2_DIND_BLOCK = EXT2_IND_BLOCK + 1"
definition EXT2_TIND_BLOCK :: nat where "EXT2_TIND_BLOCK = EXT2_DIND_BLOCK + 1"
definition EXT2_N_BLOCKS :: nat where "EXT2_N_BLOCKS = EXT2_TIND_BLOCK + 1"

text \<open>The unions for the operating systems are 4 and 12 bytes.\<close>

definition ext2_inode_layout :: layout where
  "ext2_inode_layout =
     [(''i_mode'', 2), (''i_uid'', 2), (''i_size'', 4), (''i_atime'', 4), (''i_ctime'', 4), (''i_mtime'', 4),
      (''i_dtime'', 4), (''i_gid'', 2), (''i_links_count'', 2), (''i_blocks'', 4), (''i_flags'', 4), (''osd1'', 4),
      (''i_block'', 4 * EXT2_N_BLOCKS), (''i_generation'', 4), (''i_file_acl'', 4), (''i_dir_acl'', 4),
      (''i_faddr'', 4), (''osd2'', 12)]"

definition ext2_super_block :: layout where
  "ext2_super_block =
     [(''s_inodes_count'', 4), (''s_blocks_count'', 4), (''s_r_blocks_count'', 4), (''s_free_blocks_count'', 4),
      (''s_free_inodes_count'', 4), (''s_first_data_block'', 4), (''s_log_block_size'', 4), (''s_log_frag_size'', 4),
      (''s_blocks_per_group'', 4), (''s_frags_per_group'', 4), (''s_inodes_per_group'', 4), (''s_mtime'', 4),
      (''s_wtime'', 4), (''s_mnt_count'', 2), (''s_max_mnt_count'', 2), (''s_magic'', 2), (''s_state'', 2),
      (''s_errors'', 2), (''s_minor_rev_level'', 2), (''s_lastcheck'', 4), (''s_checkinterval'', 4),
      (''s_creator_os'', 4), (''s_rev_level'', 4), (''s_def_resuid'', 2), (''s_def_resgid'', 2), (''s_first_ino'', 4),
      (''s_inode_size'', 2), (''s_block_group_nr'', 2), (''s_feature_compat'', 4), (''s_feature_incompat'', 4),
      (''s_feature_ro_compat'', 4), (''s_uuid'', 16), (''s_volume_name'', 16), (''s_last_mounted'', 64),
      (''s_algorithm_usage_bitmap'', 4), (''s_prealloc_blocks'', 1), (''s_prealloc_dir_blocks'', 1),
      (''s_padding1'', 2), (''s_journal_uuid'', 16), (''s_journal_inum'', 4), (''s_journal_dev'', 4),
      (''s_last_orphan'', 4), (''s_hash_seed'', 16), (''s_def_hash_version'', 1), (''s_reserved_char_pad'', 1),
      (''s_reserved_word_pad'', 2), (''s_default_mount_opts'', 4), (''s_first_meta_bg'', 4), (''s_reserved'', 4 * 190)]"

definition ext2_dir_entry_2 :: layout where
  "ext2_dir_entry_2 = [(''inode'', 4), (''rec_len'', 2), (''name_len'', 1), (''file_type'', 1), (''name'', 255)]"

text \<open>The members the code reads of an inode.\<close>

record ext2_inode =
  i_mode :: u16
  i_size :: u32
  i_block :: "u32 list"

definition decode_inode :: "u8 list \<Rightarrow> ext2_inode" where
  "decode_inode bs =
     \<lparr>i_mode = field16 ext2_inode_layout ''i_mode'' bs, i_size = field32 ext2_inode_layout ''i_size'' bs,
      i_block = array32 ext2_inode_layout ''i_block'' EXT2_N_BLOCKS bs\<rparr>"

definition FT_UNKNOWN :: u16 where "FT_UNKNOWN = 0"
definition FT_DIR :: u16 where "FT_DIR = 0x04"
definition FT_MAX :: u16 where "FT_MAX = 0x0d"

text \<open>The constructor of an inode sets the mode and nothing else; the rest of an invalid inode is not read.\<close>

definition invalid_inode :: ext2_inode where
  "invalid_inode = \<lparr>i_mode = FT_UNKNOWN, i_size = 0, i_block = []\<rparr>"

definition is_directory :: "ext2_inode \<Rightarrow> bool" where
  "is_directory n \<longleftrightarrow> drop_bit 12 (i_mode n) AND FT_DIR \<noteq> 0"

definition inode_valid :: "ext2_inode \<Rightarrow> bool" where
  "inode_valid n \<longleftrightarrow> (let type = drop_bit 12 (i_mode n) in FT_UNKNOWN < type \<and> type < FT_MAX)"

section \<open>The mounted file system\<close>

record ext2 =
  blocks_per_group :: u32
  inodes_per_group :: u32
  inode_size :: u32
  block_size :: u32
  root_inode :: ext2_inode

definition group_desc_offset :: u32 where "group_desc_offset = 0x800"
definition first_blockaddr :: u32 where "first_blockaddr = 0x7e00"

definition block_index2addr :: "ext2 \<Rightarrow> u32 \<Rightarrow> u32" where
  "block_index2addr fs index = first_blockaddr + index * block_size fs"

definition get_inode :: "'s driver \<Rightarrow> ext2 \<Rightarrow> u32 \<Rightarrow> 's \<Rightarrow> (ext2_inode \<times> 's) kres" where
  "get_inode rd fs inode_index s =
     (if inodes_per_group fs = 0 then Inl Div_zero
      else
        (let block_group_of_inode = (inode_index - 1) div inodes_per_group fs;
             index_in_bgroup = (inode_index - 1) mod inodes_per_group fs;
             addr_bgroup_desc =
               (first_blockaddr + block_group_of_inode * blocks_per_group fs * block_size fs) + group_desc_offset in
         rbind (rd addr_bgroup_desc (layout_size ext2_group_desc) s) (\<lambda>(bgroup, s).
         rbind (rd (block_index2addr fs (field32 ext2_group_desc ''bg_inode_table'' bgroup) +
                    index_in_bgroup * of_nat (layout_size ext2_inode_layout)) (layout_size ext2_inode_layout) s)
           (\<lambda>(inode, s). Inr (decode_inode inode, s)))))"

text \<open>
  The walk over the directory entries in a buffer of 0x400 bytes; \<open>off\<close> is the distance of \<^verbatim>\<open>file\<close> from the start of the buffer.
  An entry of length 0 makes the walk stay where it is, so it takes fuel. Looking at bytes behind the
  buffer is the outcome \<open>Inl Out_of_bounds\<close>.
\<close>

fun find_inode_loop :: "'s driver \<Rightarrow> ext2 \<Rightarrow> nat \<Rightarrow> u8 list \<Rightarrow> nat \<Rightarrow> kstring \<Rightarrow> 's \<Rightarrow> (ext2_inode \<times> 's) kres" where
  "find_inode_loop rd fs 0 buffer off search_for s = Inl Hang"
| "find_inode_loop rd fs (Suc fuel) buffer off search_for s =
     (if off + 8 > length buffer then Inl Out_of_bounds
      else
        (let entry = drop off buffer;
             name_len = unat (entry ! offset_of ext2_dir_entry_2 ''name_len'');
             name = drop (offset_of ext2_dir_entry_2 ''name'') entry in
         if name_len > length name then Inl Out_of_bounds
         else
           (let file_name = kstring_len name name_len in
            if kstring_eq search_for file_name then get_inode rd fs (field32 ext2_dir_entry_2 ''inode'' entry) s
            else
              (let off = off + unat (field16 ext2_dir_entry_2 ''rec_len'' entry) in
               if off < 0x400 then find_inode_loop rd fs fuel buffer off search_for s
               else Inr (invalid_inode, s)))))"

definition find_inode_from_direntries :: "'s driver \<Rightarrow> ext2 \<Rightarrow> nat \<Rightarrow> u8 list \<Rightarrow> kstring \<Rightarrow> 's \<Rightarrow> (ext2_inode \<times> 's) kres" where
  "find_inode_from_direntries rd fs fuel buffer search_for s = find_inode_loop rd fs fuel buffer 0 search_for s"

text \<open>The loop of \<^verbatim>\<open>get_inode_path\<close> from component \<open>i\<close> on, with \<open>n\<close> components left.\<close>

fun path_loop :: "'s driver \<Rightarrow> ext2 \<Rightarrow> nat \<Rightarrow> kstring kvector \<Rightarrow> nat \<Rightarrow> nat \<Rightarrow> ext2_inode \<Rightarrow> 's \<Rightarrow> (ext2_inode \<times> 's) kres" where
  "path_loop rd fs fuel pth i 0 cnode s = Inr (cnode, s)"
| "path_loop rd fs fuel pth i (Suc n) cnode s =
     (if \<not> is_directory cnode then Inr (invalid_inode, s)
      else
        rbind (elem_at (i_block cnode) 0) (\<lambda>b.
        rbind (rd (block_index2addr fs b) 0x400 s) (\<lambda>(buffer, s).
        rbind (kvector_at pth i) (\<lambda>name.
        rbind (find_inode_from_direntries rd fs fuel buffer name s) (\<lambda>(cnode, s).
          if \<not> inode_valid cnode then Inr (invalid_inode, s)
          else path_loop rd fs fuel pth (i + 1) n cnode s)))))"

definition get_inode_path :: "'s driver \<Rightarrow> ext2 \<Rightarrow> nat \<Rightarrow> kstring kvector \<Rightarrow> 's \<Rightarrow> (ext2_inode \<times> 's) kres" where
  "get_inode_path rd fs fuel pth s = path_loop rd fs fuel pth 0 (num_elem pth) (root_inode fs) s"

section \<open>Reading blocks\<close>

definition read_block :: "'s driver \<Rightarrow> ext2 \<Rightarrow> u32 \<Rightarrow> 's \<Rightarrow> (u8 list \<times> 's) kres" where
  "read_block rd fs block_index s = rd (block_index2addr fs block_index) (unat (block_size fs)) s"

text \<open>\<^verbatim>\<open>((u32_t *)buffer)[i]\<close>\<close>

definition entry32 :: "u8 list \<Rightarrow> int \<Rightarrow> u32 kres" where
  "entry32 buffer i =
     (if i < 0 \<or> 4 * nat i + 4 > length buffer then Inl Out_of_bounds else Inr (of_nat (le_at buffer (4 * nat i) 4)))"

text \<open>An \<^verbatim>\<open>int\<close>, 32 bits wide.\<close>

definition i32 :: "int \<Rightarrow> int" where
  "i32 x = signed_take_bit 31 x"

text \<open>
  \<^verbatim>\<open>read_block_pos\<close> into a buffer that holds \<open>buffer\<close>. The blocks of pointers are read into the same buffer as
  the data.
\<close>

definition read_block_pos :: "'s driver \<Rightarrow> ext2 \<Rightarrow> u32 \<Rightarrow> u8 list \<Rightarrow> ext2_inode \<Rightarrow> 's \<Rightarrow> (bool \<times> u8 list \<times> 's) kres" where
  "read_block_pos rd fs pos buffer node s =
     (if block_size fs = 0 then Inl Div_zero
      else
        (let accessblock = sint (pos div block_size fs) in
         if pos + block_size fs > i_size node then Inr (False, buffer, s)
         else
           (let nr_entry = sint (block_size fs div 4);
                maxnr_dir_block = 12;
                maxnr_Ind_block = i32 (12 + nr_entry);
                maxnr_Dind_block = i32 (maxnr_Ind_block + nr_entry * nr_entry);
                maxnr_Tind_block = i32 (maxnr_Dind_block + nr_entry * nr_entry * nr_entry) in
            if accessblock < maxnr_dir_block then
              rbind (elem_at (i_block node) (nat accessblock)) (\<lambda>b.
              rbind (read_block rd fs b s) (\<lambda>(buffer, s). Inr (True, buffer, s)))
            else if accessblock < maxnr_Ind_block then
              rbind (elem_at (i_block node) EXT2_IND_BLOCK) (\<lambda>b.
              rbind (read_block rd fs b s) (\<lambda>(buffer, s).
              rbind (entry32 buffer (accessblock - maxnr_dir_block)) (\<lambda>block_index.
              rbind (read_block rd fs block_index s) (\<lambda>(buffer, s). Inr (True, buffer, s)))))
            else if accessblock < maxnr_Dind_block then
              rbind (elem_at (i_block node) EXT2_DIND_BLOCK) (\<lambda>b.
              rbind (read_block rd fs b s) (\<lambda>(buffer, s).
              rbind (entry32 buffer ((accessblock - maxnr_Ind_block) div nr_entry)) (\<lambda>first_index.
              rbind (read_block rd fs first_index s) (\<lambda>(buffer, s).
              rbind (entry32 buffer ((accessblock - maxnr_Ind_block) mod nr_entry)) (\<lambda>second_index.
              rbind (read_block rd fs second_index s) (\<lambda>(buffer, s). Inr (True, buffer, s)))))))
            else if accessblock < maxnr_Tind_block then
              rbind (elem_at (i_block node) EXT2_TIND_BLOCK) (\<lambda>b.
              rbind (read_block rd fs b s) (\<lambda>(buffer, s).
              rbind (entry32 buffer ((accessblock - maxnr_Dind_block) div (nr_entry * nr_entry))) (\<lambda>first_index.
              rbind (read_block rd fs first_index s) (\<lambda>(buffer, s).
              rbind (entry32 buffer ((accessblock - maxnr_Dind_block) div nr_entry mod nr_entry)) (\<lambda>second_index.
              rbind (read_block rd fs second_index s) (\<lambda>(buffer, s).
              rbind (entry32 buffer ((accessblock - maxnr_Dind_block) mod nr_entry)) (\<lambda>third_index.
              rbind (read_block rd fs third_index s) (\<lambda>(buffer, s). Inr (True, buffer, s)))))))))
            else Inr (True, buffer, s))))"

section \<open>Mounting\<close>

text \<open>\<^verbatim>\<open>Ext2(Ata *)\<close>; the shift of the block size by 32 or more is undefined in C and gives 0 here.\<close>

definition Ext2_new :: "'s driver \<Rightarrow> 's \<Rightarrow> (ext2 \<times> 's) kres" where
  "Ext2_new rd s =
     rbind (rd (first_blockaddr + 0x400) (layout_size ext2_super_block) s) (\<lambda>(sb, s).
     rbind (rd (first_blockaddr + 0x400 + 0x400) (layout_size ext2_group_desc) s) (\<lambda>(_, s).
       (let fs = \<lparr>blocks_per_group = field32 ext2_super_block ''s_blocks_per_group'' sb,
                  inodes_per_group = field32 ext2_super_block ''s_inodes_per_group'' sb,
                  inode_size = ucast (field16 ext2_super_block ''s_inode_size'' sb),
                  block_size = push_bit (unat (field32 ext2_super_block ''s_log_block_size'' sb)) 1024,
                  root_inode = invalid_inode\<rparr> in
        rbind (get_inode rd fs 2 s) (\<lambda>(root, s). Inr (fs\<lparr>root_inode := root\<rparr>, s)))))"

end
