(* ===== verification/FileSystem.thy ===== *)
theory FileSystem
  imports Ext2
begin

unbundle bit_operations_syntax

text \<open>
  Opening and reading files, \<^verbatim>\<open>src/kernel/FileSystem.cpp\<close> and \<^verbatim>\<open>src/include/os/FileSystem.h\<close>.

  The state of an open file is its path, its inode and \<^verbatim>\<open>is_valid\<close>; the file system behind it is an argument.
  The contents of a buffer that \<^verbatim>\<open>new\<close> returns are not determined: the argument \<open>junk\<close> gives them, byte by byte.
\<close>

record File =
  file_path :: "kstring kvector"
  finode :: ext2_inode
  is_valid :: bool

definition MAX_FILE_NR :: nat where "MAX_FILE_NR = 20"

definition slash :: u8 where "slash = 0x2f"

definition invalid_file :: File where
  "invalid_file = \<lparr>file_path = \<lparr>elems = [], num_elem = 0\<rparr>, finode = invalid_inode, is_valid = False\<rparr>"

section \<open>Opening a file\<close>

text \<open>
  The loop that cuts the path name at the slashes. It runs until \<^verbatim>\<open>cpos\<close> is the length of the name; \<open>n\<close> is the
  number of characters from \<^verbatim>\<open>cpos\<close> to the end.
\<close>

fun split_loop :: "u8 list \<Rightarrow> nat \<Rightarrow> nat \<Rightarrow> nat \<Rightarrow> kstring kvector \<Rightarrow> nat \<Rightarrow> (kstring kvector \<times> nat) kres" where
  "split_loop cname ppos cpos 0 pth num_file =
     rbind (kvector_set pth num_file (kstring_len (drop (ppos + 1) cname) (cpos - ppos - 1))) (\<lambda>pth.
       Inr (pth, num_file + 1))"
| "split_loop cname ppos cpos (Suc n) pth num_file =
     rbind (elem_at cname cpos) (\<lambda>c.
       if c = slash then
         rbind (kvector_set pth num_file (kstring_len (drop (ppos + 1) cname) (cpos - ppos - 1))) (\<lambda>pth.
           split_loop cname cpos (cpos + 1) n pth (num_file + 1))
       else split_loop cname ppos (cpos + 1) n pth num_file)"

definition parse_path :: "kstring \<Rightarrow> kstring kvector kres" where
  "parse_path pathname =
     rbind (split_loop (chars pathname @ [0]) 0 1 (klen pathname - 1) (kvector_new kstring_empty MAX_FILE_NR) 0)
       (\<lambda>(pth, num_file). Inr (snd (set_nr_elem pth num_file)))"

definition fopen :: "'s driver \<Rightarrow> ext2 \<Rightarrow> nat \<Rightarrow> kstring \<Rightarrow> 's \<Rightarrow> (File \<times> 's) kres" where
  "fopen rd fs fuel pathname s =
     (if (chars pathname @ [0]) ! 0 \<noteq> slash then Inr (invalid_file, s)
      else
        rbind (parse_path pathname) (\<lambda>pth.
        rbind (get_inode_path rd fs fuel (kvector_copy kstring_copy pth) s) (\<lambda>(inode, s).
          if \<not> inode_valid inode then Inr (invalid_file, s)
          else Inr (\<lparr>file_path = kvector_copy kstring_copy pth, finode = inode, is_valid = True\<rparr>, s))))"

section \<open>Reading a file\<close>

definition FileSystem_read_block :: "'s driver \<Rightarrow> ext2 \<Rightarrow> u32 \<Rightarrow> u8 list \<Rightarrow> ext2_inode \<Rightarrow> 's \<Rightarrow> (bool \<times> u8 list \<times> 's) kres" where
  "FileSystem_read_block rd fs pos buffer inode s =
     rbind (read_block_pos rd fs pos buffer inode s) (\<lambda>(_, buffer, s). Inr (True, buffer, s))"

text \<open>
  \<^verbatim>\<open>File::read_block\<close>: the result, the bytes copied to \<^verbatim>\<open>dbuffer\<close>, and the state. The address of the second
  block is \<^verbatim>\<open>addr & ~block_mask + block_size\<close>, where C adds before it masks.
\<close>

definition File_read_block :: "'s driver \<Rightarrow> ext2 \<Rightarrow> (nat \<Rightarrow> u8) \<Rightarrow> u32 \<Rightarrow> u32 \<Rightarrow> File \<Rightarrow> 's \<Rightarrow> (bool \<times> u8 list \<times> 's) kres" where
  "File_read_block rd fs junk addr sz file s =
     (let bs = block_size fs; block_mask = bs - 1 in
      if sz > bs then Inr (False, [], s)
      else
        rbind (if (addr AND block_mask) + sz > bs then
                 rbind (FileSystem_read_block rd fs (addr AND NOT block_mask) (map junk [0..<unat bs]) (finode file) s) (\<lambda>(_, b1, s).
                 rbind (FileSystem_read_block rd fs (addr AND (NOT block_mask + bs)) (map junk [unat bs..<2 * unat bs]) (finode file) s) (\<lambda>(_, b2, s).
                   Inr (b1 @ b2, s)))
               else
                 rbind (FileSystem_read_block rd fs (addr AND NOT block_mask) (map junk [0..<unat bs]) (finode file) s) (\<lambda>(_, b, s).
                   Inr (b, s))) (\<lambda>(buffer, s).
          Inr (True, take (unat sz) (drop (unat (addr AND block_mask)) buffer), s)))"

text \<open>The loop over the whole blocks, \<open>n\<close> of them left; the bytes so far are in front.\<close>

fun read_blocks_loop :: "'s driver \<Rightarrow> ext2 \<Rightarrow> (nat \<Rightarrow> u8) \<Rightarrow> nat \<Rightarrow> u32 \<Rightarrow> File \<Rightarrow> u8 list \<Rightarrow> 's \<Rightarrow> (u8 list \<times> u32 \<times> 's) kres" where
  "read_blocks_loop rd fs junk 0 src file out s = Inr (out, src, s)"
| "read_blocks_loop rd fs junk (Suc n) src file out s =
     rbind (File_read_block rd fs junk src (block_size fs) file s) (\<lambda>(_, b, s).
       read_blocks_loop rd fs junk n (src + block_size fs) file (out @ b) s)"

text \<open>
  \<^verbatim>\<open>File::read\<close>: the bytes that \<^verbatim>\<open>dbuffer\<close> holds. The function ends without a \<^verbatim>\<open>return\<close>. The constructor of the file that
  \<^verbatim>\<open>fopen\<close> returns for a name it does not find leaves its pointer to the file system without a value.
\<close>

definition File_read :: "'s driver \<Rightarrow> ext2 \<Rightarrow> (nat \<Rightarrow> u8) \<Rightarrow> u32 \<Rightarrow> u32 \<Rightarrow> File \<Rightarrow> 's \<Rightarrow> (u8 list \<times> 's) kres" where
  "File_read rd fs junk addr sz file s =
     (let bs = block_size fs in
      if \<not> is_valid file then Inl Uninitialised
      else if sz > bs then
        (if bs = 0 then Inl Div_zero
         else
           (let edge_size = bs - addr mod bs;
                remain_size = sint (sz - edge_size);
                nr_blocks = remain_size sdiv sint bs in
            rbind (if edge_size \<noteq> 0 then File_read_block rd fs junk addr edge_size file s else Inr (True, [], s)) (\<lambda>(_, out, s).
            rbind (read_blocks_loop rd fs junk (nat nr_blocks) (addr + edge_size) file out s) (\<lambda>(out, src, s).
              (let remain_size = remain_size smod sint bs in
               if remain_size \<noteq> 0 then
                 rbind (File_read_block rd fs junk src (word_of_int remain_size) file s) (\<lambda>(_, b, s). Inr (out @ b, s))
               else Inr (out, s))))))
      else rbind (File_read_block rd fs junk addr sz file s) (\<lambda>(_, b, s). Inr (b, s)))"

end
