(* ===== verification/Ext2_Correct.thy ===== *)
theory Ext2_Correct
  imports FileSystem
begin

unbundle bit_operations_syntax

text \<open>
  The file system reads the right bytes of a disk.

  What the bytes of a disk mean is stated without the driver: \<open>file_block\<close> is the block that holds block \<open>k\<close> of a
  file, found by walking \<open>resolve\<close> down the tree of pointer blocks, \<open>disk_inode\<close> is the inode with a
  number, and \<open>file_byte\<close> the byte of a file. The lemmas about the routines are proved in the context of a
  \<open>block_device\<close>.
\<close>

section \<open>What the disk means\<close>

definition block_addr :: "ext2 \<Rightarrow> u32 \<Rightarrow> nat" where
  "block_addr fs b = 0x7e00 + unat b * unat (block_size fs)"

definition nr_entry :: "ext2 \<Rightarrow> nat" where
  "nr_entry fs = unat (block_size fs) div 4"

text \<open>The pointer at index \<open>i\<close> of the pointer block \<open>b\<close>.\<close>

definition pointer :: "(nat \<Rightarrow> u8) \<Rightarrow> ext2 \<Rightarrow> u32 \<Rightarrow> nat \<Rightarrow> u32" where
  "pointer ct fs b i = of_nat (le_at (disk_bytes ct (block_addr fs b) (unat (block_size fs))) (4 * i) 4)"

fun resolve :: "(nat \<Rightarrow> u8) \<Rightarrow> ext2 \<Rightarrow> nat \<Rightarrow> u32 \<Rightarrow> nat \<Rightarrow> u32" where
  "resolve ct fs 0 b i = b"
| "resolve ct fs (Suc l) b i =
     resolve ct fs l (pointer ct fs b (i div nr_entry fs ^ l)) (i mod nr_entry fs ^ l)"

text \<open>How many levels of pointer blocks stand over block \<open>k\<close> of a file, the slot of the inode they start from, and
  the index among the blocks of that slot.\<close>

definition level_of :: "ext2 \<Rightarrow> nat \<Rightarrow> nat \<times> nat \<times> nat" where
  "level_of fs k =
     (let n = nr_entry fs in
      if k < 12 then (0, k, 0)
      else if k < 12 + n then (1, 12, k - 12)
      else if k < 12 + n + n\<^sup>2 then (2, 13, k - 12 - n)
      else (3, 14, k - 12 - n - n\<^sup>2))"

definition file_block :: "(nat \<Rightarrow> u8) \<Rightarrow> ext2 \<Rightarrow> ext2_inode \<Rightarrow> nat \<Rightarrow> u32" where
  "file_block ct fs node k = (let (l, slot, i) = level_of fs k in resolve ct fs l (i_block node ! slot) i)"

text \<open>The blocks on the way to a block of the file lie on the disk.\<close>

fun resolve_in :: "(nat \<Rightarrow> u8) \<Rightarrow> ext2 \<Rightarrow> nat \<Rightarrow> nat \<Rightarrow> u32 \<Rightarrow> nat \<Rightarrow> bool" where
  "resolve_in ct fs cap 0 b i \<longleftrightarrow> block_addr fs b + unat (block_size fs) < cap"
| "resolve_in ct fs cap (Suc l) b i \<longleftrightarrow> block_addr fs b + unat (block_size fs) < cap \<and>
     resolve_in ct fs cap l (pointer ct fs b (i div nr_entry fs ^ l)) (i mod nr_entry fs ^ l)"

definition block_in :: "(nat \<Rightarrow> u8) \<Rightarrow> ext2 \<Rightarrow> nat \<Rightarrow> ext2_inode \<Rightarrow> nat \<Rightarrow> bool" where
  "block_in ct fs cap node k = (let (l, slot, i) = level_of fs k in resolve_in ct fs cap l (i_block node ! slot) i)"

definition block_data :: "(nat \<Rightarrow> u8) \<Rightarrow> ext2 \<Rightarrow> u32 \<Rightarrow> u8 list" where
  "block_data ct fs b = disk_bytes ct (block_addr fs b) (unat (block_size fs))"

text \<open>A mounted file system: the block sizes of the format, and an inode with its fifteen slots.\<close>

definition fs_ok :: "ext2 \<Rightarrow> bool" where
  "fs_ok fs \<longleftrightarrow> block_size fs \<in> {1024, 2048, 4096}"

definition inode_ok :: "ext2_inode \<Rightarrow> bool" where
  "inode_ok node \<longleftrightarrow> length (i_block node) = EXT2_N_BLOCKS"

section \<open>Words and bytes\<close>

lemma block_index2addr_unat:
  assumes "block_addr fs b < 2 ^ 32"
  shows "unat (block_index2addr fs b) = block_addr fs b"
proof -
  have "block_index2addr fs b = of_nat (block_addr fs b)"
    by (simp add: block_index2addr_def block_addr_def first_blockaddr_def)
  then show ?thesis using assms by (simp add: unsigned_of_nat take_bit_nat_eq_self)
qed

lemma fs_okD:
  assumes "fs_ok fs"
  shows "block_size fs \<noteq> 0" "unat (block_size fs) \<le> 4096" "1024 \<le> unat (block_size fs)" "4 * nr_entry fs = unat (block_size fs)"
    "256 \<le> nr_entry fs" "nr_entry fs \<le> 1024"
  using assms by (auto simp: fs_ok_def nr_entry_def)

lemma entry32_block:
  assumes "length bs = 4 * n" and "i < n"
  shows "entry32 bs (int i) = Inr (of_nat (le_at bs (4 * i) 4))"
  using assms by (simp add: entry32_def)

section \<open>The integers of \<^verbatim>\<open>read_block_pos\<close>\<close>

lemma i32_small: "0 \<le> x \<Longrightarrow> x < 2 ^ 31 \<Longrightarrow> i32 x = x"
  unfolding i32_def by (intro signed_take_bit_int_eq_self) auto

text \<open>The number of the block that holds a position, and the bounds of the four ranges.\<close>

definition block_no :: "ext2 \<Rightarrow> u32 \<Rightarrow> nat" where
  "block_no fs pos = unat pos div unat (block_size fs)"

lemma block_no_word:
  assumes "fs_ok fs"
  shows "sint (pos div block_size fs) = int (block_no fs pos)" "block_no fs pos < 2 ^ 22"
    "sint (block_size fs div 4) = int (nr_entry fs)"
proof -
  have "unat pos < 2 ^ 32" by (rule unat_u32_less)
  then have "unat pos div 1024 < 2 ^ 22" by simp
  moreover have "block_no fs pos \<le> unat pos div 1024"
    unfolding block_no_def using fs_okD(3) [OF assms] by (intro div_le_mono2) simp_all
  ultimately show lt: "block_no fs pos < 2 ^ 22" by simp
  then show "sint (pos div block_size fs) = int (block_no fs pos)"
    unfolding block_no_def by (subst sint_small) (simp_all add: unat_div)
  show "sint (block_size fs div 4) = int (nr_entry fs)"
    using fs_okD(6) [OF assms] unfolding nr_entry_def by (subst sint_small) (simp_all add: unat_div)
qed

lemma range_bounds:
  assumes "fs_ok fs"
  defines "n \<equiv> nr_entry fs"
  shows "i32 (12 + int n) = int (12 + n)" "i32 (int (12 + n) + int n * int n) = int (12 + n + n\<^sup>2)"
    "i32 (int (12 + n + n\<^sup>2) + int n * int n * int n) = int (12 + n + n\<^sup>2 + n ^ 3)" "block_no fs pos < 12 + n + n\<^sup>2 + n ^ 3"
proof -
  have n: "256 \<le> n" "n \<le> 1024" using fs_okD(5,6) [OF assms(1)] by (simp_all add: n_def)
  have n2: "n\<^sup>2 \<le> 1024\<^sup>2" and n3: "n ^ 3 \<le> 1024 ^ 3" using n(2) by (intro power_mono; simp)+
  then have b: "int (n\<^sup>2) \<le> 1024\<^sup>2" "int (n ^ 3) \<le> 1024 ^ 3" by (simp_all add: of_nat_le_iff [symmetric] flip: of_nat_power)
  have p: "int n * int n = int (n\<^sup>2)" "int n * int n * int n = int (n ^ 3)" by (simp_all add: power2_eq_square power3_eq_cube)
  show "i32 (12 + int n) = int (12 + n)" using n by (subst i32_small) simp_all
  show "i32 (int (12 + n) + int n * int n) = int (12 + n + n\<^sup>2)" unfolding p using n b by (subst i32_small) simp_all
  show "i32 (int (12 + n + n\<^sup>2) + int n * int n * int n) = int (12 + n + n\<^sup>2 + n ^ 3)" unfolding p(2) using n b by (subst i32_small) simp_all
  have "256 ^ 3 \<le> n ^ 3" using n(1) by (rule power_mono) simp
  then show "block_no fs pos < 12 + n + n\<^sup>2 + n ^ 3" using block_no_word(2) [OF assms(1), of pos] by simp
qed

text \<open>
  The chains of reads that \<^verbatim>\<open>read_block_pos\<close> has written out, by recursion over the levels: \<open>walk\<close> goes down
  from block \<open>b\<close> to the data block with index \<open>i\<close>.
\<close>

fun walk :: "'s driver \<Rightarrow> ext2 \<Rightarrow> nat \<Rightarrow> u32 \<Rightarrow> nat \<Rightarrow> 's \<Rightarrow> (bool \<times> u8 list \<times> 's) kres" where
  "walk rd fs 0 b i s = rbind (read_block rd fs b s) (\<lambda>(buffer, s). Inr (True, buffer, s))"
| "walk rd fs (Suc l) b i s =
     rbind (read_block rd fs b s) (\<lambda>(buffer, s).
     rbind (entry32 buffer (int (i div nr_entry fs ^ l))) (\<lambda>p. walk rd fs l p (i mod nr_entry fs ^ l) s))"

lemma walk_steps:
  "walk rd fs 1 b i s = rbind (read_block rd fs b s) (\<lambda>(buffer, s). rbind (entry32 buffer (int i)) (\<lambda>p. walk rd fs 0 p 0 s))"
  "walk rd fs 2 b i s = rbind (read_block rd fs b s) (\<lambda>(buffer, s). rbind (entry32 buffer (int (i div nr_entry fs))) (\<lambda>p.
     rbind (read_block rd fs p s) (\<lambda>(buffer, s). rbind (entry32 buffer (int (i mod nr_entry fs))) (\<lambda>p. walk rd fs 0 p 0 s))))"
  "walk rd fs 3 b i s = rbind (read_block rd fs b s) (\<lambda>(buffer, s). rbind (entry32 buffer (int (i div (nr_entry fs * nr_entry fs)))) (\<lambda>p.
     rbind (read_block rd fs p s) (\<lambda>(buffer, s). rbind (entry32 buffer (int (i div nr_entry fs mod nr_entry fs))) (\<lambda>p.
     rbind (read_block rd fs p s) (\<lambda>(buffer, s). rbind (entry32 buffer (int (i mod nr_entry fs))) (\<lambda>p. walk rd fs 0 p 0 s))))))"
proof -
  have d: "i mod (k * k) div k = i div k mod k" "i mod (k * k) mod k = i mod k" for k :: nat
    by (cases "k = 0", simp, simp add: mod_mult2_eq) (simp add: mod_mod_cancel)
  show "walk rd fs 1 b i s = rbind (read_block rd fs b s) (\<lambda>(buffer, s). rbind (entry32 buffer (int i)) (\<lambda>p. walk rd fs 0 p 0 s))"
    by simp
  show "walk rd fs 2 b i s = rbind (read_block rd fs b s) (\<lambda>(buffer, s). rbind (entry32 buffer (int (i div nr_entry fs))) (\<lambda>p.
     rbind (read_block rd fs p s) (\<lambda>(buffer, s). rbind (entry32 buffer (int (i mod nr_entry fs))) (\<lambda>p. walk rd fs 0 p 0 s))))"
    by (simp add: numeral_2_eq_2)
  show "walk rd fs 3 b i s = rbind (read_block rd fs b s) (\<lambda>(buffer, s). rbind (entry32 buffer (int (i div (nr_entry fs * nr_entry fs)))) (\<lambda>p.
     rbind (read_block rd fs p s) (\<lambda>(buffer, s). rbind (entry32 buffer (int (i div nr_entry fs mod nr_entry fs))) (\<lambda>p.
     rbind (read_block rd fs p s) (\<lambda>(buffer, s). rbind (entry32 buffer (int (i mod nr_entry fs))) (\<lambda>p. walk rd fs 0 p 0 s))))))"
    by (simp add: numeral_3_eq_3 d)
qed

lemmas inode_slots = EXT2_N_BLOCKS_def EXT2_TIND_BLOCK_def EXT2_DIND_BLOCK_def EXT2_IND_BLOCK_def EXT2_NDIR_BLOCKS_def

lemma read_block_pos_walk:
  assumes fs: "fs_ok fs" and node: "inode_ok node" and sz: "unat pos + unat (block_size fs) \<le> unat (i_size node)"
    and l: "level_of fs (block_no fs pos) = (l, slot, i)"
  shows "read_block_pos rd fs pos buffer node s = walk rd fs l (i_block node ! slot) i s"
proof -
  let ?K = "block_no fs pos" and ?n = "nr_entry fs"
  note w = block_no_word [OF fs] and r = range_bounds [OF fs]
  have "unat (i_size node) < 2 ^ 32" by (rule unat_u32_less)
  then have "unat (pos + block_size fs) = unat pos + unat (block_size fs)"
    using sz by (subst unat_add_lem [THEN iffD1]) simp_all
  then have gt: "(pos + block_size fs > i_size node) = False" using sz by (simp add: word_less_nat_alt)
  have bs: "(block_size fs = 0) = False" using fs_okD(1) [OF fs] by simp
  have nd: "length (i_block node) = 15" using node by (simp add: inode_ok_def inode_slots)
  have el: "elem_at (i_block node) k = Inr (i_block node ! k)" if "k < 15" for k using nd that by simp
  have c: "int ?K < 12 \<longleftrightarrow> ?K < 12" "int ?K < int m \<longleftrightarrow> ?K < m" for m by auto
  have slots: "EXT2_IND_BLOCK = 12" "EXT2_DIND_BLOCK = 13" "EXT2_TIND_BLOCK = 14" by (simp_all add: inode_slots)
  have q: "int a div int b = int (a div b)" "int a mod int b = int (a mod b)" for a b by (simp_all add: zdiv_int zmod_int)
  note start = read_block_pos_def Let_def w(1,3) r(1-3) bs gt if_False if_True c(1) c(2) slots
  consider (dir) "?K < 12" | (ind) "\<not> ?K < 12" "?K < 12 + ?n" | (dind) "\<not> ?K < 12" "\<not> ?K < 12 + ?n" "?K < 12 + ?n + ?n\<^sup>2"
    | (tind) "\<not> ?K < 12" "\<not> ?K < 12 + ?n" "\<not> ?K < 12 + ?n + ?n\<^sup>2" by blast
  then show ?thesis
  proof cases
    case dir
    then have "l = 0" "slot = ?K" using l by (auto simp: level_of_def Let_def)
    moreover have "elem_at (i_block node) (nat (int ?K)) = Inr (i_block node ! ?K)" using dir el by simp
    ultimately show ?thesis unfolding start using dir by (simp only: if_True rbind_Inr walk.simps)
  next
    case ind
    then have l': "l = 1" "slot = 12" "i = ?K - 12" using l by (auto simp: level_of_def Let_def)
    have e: "int ?K - 12 = int i" using ind l'(3) by simp
    have "elem_at (i_block node) 12 = Inr (i_block node ! 12)" by (rule el) simp
    then show ?thesis unfolding start using ind
      by (simp only: if_True if_False rbind_Inr e l'(1,2) walk_steps walk.simps simp_thms)
  next
    case dind
    then have l': "l = 2" "slot = 13" "i = ?K - (12 + ?n)" using l by (auto simp: level_of_def Let_def)
    have e: "int ?K - int (12 + ?n) = int i" using dind(2) l'(3) by linarith
    have "elem_at (i_block node) 13 = Inr (i_block node ! 13)" by (rule el) simp
    then show ?thesis unfolding start using dind
      by (simp only: if_True if_False rbind_Inr e q l'(1,2) walk_steps walk.simps simp_thms)
  next
    case tind
    then have l': "l = 3" "slot = 14" "i = ?K - (12 + ?n + ?n\<^sup>2)" using l by (auto simp: level_of_def Let_def)
    have e: "int ?K - int (12 + ?n + ?n\<^sup>2) = int i" using tind(3) l'(3) by linarith
    have m: "int ?n * int ?n = int (?n * ?n)" by simp
    have "elem_at (i_block node) 14 = Inr (i_block node ! 14)" by (rule el) simp
    then show ?thesis unfolding start using tind r(4) [of pos]
      by (simp only: if_True if_False rbind_Inr e m q l'(1,2) walk_steps walk.simps simp_thms)
  qed
qed

context block_device
begin

lemma read_block_returns:
  assumes "ok s" and "fs_ok fs" and "block_addr fs b + unat (block_size fs) < capacity" and "capacity \<le> 2 ^ 32"
  shows "\<exists>s'. read_block rd fs b s = Inr (block_data content fs b, s') \<and> ok s'"
proof -
  have "unat (block_index2addr fs b) = block_addr fs b" using assms(3,4) by (intro block_index2addr_unat) simp
  then show ?thesis
    using rd_returns [OF assms(1), of "unat (block_size fs)" "block_index2addr fs b"] fs_okD(2) [OF assms(2)] assms(3)
    by (simp add: read_block_def block_data_def)
qed

lemma walk_returns:
  assumes "fs_ok fs" and "capacity \<le> 2 ^ 32" and "ok s" and "resolve_in content fs capacity l b i" and "i < nr_entry fs ^ l"
  shows "\<exists>s'. walk rd fs l b i s = Inr (True, block_data content fs (resolve content fs l b i), s') \<and> ok s'"
  using assms
proof (induction l arbitrary: b i s)
  case 0
  then show ?case using read_block_returns [of s fs b] by auto
next
  case (Suc l)
  let ?n = "nr_entry fs" and ?p = "pointer content fs b (i div nr_entry fs ^ l)"
  have "0 < ?n" using fs_okD(5) [OF Suc.prems(1)] by simp
  then have i: "i div ?n ^ l < ?n" "i mod ?n ^ l < ?n ^ l"
    using Suc.prems(5) by (simp_all add: less_mult_imp_div_less)
  from Suc.prems(4) have c: "block_addr fs b + unat (block_size fs) < capacity" "resolve_in content fs capacity l ?p (i mod ?n ^ l)"
    by simp_all
  from read_block_returns [OF Suc.prems(3,1) c(1) Suc.prems(2)] obtain s1 where
    s1: "read_block rd fs b s = Inr (block_data content fs b, s1)" "ok s1" by blast
  have "entry32 (block_data content fs b) (int (i div ?n ^ l)) = Inr ?p"
    using i(1) fs_okD(4) [OF Suc.prems(1)] by (subst entry32_block [of _ ?n]) (simp_all add: block_data_def pointer_def)
  then show ?case using Suc.IH [OF Suc.prems(1,2) s1(2) c(2) i(2)] s1(1) by simp
qed

lemma level_of_bound:
  assumes "fs_ok fs" and "level_of fs (block_no fs pos) = (l, slot, i)"
  shows "i < nr_entry fs ^ l"
  using assms(2) range_bounds(4) [OF assms(1), of pos] fs_okD(5) [OF assms(1)]
  by (auto simp: level_of_def Let_def power2_eq_square split: if_splits)

lemma read_block_pos_returns:
  assumes "ok s" and "fs_ok fs" and "inode_ok node" and "capacity \<le> 2 ^ 32"
    and "unat pos + unat (block_size fs) \<le> unat (i_size node)" and "block_in content fs capacity node (block_no fs pos)"
  shows "\<exists>s'. read_block_pos rd fs pos buffer node s =
    Inr (True, block_data content fs (file_block content fs node (block_no fs pos)), s') \<and> ok s'"
proof -
  obtain l slot i where l: "level_of fs (block_no fs pos) = (l, slot, i)" by (cases "level_of fs (block_no fs pos)")
  with walk_returns [OF assms(2,4,1), of l "i_block node ! slot" i] level_of_bound [OF assms(2) l] assms(6)
  show ?thesis unfolding read_block_pos_walk [OF assms(2,3,5) l] by (simp add: block_in_def file_block_def)
qed

text \<open>
  What \<^verbatim>\<open>get_inode\<close> reads: in the copy of the descriptor table that stands in the group of the inode, always the first
  entry, and in the inode table that entry names, the inode with the index inside the group.
\<close>

lemma get_inode_returns:
  assumes "ok s" and "fs_ok fs" and "capacity \<le> 2 ^ 32" and "inodes_per_group fs \<noteq> 0"
    and d: "desc = 0x7e00 + (unat n - 1) div unat (inodes_per_group fs) * unat (blocks_per_group fs) * unat (block_size fs) + 0x800"
    and tab: "tab = field32 ext2_group_desc ''bg_inode_table'' (disk_bytes content desc 32)"
    and a: "a = block_addr fs tab + (unat n - 1) mod unat (inodes_per_group fs) * 128"
    and "n \<noteq> 0" and "desc + 32 < capacity" and "a + 128 < capacity"
  shows "\<exists>s'. get_inode rd fs n s = Inr (decode_inode (disk_bytes content a 128), s') \<and> ok s'"
proof -
  have sz: "layout_size ext2_group_desc = 32" "layout_size ext2_inode_layout = 128"
    by (simp_all add: layout_size_def ext2_group_desc_def ext2_inode_layout_def inode_slots)
  let ?g = "(n - 1) div inodes_per_group fs" and ?k = "(n - 1) mod inodes_per_group fs"
  have n1: "unat (n - 1) = unat n - 1" using assms(8) by (simp add: unat_minus_one)
  have gk: "of_nat ((unat n - 1) div unat (inodes_per_group fs)) = ?g" "of_nat ((unat n - 1) mod unat (inodes_per_group fs)) = ?k"
    using unat_div [of "n - 1" "inodes_per_group fs"] unat_mod [of "n - 1" "inodes_per_group fs"] unfolding n1
    by (metis of_nat_unat ucast_id)+
  let ?da = "first_blockaddr + ?g * blocks_per_group fs * block_size fs + group_desc_offset"
  have "?da = of_nat desc"
    unfolding d by (simp add: first_blockaddr_def group_desc_offset_def gk [simplified])
  then have da: "unat ?da = desc" using assms(3,9) by (simp only:) (intro unat_small, simp)
  let ?ia = "block_index2addr fs tab + ?k * of_nat 128"
  have "?ia = of_nat a"
    unfolding a by (simp add: block_index2addr_def block_addr_def first_blockaddr_def gk [simplified])
  then have ia: "unat ?ia = a" using assms(3,10) by (simp only:) (intro unat_small, simp)
  from rd_returns [OF assms(1), of 32 ?da] assms(9) obtain s1 where
    s1: "rd ?da 32 s = Inr (disk_bytes content desc 32, s1)" "ok s1" unfolding da by auto
  from rd_returns [OF s1(2), of 128 ?ia] assms(10) obtain s2 where
    s2: "rd ?ia 128 s1 = Inr (disk_bytes content a 128, s2)" "ok s2" unfolding ia by auto
  show ?thesis using assms(4) s1(1) s2 by (simp add: get_inode_def Let_def sz tab [symmetric])
qed

end

end
