(* ===== verification/FileSystem_Correct.thy ===== *)
theory FileSystem_Correct
  imports Ext2_Correct
begin

unbundle bit_operations_syntax

text \<open>
  Path names and file contents.

  \<open>split_loop\<close> cuts a path name at the slashes: it is the inverse of joining names with slashes. \<^verbatim>\<open>File::read\<close> returns the
  bytes of the file, block by block, when the range is larger than a block or lies inside one; the lemmas
  are proved in the context of a \<open>block_device\<close>.
\<close>

section \<open>Path names\<close>

fun split_path :: "u8 list \<Rightarrow> u8 list \<Rightarrow> u8 list list" where
  "split_path cur [] = [cur]"
| "split_path cur (c # cs) = (if c = slash then cur # split_path [] cs else split_path (cur @ [c]) cs)"

fun store_names :: "kstring kvector \<Rightarrow> nat \<Rightarrow> u8 list list \<Rightarrow> (kstring kvector \<times> nat) kres" where
  "store_names pth k [] = Inr (pth, k)"
| "store_names pth k (c # cs) = rbind (kvector_set pth k (kstring_of c)) (\<lambda>pth. store_names pth (k + 1) cs)"

lemma takeWhile_nonzero: "0 \<notin> set xs \<Longrightarrow> takeWhile (\<lambda>c. c \<noteq> 0) (xs @ 0 # ys) = xs" for xs :: "u8 list"
  by (induction xs) auto

lemma kstring_cut:
  assumes "0 \<notin> set (cur @ rest)" and "length (cur @ rest) \<le> STRLEN_MAX"
  shows "kstring_len (cur @ rest @ [0]) (length cur) = kstring_of cur"
proof -
  have "takeWhile (\<lambda>c. c \<noteq> 0) (cur @ rest @ [0]) = cur @ rest" using takeWhile_nonzero [OF assms(1), of "[]"] by simp
  then have "c_str (cur @ rest @ [0]) = cur @ rest" using assms(2) by (simp add: c_str_def)
  moreover have t: "takeWhile (\<lambda>c. c \<noteq> 0) cur = cur" using assms(1) by (induction cur) auto
  then have "c_str cur = cur" unfolding c_str_def t using assms(2) by simp
  ultimately show ?thesis by (simp add: kstring_len_def kstring_of_def)
qed

lemma split_loop_spec:
  assumes "0 \<notin> set (cur @ rest)" and "length (cur @ rest) \<le> STRLEN_MAX"
  shows "split_loop (pre @ slash # cur @ rest @ [0]) (length pre) (length pre + 1 + length cur) (length rest) pth k =
    store_names pth k (split_path cur rest)"
  using assms
proof (induction rest arbitrary: pre cur pth k)
  case Nil
  from kstring_cut [OF Nil.prems] show ?case by simp
next
  case (Cons c cs)
  let ?name = "pre @ slash # cur @ (c # cs) @ [0]"
  have c: "elem_at ?name (length pre + 1 + length cur) = Inr c" by (simp add: nth_append)
  show ?case
  proof (cases "c = slash")
    case True
    let ?pre = "pre @ slash # cur"
    have "split_loop (?pre @ slash # [] @ cs @ [0]) (length ?pre) (length ?pre + 1 + length ([] :: u8 list)) (length cs) pth' (k + 1) =
        store_names pth' (k + 1) (split_path [] cs)" for pth'
      using Cons.prems by (intro Cons.IH) auto
    moreover have "kstring_len (drop (length pre + 1) ?name) (length cur) = kstring_of cur"
      using kstring_cut [OF Cons.prems] by simp
    ultimately show ?thesis using True c by (simp add: add.assoc)
  next
    case False
    have "split_loop (pre @ slash # (cur @ [c]) @ cs @ [0]) (length pre) (length pre + 1 + length (cur @ [c])) (length cs) pth k =
        store_names pth k (split_path (cur @ [c]) cs)"
      using Cons.prems by (intro Cons.IH) auto
    then show ?thesis using False c by simp
  qed
qed

lemma split_path_join:
  assumes "\<forall>c \<in> set cs. slash \<notin> set c" and "slash \<notin> set rest"
  shows "split_path cur (rest @ concat (map (\<lambda>c. slash # c) cs)) = (cur @ rest) # cs"
  using assms
proof (induction cs arbitrary: cur rest)
  case Nil
  then show ?case by (induction rest arbitrary: cur) auto
next
  case (Cons c cs)
  have "split_path cur (rest @ slash # xs) = (cur @ rest) # split_path [] xs" for xs
    using Cons.prems(2) by (induction rest arbitrary: cur) auto
  then show ?case using Cons.IH [of c "[]"] Cons.prems by simp
qed

lemma store_names_run:
  "k + length cs \<le> length (elems pth) \<Longrightarrow> \<exists>es. store_names pth k cs = Inr (pth\<lparr>elems := es\<rparr>, k + length cs) \<and>
     length es = length (elems pth) \<and> take (k + length cs) es = take k (elems pth) @ map kstring_of cs"
proof (induction cs arbitrary: pth k)
  case Nil show ?case by (intro exI [of _ "elems pth"]) simp
next
  case (Cons c cs)
  let ?p = "pth\<lparr>elems := (elems pth)[k := kstring_of c]\<rparr>"
  have "k + 1 + length cs \<le> length (elems ?p)" using Cons.prems by simp
  from Cons.IH [OF this] obtain es where es: "store_names ?p (k + 1) cs = Inr (?p\<lparr>elems := es\<rparr>, k + 1 + length cs)"
    "length es = length (elems pth)" "take (k + 1 + length cs) es = take (k + 1) ((elems pth)[k := kstring_of c]) @ map kstring_of cs"
    by auto
  moreover have "take (k + 1) ((elems pth)[k := kstring_of c]) = take k (elems pth) @ [kstring_of c]"
    using Cons.prems by (simp add: take_Suc_conv_app_nth)
  ultimately show ?case using Cons.prems by (intro exI [of _ es]) (simp add: kvector_set_def)
qed

lemma store_names_overflow: "length (elems pth) < k + length cs \<Longrightarrow> store_names pth k cs = Inl Null_deref \<or> k > length (elems pth)"
proof (induction cs arbitrary: pth k)
  case (Cons c cs)
  show ?case
  proof (cases "k < length (elems pth)")
    case True
    with Cons.IH [of "pth\<lparr>elems := (elems pth)[k := kstring_of c]\<rparr>" "k + 1"] Cons.prems show ?thesis
      by (auto simp: kvector_set_def)
  qed (simp add: kvector_set_def)
qed simp

text \<open>
  C33. A path name is cut at its slashes: for a name made of up to twenty components without slash or zero byte,
  each with a slash in front, \<^verbatim>\<open>fopen\<close> looks up exactly these components, in order; with more than twenty it
  writes through the null reference that \<^verbatim>\<open>kvector\<close> returns.
\<close>

theorem parse_path_correct:
  assumes "comps \<noteq> []" and "\<forall>c \<in> set comps. slash \<notin> set c \<and> 0 \<notin> set c"
    and "length (concat (map (\<lambda>c. slash # c) comps)) \<le> STRLEN_MAX"
  shows "case parse_path (kstring_of (concat (map (\<lambda>c. slash # c) comps))) of
      Inl e \<Rightarrow> e = Null_deref \<and> MAX_FILE_NR < length comps
    | Inr v \<Rightarrow> length comps \<le> MAX_FILE_NR \<and> take (num_elem v) (elems v) = map kstring_of comps"
proof -
  obtain c cs where comps: "comps = c # cs" using assms(1) by (cases comps) auto
  let ?rest = "c @ concat (map (\<lambda>c. slash # c) cs)"
  let ?name = "slash # ?rest"
  let ?v = "kvector_new kstring_empty MAX_FILE_NR"
  have sl: "slash \<noteq> 0" by (simp add: slash_def)
  have z: "0 \<notin> set ?rest" using assms(2) sl by (auto simp: comps)
  have len: "length ?rest \<le> STRLEN_MAX" "length ?name \<le> STRLEN_MAX" using assms(3) by (simp_all add: comps)
  have "takeWhile (\<lambda>c. c \<noteq> 0) ?name = ?name" using z sl by (subst takeWhile_eq_all_conv) auto
  then have cs: "c_str ?name = ?name" unfolding c_str_def using len(2) by simp
  have "parse_path (kstring_of ?name) =
      rbind (split_loop ([] @ slash # [] @ ?rest @ [0]) (length ([] :: u8 list)) (length ([] :: u8 list) + 1 + length ([] :: u8 list)) (length ?rest) ?v 0)
        (\<lambda>(pth, num_file). Inr (snd (set_nr_elem pth num_file)))"
    by (simp add: parse_path_def kstring_of_def cs)
  also have "split_loop ([] @ slash # [] @ ?rest @ [0]) (length ([] :: u8 list)) (length ([] :: u8 list) + 1 + length ([] :: u8 list)) (length ?rest) ?v 0 =
      store_names ?v 0 (split_path [] ?rest)"
    using z len(1) by (intro split_loop_spec) simp_all
  also have "split_path [] ?rest = comps" using split_path_join [of cs c "[]"] assms(2) by (simp add: comps)
  finally have run: "parse_path (kstring_of ?name) = rbind (store_names ?v 0 comps) (\<lambda>(pth, num_file). Inr (snd (set_nr_elem pth num_file)))" .
  have v: "length (elems ?v) = MAX_FILE_NR" "num_elem ?v = MAX_FILE_NR" by (simp_all add: kvector_new_def)
  have name: "concat (map (\<lambda>c. slash # c) comps) = ?name" by (simp add: comps)
  show ?thesis
  proof (cases "length comps \<le> MAX_FILE_NR")
    case True
    with store_names_run [of 0 comps ?v] v obtain es where
      "store_names ?v 0 comps = Inr (?v\<lparr>elems := es\<rparr>, length comps)" "length es = MAX_FILE_NR" "take (length comps) es = map kstring_of comps" by auto
    with run True v show ?thesis unfolding name by (auto simp: set_nr_elem_def)
  next
    case False
    with store_names_overflow [of ?v 0 comps] v run show ?thesis unfolding name by simp
  qed
qed

theorem parse_path_correct_witness:
  "case parse_path (kstring_of [0x2f, 0x61, 0x2f, 0x62, 0x63]) of Inl e \<Rightarrow> False
   | Inr v \<Rightarrow> take (num_elem v) (elems v) = [kstring_of [0x61], kstring_of [0x62, 0x63]]"
  using parse_path_correct [of "[[0x61], [0x62, 0x63]]"]
  by (simp add: slash_def STRLEN_MAX_def MAX_FILE_NR_def split: sum.splits)

section \<open>The bytes of a file\<close>

definition file_byte :: "(nat \<Rightarrow> u8) \<Rightarrow> ext2 \<Rightarrow> ext2_inode \<Rightarrow> nat \<Rightarrow> u8" where
  "file_byte ct fs node a = block_data ct fs (file_block ct fs node (a div unat (block_size fs))) ! (a mod unat (block_size fs))"

definition file_bytes :: "(nat \<Rightarrow> u8) \<Rightarrow> ext2 \<Rightarrow> ext2_inode \<Rightarrow> nat \<Rightarrow> nat \<Rightarrow> u8 list" where
  "file_bytes ct fs node a n = map (file_byte ct fs node) [a..<a + n]"

lemma file_bytes_append: "file_bytes ct fs node a m @ file_bytes ct fs node (a + m) n = file_bytes ct fs node a (m + n)"
  by (rule nth_equalityI) (auto simp: file_bytes_def nth_append)

lemma length_block_data [simp]: "length (block_data ct fs b) = unat (block_size fs)"
  by (simp add: block_data_def)

text \<open>A range inside one block.\<close>

lemma file_bytes_block:
  assumes "a mod unat (block_size fs) + n \<le> unat (block_size fs)" and "block_size fs \<noteq> 0"
  shows "file_bytes ct fs node a n =
    take n (drop (a mod unat (block_size fs)) (block_data ct fs (file_block ct fs node (a div unat (block_size fs)))))"
proof (rule nth_equalityI)
  let ?bs = "unat (block_size fs)"
  have pos: "0 < ?bs" using assms(2) by (simp add: unat_gt_0)
  show "length (file_bytes ct fs node a n) = length (take n (drop (a mod ?bs) (block_data ct fs (file_block ct fs node (a div ?bs)))))"
    using assms(1) by (simp add: file_bytes_def)
  fix i assume "i < length (file_bytes ct fs node a n)"
  then have i: "i < n" by (simp add: file_bytes_def)
  have e: "a + i = a div ?bs * ?bs + (a mod ?bs + i)" by simp
  have lt: "a mod ?bs + i < ?bs" using i assms(1) by simp
  have gen: "(q * b + r) div b = q" "(q * b + r) mod b = r" if "r < b" for q r b :: nat using that by simp_all
  have "(a + i) div ?bs = a div ?bs" "(a + i) mod ?bs = a mod ?bs + i"
    using gen [OF lt, of "a div ?bs"] unfolding e [symmetric] by simp_all
  then show "file_bytes ct fs node a n ! i = take n (drop (a mod ?bs) (block_data ct fs (file_block ct fs node (a div ?bs)))) ! i"
    using i lt by (simp add: file_bytes_def file_byte_def)
qed

text \<open>Blocks of the file that can be read: on the disk, and inside the size of the file as a whole.\<close>

definition readable :: "(nat \<Rightarrow> u8) \<Rightarrow> ext2 \<Rightarrow> nat \<Rightarrow> ext2_inode \<Rightarrow> nat \<Rightarrow> bool" where
  "readable ct fs cap node k \<longleftrightarrow> block_in ct fs cap node k \<and> (k + 1) * unat (block_size fs) \<le> unat (i_size node)"

text \<open>The block sizes are powers of two, so the mask cuts at the start of a block.\<close>

lemma block_mask:
  assumes "fs_ok fs"
  shows "unat (addr AND (block_size fs - 1)) = unat addr mod unat (block_size fs)"
    "unat (addr AND NOT (block_size fs - 1)) = unat addr div unat (block_size fs) * unat (block_size fs)"
    "addr AND (NOT (block_size fs - 1) + block_size fs) = 0"
proof -
  obtain k where k: "block_size fs - 1 = mask k" "unat (block_size fs) = 2 ^ k" "block_size fs = 2 ^ k"
  proof -
    from assms consider "block_size fs = 1024" | "block_size fs = 2048" | "block_size fs = 4096" by (auto simp: fs_ok_def)
    then show thesis
    proof cases
      case 1 then show ?thesis by (intro that [of 10]) (simp_all add: mask_eq_exp_minus_1)
    next
      case 2 then show ?thesis by (intro that [of 11]) (simp_all add: mask_eq_exp_minus_1)
    next
      case 3 then show ?thesis by (intro that [of 12]) (simp_all add: mask_eq_exp_minus_1)
    qed
  qed
  show "unat (addr AND (block_size fs - 1)) = unat addr mod unat (block_size fs)" unfolding k(1,2) by (rule unat_and_mask)
  show "unat (addr AND NOT (block_size fs - 1)) = unat addr div unat (block_size fs) * unat (block_size fs)"
    unfolding k(1,2) by (rule unat_and_not_mask)
  have "NOT (block_size fs - 1) + block_size fs = 0" by (simp add: minus_eq_not_minus_1 [symmetric])
  then show "addr AND (NOT (block_size fs - 1) + block_size fs) = 0" by simp
qed

text \<open>
  The numbers of \<^verbatim>\<open>File::read\<close> for a range larger than a block: the edge up to the next block, the whole blocks and
  the rest.
\<close>

lemma edge_numbers:
  fixes addr sz :: u32
  assumes "fs_ok fs" and large: "unat sz > unat (block_size fs)" and lt: "unat sz < 2 ^ 31" "unat addr + unat sz < 2 ^ 32"
  defines "bs \<equiv> unat (block_size fs)" and "edge \<equiv> block_size fs - addr mod block_size fs"
  defines "e \<equiv> bs - unat addr mod bs"
  shows "unat edge = e" "0 < e" "unat addr mod bs + e = bs" "unat addr + e = (unat addr div bs + 1) * bs"
    "unat (addr + edge) = (unat addr div bs + 1) * bs"
    "sint (sz - edge) sdiv sint (block_size fs) = int ((unat sz - e) div bs)"
    "sint (sz - edge) smod sint (block_size fs) = int ((unat sz - e) mod bs)"
    "e + ((unat sz - e) div bs * bs + (unat sz - e) mod bs) = unat sz"
proof -
  have bs: "1024 \<le> bs" "bs \<le> 4096" using fs_okD [OF assms(1)] by (simp_all add: bs_def)
  have m: "unat addr mod bs < bs" using bs by simp
  then show "0 < e" "unat addr mod bs + e = bs" by (simp_all add: e_def)
  show e: "unat edge = e" unfolding edge_def e_def bs_def using m by (subst unat_sub) (simp_all add: word_le_nat_alt unat_mod bs_def)
  show ge: "unat addr + e = (unat addr div bs + 1) * bs"
    using m div_mult_mod_eq [of "unat addr" bs] unfolding e_def add_mult_distrib mult_1 by linarith
  have le: "e < unat sz" using large by (simp add: e_def bs_def)
  show "unat (addr + edge) = (unat addr div bs + 1) * bs"
    using lt(2) le e ge by (subst unat_add_lem [THEN iffD1]) simp_all
  have "unat (sz - edge) = unat sz - e" using le e by (subst unat_sub) (simp_all add: word_le_nat_alt)
  then have "sint (sz - edge) = int (unat sz - e)" using lt(1) by (subst sint_small) simp_all
  moreover have "sint (block_size fs) = int bs" using bs(2) unfolding bs_def by (intro sint_small) simp
  ultimately show "sint (sz - edge) sdiv sint (block_size fs) = int ((unat sz - e) div bs)"
    "sint (sz - edge) smod sint (block_size fs) = int ((unat sz - e) mod bs)"
    using bs(1) by (simp_all only: sdiv_smod_nat)
  show "e + ((unat sz - e) div bs * bs + (unat sz - e) mod bs) = unat sz" using le by simp
qed

context block_device
begin

lemma fs_read_block_returns:
  assumes "ok s" and "fs_ok fs" and "inode_ok node" and "capacity \<le> 2 ^ 32"
    and "unat pos = k * unat (block_size fs)" and "readable content fs capacity node k"
  shows "\<exists>s'. FileSystem_read_block rd fs pos buffer node s = Inr (True, block_data content fs (file_block content fs node k), s') \<and> ok s'"
proof -
  have k: "block_no fs pos = k" using assms(5) fs_okD(3) [OF assms(2)] by (simp add: block_no_def)
  have "unat pos + unat (block_size fs) \<le> unat (i_size node)" using assms(5,6) by (simp add: readable_def)
  from read_block_pos_returns [OF assms(1-4) this, of buffer] assms(6) k show ?thesis
    by (auto simp: FileSystem_read_block_def readable_def)
qed

lemma File_read_block_inside:
  assumes "ok s" and "fs_ok fs" and "inode_ok (finode file)" and "capacity \<le> 2 ^ 32"
    and in1: "unat addr mod unat (block_size fs) + unat sz \<le> unat (block_size fs)"
    and "readable content fs capacity (finode file) (unat addr div unat (block_size fs))"
  shows "\<exists>s'. File_read_block rd fs junk addr sz file s = Inr (True, file_bytes content fs (finode file) (unat addr) (unat sz), s') \<and> ok s'"
proof -
  let ?bs = "unat (block_size fs)" and ?off = "addr AND (block_size fs - 1)"
  note m = block_mask [OF assms(2), of addr]
  have "unat (?off + sz) = unat ?off + unat sz"
    using in1 fs_okD(2) [OF assms(2)] by (subst unat_add_lem [THEN iffD1]) (simp_all add: m(1))
  then have ng: "\<not> ?off + sz > block_size fs" "\<not> sz > block_size fs" using in1 by (simp_all add: word_less_nat_alt m(1))
  from fs_read_block_returns [OF assms(1-4) m(2) assms(6)] obtain s1 where
    "FileSystem_read_block rd fs (addr AND NOT (block_size fs - 1)) (map junk [0..<?bs]) (finode file) s =
      Inr (True, block_data content fs (file_block content fs (finode file) (unat addr div ?bs)), s1)" "ok s1" by blast
  then show ?thesis using ng file_bytes_block [OF in1 fs_okD(1) [OF assms(2)], of content "finode file"]
    by (simp add: File_read_block_def Let_def m(1))
qed

text \<open>A range over the edge of a block that is no larger than a block: the second part comes from block 0.\<close>

lemma File_read_block_crossing:
  assumes "ok s" and "fs_ok fs" and "inode_ok (finode file)" and "capacity \<le> 2 ^ 32" and "unat sz \<le> unat (block_size fs)"
    and cross: "unat addr mod unat (block_size fs) + unat sz > unat (block_size fs)"
    and "readable content fs capacity (finode file) (unat addr div unat (block_size fs))" and "readable content fs capacity (finode file) 0"
  defines "edge \<equiv> unat (block_size fs) - unat addr mod unat (block_size fs)"
  shows "\<exists>s'. File_read_block rd fs junk addr sz file s =
    Inr (True, file_bytes content fs (finode file) (unat addr) edge @ file_bytes content fs (finode file) 0 (unat sz - edge), s') \<and> ok s'"
proof -
  let ?bs = "unat (block_size fs)" and ?off = "addr AND (block_size fs - 1)" and ?nd = "finode file"
  let ?B = "\<lambda>k. block_data content fs (file_block content fs ?nd k)"
  note m = block_mask [OF assms(2), of addr]
  note bs = fs_okD [OF assms(2)]
  have lt: "unat addr mod ?bs < ?bs" using bs(3) by simp
  have "unat (?off + sz) = unat ?off + unat sz"
    using assms(5) bs(2) lt by (subst unat_add_lem [THEN iffD1]) (simp_all add: m(1))
  then have g: "?off + sz > block_size fs" "\<not> sz > block_size fs" using cross assms(5) by (simp_all add: word_less_nat_alt m(1))
  from fs_read_block_returns [OF assms(1-4) m(2) assms(7)] obtain s1 where
    s1: "FileSystem_read_block rd fs (addr AND NOT (block_size fs - 1)) (map junk [0..<?bs]) ?nd s = Inr (True, ?B (unat addr div ?bs), s1)" "ok s1"
    by blast
  have "unat (addr AND (NOT (block_size fs - 1) + block_size fs)) = 0 * ?bs" by (simp add: m(3))
  from fs_read_block_returns [OF s1(2) assms(2-4) this assms(8)] obtain s2 where
    s2: "FileSystem_read_block rd fs (addr AND (NOT (block_size fs - 1) + block_size fs)) (map junk [?bs..<2 * ?bs]) ?nd s1 = Inr (True, ?B 0, s2)" "ok s2"
    by blast
  have e1: "file_bytes content fs ?nd (unat addr) edge = drop (unat addr mod ?bs) (?B (unat addr div ?bs))"
    using lt by (subst file_bytes_block) (simp_all add: edge_def bs(1))
  have e2: "file_bytes content fs ?nd 0 (unat sz - edge) = take (unat sz - edge) (?B 0)"
    using assms(5) by (subst file_bytes_block) (simp_all add: edge_def bs(1))
  have "take (unat sz) (drop (unat addr mod ?bs) (?B (unat addr div ?bs) @ ?B 0)) =
      drop (unat addr mod ?bs) (?B (unat addr div ?bs)) @ take (unat sz - edge) (?B 0)"
    using lt cross by (simp add: edge_def)
  then show ?thesis using g s1 s2 e1 e2 by (simp add: File_read_block_def Let_def m(1))
qed

lemma read_blocks_loop_returns:
  assumes "ok s" and "fs_ok fs" and "inode_ok (finode file)" and "capacity \<le> 2 ^ 32"
    and "unat src = k * unat (block_size fs)" and "unat src + n * unat (block_size fs) < 2 ^ 32"
    and "\<forall>j < n. readable content fs capacity (finode file) (k + j)"
  shows "\<exists>s'. read_blocks_loop rd fs junk n src file out s =
    Inr (out @ file_bytes content fs (finode file) (unat src) (n * unat (block_size fs)), src + of_nat n * block_size fs, s') \<and> ok s'"
  using assms
proof (induction n arbitrary: src k out s)
  case 0 then show ?case by (simp add: file_bytes_def)
next
  case (Suc n)
  let ?bs = "unat (block_size fs)" and ?nd = "finode file"
  have al: "unat src mod ?bs = 0" "unat src div ?bs = k"
    using Suc.prems(5) fs_okD(3) [OF Suc.prems(2)] by simp_all
  have "readable content fs capacity ?nd k" using Suc.prems(7) by force
  with File_read_block_inside [OF Suc.prems(1-4), of src "block_size fs" junk] al obtain s1 where
    s1: "File_read_block rd fs junk src (block_size fs) file s = Inr (True, file_bytes content fs ?nd (unat src) ?bs, s1)" "ok s1" by auto
  have u: "unat (src + block_size fs) = unat src + ?bs"
    using Suc.prems(6) by (subst unat_add_lem [THEN iffD1]) simp_all
  have "\<exists>s'. read_blocks_loop rd fs junk n (src + block_size fs) file (out @ file_bytes content fs ?nd (unat src) ?bs) s1 =
    Inr ((out @ file_bytes content fs ?nd (unat src) ?bs) @ file_bytes content fs ?nd (unat (src + block_size fs)) (n * ?bs),
      src + block_size fs + of_nat n * block_size fs, s') \<and> ok s'"
    using Suc.prems(5-7) s1(2) u by (intro Suc.IH [of _ _ "k + 1"] Suc.prems(2-4)) auto
  then show ?case
    using s1(1) by (simp add: u file_bytes_append algebra_simps)
qed

lemma File_read_large:
  assumes valid: "is_valid file" and "ok s" and "fs_ok fs" and "inode_ok (finode file)" and "capacity \<le> 2 ^ 32"
    and large: "unat sz > unat (block_size fs)" and lt: "unat sz < 2 ^ 31" "unat addr + unat sz < 2 ^ 32"
    and rd: "\<forall>k. unat addr div unat (block_size fs) \<le> k \<and> k * unat (block_size fs) < unat addr + unat sz \<longrightarrow>
      readable content fs capacity (finode file) k"
  shows "\<exists>s'. File_read rd fs junk addr sz file s = Inr (file_bytes content fs (finode file) (unat addr) (unat sz), s') \<and> ok s'"
proof -
  let ?w = "block_size fs" and ?bs = "unat (block_size fs)" and ?nd = "finode file" and ?a = "unat addr" and ?q = "unat addr div unat (block_size fs)"
  let ?e = "?bs - ?a mod ?bs"
  let ?R = "unat sz - ?e"
  note bs = fs_okD [OF assms(3)]
  note num = edge_numbers [OF assms(3) large lt]
  note e = num(1,3) and ge = num(4) and src = num(5) and nb = num(6,7) and split = num(8)
  have "readable content fs capacity ?nd ?q" using rd large by (simp add: trans_less_add1 le_less_trans [OF div_times_less_eq_dividend])
  with File_read_block_inside [OF assms(2-5), of addr "?w - addr mod ?w" junk] e obtain s1 where
    s1: "File_read_block rd fs junk addr (?w - addr mod ?w) file s = Inr (True, file_bytes content fs ?nd ?a ?e, s1)" "ok s1" by auto
  have loop: "\<exists>s'. read_blocks_loop rd fs junk (?R div ?bs) (addr + (?w - addr mod ?w)) file (file_bytes content fs ?nd ?a ?e) s1 =
      Inr (file_bytes content fs ?nd ?a ?e @ file_bytes content fs ?nd ((?q + 1) * ?bs) (?R div ?bs * ?bs),
        addr + (?w - addr mod ?w) + of_nat (?R div ?bs) * ?w, s') \<and> ok s'"
  proof -
    have "readable content fs capacity ?nd (?q + 1 + j)" if "j < ?R div ?bs" for j
    proof -
      have "(j + 1) * ?bs \<le> ?R div ?bs * ?bs" using that by (intro mult_le_mono1) simp
      then have "(?q + 1 + j) * ?bs < ?a + unat sz"
        using ge split bs(3) unfolding add_mult_distrib mult_1 by linarith
      then show ?thesis using rd by simp
    qed
    then have rk: "\<forall>j < ?R div ?bs. readable content fs capacity ?nd (?q + 1 + j)" by blast
    have "unat (addr + (?w - addr mod ?w)) + ?R div ?bs * ?bs < 2 ^ 32" unfolding src using ge split lt(2) by linarith
    from read_blocks_loop_returns [OF s1(2) assms(3-5) src this rk, of junk "file_bytes content fs ?nd ?a ?e"] show ?thesis
      unfolding src .
  qed
  then obtain s2 where s2: "read_blocks_loop rd fs junk (?R div ?bs) (addr + (?w - addr mod ?w)) file (file_bytes content fs ?nd ?a ?e) s1 =
      Inr (file_bytes content fs ?nd ?a (?e + ?R div ?bs * ?bs), addr + (?w - addr mod ?w) + of_nat (?R div ?bs) * ?w, s2)" "ok s2"
    unfolding ge [symmetric] file_bytes_append by blast
  have en: "?w - addr mod ?w \<noteq> 0" using num(1,2) by (metis unat_0 less_numeral_extra(3))
  have gt: "sz > ?w" using large by (simp add: word_less_nat_alt)
  show ?thesis
  proof (cases "?R mod ?bs = 0")
    case True
    then have "?e + ?R div ?bs * ?bs = unat sz" using split by linarith
    then show ?thesis using s1 s2 en gt bs(1) True by (simp add: File_read_def Let_def nb valid)
  next
    case False
    let ?src = "addr + (?w - addr mod ?w) + of_nat (?R div ?bs) * ?w"
    let ?k = "?q + 1 + ?R div ?bs"
    have "?src = of_nat (?k * ?bs)"
    proof -
      have "addr + (?w - addr mod ?w) = of_nat ((?q + 1) * ?bs)" using src by (metis of_nat_unat ucast_id)
      then show ?thesis by (simp add: algebra_simps)
    qed
    moreover have kl: "?k * ?bs < ?a + unat sz"
      using ge split False unfolding add_mult_distrib mult_1 by linarith
    ultimately have us: "unat ?src = ?k * ?bs" using lt(2) by (simp only: unat_small)
    have rk: "readable content fs capacity ?nd ?k" using rd kl by simp
    have ur: "unat (word_of_int (int (?R mod ?bs)) :: u32) = ?R mod ?bs"
      using lt(1) by (simp add: unat_small le_less_trans [OF mod_less_eq_dividend])
    have a: "unat ?src mod ?bs = 0" "unat ?src div ?bs = ?k" unfolding us using bs(3) by simp_all
    have "unat ?src mod ?bs + unat (word_of_int (int (?R mod ?bs)) :: u32) \<le> ?bs" unfolding a ur using bs(3) by (simp add: less_imp_le)
    moreover have "readable content fs capacity ?nd (unat ?src div ?bs)" unfolding a by (rule rk)
    ultimately obtain s3 where s3: "File_read_block rd fs junk ?src (word_of_int (int (?R mod ?bs))) file s2 =
        Inr (True, file_bytes content fs ?nd (?k * ?bs) (?R mod ?bs), s3)" "ok s3"
      using File_read_block_inside [OF s2(2) assms(3-5), of ?src "word_of_int (int (?R mod ?bs))" junk] unfolding ur us by blast
    have "?k * ?bs = ?a + (?e + ?R div ?bs * ?bs)" using ge unfolding add_mult_distrib mult_1 by linarith
    then have "file_bytes content fs ?nd ?a (?e + ?R div ?bs * ?bs) @ file_bytes content fs ?nd (?k * ?bs) (?R mod ?bs) =
        file_bytes content fs ?nd ?a (unat sz)" using split by (simp add: file_bytes_append add.assoc)
    then show ?thesis using s1 s2 s3 en gt bs(1) False by (simp add: File_read_def Let_def nb valid)
  qed
qed

end

end
