(* ===== verification/Disk_Stack.thy ===== *)
theory Disk_Stack
  imports Ata_Disk FileSystem_Correct
begin

unbundle bit_operations_syntax

text \<open>
  The file system on top of the disk driver: the driver is a \<open>block_device\<close>, so what was proved of the file
  system over any such device holds of \<^verbatim>\<open>Ext2\<close> and \<^verbatim>\<open>File\<close> reading through \<^verbatim>\<open>Ata::read\<close>, down to the port accesses.
\<close>

interpretation ata_disk: block_device "ata_rd (hd_bus ct) fuel 0 buf" ct "512 * sectors" "ata_ok fuel buf sectors"
  for ct fuel buf sectors
  by (rule ata_rd_device)

text \<open>The addresses of a disk the driver can read are 32-bit words.\<close>

lemma ata_capacity: "ata_ok fuel buf sectors s \<Longrightarrow> 512 * sectors \<le> 2 ^ 32"
  by (simp add: ata_ok_def)

section \<open>Properties\<close>

text \<open>
  C17. \<^verbatim>\<open>Ext2::read_block_pos\<close>, reading through the ATA driver, returns the data of the block that the block map of the
  inode gives for the position, for the direct blocks and for one, two and three levels of pointer blocks.
\<close>

theorem read_block_pos_correct:
  assumes "ata_ok fuel buf sectors s" and "fs_ok fs" and "inode_ok node"
    and "unat pos + unat (block_size fs) \<le> unat (i_size node)"
    and "block_in ct fs (512 * sectors) node (unat pos div unat (block_size fs))"
  shows "\<exists>s'. read_block_pos (ata_rd (hd_bus ct) fuel 0 buf) fs pos buffer node s =
      Inr (True, block_data ct fs (file_block ct fs node (unat pos div unat (block_size fs))), s') \<and> ata_ok fuel buf sectors s'"
  using ata_disk.read_block_pos_returns [OF assms(1-3) ata_capacity [OF assms(1)] assms(4), of ct buffer] assms(5)
  by (simp add: block_no_def)

definition demo_fs :: ext2 where
  "demo_fs = \<lparr>blocks_per_group = 8192, inodes_per_group = 64, inode_size = 128, block_size = 1024, root_inode = invalid_inode\<rparr>"

definition demo_node :: ext2_inode where
  "demo_node = \<lparr>i_mode = 0x8000, i_size = 4096, i_block = map of_nat [3..<18]\<rparr>"

lemma demo_fs_ok: "fs_ok demo_fs" "inode_ok demo_node" "unat (block_size demo_fs) = 1024"
  by (simp_all add: fs_ok_def demo_fs_def inode_ok_def demo_node_def inode_slots)

lemma demo_readable:
  assumes "k < 4"
  shows "readable ct demo_fs (512 * 256) demo_node k" "file_block ct demo_fs demo_node k = of_nat (3 + k)"
proof -
  have l: "level_of demo_fs k = (0, k, 0)" using assms by (simp add: level_of_def Let_def)
  from assms consider "k = 0" | "k = 1" | "k = 2" | "k = 3" by linarith
  then have b: "i_block demo_node ! k = of_nat (3 + k)" by cases (simp_all add: demo_node_def)
  have "unat (of_nat (3 + k) :: u32) = 3 + k" using assms by (intro unat_small) simp
  then have a: "block_addr demo_fs (of_nat (3 + k)) = 0x7e00 + (3 + k) * 1024" by (simp only: block_addr_def demo_fs_ok(3))
  show "file_block ct demo_fs demo_node k = of_nat (3 + k)" by (simp only: file_block_def l Let_def prod.case resolve.simps b)
  have "block_in ct demo_fs (512 * 256) demo_node k"
    unfolding block_in_def l Let_def prod.case resolve_in.simps b a demo_fs_ok(3) using assms by simp
  moreover have "(k + 1) * 1024 \<le> unat (i_size demo_node)" using assms by (simp add: demo_node_def)
  ultimately show "readable ct demo_fs (512 * 256) demo_node k" by (simp add: readable_def demo_fs_ok(3))
qed

theorem read_block_pos_correct_witness:
  "\<exists>s'. read_block_pos (ata_rd (hd_bus (\<lambda>i. of_nat (i div 1024))) 1 0 0x8000) demo_fs 0x500 [] demo_node demo_ata =
     Inr (True, block_data (\<lambda>i. of_nat (i div 1024)) demo_fs 4, s')"
  using read_block_pos_correct [OF demo_ata_ok demo_fs_ok(1,2), of "0x500" "\<lambda>i. of_nat (i div 1024)" "[]"]
    demo_readable [of 1 "\<lambda>i. of_nat (i div 1024)"] by (auto simp: demo_fs_ok(3) demo_node_def readable_def)

lemma File_read_spec:
  assumes "ata_ok fuel buf sectors s" and "fs_ok fs" and "inode_ok (finode file)"
    and "unat sz < 2 ^ 31" and "unat addr + unat sz < 2 ^ 32"
    and "unat sz > unat (block_size fs) \<or> unat addr mod unat (block_size fs) + unat sz \<le> unat (block_size fs)"
    and "\<forall>k. unat addr div unat (block_size fs) \<le> k \<and> k * unat (block_size fs) \<le> unat addr + unat sz \<longrightarrow>
      readable ct fs (512 * sectors) (finode file) k" and "is_valid file"
  shows "\<exists>s'. File_read (ata_rd (hd_bus ct) fuel 0 buf) fs junk addr sz file s =
      Inr (file_bytes ct fs (finode file) (unat addr) (unat sz), s') \<and> ata_ok fuel buf sectors s'"
proof (cases "unat sz > unat (block_size fs)")
  case True
  then show ?thesis using assms(7) ata_capacity [OF assms(1)]
    by (intro ata_disk.File_read_large [OF assms(8,1-3)] assms(4,5)) auto
next
  case False
  have "unat addr div unat (block_size fs) * unat (block_size fs) \<le> unat addr + unat sz"
    by (rule order.trans [OF div_times_less_eq_dividend]) simp
  with assms(7) have "readable ct fs (512 * sectors) (finode file) (unat addr div unat (block_size fs))" by blast
  with ata_disk.File_read_block_inside [OF assms(1-3) ata_capacity [OF assms(1)], of addr sz ct junk] assms(6,8) False
  show ?thesis by (auto simp: File_read_def Let_def word_less_nat_alt)
qed


definition demo_file :: File where
  "demo_file = \<lparr>file_path = \<lparr>elems = [], num_elem = 0\<rparr>, finode = demo_node, is_valid = True\<rparr>"


text \<open>
  A range no larger than a block that runs over the edge of a block: \<^verbatim>\<open>File::read\<close> returns the right bytes
  up to the edge, and then the first bytes of the file instead of those behind the edge, because the address of
  the second block is masked to 0.
\<close>

theorem File_read_crossing:
  assumes "ata_ok fuel buf sectors s" and "fs_ok fs" and "inode_ok (finode file)" and "unat sz \<le> unat (block_size fs)"
    and "unat addr mod unat (block_size fs) + unat sz > unat (block_size fs)"
    and "readable ct fs (512 * sectors) (finode file) (unat addr div unat (block_size fs))" and "readable ct fs (512 * sectors) (finode file) 0"
    and "is_valid file"
  shows "\<exists>s'. File_read (ata_rd (hd_bus ct) fuel 0 buf) fs junk addr sz file s =
      Inr (file_bytes ct fs (finode file) (unat addr) (unat (block_size fs) - unat addr mod unat (block_size fs)) @
           file_bytes ct fs (finode file) 0 (unat sz - (unat (block_size fs) - unat addr mod unat (block_size fs))), s')"
  using ata_disk.File_read_block_crossing [OF assms(1-3) ata_capacity [OF assms(1)] assms(4-7), of junk] assms(4,8)
  by (auto simp: File_read_def Let_def word_less_nat_alt)

theorem File_read_crossing_witness:
  "\<exists>s'. File_read (ata_rd (hd_bus (\<lambda>i. of_nat i)) 1 0 0x8000) demo_fs (\<lambda>_. 0) 0x7fe 4 demo_file demo_ata =
     Inr (file_bytes (\<lambda>i. of_nat i) demo_fs demo_node 0x7fe 2 @ file_bytes (\<lambda>i. of_nat i) demo_fs demo_node 0 2, s')"
  using File_read_crossing [OF demo_ata_ok demo_fs_ok(1), of demo_file 4 "0x7fe" "\<lambda>i. of_nat i" "\<lambda>_. 0"] demo_fs_ok
    demo_readable [of 1 "\<lambda>i. of_nat i"] demo_readable [of 0 "\<lambda>i. of_nat i"]
  by (simp add: demo_file_def)



end
