(* ===== verification/Console.thy ===== *)
theory Console
  imports KString
begin

text \<open>
  The text console of the boot phase, \<^verbatim>\<open>src/kernel/tk_printf.cpp\<close> with the constants of
  \<^verbatim>\<open>src/include/os/tk_printf.h\<close>: a screen of two bytes per character at \<^verbatim>\<open>0xB8000\<close>, a cursor that wraps from
  the last line to the first, the conversion of numbers and the formatting routine behind \<^verbatim>\<open>kprintf\<close>.

  The screen, the format string, the string arguments and the 20-byte buffer of the formatting routine live in
  the one byte memory \<open>bmem\<close>. The words that the caller pushed after the format string are the argument \<open>arg\<close>,
  a function from their position: the routine steps through the stack and has no bound of its own. The scans for a
  terminating zero have none either, so they carry fuel and \<open>Inl Hang\<close> is the scan that is still running.
\<close>

text \<open>A run of bytes stored from an address on.\<close>

fun put_bytes :: "u32 \<Rightarrow> u8 list \<Rightarrow> bmem \<Rightarrow> bmem" where
  "put_bytes p [] m = m"
| "put_bytes p (b # bs) m = put_bytes (p + 1) bs (m(p := b))"

section \<open>Screen and cursor\<close>

definition COLUMNS :: nat where "COLUMNS = 80"
definition LINES :: nat where "LINES = 24"
definition ATTRIBUTE :: u8 where "ATTRIBUTE = 7"
definition VIDEO :: u32 where "VIDEO = 0xB8000"

record tk_screen =
  tk_xpos :: nat
  tk_ypos :: nat
  tk_video :: u32
  tk_mem :: bmem

definition tk_cls :: "tk_screen \<Rightarrow> tk_screen" where
  "tk_cls s = s\<lparr>tk_video := VIDEO, tk_mem := memset VIDEO 0 (COLUMNS * LINES * 2) (tk_mem s), tk_xpos := 0, tk_ypos := 0\<rparr>"

definition tk_cell :: "tk_screen \<Rightarrow> nat \<Rightarrow> nat \<Rightarrow> u32" where
  "tk_cell s x y = tk_video s + of_nat ((x + y * COLUMNS) * 2)"

fun clear_cells :: "tk_screen \<Rightarrow> nat \<Rightarrow> nat \<Rightarrow> tk_screen" where
  "clear_cells s i 0 = s"
| "clear_cells s i (Suc n) =
     clear_cells (s\<lparr>tk_mem := (tk_mem s)(tk_cell s i (tk_ypos s) := 0)\<rparr>) (Suc i) n"

definition tk_newline :: "tk_screen \<Rightarrow> tk_screen" where
  "tk_newline s =
     (let s = s\<lparr>tk_xpos := 0, tk_ypos := tk_ypos s + 1\<rparr>;
          s = clear_cells s (tk_xpos s) (COLUMNS - tk_xpos s)
      in if tk_ypos s \<ge> LINES then s\<lparr>tk_ypos := 0\<rparr> else s)"

definition tk_putchar :: "u32 \<Rightarrow> tk_screen \<Rightarrow> tk_screen" where
  "tk_putchar c s =
     (if c = 0x0a \<or> c = 0x0d then tk_newline s
      else
        (let m = (tk_mem s)(tk_cell s (tk_xpos s) (tk_ypos s) := ucast (c AND 0xFF));
             m = m(tk_cell s (tk_xpos s) (tk_ypos s) + 1 := ATTRIBUTE);
             s = s\<lparr>tk_mem := m, tk_xpos := tk_xpos s + 1\<rparr>
         in if tk_xpos s \<ge> COLUMNS then tk_newline s else s))"

section \<open>Numbers\<close>

text \<open>
  The conversion writes the digits from the lowest and then reverses them in place; \<open>d\<close> is a 32-bit word, read as
  signed where the source compares it with zero, and its negation wraps around. The loop on the digits is only called
  with the divisors 10 and 16; the test \<open>divisor \<ge> 2\<close>, true of both, makes it total.
\<close>

definition itoa_char :: "u32 \<Rightarrow> u8" where
  "itoa_char remainder = (if remainder < 10 then ucast (remainder + 0x30) else ucast (remainder + 0x61 - 10))"

function itoa_digits :: "u32 \<Rightarrow> u32 \<Rightarrow> u32 \<Rightarrow> bmem \<Rightarrow> u32 \<times> bmem" where
  "itoa_digits divisor ud p m =
     (let m = m(p := itoa_char (ud mod divisor)); p = p + 1; ud = ud div divisor
      in if ud \<noteq> 0 \<and> divisor \<ge> 2 then itoa_digits divisor ud p m else (p, m))"
  by pat_completeness auto

termination itoa_digits
  by (relation "measure (\<lambda>(divisor, ud, p, m). unat ud)")
    (auto simp: unat_div word_le_nat_alt unat_gt_0 intro!: div_less_dividend)

declare itoa_digits.simps [simp del]

function itoa_reverse :: "u32 \<Rightarrow> u32 \<Rightarrow> bmem \<Rightarrow> bmem" where
  "itoa_reverse p1 p2 m =
     (if p1 < p2 then (let tmp = m p1; m = m(p1 := m p2); m = m(p2 := tmp) in itoa_reverse (p1 + 1) (p2 - 1) m)
      else m)"
  by pat_completeness auto

lemma unat_pred_less: "(p1 :: u32) < p2 \<Longrightarrow> unat (p2 - 1) < unat p2"
  by (cases "p2 = 0") (simp_all add: unat_minus_one unat_gt_0)

termination itoa_reverse
  by (relation "measure (\<lambda>(p1, p2, m). unat p2)") (simp_all add: unat_pred_less)

declare itoa_reverse.simps [simp del]

definition tk_itoa :: "u32 \<Rightarrow> u32 \<Rightarrow> u32 \<Rightarrow> bmem \<Rightarrow> bmem" where
  "tk_itoa buf base d m =
     (let neg = (base = 0x64 \<and> d <s 0);
          m = (if neg then m(buf := 0x2d) else m);
          buf = (if neg then buf + 1 else buf);
          ud = (if neg then - d else d);
          divisor = (if neg then 10 else if base = 0x78 then 16 else 10);
          (p, m) = itoa_digits divisor ud buf m;
          m = m(p := 0)
      in itoa_reverse buf (p - 1) m)"

section \<open>Formatting\<close>

text \<open>
  The body of the formatting routine occurs twice in the kernel, with the names of the character routine and of the
  number conversion changed: \<^verbatim>\<open>tk_printf\<close> here and \<^verbatim>\<open>vx_printf\<close> of \<^verbatim>\<open>src/kernel/printf.cpp\<close>. The definitions below are that body;
  they take the character routine \<open>putc\<close>, the conversion \<open>itoa\<close> and the access to the memory of the console state as
  arguments. \<open>convert_arg\<close> is one conversion: the character after the percent sign and the argument it consumes.
\<close>

fun puts_loop :: "(u32 \<Rightarrow> 's \<Rightarrow> 's) \<Rightarrow> ('s \<Rightarrow> bmem) \<Rightarrow> nat \<Rightarrow> u32 \<Rightarrow> 's \<Rightarrow> 's kres" where
  "puts_loop putc getm 0 p s = Inl Hang"
| "puts_loop putc getm (Suc fuel) p s =
     (if getm s p \<noteq> 0 then puts_loop putc getm fuel (p + 1) (putc (scast (getm s p)) s) else Inr s)"

definition convert_arg :: "(u32 \<Rightarrow> 's \<Rightarrow> 's) \<Rightarrow> ('s \<Rightarrow> bmem) \<Rightarrow> (bmem \<Rightarrow> 's \<Rightarrow> 's) \<Rightarrow> (u32 \<Rightarrow> u32 \<Rightarrow> u32 \<Rightarrow> bmem \<Rightarrow> bmem) \<Rightarrow>
    nat \<Rightarrow> u32 \<Rightarrow> u32 \<Rightarrow> u32 \<Rightarrow> u32 \<Rightarrow> 's \<Rightarrow> 's kres" where
  "convert_arg putc getm setm itoa fuel nullstr buf c a s =
     (if c = 0x64 \<or> c = 0x75 \<or> c = 0x78 then puts_loop putc getm fuel buf (setm (itoa buf c a (getm s)) s)
      else if c = 0x73 then puts_loop putc getm fuel (if a = 0 then nullstr else a) s
      else Inr (putc a s))"

fun printf_loop :: "(u32 \<Rightarrow> 's \<Rightarrow> 's) \<Rightarrow> ('s \<Rightarrow> bmem) \<Rightarrow> (bmem \<Rightarrow> 's \<Rightarrow> 's) \<Rightarrow> (u32 \<Rightarrow> u32 \<Rightarrow> u32 \<Rightarrow> bmem \<Rightarrow> bmem) \<Rightarrow>
    nat \<Rightarrow> u32 \<Rightarrow> u32 \<Rightarrow> u32 \<Rightarrow> (nat \<Rightarrow> u32) \<Rightarrow> nat \<Rightarrow> 's \<Rightarrow> 's kres" where
  "printf_loop putc getm setm itoa 0 nullstr buf format arg k s = Inl Hang"
| "printf_loop putc getm setm itoa (Suc fuel) nullstr buf format arg k s =
     (let c = getm s format in
      if c = 0 then Inr s
      else if c \<noteq> 0x25 then printf_loop putc getm setm itoa fuel nullstr buf (format + 1) arg k (putc (scast c) s)
      else rbind (convert_arg putc getm setm itoa fuel nullstr buf (scast (getm s (format + 1))) (arg k) s) (\<lambda>s.
        printf_loop putc getm setm itoa fuel nullstr buf (format + 2) arg (Suc k) s))"

text \<open>
  The address of the buffer on the stack and the address of the literal \<^verbatim>\<open>"(null)"\<close> are decided by the compiler: they
  are the arguments \<open>buf\<close> and \<open>nullstr\<close>.
\<close>

definition tk_printf :: "nat \<Rightarrow> u32 \<Rightarrow> u32 \<Rightarrow> u32 \<Rightarrow> (nat \<Rightarrow> u32) \<Rightarrow> tk_screen \<Rightarrow> tk_screen kres" where
  "tk_printf fuel nullstr buf format arg s =
     printf_loop tk_putchar tk_mem (\<lambda>m s. s\<lparr>tk_mem := m\<rparr>) tk_itoa fuel nullstr buf format arg 0 s"

end
