(* ===== verification/Printf_Correct.thy ===== *)
theory Printf_Correct
  imports Console KString_Correct
begin

text \<open>
  Correctness of the formatting routine that both consoles contain.

  \<^item> Number conversion: the digits that are written from the lowest and reversed in place are the text of
    the number, for every 32-bit word and both bases, and the text never exceeds eleven characters.
  \<^item> Formatting: the locale \<open>console\<close> states what the routine needs of a character routine, and shows that
    it then has the effect of putting the characters of the formatted text one by one.
\<close>

section \<open>Bytes laid out in memory\<close>

fun bytes_at :: "bmem \<Rightarrow> u32 \<Rightarrow> u8 list \<Rightarrow> bool" where
  "bytes_at m p [] \<longleftrightarrow> True"
| "bytes_at m p (b # bs) \<longleftrightarrow> m p = b \<and> bytes_at m (p + 1) bs"

lemma put_bytes_append: "put_bytes p (xs @ ys) m = put_bytes (p + of_nat (length xs)) ys (put_bytes p xs m)"
  by (induction xs arbitrary: p m) (simp_all add: add.assoc)

lemma unat_below [simp]: "unat (- 1 :: u32) = 2 ^ 32 - 1"
  by (simp add: unsigned_minus_1_eq_mask mask_eq_exp_minus_1)

lemma put_bytes_frame: "unat (q - p) \<ge> length xs \<Longrightarrow> put_bytes p xs m q = m q"
proof (induction xs arbitrary: p m)
  case (Cons x xs)
  then have ne: "q - p \<noteq> 0" by auto
  have "unat (q - (p + 1)) = unat (q - p) - 1"
    using unat_minus_one [OF ne] by (simp add: algebra_simps)
  then show ?case using Cons ne by auto
qed simp

lemma put_bytes_upd: "unat (q - p) \<ge> length xs \<Longrightarrow> put_bytes p xs (m(q := v)) = (put_bytes p xs m)(q := v)"
proof (induction xs arbitrary: p m)
  case (Cons x xs)
  then have ne: "q - p \<noteq> 0" by auto
  have "unat (q - (p + 1)) = unat (q - p) - 1"
    using unat_minus_one [OF ne] by (simp add: algebra_simps)
  then have "length xs \<le> unat (q - (p + 1))" and "p \<noteq> q" using Cons.prems ne by auto
  note ih = Cons.IH [OF this(1), of "m(p := x)"] and tw = fun_upd_twist [OF this(2), of m x v]
  show ?case unfolding put_bytes.simps tw [symmetric] by (rule ih)
qed simp

lemma bytes_at_put: "length xs \<le> 2 ^ 32 \<Longrightarrow> bytes_at (put_bytes p xs m) p xs"
proof (induction xs arbitrary: p m)
  case (Cons x xs)
  have "put_bytes (p + 1) xs (m(p := x)) p = x" using Cons.prems by (subst put_bytes_frame) simp_all
  then show ?case using Cons by simp
qed simp

lemma bytes_at_cong: "(\<And>i. i < length bs \<Longrightarrow> m (p + of_nat i) = m' (p + of_nat i)) \<Longrightarrow> bytes_at m p bs = bytes_at m' p bs"
proof (induction bs arbitrary: p)
  case (Cons b bs)
  have "bytes_at m (p + 1) bs = bytes_at m' (p + 1) bs"
  proof (rule Cons.IH)
    fix i assume "i < length bs"
    then show "m (p + 1 + of_nat i) = m' (p + 1 + of_nat i)"
      using Cons.prems [of "Suc i"] by (simp add: algebra_simps)
  qed
  then show ?case using Cons.prems [of 0] by simp
qed simp

text \<open>Two regions that do not meet: \<open>n\<close> bytes from \<open>a\<close> and \<open>k\<close> bytes from \<open>b\<close>.\<close>

lemma regions_apart:
  assumes "unat (q - a) < n" and "n \<le> unat (b - a)" and "unat (b - a) + k \<le> 2 ^ 32"
  shows "\<not> unat (q - b :: u32) < k"
proof
  assume "unat (q - b) < k"
  then have "unat (q - b) + unat (b - a) < 2 ^ 32" using assms(3) by linarith
  then have "unat ((q - b) + (b - a)) = unat (q - b) + unat (b - a)" using unat_add_lem [of "q - b" "b - a"] by simp
  moreover have "(q - b) + (b - a) = q - a" by simp
  ultimately have "unat (q - a) = unat (q - b) + unat (b - a)" by (simp only:)
  then show False using assms(1,2) by linarith
qed

section \<open>Numbers\<close>

fun low_digits :: "nat \<Rightarrow> nat \<Rightarrow> nat list" where
  "low_digits b n = (if b < 2 \<or> n < b then [n] else n mod b # low_digits b (n div b))"

declare low_digits.simps [simp del]

definition number_text :: "nat \<Rightarrow> nat \<Rightarrow> u8 list" where
  "number_text b n = map (\<lambda>d. itoa_char (of_nat d)) (rev (low_digits b n))"

definition itoa_text :: "u32 \<Rightarrow> u32 \<Rightarrow> u8 list" where
  "itoa_text base d =
     (if base = 0x64 \<and> sint d < 0 then 0x2d # number_text 10 (nat (- sint d))
      else number_text (if base = 0x78 then 16 else 10) (unat d))"

lemma low_digits_length: "n < b ^ k \<Longrightarrow> 2 \<le> b \<Longrightarrow> 0 < k \<Longrightarrow> length (low_digits b n) \<le> k"
proof (induction b n arbitrary: k rule: low_digits.induct)
  case (1 b n)
  show ?case
  proof (cases "n < b")
    case False
    then have "k \<noteq> 1" using 1(2) by auto
    then obtain j where j: "k = Suc j" "0 < j" using 1(4) by (cases k) auto
    have "n div b < b ^ j" using 1(2) j by (simp add: less_mult_imp_div_less mult.commute)
    then have "length (low_digits b (n div b)) \<le> j" using 1(1) False 1(3) j by auto
    then show ?thesis using False 1(3) j by (simp add: low_digits.simps [of b n])
  qed (use 1(4) in \<open>simp add: low_digits.simps [of b n]\<close>)
qed

lemma low_digits_less: "2 \<le> b \<Longrightarrow> d \<in> set (low_digits b n) \<Longrightarrow> d < b"
proof (induction b n rule: low_digits.induct)
  case (1 b n)
  then show ?case by (cases "n < b") (auto simp: low_digits.simps [of b n])
qed

lemma horner_append: "horner b (xs @ [d]) = b * horner b xs + d"
  by (simp add: horner_def)

lemma horner_low_digits: "2 \<le> b \<Longrightarrow> horner b (rev (low_digits b n)) = n"
proof (induction b n rule: low_digits.induct)
  case (1 b n)
  then show ?case by (cases "n < b") (simp_all add: low_digits.simps [of b n] horner_append, simp add: horner_def)
qed

lemma low_digits_nonempty [simp]: "low_digits b n \<noteq> []"
  by (simp add: low_digits.simps [of b n])

lemma itoa_digits_text:
  assumes "unat divisor = b" and "2 \<le> b"
  shows "itoa_digits divisor ud p m =
    (p + of_nat (length (low_digits b (unat ud))), put_bytes p (map (\<lambda>d. itoa_char (of_nat d)) (low_digits b (unat ud))) m)"
  using assms
proof (induction divisor ud p m rule: itoa_digits.induct)
  case (1 divisor ud p m)
  have b: "2 \<le> divisor" using 1 by (simp add: word_le_nat_alt)
  have dv: "unat (ud div divisor) = unat ud div b" "ud mod divisor = of_nat (unat ud mod b)"
    using 1(2) unat_mod [of ud divisor] by (simp_all add: unat_div flip: unat_mod) (metis of_nat_unat ucast_id)
  have z: "ud div divisor = 0 \<longleftrightarrow> unat ud < b"
    using dv(1) 1(3) by (simp add: word_unat_eq_iff div_eq_0_iff)
  show ?case
  proof (cases "unat ud < b")
    case True
    then show ?thesis using z dv by (simp add: itoa_digits.simps [of divisor ud] low_digits.simps [of b "unat ud"] fun_upd_def)
  next
    case False
    then have "itoa_digits divisor ud p m = itoa_digits divisor (ud div divisor) (p + 1) (m(p := itoa_char (ud mod divisor)))"
      using z b by (simp add: itoa_digits.simps [of divisor ud])
    also have "\<dots> = (p + 1 + of_nat (length (low_digits b (unat ud div b))),
        put_bytes (p + 1) (map (\<lambda>d. itoa_char (of_nat d)) (low_digits b (unat ud div b))) (m(p := itoa_char (ud mod divisor))))"
      using 1(1) [OF refl refl refl _ 1(2,3)] False z b dv by (simp add: fun_upd_def)
    finally show ?thesis using False 1(3) dv by (simp add: low_digits.simps [of b "unat ud"] algebra_simps)
  qed
qed

text \<open>Swapping from both ends reverses what lies between.\<close>

lemma itoa_reverse_rev:
  assumes "unat p + length xs < 2 ^ 32" and "xs \<noteq> [] \<or> p \<noteq> 0"
  shows "itoa_reverse p (p + of_nat (length xs) - 1) (put_bytes p xs m) = put_bytes p (rev xs) m"
  using assms
proof (induction xs arbitrary: p m rule: length_induct)
  case (1 xs)
  let ?q = "p + of_nat (length xs) - 1"
  show ?case
  proof (cases "length xs \<le> 1")
    case True
    then have "\<not> p < ?q"
    proof (cases xs)
      case Nil
      then show ?thesis using 1(3) by (simp add: word_less_nat_alt unat_minus_one)
    qed auto
    then show ?thesis using True by (cases xs) (simp_all add: itoa_reverse.simps [of p])
  next
    case False
    then obtain a zs where "xs = a # zs" "zs \<noteq> []" by (cases xs) (auto simp: Suc_le_eq)
    then obtain ys b where xs: "xs = a # ys @ [b]" by (metis rev_exhaust)
    have q: "?q = p + 1 + of_nat (length ys)" using xs by simp
    have un: "unat (p + 1 + of_nat (length ys)) = unat p + length ys + 1" "unat (p + 1) = unat p + 1"
      using offset_unat [of p "length ys + 1"] offset_unat [of p 1] 1(2) xs by (simp_all add: algebra_simps)
    have nz: "p + 1 \<noteq> 0" using un(2) unat_eq_0 [of "p + 1"] by simp
    have lt: "p < ?q" unfolding q word_less_nat_alt un by simp
    have d1: "unat (p - (p + 1)) \<ge> length ys" using 1(2) xs by simp
    have d2: "unat (p + 1 + of_nat (length ys) - (p + 1)) \<ge> length ys" using 1(2) xs by (simp add: unsigned_of_nat take_bit_nat_eq_self)
    let ?m = "put_bytes p xs m"
    have m: "?m = (put_bytes (p + 1) ys m)(p := a, ?q := b)"
      using d1 by (simp add: xs put_bytes_append put_bytes_upd algebra_simps)
    have ne: "p \<noteq> ?q" using lt by auto
    have sw: "?m(p := ?m ?q, ?q := ?m p) = put_bytes (p + 1) ys (m(p := b, ?q := a))"
    proof -
      have "put_bytes (p + 1) ys (m(p := b, ?q := a)) = (put_bytes (p + 1) ys m)(p := b, ?q := a)"
        using d1 d2 unfolding q by (simp add: put_bytes_upd)
      then show ?thesis using ne unfolding m by (simp add: fun_upd_twist)
    qed
    have "itoa_reverse p ?q ?m = itoa_reverse (p + 1) (?q - 1) (put_bytes (p + 1) ys (m(p := b, ?q := a)))"
      using lt sw by (simp add: itoa_reverse.simps [of p] Let_def)
    also have "?q - 1 = p + 1 + of_nat (length ys) - 1" using q by simp
    also have "itoa_reverse (p + 1) (p + 1 + of_nat (length ys) - 1) (put_bytes (p + 1) ys (m(p := b, ?q := a))) =
        put_bytes (p + 1) (rev ys) (m(p := b, ?q := a))"
      using 1(1) [rule_format, of ys "p + 1", OF _ _ disjI2 [OF nz]] 1(2) xs un(2) by simp
    also have "\<dots> = put_bytes p (rev xs) m"
      using d2 by (simp add: xs put_bytes_append put_bytes_upd [of "rev ys"] q algebra_simps)
    finally show ?thesis .
  qed
qed

text \<open>The conversion as a whole: a text and a terminating zero, for any word and either base.\<close>

lemma number_text_length: "n < 2 ^ 32 \<Longrightarrow> b = 10 \<or> b = 16 \<Longrightarrow> 1 \<le> length (number_text b n) \<and> length (number_text b n) \<le> 10"
proof -
  assume n: "n < 2 ^ 32" and b: "b = 10 \<or> b = 16"
  then have "n < b ^ 10" by auto
  then have "length (low_digits b n) \<le> 10" using b by (intro low_digits_length) auto
  moreover have "1 \<le> length (low_digits b n)" by (simp add: Suc_le_eq)
  ultimately show ?thesis by (simp add: number_text_def)
qed

lemma neg_unat: "sint (d :: u32) < 0 \<Longrightarrow> unat (- d) = nat (- sint d)"
proof -
  assume neg: "sint d < 0"
  have lo: "- (2 ^ 31) \<le> sint d" using sint_ge [of d] by simp
  have "- d = word_of_int (- sint d)" by simp
  then have "uint (- d) = take_bit 32 (- sint d)" by (simp only: uint_word_of_int_eq) simp
  also have "\<dots> = - sint d" using neg lo by (intro take_bit_int_eq_self) auto
  finally show ?thesis by (simp add: unat_eq_nat_uint)
qed

lemma itoa_digits_reverse:
  assumes "unat divisor = b" and "b = 10 \<or> b = 16" and "unat p + 11 < 2 ^ 32"
  shows "(let (q, m) = itoa_digits divisor ud p m; m = m(q := 0) in itoa_reverse p (q - 1) m) = put_bytes p (number_text b (unat ud) @ [0]) m"
proof -
  let ?xs = "map (\<lambda>d. itoa_char (of_nat d)) (low_digits b (unat ud))"
  have b: "2 \<le> b" using assms(2) by auto
  have len: "1 \<le> length ?xs" "length ?xs \<le> 10"
    using number_text_length [of "unat ud" b] assms(2) unat_u32_less [of ud] by (simp_all add: number_text_def)
  have far: "length xs \<le> unat (p + of_nat (length xs) - p)" if "length xs \<le> 10" for xs :: "u8 list"
    using that by (simp add: unsigned_of_nat take_bit_nat_eq_self)
  have "(let (q, m) = itoa_digits divisor ud p m; m = m(q := 0) in itoa_reverse p (q - 1) m) =
      itoa_reverse p (p + of_nat (length ?xs) - 1) (put_bytes p ?xs (m(p + of_nat (length ?xs) := 0)))"
    using itoa_digits_text [OF assms(1) b, of ud p m] put_bytes_upd [OF far, of ?xs m 0] len by (simp add: Let_def)
  also have "\<dots> = put_bytes p (rev ?xs) (m(p + of_nat (length ?xs) := 0))"
    by (rule itoa_reverse_rev) (use len assms(3) in auto)
  also have "\<dots> = put_bytes p (rev ?xs @ [0]) m"
    using put_bytes_upd [OF far, of "rev ?xs" m 0] len by (simp add: put_bytes_append)
  finally show ?thesis by (simp add: number_text_def rev_map)
qed

lemma tk_itoa_text:
  assumes "unat buf + 12 < 2 ^ 32"
  shows "tk_itoa buf base d m = put_bytes buf (itoa_text base d @ [0]) m"
proof (cases "base = 0x64 \<and> sint d < 0")
  case True
  have "unat (buf + 1) = unat buf + 1" using offset_unat [of buf 1] assms by simp
  then have "(let (q, m) = itoa_digits 10 (- d) (buf + 1) (m(buf := 0x2d)); m = m(q := 0) in itoa_reverse (buf + 1) (q - 1) m) =
      put_bytes (buf + 1) (number_text 10 (unat (- d)) @ [0]) (m(buf := 0x2d))"
    using assms by (intro itoa_digits_reverse) auto
  then show ?thesis using True by (simp add: tk_itoa_def itoa_text_def word_sless_alt neg_unat Let_def)
next
  case False
  let ?b = "if base = 0x78 then 16 else 10"
  have "(let (q, m) = itoa_digits (if base = 0x78 then 16 else 10) d buf m; m = m(q := 0) in itoa_reverse buf (q - 1) m) =
      put_bytes buf (number_text ?b (unat d) @ [0]) m"
    using assms by (intro itoa_digits_reverse) auto
  then show ?thesis using False by (auto simp: tk_itoa_def itoa_text_def word_sless_alt Let_def)
qed

definition digit_value :: "u8 \<Rightarrow> nat" where
  "digit_value c = (if 0x61 \<le> c then unat c - 0x57 else unat c - 0x30)"

definition text_value :: "nat \<Rightarrow> u8 list \<Rightarrow> int" where
  "text_value b cs = (case cs of c # ds \<Rightarrow>
     if c = 0x2d then - int (horner b (map digit_value ds)) else int (horner b (map digit_value cs)) | [] \<Rightarrow> 0)"

lemma digit_value_char: "d < 16 \<Longrightarrow> digit_value (itoa_char (of_nat d)) = d \<and> itoa_char (of_nat d) \<noteq> 0x2d \<and> itoa_char (of_nat d) \<noteq> 0"
proof -
  assume "d < 16"
  moreover have "\<forall>d \<in> set [0..<16]. digit_value (itoa_char (of_nat d)) = d \<and> itoa_char (of_nat d) \<noteq> 0x2d \<and> itoa_char (of_nat d) \<noteq> 0"
    by code_simp
  ultimately show ?thesis by simp
qed

lemma number_text_value:
  assumes "b = 10 \<or> b = 16"
  shows "horner b (map digit_value (number_text b n)) = n" and "0x2d \<notin> set (number_text b n)" and "0 \<notin> set (number_text b n)"
proof -
  have lt: "d < 16" if "d \<in> set (low_digits b n)" for d using low_digits_less [OF _ that] assms by auto
  have "map digit_value (number_text b n) = rev (low_digits b n)"
    using lt digit_value_char by (simp add: number_text_def rev_map [symmetric] map_idI)
  then show "horner b (map digit_value (number_text b n)) = n" using assms horner_low_digits by auto
  show "0x2d \<notin> set (number_text b n)" "0 \<notin> set (number_text b n)" using lt digit_value_char by (fastforce simp: number_text_def)+
qed

lemma text_value_number: "b = 10 \<or> b = 16 \<Longrightarrow> text_value b (number_text b n) = int n"
  using number_text_value [of b n] by (cases "number_text b n") (auto simp: text_value_def horner_def)

lemma itoa_text_ok: "length (itoa_text base d) \<le> 11" "0 \<notin> set (itoa_text base d)" "itoa_text base d \<noteq> []"
proof -
  have "nat (- sint d) < 2 ^ 32" using sint_ge [of d] by simp
  then have "1 \<le> length (number_text 10 (nat (- sint d))) \<and> length (number_text 10 (nat (- sint d))) \<le> 10"
    by (intro number_text_length) auto
  moreover have "1 \<le> length (number_text b (unat d)) \<and> length (number_text b (unat d)) \<le> 10" if "b = 10 \<or> b = 16" for b
    using that unat_u32_less [of d] by (intro number_text_length) auto
  note len = this [of 10] this [of 16] calculation
  show "length (itoa_text base d) \<le> 11" "itoa_text base d \<noteq> []" using len by (auto simp: itoa_text_def)
  show "0 \<notin> set (itoa_text base d)" using number_text_value(3) [of 10] number_text_value(3) [of 16] by (simp add: itoa_text_def)
qed

section \<open>Formatted text\<close>

definition put_all :: "(u32 \<Rightarrow> 's \<Rightarrow> 's) \<Rightarrow> u32 list \<Rightarrow> 's \<Rightarrow> 's" where
  "put_all putc cs s = fold putc cs s"

lemma put_all_simps [simp]:
  "put_all putc [] s = s" "put_all putc (c # cs) s = put_all putc cs (putc c s)"
  "put_all putc (xs @ ys) s = put_all putc ys (put_all putc xs s)"
  by (simp_all add: put_all_def)

text \<open>Two console states that agree except in the bytes \<open>B\<close> of memory.\<close>

definition same_but :: "('s \<Rightarrow> bmem) \<Rightarrow> (bmem \<Rightarrow> 's \<Rightarrow> 's) \<Rightarrow> (u32 \<Rightarrow> bool) \<Rightarrow> 's \<Rightarrow> 's \<Rightarrow> bool" where
  "same_but getm setm B s t \<longleftrightarrow> (\<forall>m. setm m s = setm m t) \<and> (\<forall>q. \<not> B q \<longrightarrow> getm s q = getm t q)"

lemma same_but_refl [simp]: "same_but getm setm B s s"
  by (simp add: same_but_def)

lemma same_but_trans: "same_but getm setm B s t \<Longrightarrow> same_but getm setm B t u \<Longrightarrow> same_but getm setm B s u"
  by (simp add: same_but_def)

lemma scast_inject8: "(scast (g :: u8) :: u32) = 0x73 \<longleftrightarrow> g = 0x73"
proof
  assume "(scast g :: u32) = 0x73"
  moreover have "(ucast (scast g :: u32) :: u8) = g" by (rule bit_word_eqI) (auto simp: bit_simps)
  ultimately show "g = 0x73" by auto
qed simp

text \<open>
  The formatted text: \<open>str\<close> gives the text at an address. A format is well formed when no percent sign is its
  last character.
\<close>

fun conv_text :: "(u32 \<Rightarrow> u8 list) \<Rightarrow> u32 \<Rightarrow> u32 \<Rightarrow> u32 \<Rightarrow> u32 list" where
  "conv_text str nullstr c a =
     (if c = 0x64 \<or> c = 0x75 \<or> c = 0x78 then map scast (itoa_text c a)
      else if c = 0x73 then map scast (str (if a = 0 then nullstr else a)) else [a])"

fun render :: "(u32 \<Rightarrow> u8 list) \<Rightarrow> u32 \<Rightarrow> (nat \<Rightarrow> u32) \<Rightarrow> nat \<Rightarrow> u8 list \<Rightarrow> u32 list" where
  "render str nullstr arg k [] = []"
| "render str nullstr arg k [c] = [scast c]"
| "render str nullstr arg k (c # f # cs) =
     (if c = 0x25 then conv_text str nullstr (scast f) (arg k) @ render str nullstr arg (Suc k) cs
      else scast c # render str nullstr arg k (f # cs))"

text \<open>
  What a call needs: the bytes it reads, of the format and of every string argument, are neither touched by the character routine nor
  in the buffer, and no string is longer than \<open>L\<close>.
\<close>

definition in_buf :: "u32 \<Rightarrow> u32 \<Rightarrow> bool" where
  "in_buf buf q \<longleftrightarrow> unat (q - buf) < 20"

lemma in_buf_word [code]: "in_buf buf q \<longleftrightarrow> q - buf < 20"
  by (simp add: in_buf_def word_less_nat_alt)

definition buffer_ok :: "(u32 \<Rightarrow> bool) \<Rightarrow> (u32 \<Rightarrow> bool) \<Rightarrow> u32 \<Rightarrow> bool" where
  "buffer_ok touched reads buf \<longleftrightarrow> unat buf + 20 \<le> 2 ^ 32 \<and> (\<forall>q. in_buf buf q \<longrightarrow> \<not> touched q \<and> \<not> reads q)"

lemma buffer_okD: "buffer_ok touched reads buf \<Longrightarrow> i < 20 \<Longrightarrow> \<not> touched (buf + of_nat i)"
  by (simp add: buffer_ok_def in_buf_def unsigned_of_nat take_bit_nat_eq_self)

definition quiet :: "(u32 \<Rightarrow> bool) \<Rightarrow> u32 \<Rightarrow> u32 \<Rightarrow> bool" where
  "quiet touched buf q \<longleftrightarrow> \<not> touched q \<and> \<not> in_buf buf q"

definition text_at :: "(u32 \<Rightarrow> bool) \<Rightarrow> u32 \<Rightarrow> bmem \<Rightarrow> u32 \<Rightarrow> u8 list \<Rightarrow> bool" where
  "text_at touched buf m p cs \<longleftrightarrow> bytes_at m p (cs @ [0]) \<and> 0 \<notin> set cs \<and> (\<forall>i \<le> length cs. quiet touched buf (p + of_nat i))"

fun args_ok :: "(u32 \<Rightarrow> bool) \<Rightarrow> (u32 \<Rightarrow> u8 list) \<Rightarrow> u32 \<Rightarrow> u32 \<Rightarrow> nat \<Rightarrow> bmem \<Rightarrow> (nat \<Rightarrow> u32) \<Rightarrow> nat \<Rightarrow> u8 list \<Rightarrow> bool" where
  "args_ok touched str nullstr buf L m arg k [] \<longleftrightarrow> True"
| "args_ok touched str nullstr buf L m arg k [c] \<longleftrightarrow> c \<noteq> 0x25"
| "args_ok touched str nullstr buf L m arg k (c # f # cs) \<longleftrightarrow>
     (if c = 0x25 then
        (f = 0x73 \<longrightarrow> (let p = (if arg k = 0 then nullstr else arg k) in text_at touched buf m p (str p) \<and> length (str p) \<le> L)) \<and>
        args_ok touched str nullstr buf L m arg (Suc k) cs
      else args_ok touched str nullstr buf L m arg k (f # cs))"

lemma text_at_same: "(\<And>q. quiet touched buf q \<Longrightarrow> m q = m' q) \<Longrightarrow> text_at touched buf m p cs \<Longrightarrow> text_at touched buf m' p cs"
  unfolding text_at_def using bytes_at_cong [of "cs @ [0]" m p m'] by (simp add: less_Suc_eq_le)

lemma args_ok_same:
  "(\<And>q. quiet touched buf q \<Longrightarrow> m q = m' q) \<Longrightarrow> args_ok touched str nullstr buf L m arg k fmt \<Longrightarrow> args_ok touched str nullstr buf L m' arg k fmt"
  by (induction touched str nullstr buf L m arg k fmt rule: args_ok.induct)
    (auto simp: Let_def split: if_splits intro: text_at_same)

section \<open>The interface of a console\<close>

text \<open>
  What the formatting routine relies on: a character leaves the state in order, writes only to the bytes \<open>touched\<close>
  and depends on no byte of memory outside \<open>reads\<close>; the conversion writes the text of the number.
\<close>

locale console =
  fixes putc :: "u32 \<Rightarrow> 's \<Rightarrow> 's" and getm :: "'s \<Rightarrow> bmem" and setm :: "bmem \<Rightarrow> 's \<Rightarrow> 's"
    and itoa :: "u32 \<Rightarrow> u32 \<Rightarrow> u32 \<Rightarrow> bmem \<Rightarrow> bmem" and ok :: "'s \<Rightarrow> bool" and touched :: "u32 \<Rightarrow> bool" and reads :: "u32 \<Rightarrow> bool"
  assumes putc_ok: "ok s \<Longrightarrow> ok (putc c s)"
    and putc_frame: "ok s \<Longrightarrow> \<not> touched q \<Longrightarrow> getm (putc c s) q = getm s q"
    and putc_same: "ok s \<Longrightarrow> ok t \<Longrightarrow> same_but getm setm B s t \<Longrightarrow> \<forall>q. B q \<longrightarrow> \<not> reads q \<Longrightarrow>
      same_but getm setm B (putc c s) (putc c t)"
    and get_set: "getm (setm m s) = m"
    and set_set: "setm m (setm m' s) = setm m s"
    and set_ok: "ok s \<Longrightarrow> ok (setm m s)"
    and itoa_text: "unat buf + 12 < 2 ^ 32 \<Longrightarrow> itoa buf base d m = put_bytes buf (itoa_text base d @ [0]) m"
begin

lemma put_all_ok: "ok s \<Longrightarrow> ok (put_all putc cs s)"
  by (induction cs arbitrary: s) (simp_all add: putc_ok)

lemma put_all_frame: "ok s \<Longrightarrow> \<not> touched q \<Longrightarrow> getm (put_all putc cs s) q = getm s q"
  by (induction cs arbitrary: s) (simp_all add: putc_ok putc_frame)

lemma put_all_same: "ok s \<Longrightarrow> ok t \<Longrightarrow> same_but getm setm B s t \<Longrightarrow> \<forall>q. B q \<longrightarrow> \<not> reads q \<Longrightarrow>
    same_but getm setm B (put_all putc cs s) (put_all putc cs t)"
  by (induction cs arbitrary: s t) (simp_all add: putc_same putc_ok)

lemma puts_text:
  "bytes_at (getm s) p (cs @ [0]) \<Longrightarrow> 0 \<notin> set cs \<Longrightarrow> length cs < fuel \<Longrightarrow> ok s \<Longrightarrow>
    \<forall>i \<le> length cs. \<not> touched (p + of_nat i) \<Longrightarrow> puts_loop putc getm fuel p s = Inr (put_all putc (map scast cs) s)"
proof (induction cs arbitrary: p s fuel)
  case Nil
  then show ?case by (cases fuel) auto
next
  case (Cons c cs)
  obtain f where f: "fuel = Suc f" "length cs < f" using Cons.prems(3) by (cases fuel) auto
  have off: "\<not> touched (p + 1 + of_nat i)" if "i \<le> length cs" for i
    using Cons.prems(5) that by (auto dest!: spec [of _ "Suc i"] simp: algebra_simps)
  have "bytes_at (getm (putc (scast c) s)) (p + 1) (cs @ [0]) = bytes_at (getm s) (p + 1) (cs @ [0])"
    by (rule bytes_at_cong) (use off putc_frame [OF Cons.prems(4)] in simp)
  then have "puts_loop putc getm f (p + 1) (putc (scast c) s) = Inr (put_all putc (map scast cs) (putc (scast c) s))"
    using Cons.prems off f(2) putc_ok by (intro Cons.IH) auto
  then show ?case using Cons.prems f by simp
qed

lemma itoa_buffer:
  assumes "buffer_ok touched reads buf" and "ok s" and "11 < fuel"
  shows "\<exists>s'. puts_loop putc getm fuel buf (setm (itoa buf c a (getm s)) s) = Inr s' \<and>
    same_but getm setm (in_buf buf) s' (put_all putc (map scast (itoa_text c a)) s) \<and> ok s'"
proof -
  let ?cs = "itoa_text c a"
  let ?s = "setm (itoa buf c a (getm s)) s"
  have it: "itoa buf c a (getm s) = put_bytes buf (?cs @ [0]) (getm s)" using assms(1) by (intro itoa_text) (simp add: buffer_ok_def)
  have len: "length ?cs \<le> 11" by (rule itoa_text_ok)
  have on: "ok ?s" using assms(2) by (rule set_ok)
  have run: "puts_loop putc getm fuel buf ?s = Inr (put_all putc (map scast ?cs) ?s)"
    by (rule puts_text) (use on len assms(3) buffer_okD [OF assms(1)] itoa_text_ok(2) [of c a] bytes_at_put [of "?cs @ [0]" buf "getm s"]
      in \<open>simp_all add: it get_set\<close>)
  have "same_but getm setm (in_buf buf) ?s s"
    using len by (auto simp: same_but_def it in_buf_def put_bytes_frame get_set set_set)
  then have "same_but getm setm (in_buf buf) (put_all putc (map scast ?cs) ?s) (put_all putc (map scast ?cs) s)"
    using put_all_same [OF on assms(2)] assms(1) by (simp add: buffer_ok_def)
  then show ?thesis using run put_all_ok [OF on] by blast
qed

lemma convert_text:
  assumes "buffer_ok touched reads buf" and "ok s" and "11 < fuel" and "L < fuel"
    and "c = 0x73 \<longrightarrow> (let p = (if a = 0 then nullstr else a) in text_at touched buf (getm s) p (str p) \<and> length (str p) \<le> L)"
  shows "\<exists>s'. convert_arg putc getm setm itoa fuel nullstr buf c a s = Inr s' \<and>
    same_but getm setm (in_buf buf) s' (put_all putc (conv_text str nullstr c a) s) \<and> ok s'"
proof -
  consider "c = 0x64 \<or> c = 0x75 \<or> c = 0x78" | "c = 0x73" | "\<not> (c = 0x64 \<or> c = 0x75 \<or> c = 0x78)" "c \<noteq> 0x73" by blast
  then show ?thesis
  proof cases
    case 1
    then show ?thesis using itoa_buffer [OF assms(1-3), of c a] by (simp add: convert_arg_def)
  next
    case 2
    let ?p = "if a = 0 then nullstr else a"
    have "text_at touched buf (getm s) ?p (str ?p)" "length (str ?p) \<le> L" using assms(5) 2 by (simp_all add: Let_def)
    then have "puts_loop putc getm fuel ?p s = Inr (put_all putc (map scast (str ?p)) s)"
      using assms(2,4) by (intro puts_text) (auto simp: text_at_def quiet_def)
    then show ?thesis using 2 put_all_ok [OF assms(2)] by (simp add: convert_arg_def same_but_def)
  next
    case 3
    then show ?thesis using putc_ok [OF assms(2)] by (simp add: convert_arg_def same_but_def)
  qed
qed

lemma text_at_tail: "text_at touched buf m p (c # cs) \<Longrightarrow> m p = c \<and> c \<noteq> 0 \<and> text_at touched buf m (p + 1) cs"
proof -
  assume t: "text_at touched buf m p (c # cs)"
  have "quiet touched buf (p + 1 + of_nat i)" if "i \<le> length cs" for i
    using t that by (auto simp: text_at_def dest!: spec [of _ "Suc i"] simp: algebra_simps)
  then show ?thesis using t by (auto simp: text_at_def)
qed

lemma quiet_kept: "same_but getm setm (in_buf buf) s' (put_all putc cs s) \<Longrightarrow> ok s \<Longrightarrow> quiet touched buf q \<Longrightarrow> getm s q = getm s' q"
  using put_all_frame [of s q cs] by (simp add: same_but_def quiet_def)

lemma printf_loop_text:
  assumes "buffer_ok touched reads buf"
    and "text_at touched buf (getm s) format fmt" and "args_ok touched str nullstr buf L (getm s) arg k fmt"
    and "ok s" and "length fmt + max L 11 < fuel"
  shows "\<exists>s'. printf_loop putc getm setm itoa fuel nullstr buf format arg k s = Inr s' \<and>
    same_but getm setm (in_buf buf) s' (put_all putc (render str nullstr arg k fmt) s) \<and> ok s'"
  using assms(2-)
proof (induction str nullstr arg k fmt arbitrary: format s fuel rule: render.induct)
  case (1 str nullstr arg k)
  then obtain f where "fuel = Suc f" by (cases fuel) auto
  with 1 show ?case by (auto simp: text_at_def same_but_def)
next
  case (2 str nullstr arg k c)
  then obtain f g where f: "fuel = Suc f" "f = Suc g" by (cases fuel; cases "fuel - 1") auto
  note t = text_at_tail [OF 2(1)]
  have "text_at touched buf (getm (putc (scast c) s)) (format + 1) []"
    by (rule text_at_same [OF _ t [THEN conjunct2, THEN conjunct2]])
      (use putc_frame [OF 2(3)] in \<open>simp add: quiet_def\<close>)
  then show ?case using t 2 f putc_ok [OF 2(3)] by (simp add: text_at_def same_but_def)
next
  case (3 str nullstr arg k c g cs)
  then obtain f where f: "fuel = Suc f" by (cases fuel) auto
  note t = text_at_tail [OF 3(3)] and t2 = text_at_tail [of buf "getm s" "format + 1" g cs]
  show ?case
  proof (cases "c = 0x25")
    case True
    have a: "scast g = (0x73 :: u32) \<longrightarrow> (let p = (if arg k = 0 then nullstr else arg k) in text_at touched buf (getm s) p (str p) \<and> length (str p) \<le> L)"
    proof -
      have "(scast g = (0x73 :: u32)) = (g = 0x73)" using scast_inject8 by blast
      then show ?thesis using 3(4) True by simp
    qed
    have lt: "11 < f" "L < f" using 3(6) f by simp_all
    obtain s1 where s1: "convert_arg putc getm setm itoa f nullstr buf (scast g) (arg k) s = Inr s1"
        "same_but getm setm (in_buf buf) s1 (put_all putc (conv_text str nullstr (scast g) (arg k)) s)" "ok s1"
      using convert_text [OF assms(1) 3(5) lt a] by blast
    have keep: "getm s q = getm s1 q" if "quiet touched buf q" for q by (rule quiet_kept [OF s1(2) 3(5) that])
    have "text_at touched buf (getm s1) (format + 2) cs"
      by (rule text_at_same [OF keep]) (use t t2 in \<open>auto simp: add.commute\<close>)
    moreover have "args_ok touched str nullstr buf L (getm s1) arg (Suc k) cs"
      by (rule args_ok_same [OF keep]) (use 3(4) True in simp_all)
    moreover have "length cs + max L 11 < f" using 3(6) f by simp
    ultimately obtain s2 where s2: "printf_loop putc getm setm itoa f nullstr buf (format + 2) arg (Suc k) s1 = Inr s2"
        "same_but getm setm (in_buf buf) s2 (put_all putc (render str nullstr arg (Suc k) cs) s1)" "ok s2"
      using 3(1) [OF True _ _ s1(3)] by blast
    have run: "printf_loop putc getm setm itoa fuel nullstr buf format arg k s = Inr s2"
      using t t2 True f s1(1) s2(1) by (simp add: Let_def)
    have "same_but getm setm (in_buf buf) s2 (put_all putc (render str nullstr arg k (c # g # cs)) s)"
      using same_but_trans [OF s2(2) put_all_same [OF s1(3) put_all_ok [OF 3(5)] s1(2)]] True assms(1)
      by (simp add: buffer_ok_def)
    with run s2(3) show ?thesis by blast
  next
    case False
    let ?s = "putc (scast c) s"
    have keep: "getm s q = getm ?s q" if "quiet touched buf q" for q
      using putc_frame [OF 3(5)] that by (simp add: quiet_def)
    have "text_at touched buf (getm ?s) (format + 1) (g # cs)" by (rule text_at_same [OF keep]) (use t in auto)
    moreover have "args_ok touched str nullstr buf L (getm ?s) arg k (g # cs)"
      by (rule args_ok_same [OF keep]) (use 3(4) False in simp_all)
    moreover have "length (g # cs) + max L 11 < f" using 3(6) f by simp
    ultimately obtain s2 where "printf_loop putc getm setm itoa f nullstr buf (format + 1) arg k ?s = Inr s2"
        "same_but getm setm (in_buf buf) s2 (put_all putc (render str nullstr arg k (g # cs)) ?s)" "ok s2"
      using 3(2) [OF False _ _ putc_ok [OF 3(5)]] by blast
    then show ?thesis using t False f by (simp add: Let_def)
  qed
qed

end

end
