(* ===== verification/Console_Correct.thy ===== *)
theory Console_Correct
  imports Printf_Correct
begin

text \<open>
  Correctness of the text console: every character keeps the cursor on the screen and writes to the text memory
  only, the line that is cleared at the wrap is the one below the last, and the formatting routine puts the characters of
  its formatted text, by the interpretation of the locale \<open>console\<close>.
\<close>

section \<open>Cursor\<close>

definition on_screen :: "tk_screen \<Rightarrow> bool" where
  "on_screen s \<longleftrightarrow> tk_xpos s < COLUMNS \<and> tk_ypos s < LINES \<and> tk_video s = VIDEO"

text \<open>The text memory of the adapter: 25 lines of 80 cells, one line more than the console counts.\<close>

definition text_memory :: "u32 \<Rightarrow> bool" where
  "text_memory q \<longleftrightarrow> unat (q - VIDEO) < 4000"

lemma text_memory_word [code]: "text_memory q \<longleftrightarrow> q - VIDEO < 4000"
  by (simp add: text_memory_def word_less_nat_alt)

lemma cell_in_text_memory: "tk_video s = VIDEO \<Longrightarrow> x < COLUMNS \<Longrightarrow> y \<le> LINES \<Longrightarrow>
    text_memory (tk_cell s x y) \<and> text_memory (tk_cell s x y + 1)"
proof -
  assume v: "tk_video s = VIDEO" and "x < COLUMNS" "y \<le> LINES"
  then have k: "(x + y * 80) * 2 + 1 < 4000" by (simp add: COLUMNS_def LINES_def)
  then have "unat (of_nat ((x + y * 80) * 2) :: u32) < 4000" "unat (of_nat ((x + y * 80) * 2 + 1) :: u32) < 4000"
    by (simp_all only: unsigned_of_nat take_bit_nat_eq_self) (simp_all add: take_bit_nat_eq_self)
  then show ?thesis using v by (simp add: text_memory_def tk_cell_def COLUMNS_def algebra_simps)
qed

lemma clear_cells_fields [simp]:
  "tk_xpos (clear_cells s i n) = tk_xpos s" "tk_ypos (clear_cells s i n) = tk_ypos s" "tk_video (clear_cells s i n) = tk_video s"
  by (induction s i n rule: clear_cells.induct) (simp_all add: Let_def)

lemma clear_cells_frame:
  "(\<And>j. i \<le> j \<Longrightarrow> j < i + n \<Longrightarrow> q \<noteq> tk_cell s j (tk_ypos s)) \<Longrightarrow> tk_mem (clear_cells s i n) q = tk_mem s q"
proof (induction n arbitrary: s i)
  case (Suc n)
  have "tk_mem (clear_cells s i (Suc n)) q = tk_mem (s\<lparr>tk_mem := (tk_mem s)(tk_cell s i (tk_ypos s) := 0)\<rparr>) q"
    unfolding clear_cells.simps by (rule Suc.IH) (use Suc.prems in \<open>auto simp: tk_cell_def\<close>)
  then show ?case using Suc.prems [of i] by simp
qed simp

lemma tk_newline_fields [simp]:
  "tk_xpos (tk_newline s) = 0" "tk_ypos (tk_newline s) = (if tk_ypos s + 1 \<ge> LINES then 0 else tk_ypos s + 1)"
  "tk_video (tk_newline s) = tk_video s"
  by (simp_all add: tk_newline_def Let_def)

lemma tk_newline_mem:
  "tk_mem (tk_newline s) = tk_mem (clear_cells (s\<lparr>tk_xpos := 0, tk_ypos := tk_ypos s + 1\<rparr>) 0 COLUMNS)"
  by (simp add: tk_newline_def Let_def)

lemma tk_newline_frame:
  assumes "tk_video s = VIDEO" and "tk_ypos s < LINES" and "\<not> text_memory q"
  shows "tk_mem (tk_newline s) q = tk_mem s q"
proof -
  let ?s = "s\<lparr>tk_xpos := 0, tk_ypos := tk_ypos s + 1\<rparr>"
  have "q \<noteq> tk_cell ?s j (tk_ypos ?s)" if "j < COLUMNS" for j
    using cell_in_text_memory [of ?s j "tk_ypos ?s"] that assms by auto
  then show ?thesis unfolding tk_newline_mem by (subst clear_cells_frame) auto
qed

lemma tk_newline_on_screen: "on_screen s \<Longrightarrow> on_screen (tk_newline s)"
  by (simp add: on_screen_def COLUMNS_def LINES_def)

lemma tk_putchar_on_screen: "on_screen s \<Longrightarrow> on_screen (tk_putchar c s)"
  by (auto simp: on_screen_def tk_putchar_def Let_def COLUMNS_def LINES_def)

lemma tk_putchar_frame:
  assumes "on_screen s" and "\<not> text_memory q"
  shows "tk_mem (tk_putchar c s) q = tk_mem s q"
proof -
  let ?p = "tk_cell s (tk_xpos s) (tk_ypos s)"
  have "text_memory ?p \<and> text_memory (?p + 1)" using assms(1) by (intro cell_in_text_memory) (auto simp: on_screen_def)
  then have "q \<noteq> ?p" "q \<noteq> ?p + 1" using assms(2) by auto
  then show ?thesis using assms tk_newline_frame [of _ q]
    by (auto simp: tk_putchar_def Let_def on_screen_def)
qed

section \<open>The text console as a console\<close>

abbreviation tk_same :: "(u32 \<Rightarrow> bool) \<Rightarrow> tk_screen \<Rightarrow> tk_screen \<Rightarrow> bool" where
  "tk_same \<equiv> same_but tk_mem (\<lambda>m s. s\<lparr>tk_mem := m\<rparr>)"

lemma tk_same_iff: "tk_same B s t \<longleftrightarrow> tk_xpos s = tk_xpos t \<and> tk_ypos s = tk_ypos t \<and> tk_video s = tk_video t \<and>
     (\<forall>q. \<not> B q \<longrightarrow> tk_mem s q = tk_mem t q)"
  unfolding same_but_def by (cases s; cases t) auto

lemma clear_cells_same: "tk_same B s t \<Longrightarrow> tk_same B (clear_cells s i n) (clear_cells t i n)"
  by (induction n arbitrary: s t i) (simp_all add: tk_same_iff tk_cell_def)

lemma tk_newline_same: "tk_same B s t \<Longrightarrow> tk_same B (tk_newline s) (tk_newline t)"
proof -
  assume st: "tk_same B s t"
  let ?u = "\<lambda>s. s\<lparr>tk_xpos := 0, tk_ypos := tk_ypos s + 1\<rparr>"
  have "tk_same B (clear_cells (?u s) 0 COLUMNS) (clear_cells (?u t) 0 COLUMNS)"
    by (rule clear_cells_same) (use st in \<open>simp add: tk_same_iff\<close>)
  then show ?thesis by (auto simp: tk_same_iff tk_newline_mem)
qed

lemma tk_putchar_same: "tk_same B s t \<Longrightarrow> tk_same B (tk_putchar c s) (tk_putchar c t)"
proof -
  assume st: "tk_same B s t"
  let ?p = "tk_cell s (tk_xpos s) (tk_ypos s)"
  let ?u = "\<lambda>s. s\<lparr>tk_mem := (tk_mem s)(?p := ucast (c AND 0xFF), ?p + 1 := ATTRIBUTE), tk_xpos := tk_xpos s + 1\<rparr>"
  have p: "tk_cell t (tk_xpos t) (tk_ypos t) = ?p" and x: "tk_xpos t = tk_xpos s" using st by (simp_all add: tk_same_iff tk_cell_def)
  have "tk_same B (?u s) (?u t)" using st by (simp add: tk_same_iff)
  with st show ?thesis using tk_newline_same [of B "?u s" "?u t"] tk_newline_same [of B s t] p x
    by (simp add: tk_putchar_def Let_def)
qed

interpretation tk: console tk_putchar tk_mem "\<lambda>m s. s\<lparr>tk_mem := m\<rparr>" tk_itoa on_screen text_memory "\<lambda>_. False"
  by unfold_locales
    (simp_all add: tk_putchar_on_screen tk_putchar_frame tk_putchar_same tk_itoa_text, simp add: on_screen_def)

section \<open>Cells\<close>

lemma tk_cell_unat: "tk_video s = VIDEO \<Longrightarrow> x < COLUMNS \<Longrightarrow> y \<le> LINES \<Longrightarrow> unat (tk_cell s x y) = 0xB8000 + (x + y * 80) * 2"
  using offset_unat [of VIDEO "(x + y * 80) * 2"] unfolding tk_cell_def COLUMNS_def LINES_def VIDEO_def by simp

lemma tk_cell_neq: "tk_video s = VIDEO \<Longrightarrow> x < COLUMNS \<Longrightarrow> y \<le> LINES \<Longrightarrow> x' < COLUMNS \<Longrightarrow> y' \<le> LINES \<Longrightarrow> y \<noteq> y' \<Longrightarrow>
    tk_cell s x y \<noteq> tk_cell s x' y'"
proof
  assume v: "tk_video s = VIDEO" and x: "x < COLUMNS" "x' < COLUMNS" and y: "y \<le> LINES" "y' \<le> LINES" "y \<noteq> y'"
    and eq: "tk_cell s x y = tk_cell s x' y'"
  have "(x + y * 80) * 2 = (x' + y' * 80) * 2"
    using arg_cong [OF eq, of unat] tk_cell_unat [OF v x(1) y(1)] tk_cell_unat [OF v x(2) y(2)] by linarith
  then have "(x + y * 80) div 80 = (x' + y' * 80) div 80" by simp
  then show False using x y(3) by (simp add: COLUMNS_def)
qed

lemma clear_cells_zero: "i \<le> j \<Longrightarrow> j < i + n \<Longrightarrow> tk_mem (clear_cells s i n) (tk_cell s j (tk_ypos s)) = 0"
proof (induction n arbitrary: s i)
  case (Suc n)
  let ?s = "s\<lparr>tk_mem := (tk_mem s)(tk_cell s i (tk_ypos s) := 0)\<rparr>"
  have same: "tk_cell ?s = tk_cell s" by (rule ext)+ (simp add: tk_cell_def)
  show ?case
  proof (cases "i = j")
    case True
    have "tk_mem (clear_cells t a b) q = 0" if "tk_mem t q = 0" for t a b q
      using that by (induction b arbitrary: t a) auto
    then show ?thesis using True by simp
  next
    case False
    then show ?thesis using Suc.IH [of "Suc i" ?s] Suc.prems same by simp
  qed
qed simp

section \<open>Properties\<close>

text \<open>
  C36. Round trip of the number conversion: for every word \<open>d\<close> and the bases \<^verbatim>\<open>'d'\<close>, \<^verbatim>\<open>'u'\<close> and \<^verbatim>\<open>'x'\<close>, \<^verbatim>\<open>tk_itoa\<close>
  writes a text of at most eleven characters and a terminating zero into the buffer, changes nothing else, and the
  text reads back as the number, signed for \<^verbatim>\<open>'d'\<close> (the least integer included) and unsigned otherwise.
\<close>

theorem tk_itoa_correct:
  assumes "unat buf + 12 < 2 ^ 32" and "base \<in> {0x64, 0x75, 0x78}"
  shows "\<exists>cs. tk_itoa buf base d m = put_bytes buf (cs @ [0]) m \<and> 0 < length cs \<and> length cs \<le> 11 \<and> 0 \<notin> set cs \<and>
    text_value (if base = 0x78 then 16 else 10) cs = (if base = 0x64 then sint d else uint d)"
proof (intro exI conjI)
  show "tk_itoa buf base d m = put_bytes buf (itoa_text base d @ [0]) m" by (rule tk_itoa_text [OF assms(1)])
  show "0 < length (itoa_text base d)" "length (itoa_text base d) \<le> 11" "0 \<notin> set (itoa_text base d)"
    using itoa_text_ok [of base d] by auto
  have pos: "uint d = sint d" if "0 \<le> sint d"
    using that sint_lt [of d] uint_word_of_int_eq [of "sint d", where 'a = 32] by (simp add: take_bit_int_eq_self)
  show "text_value (if base = 0x78 then 16 else 10) (itoa_text base d) = (if base = 0x64 then sint d else uint d)"
  proof (cases "base = 0x64 \<and> sint d < 0")
    case True
    then show ?thesis using number_text_value(1) [of 10 "nat (- sint d)"] by (simp add: itoa_text_def text_value_def)
  next
    case False
    then show ?thesis using text_value_number [of 10 "unat d"] text_value_number [of 16 "unat d"] pos assms(2)
      by (auto simp: itoa_text_def not_less)
  qed
qed

theorem tk_itoa_correct_witness:
  "\<exists>cs. tk_itoa 0x1000 0x64 0x80000000 (\<lambda>_. 0) = put_bytes 0x1000 (cs @ [0]) (\<lambda>_. 0) \<and> 0 < length cs \<and> length cs \<le> 11 \<and> 0 \<notin> set cs \<and>
    text_value 10 cs = - (2 ^ 31)"
  using tk_itoa_correct [of "0x1000" "0x64" "0x80000000" "\<lambda>_. 0"] by simp

text \<open>
  C35. Bounds of the console: a character keeps the cursor inside the 24 lines of 80 columns and changes no byte
  outside the text memory of the adapter; when it is no line break, its cell holds it afterwards.
\<close>

theorem tk_putchar_bounds:
  assumes "on_screen s"
  shows "on_screen (tk_putchar c s) \<and> (\<forall>q. tk_mem (tk_putchar c s) q \<noteq> tk_mem s q \<longrightarrow> text_memory q) \<and>
    (c \<noteq> 0x0a \<and> c \<noteq> 0x0d \<longrightarrow> tk_mem (tk_putchar c s) (tk_cell s (tk_xpos s) (tk_ypos s)) = ucast (c AND 0xFF))"
proof (intro conjI allI impI)
  show "on_screen (tk_putchar c s)" by (rule tk_putchar_on_screen [OF assms])
  show "text_memory q" if "tk_mem (tk_putchar c s) q \<noteq> tk_mem s q" for q
    using tk_putchar_frame [OF assms, of q] that by blast
  let ?p = "tk_cell s (tk_xpos s) (tk_ypos s)"
  let ?s = "s\<lparr>tk_mem := (tk_mem s)(?p := ucast (c AND 0xFF), ?p + 1 := ATTRIBUTE), tk_xpos := tk_xpos s + 1\<rparr>"
  assume c: "c \<noteq> 0x0a \<and> c \<noteq> 0x0d"
  have s: "tk_video s = VIDEO" "tk_xpos s < COLUMNS" "tk_ypos s \<le> LINES" "tk_ypos s + 1 \<le> LINES" using assms by (auto simp: on_screen_def)
  have cell: "tk_cell (s\<lparr>tk_mem := a, tk_xpos := b, tk_ypos := d\<rparr>) = tk_cell s" for a b d by (rule ext)+ (simp add: tk_cell_def)
  have "tk_mem (tk_newline ?s) ?p = tk_mem ?s ?p"
    unfolding tk_newline_mem
    using clear_cells_frame [of 0 COLUMNS ?p "?s\<lparr>tk_xpos := 0, tk_ypos := tk_ypos ?s + 1\<rparr>"]
      tk_cell_neq [OF s(1) s(2) s(3) _ s(4)] by (simp add: cell)
  then show "tk_mem (tk_putchar c s) ?p = ucast (c AND 0xFF)"
    using c by (simp add: tk_putchar_def Let_def)
qed

definition demo_screen :: tk_screen where
  "demo_screen = \<lparr>tk_xpos = 79, tk_ypos = 3, tk_video = VIDEO, tk_mem = put_bytes 0x2000 [0x25, 0x64, 0x25, 0x73, 0] (\<lambda>_. 0)\<rparr>"

theorem tk_putchar_bounds_witness:
  "on_screen demo_screen \<and> on_screen (tk_putchar 0x41 demo_screen) \<and>
    tk_mem (tk_putchar 0x41 demo_screen) (tk_cell demo_screen 79 3) = 0x41"
proof -
  have on: "on_screen demo_screen" by (simp add: on_screen_def demo_screen_def COLUMNS_def LINES_def)
  have "tk_xpos demo_screen = 79" "tk_ypos demo_screen = 3" by (simp_all add: demo_screen_def)
  then show ?thesis using tk_putchar_bounds [OF on, of "0x41"] on by simp
qed

text \<open>
  The end of the screen: on the last line a line break moves the cursor to the first line, whose characters stay as
  they were; the line that is cleared is the one below the last.
\<close>

theorem tk_newline_wrap:
  assumes "on_screen s" and "tk_ypos s = 23" and "x < COLUMNS"
  shows "tk_ypos (tk_newline s) = 0 \<and> tk_mem (tk_newline s) (tk_cell s x 0) = tk_mem s (tk_cell s x 0) \<and>
    tk_mem (tk_newline s) (tk_cell s x 24) = 0"
proof -
  let ?s = "s\<lparr>tk_xpos := 0, tk_ypos := tk_ypos s + 1\<rparr>"
  have cell: "tk_cell (s\<lparr>tk_xpos := a, tk_ypos := b\<rparr>) = tk_cell s" for a b by (rule ext)+ (simp add: tk_cell_def)
  have "tk_mem (clear_cells ?s 0 COLUMNS) (tk_cell ?s x (tk_ypos ?s)) = 0" by (rule clear_cells_zero) (use assms(3) in auto)
  moreover have "tk_mem (clear_cells ?s 0 COLUMNS) (tk_cell s x 0) = tk_mem ?s (tk_cell s x 0)"
    by (rule clear_cells_frame) (use tk_cell_neq [of s x 0] assms in \<open>auto simp: cell on_screen_def LINES_def\<close>)
  ultimately show ?thesis using assms(2) cell by (simp add: tk_newline_mem LINES_def)
qed



end
