(* ===== verification/Vx_Console.thy ===== *)
theory Vx_Console
  imports Console Port_IO FileSystem
begin

unbundle bit_operations_syntax

text \<open>
  The graphical console, \<^verbatim>\<open>src/kernel/printf.cpp\<close> with \<^verbatim>\<open>src/include/os/printf.h\<close>, and the display adapter behind it,
  \<^verbatim>\<open>src/kernel/vga.cpp\<close> with \<^verbatim>\<open>src/include/os/vga.h\<close>: one byte per pixel at the address \<^verbatim>\<open>vram\<close>, glyphs of 8 by 16
  pixels from a font file.

  The pixels and the glyphs are bytes of the memory \<open>bmem\<close>; every index is computed in 32 bits, as the source does.
\<close>

section \<open>State\<close>

record VramInfo =
  table_rgb :: "u8 list"
  vi_vx :: u32
  vi_vy :: u32
  vi_vram :: u32

record vx_screen =
  vx_xpos :: u32
  vx_ypos :: u32
  vx_COLUMNS :: u32
  vx_LINES :: u32
  fgcolor :: u8
  bgcolor :: u8
  fonts :: u32
  vram_info :: VramInfo
  vx_mem :: bmem

definition Font_vx :: u32 where "Font_vx = 8"
definition Font_vy :: u32 where "Font_vy = 16"

section \<open>Glyphs\<close>

text \<open>The glyph of a character: \<^verbatim>\<open>char\<close> is signed, so that the upper half of the code lies below the table.\<close>

definition font_of :: "vx_screen \<Rightarrow> u8 \<Rightarrow> u32" where
  "font_of s c = fonts s + 16 * scast c"

definition pixel :: "u8 \<Rightarrow> u8 \<Rightarrow> u32 \<Rightarrow> u8 \<Rightarrow> bmem \<Rightarrow> bmem" where
  "pixel d bitmask p fg m = (if d AND bitmask \<noteq> 0 then m(p := fg) else m)"

definition glyph_row :: "u8 \<Rightarrow> u8 \<Rightarrow> u32 \<Rightarrow> bmem \<Rightarrow> bmem" where
  "glyph_row d fg p m =
     (let m = pixel d 0x80 p fg m;
          m = pixel d 0x40 (p + 1) fg m;
          m = pixel d 0x20 (p + 2) fg m;
          m = pixel d 0x10 (p + 3) fg m;
          m = pixel d 0x08 (p + 4) fg m;
          m = pixel d 0x04 (p + 5) fg m;
          m = pixel d 0x02 (p + 6) fg m;
          m = pixel d 0x01 (p + 7) fg m
      in m)"

fun glyph_loop :: "u32 \<Rightarrow> u32 \<Rightarrow> u32 \<Rightarrow> u8 \<Rightarrow> nat \<Rightarrow> nat \<Rightarrow> bmem \<Rightarrow> bmem" where
  "glyph_loop screen afont vx fg i 0 m = m"
| "glyph_loop screen afont vx fg i (Suc n) m =
     glyph_loop screen afont vx fg (Suc i) n (glyph_row (m (afont + of_nat i)) fg (screen + of_nat i * vx) m)"

definition putfont8 :: "u32 \<Rightarrow> u8 \<Rightarrow> vx_screen \<Rightarrow> vx_screen" where
  "putfont8 screen c s =
     s\<lparr>vx_mem := glyph_loop screen (font_of s c) (vi_vx (vram_info s)) (fgcolor s) 0 16 (vx_mem s)\<rparr>"

section \<open>Filling\<close>

text \<open>\<open>n\<close> pixels from \<open>p\<close>, and \<open>n\<close> rows of \<open>len\<close> pixels from row \<open>y\<close> on, in a picture of the width \<open>w\<close>.\<close>

fun fill_row :: "u32 \<Rightarrow> nat \<Rightarrow> u8 \<Rightarrow> bmem \<Rightarrow> bmem" where
  "fill_row p 0 v m = m"
| "fill_row p (Suc n) v m = fill_row (p + 1) n v (m(p := v))"

fun fill_rows :: "u32 \<Rightarrow> u32 \<Rightarrow> nat \<Rightarrow> u32 \<Rightarrow> nat \<Rightarrow> u8 \<Rightarrow> bmem \<Rightarrow> bmem" where
  "fill_rows p w len y 0 v m = m"
| "fill_rows p w len y (Suc n) v m = fill_rows p w len (y + 1) n v (fill_row (p + y * w) len v m)"

definition cls :: "vx_screen \<Rightarrow> vx_screen" where
  "cls s =
     (let xsize = vi_vx (vram_info s); ysize = vi_vy (vram_info s) in
      s\<lparr>vx_mem := fill_rows (vi_vram (vram_info s)) xsize (nat (sint xsize)) 0 (nat (sint ysize)) (bgcolor s) (vx_mem s)\<rparr>)"

definition cls_line :: "u32 \<Rightarrow> vx_screen \<Rightarrow> vx_screen" where
  "cls_line nline s =
     (let vx_size = vi_vx (vram_info s); y_low = nline * Font_vy; y_high = (nline + 1) * Font_vy in
      s\<lparr>vx_mem := fill_rows (vi_vram (vram_info s)) vx_size (nat (sint vx_size)) y_low (nat (sint y_high - sint y_low))
          (bgcolor s) (vx_mem s)\<rparr>)"

section \<open>Characters\<close>

definition vx_newline :: "vx_screen \<Rightarrow> vx_screen" where
  "vx_newline s =
     (let s = s\<lparr>vx_xpos := 0, vx_ypos := vx_ypos s + 1\<rparr>;
          s = (if vx_ypos s \<ge> vx_LINES s then s\<lparr>vx_ypos := 0\<rparr> else s)
      in cls_line (vx_ypos s) s)"

definition vx_putchar :: "u8 \<Rightarrow> vx_screen \<Rightarrow> vx_screen" where
  "vx_putchar c s =
     (let screen_x = vi_vx (vram_info s) in
      if c = 0x0a \<or> c = 0x0d then vx_newline s
      else
        (let s = putfont8 (vi_vram (vram_info s) + vx_xpos s * Font_vx + vx_ypos s * screen_x * Font_vy) c s;
             s = s\<lparr>vx_xpos := vx_xpos s + 1\<rparr>
         in if vx_xpos s \<ge> vx_COLUMNS s then vx_newline s else s))"

definition vx_itoa :: "u32 \<Rightarrow> u32 \<Rightarrow> u32 \<Rightarrow> bmem \<Rightarrow> bmem" where
  "vx_itoa buf base d m =
     (let neg = (base = 0x64 \<and> d <s 0);
          m = (if neg then m(buf := 0x2d) else m);
          buf = (if neg then buf + 1 else buf);
          ud = (if neg then - d else d);
          divisor = (if neg then 10 else if base = 0x78 then 16 else 10);
          (p, m) = itoa_digits divisor ud buf m;
          m = m(p := 0)
      in itoa_reverse buf (p - 1) m)"

definition vx_printf :: "nat \<Rightarrow> u32 \<Rightarrow> u32 \<Rightarrow> u32 \<Rightarrow> (nat \<Rightarrow> u32) \<Rightarrow> vx_screen \<Rightarrow> vx_screen kres" where
  "vx_printf fuel nullstr buf format arg s =
     printf_loop (\<lambda>c. vx_putchar (ucast c)) vx_mem (\<lambda>m s. s\<lparr>vx_mem := m\<rparr>) vx_itoa fuel nullstr buf format arg 0 s"

section \<open>Start\<close>

text \<open>
  The font: the first 4096 bytes of \<^verbatim>\<open>/hankaku.bin\<close>, read into a buffer from the heap at the address \<open>p\<close>. The driver, the
  file system and the fuel of the path walk are those of \<open>fopen\<close>; whether the file was found is not asked.
\<close>

definition hankaku :: "u8 list" where
  "hankaku = [0x2f, 0x68, 0x61, 0x6e, 0x6b, 0x61, 0x6b, 0x75, 0x2e, 0x62, 0x69, 0x6e]"

definition Font_new :: "'s driver \<Rightarrow> ext2 \<Rightarrow> (nat \<Rightarrow> u8) \<Rightarrow> nat \<Rightarrow> 's \<Rightarrow> (u8 list \<times> 's) kres" where
  "Font_new rd fs junk fuel s =
     rbind (fopen rd fs fuel (kstring_of (hankaku @ [0])) s) (\<lambda>(file, s). File_read rd fs junk 0 4096 file s)"

definition init_vx_printf :: "'s driver \<Rightarrow> ext2 \<Rightarrow> (nat \<Rightarrow> u8) \<Rightarrow> nat \<Rightarrow> u32 \<Rightarrow> vx_screen \<Rightarrow> 's \<Rightarrow> (vx_screen \<times> 's) kres" where
  "init_vx_printf rd fs junk fuel p s d =
     rbind (Font_new rd fs junk fuel d) (\<lambda>(bytes, d).
       let s = s\<lparr>fonts := p, vx_mem := put_bytes p bytes (vx_mem s)\<rparr>;
           s = s\<lparr>fgcolor := 0, bgcolor := 7\<rparr>;
           cx = vi_vx (vram_info s) div Font_vx;
           cy = vi_vy (vram_info s) div Font_vy;
           s = cls s
       in Inr (s\<lparr>vx_xpos := 0, vx_ypos := 0, vx_COLUMNS := cx, vx_LINES := cy\<rparr>, d))"

section \<open>The adapter\<close>

definition rgb_table :: "u8 list" where
  "rgb_table =
    [0x00, 0x00, 0x00, 0xff, 0x00, 0x00, 0x00, 0xff, 0x00, 0xff, 0xff, 0x00,
     0x00, 0x00, 0xff, 0xff, 0x00, 0xff, 0x00, 0xff, 0xff, 0xff, 0xff, 0xff,
     0xc6, 0xc6, 0xc6, 0x84, 0x00, 0x00, 0x00, 0x84, 0x00, 0x84, 0x84, 0x00,
     0x00, 0x00, 0x84, 0x84, 0x00, 0x84, 0x00, 0x84, 0x84, 0x84, 0x84, 0x84]"

text \<open>The constructor sets the table only; the other fields keep what the heap held.\<close>

definition VramInfo_new :: "u32 \<Rightarrow> u32 \<Rightarrow> u32 \<Rightarrow> VramInfo" where
  "VramInfo_new x y v = \<lparr>table_rgb = rgb_table, vi_vx = x, vi_vy = y, vi_vram = v\<rparr>"

text \<open>The object as bytes, so that a pointer into the table can run on into the fields that follow it.\<close>

definition le_bytes :: "u32 \<Rightarrow> u8 list" where
  "le_bytes w = [ucast w, ucast (drop_bit 8 w), ucast (drop_bit 16 w), ucast (drop_bit 24 w)]"

definition info_bytes :: "VramInfo \<Rightarrow> u8 list" where
  "info_bytes vi = table_rgb vi @ le_bytes (vi_vx vi) @ le_bytes (vi_vy vi) @ le_bytes (vi_vram vi)"

record 'd vga = "'d io" +
  vga_info :: VramInfo
  vga_mem :: bmem
  vga_sti :: bool

definition set_qemuvga0reg :: "('d, 'y) bus_scheme \<Rightarrow> u16 \<Rightarrow> u16 \<Rightarrow> 'd vga \<Rightarrow> 'd vga" where
  "set_qemuvga0reg P reg dat s = outw P 0x01cf dat (outw P 0x01ce reg s)"

definition init_qemuvga0 :: "('d, 'y) bus_scheme \<Rightarrow> u32 \<Rightarrow> u32 \<Rightarrow> u32 \<Rightarrow> u32 \<Rightarrow> 'd vga \<Rightarrow> 'd vga" where
  "init_qemuvga0 P x y c flag s =
     (let s = set_qemuvga0reg P 0x0004 0x0000 s;
          s = set_qemuvga0reg P 0x0001 (ucast x) s;
          s = set_qemuvga0reg P 0x0002 (ucast y) s;
          s = set_qemuvga0reg P 0x0003 (ucast c) s;
          s = set_qemuvga0reg P 0x0005 0x0000 s;
          s = set_qemuvga0reg P 0x0004 (ucast flag) s;
          s = s\<lparr>vga_info := (vga_info s)\<lparr>vi_vx := x, vi_vy := y\<rparr>\<rparr>
      in s\<lparr>vga_info := (vga_info s)\<lparr>vi_vram := if flag AND 0x40 = 0 then 0x000a0000 else 0xe0000000\<rparr>\<rparr>)"

fun palette_loop :: "('d, 'y) bus_scheme \<Rightarrow> nat \<Rightarrow> nat \<Rightarrow> 'd vga \<Rightarrow> 'd vga kres" where
  "palette_loop P rgb 0 s = Inr s"
| "palette_loop P rgb (Suc n) s =
     rbind (elem_at (info_bytes (vga_info s)) rgb) (\<lambda>r.
     rbind (elem_at (info_bytes (vga_info s)) (rgb + 1)) (\<lambda>g.
     rbind (elem_at (info_bytes (vga_info s)) (rgb + 2)) (\<lambda>b.
       palette_loop P (rgb + 3) n (outb P 0x03c9 (b div 4) (outb P 0x03c9 (g div 4) (outb P 0x03c9 (r div 4) s))))))"

definition set_palette :: "('d, 'y) bus_scheme \<Rightarrow> int \<Rightarrow> int \<Rightarrow> 'd vga \<Rightarrow> 'd vga kres" where
  "set_palette P start stop s =
     (let s = s\<lparr>vga_sti := False\<rparr>;
          s = outb P 0x03c8 (word_of_int start) s
      in rbind (palette_loop P 0 (nat (stop - start + 1)) s) (\<lambda>s. Inr (s\<lparr>vga_sti := True\<rparr>)))"

definition nr_color :: int where "nr_color = 16"

definition init_palette :: "('d, 'y) bus_scheme \<Rightarrow> 'd vga \<Rightarrow> 'd vga kres" where
  "init_palette P s = set_palette P 0 nr_color s"

definition boxfill8 :: "u8 \<Rightarrow> int \<Rightarrow> int \<Rightarrow> int \<Rightarrow> int \<Rightarrow> 'd vga \<Rightarrow> 'd vga" where
  "boxfill8 c x0 y0 x1 y1 s =
     s\<lparr>vga_mem := fill_rows (vi_vram (vga_info s) + word_of_int x0) (vi_vx (vga_info s)) (nat (x1 - x0 + 1))
        (word_of_int y0) (nat (y1 - y0 + 1)) c (vga_mem s)\<rparr>"

definition init_vga :: "('d, 'y) bus_scheme \<Rightarrow> VramInfo \<Rightarrow> 'd vga \<Rightarrow> 'd vga kres" where
  "init_vga P heap s =
     (let s = s\<lparr>vga_info := VramInfo_new (vi_vx heap) (vi_vy heap) (vi_vram heap)\<rparr> in
      rbind (init_palette P s) (\<lambda>s.
        let s = init_qemuvga0 P 1024 768 8 0xc1 s;
            s = boxfill8 0x00 0 0 1024 768 s
        in Inr (boxfill8 0x01 300 200 400 300 s)))"

end
