(* ===== verification/Vx_Correct.thy ===== *)
theory Vx_Correct
  imports Vx_Console Printf_Correct
begin

unbundle bit_operations_syntax

text \<open>
  Correctness of the graphical console: a character stays inside the picture and draws the pixels of its glyph, the
  formatting routine puts the characters of its formatted text, by a second interpretation of the locale \<open>console\<close>,
  and what the start of the adapter sends and fills, one palette entry and one row and column more than there are.
\<close>

section \<open>Filling\<close>

lemma fill_row_at: "n < 2 ^ 32 \<Longrightarrow> fill_row p n v m q = (if unat (q - p) < n then v else m q)"
proof (induction n arbitrary: p m)
  case (Suc n)
  show ?case
  proof (cases "q = p")
    case True
    then show ?thesis using Suc by simp
  next
    case False
    then have "unat (q - (p + 1)) = unat (q - p) - 1" "unat (q - p) \<noteq> 0"
      using unat_minus_one [of "q - p"] by (simp_all add: unat_eq_0 algebra_simps)
    then show ?thesis using Suc False by auto
  qed
qed simp

text \<open>A picture of \<open>h\<close> rows of \<open>w\<close> pixels at \<open>p\<close>, and the offset of a pixel in it.\<close>

lemma pixel_offset:
  assumes "unat (w :: u32) * h \<le> 2 ^ 32" and "unat y < h" and "unat x < unat w"
  shows "unat (y * w + x) = unat y * unat w + unat x" and "unat (y * w + x) < unat w * h"
proof -
  have "unat y * unat w + unat x < unat y * unat w + unat w" using assms(3) by simp
  also have "\<dots> = (unat y + 1) * unat w" by (simp add: algebra_simps)
  also have "\<dots> \<le> h * unat w" using assms(2) by (intro mult_le_mono1) simp
  finally have lt: "unat y * unat w + unat x < unat w * h" by (simp add: mult.commute)
  then have "unat y * unat w < 2 ^ 32" "unat y * unat w + unat x < 2 ^ 32" using assms(1) by linarith+
  then show eq: "unat (y * w + x) = unat y * unat w + unat x"
    by (simp add: unat_word_ariths)
  show "unat (y * w + x) < unat w * h" unfolding eq by (rule lt)
qed

lemma fill_rows_frame:
  assumes "unat w * h \<le> 2 ^ 32" and "unat y + n \<le> h" and "len \<le> unat w" and "\<not> unat (q - p) < unat w * h"
  shows "fill_rows p w len y n v m q = m q"
  using assms(2)
proof (induction n arbitrary: y m)
  case (Suc n)
  have h: "h \<le> 2 ^ 32 \<or> w = 0" 
  proof (cases "w = 0")
    case False
    then have "1 \<le> unat w" by (simp add: Suc_le_eq unat_gt_0)
    then have "h \<le> unat w * h" by simp
    then have "h \<le> 2 ^ 32" using assms(1) by (rule order_trans)
    then show ?thesis ..
  qed simp
  have row: "fill_row (p + y * w) len v m q = m q"
  proof (cases "len = 0")
    case False
    have lw: "len < 2 ^ 32" using assms(3) unat_u32_less [of w] by linarith
    have "\<not> unat (q - (p + y * w)) < len"
    proof
      assume "unat (q - (p + y * w)) < len"
      then have "unat (y * w + (q - (p + y * w))) < unat w * h"
        using pixel_offset(2) [OF assms(1), of y "q - (p + y * w)"] Suc.prems assms(3) by simp
      then show False using assms(4) by (simp add: algebra_simps)
    qed
    then show ?thesis using lw by (simp add: fill_row_at)
  qed simp
  show ?case
  proof (cases n)
    case (Suc k)
    have "w \<noteq> 0 \<longrightarrow> unat (y + 1) = unat y + 1"
      using h Suc.prems Suc by (auto simp: unat_word_ariths)
    show ?thesis
    proof (cases "w = 0")
      case True
      then have "len = 0" using assms(3) by simp
      then have "fill_rows p w len y n v m q = m q" for y n m by (induction n arbitrary: y m) auto
      then show ?thesis using \<open>len = 0\<close> by simp
    next
      case False
      then show ?thesis using Suc.IH [of "y + 1"] Suc.prems row \<open>w \<noteq> 0 \<longrightarrow> _\<close> by simp
    qed
  qed (use row in simp)
qed simp

lemma fill_rows_same:
  "(\<forall>q. \<not> B q \<longrightarrow> m q = m' q) \<Longrightarrow> \<forall>q. \<not> B q \<longrightarrow> fill_rows p w len y n v m q = fill_rows p w len y n v m' q"
proof (induction n arbitrary: y m m')
  case (Suc n)
  have "\<forall>q. \<not> B q \<longrightarrow> fill_row r len v m q = fill_row r len v m' q" for r
    using Suc.prems by (induction len arbitrary: r m m') auto
  then show ?case using Suc.IH by simp
qed simp

section \<open>Glyphs\<close>

lemma pixel_at: "pixel d bm p fg m q = (if q = p \<and> d AND bm \<noteq> 0 then fg else m q)"
  by (simp add: pixel_def)

lemma glyph_row_frame: "(\<forall>k < 8. q \<noteq> p + of_nat k) \<Longrightarrow> glyph_row d fg p m q = m q"
proof -
  assume q: "\<forall>k < 8. q \<noteq> p + of_nat k"
  have "q \<noteq> p" "q \<noteq> p + 1" "q \<noteq> p + 2" "q \<noteq> p + 3" "q \<noteq> p + 4" "q \<noteq> p + 5" "q \<noteq> p + 6" "q \<noteq> p + 7"
    using q [rule_format, of 0] q [rule_format, of 1] q [rule_format, of 2] q [rule_format, of 3] q [rule_format, of 4]
      q [rule_format, of 5] q [rule_format, of 6] q [rule_format, of 7] by simp_all
  then show ?thesis by (simp add: glyph_row_def pixel_at)
qed

lemma glyph_row_same: "\<forall>q. \<not> B q \<longrightarrow> m q = m' q \<Longrightarrow> \<not> B q \<Longrightarrow> glyph_row d fg p m q = glyph_row d fg p m' q"
  by (simp add: glyph_row_def pixel_at)

lemma glyph_row_pixel: "k < 8 \<Longrightarrow> glyph_row d fg p m (p + of_nat k) = (if bit d (7 - k) then fg else m (p + of_nat k))"
proof -
  assume "k < 8"
  then have "k \<in> {0, 1, 2, 3, 4, 5, 6, 7}" by auto
  moreover have "(d AND 0x80 \<noteq> 0) = bit d 7" "(d AND 0x40 \<noteq> 0) = bit d 6" "(d AND 0x20 \<noteq> 0) = bit d 5" "(d AND 0x10 \<noteq> 0) = bit d 4"
      "(d AND 0x08 \<noteq> 0) = bit d 3" "(d AND 0x04 \<noteq> 0) = bit d 2" "(d AND 0x02 \<noteq> 0) = bit d 1" "(d AND 0x01 \<noteq> 0) = bit d 0"
    using bit_iff_and_push_bit_not_eq_0 [of d 7] bit_iff_and_push_bit_not_eq_0 [of d 6] bit_iff_and_push_bit_not_eq_0 [of d 5]
      bit_iff_and_push_bit_not_eq_0 [of d 4] bit_iff_and_push_bit_not_eq_0 [of d 3] bit_iff_and_push_bit_not_eq_0 [of d 2]
      bit_iff_and_push_bit_not_eq_0 [of d 1] bit_iff_and_push_bit_not_eq_0 [of d 0] by simp_all
  ultimately show ?thesis unfolding glyph_row_def Let_def pixel_at by (elim insertE) simp_all
qed

lemma glyph_loop_frame:
  "(\<forall>j k. i \<le> j \<and> j < i + n \<and> k < 8 \<longrightarrow> q \<noteq> screen + of_nat j * vx + of_nat k) \<Longrightarrow> glyph_loop screen afont vx fg i n m q = m q"
proof (induction n arbitrary: i m)
  case (Suc n)
  have "glyph_row d fg (screen + of_nat i * vx) m q = m q" for d
    by (rule glyph_row_frame) (use Suc.prems in auto)
  then show ?case using Suc.IH [of "Suc i"] Suc.prems by simp
qed simp

lemma glyph_loop_same:
  "\<forall>q. \<not> B q \<longrightarrow> m q = m' q \<Longrightarrow> \<forall>j. i \<le> j \<and> j < i + n \<longrightarrow> \<not> B (afont + of_nat j) \<Longrightarrow> \<not> B q \<Longrightarrow>
    glyph_loop screen afont vx fg i n m q = glyph_loop screen afont vx fg i n m' q"
proof (induction n arbitrary: i m m')
  case (Suc n)
  have "m (afont + of_nat i) = m' (afont + of_nat i)" using Suc.prems(1,2) by simp
  then have "\<forall>q. \<not> B q \<longrightarrow> glyph_row (m (afont + of_nat i)) fg p m q = glyph_row (m' (afont + of_nat i)) fg p m' q" for p
    using glyph_row_same [OF Suc.prems(1)] by simp
  then show ?case using Suc.IH [of _ _ "Suc i"] Suc.prems(2,3) by simp
qed simp

section \<open>Cursor\<close>

definition vx_ok :: "u32 \<Rightarrow> u32 \<Rightarrow> u32 \<Rightarrow> u32 \<Rightarrow> vx_screen \<Rightarrow> bool" where
  "vx_ok W H V F s \<longleftrightarrow> vi_vx (vram_info s) = W \<and> vi_vy (vram_info s) = H \<and> vi_vram (vram_info s) = V \<and> fonts s = F \<and>
     vx_xpos s < vx_COLUMNS s \<and> vx_ypos s < vx_LINES s \<and> unat (vx_COLUMNS s) * 8 \<le> unat W \<and> unat (vx_LINES s) * 16 \<le> unat H \<and>
     unat W * unat H < 2 ^ 31"

definition picture :: "u32 \<Rightarrow> u32 \<Rightarrow> u32 \<Rightarrow> u32 \<Rightarrow> bool" where
  "picture W H V q \<longleftrightarrow> unat (q - V) < unat W * unat H"

definition glyphs :: "u32 \<Rightarrow> u32 \<Rightarrow> bool" where
  "glyphs F q \<longleftrightarrow> unat (q - F + 2048) < 4096"

lemma vx_okD:
  assumes "vx_ok W H V F s"
  shows "0 < unat W" "0 < unat H" "unat W < 2 ^ 31" "unat H < 2 ^ 31" "unat W * unat H \<le> 2 ^ 32"
    "unat (vx_xpos s) * 8 + 8 \<le> unat W" "unat (vx_ypos s) * 16 + 16 \<le> unat H" "unat (vx_LINES s) * 16 \<le> unat H"
proof -
  have x: "unat (vx_xpos s) < unat (vx_COLUMNS s)" "unat (vx_ypos s) < unat (vx_LINES s)"
    using assms by (simp_all add: vx_ok_def word_less_nat_alt)
  then show xy: "unat (vx_xpos s) * 8 + 8 \<le> unat W" "unat (vx_ypos s) * 16 + 16 \<le> unat H" "unat (vx_LINES s) * 16 \<le> unat H"
    using assms by (auto simp: vx_ok_def)
  then show pos: "0 < unat W" "0 < unat H" by linarith+
  have b: "unat W * unat H < 2 ^ 31" using assms by (simp add: vx_ok_def)
  then show "unat W * unat H \<le> 2 ^ 32" by simp
  have "unat W \<le> unat W * unat H" "unat H \<le> unat W * unat H" using pos by simp_all
  then show "unat W < 2 ^ 31" "unat H < 2 ^ 31" using b by linarith+
qed

text \<open>Where the cursor draws.\<close>

definition vx_corner :: "vx_screen \<Rightarrow> u32" where
  "vx_corner s = vi_vram (vram_info s) + vx_xpos s * Font_vx + vx_ypos s * vi_vx (vram_info s) * Font_vy"

lemma cell_pixel:
  assumes "vx_ok W H V F s" and "j < 16" and "k < 8"
  shows "unat (vx_corner s + of_nat j * W + of_nat k - V) = (unat (vx_ypos s) * 16 + j) * unat W + (unat (vx_xpos s) * 8 + k)"
    and "picture W H V (vx_corner s + of_nat j * W + of_nat k)"
proof -
  let ?y = "vx_ypos s * 16 + of_nat j" and ?x = "vx_xpos s * 8 + of_nat k"
  note d = vx_okD [OF assms(1)]
  have y: "unat ?y = unat (vx_ypos s) * 16 + j" and x: "unat ?x = unat (vx_xpos s) * 8 + k"
    using d assms(2,3) by (simp_all add: unat_word_ariths unsigned_of_nat take_bit_nat_eq_self)
  have "unat ?y < unat H" "unat ?x < unat W" using d assms(2,3) y x by linarith+
  note px = pixel_offset [OF d(5) this]
  have eq: "vx_corner s + of_nat j * W + of_nat k - V = ?y * W + ?x"
    using assms(1) by (simp add: vx_corner_def vx_ok_def Font_vx_def Font_vy_def algebra_simps)
  show "unat (vx_corner s + of_nat j * W + of_nat k - V) = (unat (vx_ypos s) * 16 + j) * unat W + (unat (vx_xpos s) * 8 + k)"
    unfolding eq px(1) x y ..
  show "picture W H V (vx_corner s + of_nat j * W + of_nat k)" unfolding picture_def eq by (rule px(2))
qed

lemma cls_line_fields [simp]:
  "vx_xpos (cls_line n s) = vx_xpos s" "vx_ypos (cls_line n s) = vx_ypos s" "vx_COLUMNS (cls_line n s) = vx_COLUMNS s"
  "vx_LINES (cls_line n s) = vx_LINES s" "fgcolor (cls_line n s) = fgcolor s" "bgcolor (cls_line n s) = bgcolor s"
  "fonts (cls_line n s) = fonts s" "vram_info (cls_line n s) = vram_info s"
  by (simp_all add: cls_line_def Let_def)

lemma cls_line_rows:
  assumes "vx_ok W H V F s" and "n < vx_LINES s"
  shows "vx_mem (cls_line n s) = fill_rows V W (unat W) (n * 16) 16 (bgcolor s) (vx_mem s)" and "unat (n * 16) + 16 \<le> unat H"
proof -
  note d = vx_okD [OF assms(1)]
  have n: "unat n < unat (vx_LINES s)" using assms(2) by (simp add: word_less_nat_alt)
  have u: "unat (n * 16) = unat n * 16" "unat ((n + 1) * 16) = unat n * 16 + 16"
    using d n by (simp_all add: unat_word_ariths)
  show "unat (n * 16) + 16 \<le> unat H" using u d(8) n by linarith
  have "unat (n * 16) < 2 ^ 31" "unat ((n + 1) * 16) < 2 ^ 31" using u d(4,8) n by linarith+
  then have "nat (sint ((n + 1) * 16) - sint (n * 16)) = 16" by (simp only: sint_small u)
  moreover have "nat (sint W) = unat W" using sint_small [OF d(3)] by simp
  ultimately show "vx_mem (cls_line n s) = fill_rows V W (unat W) (n * 16) 16 (bgcolor s) (vx_mem s)"
    using assms(1) by (simp add: cls_line_def Let_def Font_vy_def vx_ok_def)
qed

lemma cls_line_frame:
  assumes "vx_ok W H V F s" and "n < vx_LINES s" and "\<not> picture W H V q"
  shows "vx_mem (cls_line n s) q = vx_mem s q"
  unfolding cls_line_rows(1) [OF assms(1,2)]
  by (rule fill_rows_frame [of W "unat H"])
    (use vx_okD [OF assms(1)] cls_line_rows(2) [OF assms(1,2)] assms(3) in \<open>simp_all add: picture_def\<close>)

definition next_line :: "vx_screen \<Rightarrow> vx_screen" where
  "next_line s = s\<lparr>vx_xpos := 0, vx_ypos := if vx_ypos s + 1 \<ge> vx_LINES s then 0 else vx_ypos s + 1\<rparr>"

lemma vx_newline_eq: "vx_newline s = cls_line (vx_ypos (next_line s)) (next_line s)"
  by (simp add: vx_newline_def next_line_def Let_def)

lemma next_line_ok: "vx_ok W H V F s \<Longrightarrow> vx_ok W H V F (next_line s)"
  by (auto simp: vx_ok_def next_line_def intro: le_less_trans [OF word_zero_le])

lemma vx_okI_mem: "vx_ok W H V F s \<Longrightarrow> vx_ok W H V F (s\<lparr>vx_mem := m\<rparr>)"
  by (simp add: vx_ok_def)

lemma vx_newline_ok: "vx_ok W H V F s \<Longrightarrow> vx_ok W H V F (vx_newline s)"
  using next_line_ok [of W H V F s] unfolding vx_newline_eq by (simp add: vx_ok_def)

lemma vx_newline_frame: "vx_ok W H V F s \<Longrightarrow> \<not> picture W H V q \<Longrightarrow> vx_mem (vx_newline s) q = vx_mem s q"
proof -
  assume s: "vx_ok W H V F s" and q: "\<not> picture W H V q"
  note ok = next_line_ok [OF s]
  have "vx_mem (cls_line (vx_ypos (next_line s)) (next_line s)) q = vx_mem (next_line s) q"
    by (rule cls_line_frame [OF ok _ q]) (use ok in \<open>simp add: vx_ok_def\<close>)
  then show ?thesis unfolding vx_newline_eq by (simp add: next_line_def)
qed

text \<open>A character: the state with its glyph drawn and the cursor advanced, then perhaps a new line.\<close>

definition drawn :: "u8 \<Rightarrow> vx_screen \<Rightarrow> vx_screen" where
  "drawn c s = s\<lparr>vx_mem := glyph_loop (vx_corner s) (font_of s c) (vi_vx (vram_info s)) (fgcolor s) 0 16 (vx_mem s), vx_xpos := vx_xpos s + 1\<rparr>"

lemma vx_putchar_eq: "vx_putchar c s =
    (if c = 0x0a \<or> c = 0x0d then vx_newline s
     else if vx_xpos s + 1 \<ge> vx_COLUMNS s then vx_newline (drawn c s) else drawn c s)"
  by (simp add: vx_putchar_def Let_def drawn_def putfont8_def vx_corner_def)

lemma glyph_frame:
  assumes "vx_ok W H V F s" and "\<not> picture W H V q"
  shows "glyph_loop (vx_corner s) (font_of s c) W fg 0 16 (vx_mem s) q = vx_mem s q"
  by (rule glyph_loop_frame) (use cell_pixel(2) [OF assms(1)] assms(2) in auto)

text \<open>A line break from any column of a state in order: the cursor column does not matter.\<close>

definition home :: "vx_screen \<Rightarrow> vx_screen" where
  "home s = s\<lparr>vx_xpos := 0\<rparr>"

lemma vx_newline_home: "vx_newline s = vx_newline (home s)"
  by (simp add: vx_newline_def home_def)

lemma home_ok: "vx_ok W H V F s \<Longrightarrow> vx_ok W H V F (home s)"
  by (auto simp: vx_ok_def home_def intro: le_less_trans [OF word_zero_le])

lemma home_drawn_ok: "vx_ok W H V F s \<Longrightarrow> vx_ok W H V F (home (drawn c s))"
  using home_ok [of W H V F s] by (simp add: vx_ok_def home_def drawn_def)

lemma vx_putchar_ok: "vx_ok W H V F s \<Longrightarrow> vx_ok W H V F (vx_putchar c s)"
  unfolding vx_putchar_eq using vx_newline_ok [of W H V F s] vx_newline_ok [OF home_drawn_ok [of W H V F s c]] vx_newline_home [of "drawn c s"]
  by (auto simp: vx_ok_def drawn_def not_le)

lemma vx_putchar_frame:
  assumes "vx_ok W H V F s" and "\<not> picture W H V q"
  shows "vx_mem (vx_putchar c s) q = vx_mem s q"
proof -
  have w: "vi_vx (vram_info s) = W" using assms(1) by (simp add: vx_ok_def)
  have d: "vx_mem (drawn c s) q = vx_mem s q" using glyph_frame [OF assms] w by (simp add: drawn_def)
  have "vx_mem (vx_newline (drawn c s)) q = vx_mem (drawn c s) q"
    using vx_newline_frame [OF home_drawn_ok [OF assms(1)] assms(2)] vx_newline_home [of "drawn c s"] by (simp add: home_def)
  then show ?thesis unfolding vx_putchar_eq using d vx_newline_frame [OF assms] by simp
qed

text \<open>The pixels of the cell are pairwise different, so each keeps what its row of the glyph gave it.\<close>

lemma cell_pixel_inject:
  assumes "vx_ok W H V F s" and "j < 16" "k < 8" "j' < 16" "k' < 8"
    and "vx_corner s + of_nat j * W + of_nat k = vx_corner s + of_nat j' * W + of_nat k'"
  shows "j = j'"
proof -
  let ?x = "unat (vx_xpos s) * 8" and ?y = "unat (vx_ypos s) * 16"
  have "(?y + j) * unat W + (?x + k) = (?y + j') * unat W + (?x + k')"
    using cell_pixel(1) [OF assms(1-3)] cell_pixel(1) [OF assms(1,4,5)] assms(6) by simp
  then have "(?x + k) + (?y + j) * unat W = (?x + k') + (?y + j') * unat W" by linarith
  then have "((?x + k) + (?y + j) * unat W) div unat W = ((?x + k') + (?y + j') * unat W) div unat W" by (simp only:)
  moreover have "?x + k < unat W" "?x + k' < unat W" using vx_okD(6) [OF assms(1)] assms(3,5) by linarith+
  ultimately show ?thesis by simp
qed

lemma glyph_loop_pixels:
  assumes "vx_ok W H V F s" and "\<forall>j < 16. \<not> picture W H V (a + of_nat j)" and "k < 8"
  shows "i + n \<le> 16 \<Longrightarrow> i \<le> j \<Longrightarrow> j < i + n \<Longrightarrow>
    glyph_loop (vx_corner s) a W fg i n m (vx_corner s + of_nat j * W + of_nat k) =
      (if bit (m (a + of_nat j)) (7 - k) then fg else m (vx_corner s + of_nat j * W + of_nat k))"
proof (induction n arbitrary: i m)
  case (Suc n)
  let ?r = "vx_corner s + of_nat i * W" and ?q = "vx_corner s + of_nat j * W + of_nat k"
  let ?m = "glyph_row (m (a + of_nat i)) fg ?r m"
  show ?case
  proof (cases "i = j")
    case True
    have "glyph_loop (vx_corner s) a W fg (Suc i) n ?m ?q = ?m ?q"
    proof (rule glyph_loop_frame, intro allI impI notI)
      fix j' k' assume j': "Suc i \<le> j' \<and> j' < Suc i + n \<and> k' < 8" and eq: "?q = vx_corner s + of_nat j' * W + of_nat k'"
      then have "j = j'" using cell_pixel_inject [OF assms(1) _ assms(3) _ _ eq] Suc.prems by auto
      then show False using j' True by simp
    qed
    then show ?thesis using glyph_row_pixel [OF assms(3)] True by simp
  next
    case False
    have "?m (a + of_nat j) = m (a + of_nat j)"
    proof (rule glyph_row_frame, intro allI impI notI)
      fix k' :: nat assume k': "k' < 8" and eq: "a + of_nat j = ?r + of_nat k'"
      have ij: "i < 16" "j < 16" using Suc.prems by simp_all
      then show False using cell_pixel(2) [OF assms(1) ij(1) k'] assms(2) [rule_format, OF ij(2)] unfolding eq by blast
    qed
    moreover have "?m ?q = m ?q"
      by (rule glyph_row_frame) (use cell_pixel_inject [OF assms(1), of j k i] Suc.prems False assms(3) in fastforce)
    ultimately show ?thesis using Suc.IH [of "Suc i" ?m] Suc.prems False by simp
  qed
qed simp

lemmas glyph_pixels = glyph_loop_pixels [where i = 0 and n = 16, simplified]

section \<open>The graphical console as a console\<close>

abbreviation vx_same :: "(u32 \<Rightarrow> bool) \<Rightarrow> vx_screen \<Rightarrow> vx_screen \<Rightarrow> bool" where
  "vx_same \<equiv> same_but vx_mem (\<lambda>m s. s\<lparr>vx_mem := m\<rparr>)"

lemma vx_same_mem: "vx_same B s t \<longleftrightarrow> (\<exists>m. t = s\<lparr>vx_mem := m\<rparr> \<and> (\<forall>q. \<not> B q \<longrightarrow> vx_mem s q = m q))"
  unfolding same_but_def by (cases s; cases t) auto

lemma glyph_in_table:
  assumes "fonts s = F" and "j < 16"
  shows "glyphs F (font_of s c + of_nat j)"
proof -
  have r: "- 128 \<le> sint c" "sint c < 128" using sint_ge [of c] sint_lt [of c] by simp_all
  have w: "word_of_int (16 * x + int j + 2048) = 16 * (word_of_int x :: u32) + of_nat j + 2048" for x by simp
  have "font_of s c + of_nat j - F + 2048 = 16 * scast c + of_nat j + 2048" using assms(1) by (simp add: font_of_def)
  then have "font_of s c + of_nat j - F + 2048 = word_of_int (16 * sint c + int j + 2048)"
    unfolding w scast_eq [symmetric] .
  moreover have "uint (word_of_int (16 * sint c + int j + 2048) :: u32) = 16 * sint c + int j + 2048"
    unfolding uint_word_of_int_eq using r assms(2) by (intro take_bit_int_eq_self) auto
  ultimately have "uint (font_of s c + of_nat j - F + 2048) = 16 * sint c + int j + 2048" by (simp only:)
  then have "uint (font_of s c + of_nat j - F + 2048) < 4096" using r assms(2) by linarith
  then show ?thesis unfolding glyphs_def uint_nat by linarith
qed

lemma vx_newline_same: "vx_same B s t \<Longrightarrow> vx_same B (vx_newline s) (vx_newline t)"
proof -
  assume "vx_same B s t"
  then obtain m where t: "t = s\<lparr>vx_mem := m\<rparr>" and m: "\<forall>q. \<not> B q \<longrightarrow> vx_mem s q = m q" unfolding vx_same_mem by blast
  show ?thesis using fill_rows_same [OF m] unfolding t same_but_def by (simp add: vx_newline_def cls_line_def Let_def)
qed

lemma vx_putchar_same:
  assumes "vx_ok W H V F s" and "vx_same B s t" and "\<forall>q. B q \<longrightarrow> \<not> glyphs F q"
  shows "vx_same B (vx_putchar c s) (vx_putchar c t)"
proof -
  obtain m where t: "t = s\<lparr>vx_mem := m\<rparr>" and m: "\<forall>q. \<not> B q \<longrightarrow> vx_mem s q = m q"
    using assms(2) unfolding vx_same_mem by blast
  have "fonts s = F" using assms(1) by (simp add: vx_ok_def)
  then have nb: "\<forall>j. 0 \<le> j \<and> j < 0 + 16 \<longrightarrow> \<not> B (font_of s c + of_nat j)"
    using glyph_in_table assms(3) by auto
  have "vx_same B (drawn c s) (drawn c t)"
    using glyph_loop_same [OF m nb] unfolding t same_but_def by (simp add: drawn_def vx_corner_def font_of_def)
  then show ?thesis
    using vx_newline_same [OF assms(2)] vx_newline_same [of B "drawn c s" "drawn c t"] by (simp add: vx_putchar_eq t)
qed

lemma vx_itoa_tk: "vx_itoa = tk_itoa"
  by (rule ext)+ (simp add: vx_itoa_def tk_itoa_def)

interpretation vx: console "\<lambda>c. vx_putchar (ucast c)" vx_mem "\<lambda>m s. s\<lparr>vx_mem := m\<rparr>" vx_itoa "vx_ok W H V F" "picture W H V" "glyphs F"
  for W H V F
proof
  show "vx_same B (vx_putchar (ucast c) s) (vx_putchar (ucast c) t)"
    if "vx_ok W H V F s" "vx_ok W H V F t" "vx_same B s t" "\<forall>q. B q \<longrightarrow> \<not> glyphs F q" for s t B and c :: u32
    by (rule vx_putchar_same [OF that(1,3,4)])
qed (simp_all add: vx_putchar_ok vx_putchar_frame vx_okI_mem vx_itoa_tk tk_itoa_text)

section \<open>Properties\<close>

text \<open>
  C37. The graphical console: a character keeps the cursor inside the picture and changes no byte outside it. When it is no
  line break and the cursor stays on its line, each of the 8 by 16 pixels of the cell takes the foreground colour exactly
  where the glyph has a bit, provided the glyph itself does not lie in the picture.
\<close>

theorem vx_putchar_correct:
  assumes "vx_ok W H V F s" and "\<forall>j < 16. \<not> picture W H V (font_of s c + of_nat j)"
  shows "vx_ok W H V F (vx_putchar c s) \<and> (\<forall>q. vx_mem (vx_putchar c s) q \<noteq> vx_mem s q \<longrightarrow> picture W H V q) \<and>
    (c \<noteq> 0x0a \<and> c \<noteq> 0x0d \<and> vx_xpos s + 1 < vx_COLUMNS s \<longrightarrow>
      (\<forall>j < 16. \<forall>k < 8. vx_mem (vx_putchar c s) (vx_corner s + of_nat j * W + of_nat k) =
        (if bit (vx_mem s (font_of s c + of_nat j)) (7 - k) then fgcolor s else vx_mem s (vx_corner s + of_nat j * W + of_nat k))))"
proof (intro conjI allI impI)
  show "vx_ok W H V F (vx_putchar c s)" by (rule vx_putchar_ok [OF assms(1)])
  show "picture W H V q" if "vx_mem (vx_putchar c s) q \<noteq> vx_mem s q" for q
    using vx_putchar_frame [OF assms(1)] that by blast
  fix j k :: nat
  assume c: "c \<noteq> 0x0a \<and> c \<noteq> 0x0d \<and> vx_xpos s + 1 < vx_COLUMNS s" and j: "j < 16" and k: "k < 8"
  have w: "vi_vx (vram_info s) = W" using assms(1) by (simp add: vx_ok_def)
  have "vx_mem (vx_putchar c s) = glyph_loop (vx_corner s) (font_of s c) W (fgcolor s) 0 16 (vx_mem s)"
  proof -
    have "\<not> vx_COLUMNS s \<le> vx_xpos s + 1" using c by (simp add: not_le)
    then show ?thesis using c w by (simp add: vx_putchar_eq drawn_def)
  qed
  then show "vx_mem (vx_putchar c s) (vx_corner s + of_nat j * W + of_nat k) =
      (if bit (vx_mem s (font_of s c + of_nat j)) (7 - k) then fgcolor s else vx_mem s (vx_corner s + of_nat j * W + of_nat k))"
    using glyph_pixels [OF assms(1,2) k j] by simp
qed

definition demo_vx :: vx_screen where
  "demo_vx = \<lparr>vx_xpos = 0, vx_ypos = 1, vx_COLUMNS = 2, vx_LINES = 2, fgcolor = 5, bgcolor = 7, fonts = 0x200000,
     vram_info = \<lparr>table_rgb = rgb_table, vi_vx = 16, vi_vy = 32, vi_vram = 0x100000\<rparr>,
     vx_mem = put_bytes 0x2000 [0x25, 0x78, 0] (\<lambda>_. 0x80)\<rparr>"

lemma demo_vx_ok: "vx_ok 16 32 0x100000 0x200000 demo_vx"
  by (simp add: vx_ok_def demo_vx_def)

theorem vx_putchar_correct_witness:
  "vx_ok 16 32 0x100000 0x200000 (vx_putchar 0x41 demo_vx) \<and> vx_mem (vx_putchar 0x41 demo_vx) (vx_corner demo_vx + 3 * 16) = 5"
proof -
  have f: "font_of demo_vx 0x41 = 0x200410" by code_simp
  have far: "\<not> picture 16 32 0x100000 (font_of demo_vx 0x41 + of_nat j)" if "j < 16" for j
  proof -
    have "unat (font_of demo_vx 0x41 + of_nat j - 0x200410) < 16" using that by (simp add: f unsigned_of_nat take_bit_nat_eq_self)
    then show ?thesis unfolding picture_def by (rule regions_apart) simp_all
  qed
  have b: "bit (vx_mem demo_vx (font_of demo_vx 0x41 + 3)) 7" unfolding f by code_simp
  have c: "vx_xpos demo_vx + 1 < vx_COLUMNS demo_vx" "fgcolor demo_vx = 5" by (simp_all add: demo_vx_def)
  have n: "(0x41 :: u8) \<noteq> 0x0a \<and> (0x41 :: u8) \<noteq> 0x0d \<and> vx_xpos demo_vx + 1 < vx_COLUMNS demo_vx" using c by simp
  have far': "\<forall>j < 16. \<not> picture 16 32 0x100000 (font_of demo_vx 0x41 + of_nat j)" using far by blast
  note v = vx_putchar_correct [OF demo_vx_ok far']
  show ?thesis using conjunct1 [OF v] mp [OF conjunct2 [OF conjunct2 [OF v]] n, rule_format, of 3 0] b c(2) by simp
qed

text \<open>
  Equivalence of \<^verbatim>\<open>vx_printf\<close> with its text: given enough fuel it returns, and the picture is the one that the
  characters of the formatted text, drawn one by one, produce; the only other bytes that may differ are those of its buffer.
\<close>

theorem vx_printf_renders:
  assumes "buffer_ok (picture W H V) (glyphs F) buf"
    and "text_at (picture W H V) buf (vx_mem s) format fmt" and "args_ok (picture W H V) str nullstr buf L (vx_mem s) arg 0 fmt"
    and "vx_ok W H V F s" and "length fmt + max L 11 < fuel"
  shows "\<exists>s'. vx_printf fuel nullstr buf format arg s = Inr s' \<and>
    vx_same (in_buf buf) s' (put_all (\<lambda>c. vx_putchar (ucast c)) (render str nullstr arg 0 fmt) s) \<and> vx_ok W H V F s'"
  unfolding vx_printf_def by (rule vx.printf_loop_text [OF assms])

theorem vx_printf_renders_witness:
  "\<exists>s'. vx_printf 30 0x3000 0x1000 0x2000 (\<lambda>_. 0x3f) demo_vx = Inr s' \<and>
    vx_same (in_buf 0x1000) s' (put_all (\<lambda>c. vx_putchar (ucast c)) [0x33, 0x66] demo_vx) \<and> vx_ok 16 32 0x100000 0x200000 s'"
proof -
  let ?T = "picture 16 32 0x100000" and ?fmt = "[0x25, 0x78] :: u8 list"
  let ?m = "put_bytes 0x2000 [0x25, 0x78, 0] (\<lambda>_. 0x80)"
  have m: "vx_mem demo_vx = ?m" by (simp add: demo_vx_def)
  have nb: "\<not> ?T q \<and> \<not> glyphs 0x200000 q" if "unat (q - 0x1000) < 0x1100" for q
  proof
    show "\<not> ?T q" unfolding picture_def by (rule regions_apart [OF that]) simp_all
    have "q - 0x200000 + 2048 = q - 0x1FF800" by simp
    moreover have "\<not> unat (q - 0x1FF800) < 4096" by (rule regions_apart [OF that]) simp_all
    ultimately show "\<not> glyphs 0x200000 q" by (simp only: glyphs_def not_False_eq_True)
  qed
  then have b: "buffer_ok ?T (glyphs 0x200000) 0x1000" by (simp add: buffer_ok_def in_buf_def)
  have q: "quiet ?T 0x1000 (0x2000 + of_nat i)" if "i \<le> 2" for i :: nat
  proof -
    have "unat (0x2000 + of_nat i - 0x1000 :: u32) = 0x1000 + i"
      using offset_unat [of "0x1000" i] that by simp
    then show ?thesis using nb [of "0x2000 + of_nat i"] that by (simp add: quiet_def in_buf_def)
  qed
  have "bytes_at ?m 0x2000 (?fmt @ [0])" by code_simp
  then have t: "text_at ?T 0x1000 ?m 0x2000 ?fmt" using q by (simp add: text_at_def del: put_bytes.simps bytes_at.simps)
  have a: "args_ok ?T (\<lambda>_. []) 0x3000 0x1000 0 ?m (\<lambda>_. 0x3f) 0 ?fmt" by simp
  have r: "render (\<lambda>_. []) 0x3000 (\<lambda>_. 0x3f) 0 ?fmt = [0x33, 0x66]" by code_simp
  show ?thesis using vx_printf_renders [OF b t [folded m] a [folded m] demo_vx_ok, of 30] unfolding r by simp
qed

section \<open>The start of the adapter\<close>

lemma fill_rows_at:
  "len < 2 ^ 32 \<Longrightarrow> fill_rows p w len y n v m q = (if \<exists>r < n. unat (q - (p + (y + of_nat r) * w)) < len then v else m q)"
proof (induction n arbitrary: y m)
  case (Suc n)
  have "(\<exists>r < Suc n. unat (q - (p + (y + of_nat r) * w)) < len) \<longleftrightarrow>
      unat (q - (p + y * w)) < len \<or> (\<exists>r < n. unat (q - (p + (y + 1 + of_nat r) * w)) < len)"
    by (auto simp: Ex_less_Suc2 add.assoc)
  then show ?case using Suc.IH [OF Suc.prems, of "y + 1"] fill_row_at [OF Suc.prems, of "p + y * w" v m q] by auto
qed simp

text \<open>The rows of a picture 1024 pixels wide, by the offset of a byte in it.\<close>

lemma box_rows:
  assumes "y + n \<le> 1024" and "x + len \<le> 1025"
  shows "(\<exists>r < n. unat (q - (p + of_nat x + (of_nat y + of_nat r) * 1024) :: u32) < len) \<longleftrightarrow>
    (\<exists>r < n. (y + r) * 1024 + x \<le> unat (q - p) \<and> unat (q - p) < (y + r) * 1024 + x + len)"
proof -
  have "unat (q - (p + of_nat x + (of_nat y + of_nat r) * 1024)) < len \<longleftrightarrow>
      (y + r) * 1024 + x \<le> unat (q - p) \<and> unat (q - p) < (y + r) * 1024 + x + len" if "r < n" for r
  proof -
    let ?e = "(y + r) * 1024 + x"
    have e: "?e + len \<le> 2 ^ 21" using that assms by simp
    have w: "q - (p + of_nat x + (of_nat y + of_nat r) * 1024) = (q - p) - of_nat ?e" by (simp add: algebra_simps)
    have ue: "unat (of_nat ?e :: u32) = ?e" using e by (subst unsigned_of_nat) (simp add: take_bit_nat_eq_self)
    show ?thesis
    proof (cases "?e \<le> unat (q - p)")
      case True
      then have "unat ((q - p) - of_nat ?e) = unat (q - p) - ?e" by (subst unat_sub) (simp_all only: word_le_nat_alt ue)
      then show ?thesis unfolding w using True by auto
    next
      case False
      have "\<not> unat ((q - p) - of_nat ?e) < len"
        using regions_apart [of "q - p" 0 ?e "of_nat ?e" len] False ue e by simp
      then show ?thesis unfolding w using False by simp
    qed
  qed
  then show ?thesis by blast
qed

definition palette_writes :: "u8 list \<Rightarrow> access list" where
  "palette_writes bs = map (\<lambda>b. Out8 0x03c9 (b div 4)) bs"

lemma palette_loop_trace:
  "rgb + 3 * n \<le> length (info_bytes (vga_info s)) \<Longrightarrow> \<exists>s'. palette_loop P rgb n s = Inr s' \<and>
    trace s' = trace s @ palette_writes (take (3 * n) (drop rgb (info_bytes (vga_info s)))) \<and> io.more s' = io.more s"
proof (induction n arbitrary: rgb s)
  case (Suc n)
  let ?bs = "info_bytes (vga_info s)"
  let ?s = "outb P 0x03c9 (?bs ! (rgb + 2) div 4) (outb P 0x03c9 (?bs ! (rgb + 1) div 4) (outb P 0x03c9 (?bs ! rgb div 4) s))"
  have i: "vga_info ?s = vga_info s" by (simp add: outb_def)
  have "drop rgb ?bs = ?bs ! rgb # ?bs ! (rgb + 1) # ?bs ! (rgb + 2) # drop (rgb + 3) ?bs"
    using Suc.prems by (simp add: Cons_nth_drop_Suc [symmetric] eval_nat_numeral)
  then have t: "take (3 * Suc n) (drop rgb ?bs) = ?bs ! rgb # ?bs ! (rgb + 1) # ?bs ! (rgb + 2) # take (3 * n) (drop (rgb + 3) ?bs)"
    by (simp add: eval_nat_numeral)
  obtain s' where "palette_loop P (rgb + 3) n ?s = Inr s'"
      "trace s' = trace ?s @ palette_writes (take (3 * n) (drop (rgb + 3) ?bs))" "io.more s' = io.more ?s"
    using Suc.IH [of "rgb + 3" ?s] Suc.prems unfolding i by auto
  then show ?case using Suc.prems t by (simp add: palette_writes_def)
qed (simp add: palette_writes_def)

lemma vga_more: "io.more s' = io.more s \<Longrightarrow> vga_info s' = vga_info s \<and> vga_mem s' = vga_mem s \<and> vga_sti s' = vga_sti s"
  for s s' :: "'d vga"
  by (cases s; cases s') simp

lemma boxfill8_at:
  assumes "vi_vx (vga_info s) = 1024" and "y + n \<le> 1024" and "x + len \<le> 1025" and "0 < n" and "0 < len"
  shows "vga_mem (boxfill8 c (int x) (int y) (int (x + len) - 1) (int (y + n) - 1) s) q =
    (if \<exists>r < n. (y + r) * 1024 + x \<le> unat (q - vi_vram (vga_info s)) \<and> unat (q - vi_vram (vga_info s)) < (y + r) * 1024 + x + len
     then c else vga_mem s q)"
proof -
  have "nat (int (x + len) - 1 - int x + 1) = len" "nat (int (y + n) - 1 - int y + 1) = n" by simp_all
  then have "vga_mem (boxfill8 c (int x) (int y) (int (x + len) - 1) (int (y + n) - 1) s) q =
      fill_rows (vi_vram (vga_info s) + of_nat x) 1024 len (of_nat y) n c (vga_mem s) q"
    using assms(1) by (simp add: boxfill8_def)
  also have "\<dots> = (if \<exists>r < n. unat (q - (vi_vram (vga_info s) + of_nat x + (of_nat y + of_nat r) * 1024)) < len then c else vga_mem s q)"
    by (rule fill_rows_at) (use assms(3) in simp)
  finally show ?thesis unfolding box_rows [OF assms(2,3)] .
qed

lemma box_one: "(\<exists>r < 769. r * 1024 \<le> k \<and> k < r * 1024 + 1025) \<longleftrightarrow> k \<le> 1024 * 768 + (1024 :: nat)"
proof
  assume "k \<le> 1024 * 768 + 1024"
  then show "\<exists>r < 769. r * 1024 \<le> k \<and> k < r * 1024 + 1025"
    by (intro exI [of _ "if k = 1024 * 769 then 768 else k div 1024"]) auto
qed auto

lemma box_two: "(\<exists>r < 101. (200 + r) * 1024 + 300 \<le> k \<and> k < (200 + r) * 1024 + 300 + (101 :: nat)) \<longleftrightarrow>
    300 \<le> k mod 1024 \<and> k mod 1024 \<le> 400 \<and> 200 \<le> k div 1024 \<and> k div 1024 \<le> 300"
proof
  assume "\<exists>r < 101. (200 + r) * 1024 + 300 \<le> k \<and> k < (200 + r) * 1024 + 300 + 101"
  then obtain r where r: "r < 101" "(200 + r) * 1024 + 300 \<le> k" "k < (200 + r) * 1024 + 300 + 101" by blast
  then have "(200 + r) * 1024 \<le> k" by simp
  then obtain t where t: "k = (200 + r) * 1024 + t" using le_Suc_ex by blast
  then have "300 \<le> t" "t \<le> 400" using r by simp_all
  moreover have "k mod 1024 = t mod 1024" "k div 1024 = 200 + r + t div 1024" unfolding t by (rule mod_mult_self3) simp
  ultimately show "300 \<le> k mod 1024 \<and> k mod 1024 \<le> 400 \<and> 200 \<le> k div 1024 \<and> k div 1024 \<le> 300"
    using r(1) by simp
next
  assume k: "300 \<le> k mod 1024 \<and> k mod 1024 \<le> 400 \<and> 200 \<le> k div 1024 \<and> k div 1024 \<le> 300"
  have "k div 1024 * 1024 + k mod 1024 = k" by simp
  then have "k div 1024 * 1024 + 300 \<le> k" "k < k div 1024 * 1024 + 300 + 101" using k by linarith+
  then show "\<exists>r < 101. (200 + r) * 1024 + 300 \<le> k \<and> k < (200 + r) * 1024 + 300 + 101"
    using k by (intro exI [of _ "k div 1024 - 200"]) auto
qed

definition mode_writes :: "access list" where
  "mode_writes = [Out16 0x01ce 4, Out16 0x01cf 0, Out16 0x01ce 1, Out16 0x01cf 1024, Out16 0x01ce 2, Out16 0x01cf 768,
     Out16 0x01ce 3, Out16 0x01cf 8, Out16 0x01ce 5, Out16 0x01cf 0, Out16 0x01ce 4, Out16 0x01cf 0xc1]"

lemma init_qemuvga0_trace:
  "trace (init_qemuvga0 P 1024 768 8 0xc1 s) = trace s @ mode_writes"
  "vga_info (init_qemuvga0 P 1024 768 8 0xc1 s) = (vga_info s)\<lparr>vi_vx := 1024, vi_vy := 768, vi_vram := 0xe0000000\<rparr>"
  "vga_mem (init_qemuvga0 P 1024 768 8 0xc1 s) = vga_mem s" "vga_sti (init_qemuvga0 P 1024 768 8 0xc1 s) = vga_sti s"
  by (simp_all add: init_qemuvga0_def set_qemuvga0reg_def outw_def Let_def mode_writes_def)

text \<open>
  The start of the adapter: on any hardware and whatever the heap held, \<^verbatim>\<open>init_vga\<close> returns with the mode 1024 by 768
  set and interrupts on. It sends 17 palette entries, the last of them the first three bytes of the uninitialised field behind
  the table of 16. The picture is black with a box of colour 1, and 1025 bytes behind its last pixel are cleared as well.
\<close>

theorem init_vga_correct:
  "\<exists>s'. init_vga P heap s = Inr s' \<and> vga_sti s' \<and>
     vi_vx (vga_info s') = 1024 \<and> vi_vy (vga_info s') = 768 \<and> vi_vram (vga_info s') = 0xe0000000 \<and>
     trace s' = trace s @ Out8 0x03c8 0 # palette_writes (rgb_table @ take 3 (le_bytes (vi_vx heap))) @ mode_writes \<and>
     (\<forall>q. vga_mem s' q =
       (let k = unat (q - 0xe0000000); x = k mod 1024; y = k div 1024 in
        if k \<le> 1024 * 768 + 1024 then (if 300 \<le> x \<and> x \<le> 400 \<and> 200 \<le> y \<and> y \<le> 300 then 1 else 0) else vga_mem s q))"
proof -
  let ?i = "VramInfo_new (vi_vx heap) (vi_vy heap) (vi_vram heap)"
  let ?s0 = "outb P 0x03c8 0 (s\<lparr>vga_info := ?i, vga_sti := False\<rparr>)"
  have i0: "vga_info ?s0 = ?i" "vga_mem ?s0 = vga_mem s" by (simp_all add: outb_def)
  have bytes: "info_bytes ?i = rgb_table @ le_bytes (vi_vx heap) @ le_bytes (vi_vy heap) @ le_bytes (vi_vram heap)"
    by (simp add: info_bytes_def VramInfo_new_def)
  have len: "length rgb_table = 48" "length (le_bytes w) = 4" for w by (simp_all add: rgb_table_def le_bytes_def)
  obtain s1 where s1: "palette_loop P 0 17 ?s0 = Inr s1"
      "trace s1 = trace ?s0 @ palette_writes (take 51 (info_bytes ?i))" "io.more s1 = io.more ?s0"
    using palette_loop_trace [of 0 17 ?s0 P] unfolding i0 by (auto simp: bytes len)
  have m1: "vga_info s1 = ?i" "vga_mem s1 = vga_mem s" using vga_more [OF s1(3)] i0 by simp_all
  let ?s2 = "init_qemuvga0 P 1024 768 8 0xc1 (s1\<lparr>vga_sti := True\<rparr>)"
  let ?s3 = "boxfill8 0x00 0 0 1024 768 ?s2" let ?s4 = "boxfill8 0x01 300 200 400 300 ?s3"
  have run: "init_vga P heap s = Inr ?s4"
    using s1(1) by (simp add: init_vga_def init_palette_def set_palette_def nr_color_def Let_def)
  have i2: "vi_vx (vga_info ?s2) = 1024" "vi_vy (vga_info ?s2) = 768" "vi_vram (vga_info ?s2) = 0xe0000000"
      "vga_mem ?s2 = vga_mem s" by (simp_all add: init_qemuvga0_trace m1)
  have i3: "vga_info ?s3 = vga_info ?s2" "vga_info ?s4 = vga_info ?s2" "trace ?s4 = trace ?s2" "vga_sti ?s4 = vga_sti ?s2"
    by (simp_all add: boxfill8_def)
  have tr: "trace ?s4 = trace s @ Out8 0x03c8 0 # palette_writes (rgb_table @ take 3 (le_bytes (vi_vx heap))) @ mode_writes"
    using s1(2) unfolding i3 init_qemuvga0_trace by (simp add: bytes len outb_def)
  have small: "k div 1024 \<le> 300 \<Longrightarrow> k \<le> 1024 * 768 + 1024" for k :: nat
    using div_mult_mod_eq [of k 1024] mod_less_divisor [of 1024 k] by linarith
  have px: "vga_mem ?s4 q = (let k = unat (q - 0xe0000000); x = k mod 1024; y = k div 1024 in
        if k \<le> 1024 * 768 + 1024 then (if 300 \<le> x \<and> x \<le> 400 \<and> 200 \<le> y \<and> y \<le> 300 then 1 else 0) else vga_mem s q)" for q
    using boxfill8_at [of ?s2 0 769 0 1025 0 q] boxfill8_at [of ?s3 200 101 300 101 1 q] i2 i3
      box_one [of "unat (q - 0xe0000000)"] box_two [of "unat (q - 0xe0000000)"]
      small [of "unat (q - 0xe0000000)"] by (auto simp: Let_def)
  show ?thesis using run tr px i2 i3 by (intro exI [of _ ?s4]) (simp add: init_qemuvga0_trace)
qed

end
