(* ===== verification/Boot_Info.thy ===== *)
theory Boot_Info
  imports PFAllocator_Boot
begin

unbundle bit_operations_syntax

text \<open>
  The boot information, \<^verbatim>\<open>src/kernel/mbi_read.cpp\<close>: the structures of \<^verbatim>\<open>src/include/os/multiboot.h\<close> that the boot loader
  leaves in memory, the walk over its memory map that fills the page frame allocator, and the walk over the section
  headers of the kernel image that takes the image out again. What the routine prints is left out.

  The structures are read from the word memory \<open>mem\<close>. The step from one entry of the map to the next is the size that
  the entry itself names, so that a loop over a bad map may never end: the walk carries fuel.
\<close>

section \<open>Structures\<close>

record multiboot_info =
  mbi_flags :: u32
  mem_lower :: u32
  mem_upper :: u32
  boot_device :: u32
  cmdline :: u32
  mods_count :: u32
  mods_addr :: u32
  elf_num :: u32
  elf_size :: u32
  elf_addr :: u32
  elf_shndx :: u32
  mmap_length :: u32
  mmap_addr :: u32
  drives_length :: u32
  drives_addr :: u32
  config_table :: u32
  boot_loader_name :: u32
  apm_table :: u32
  vbe_control_info :: u32
  vbe_mode_info :: u32
  vbe_mode :: u16
  vbe_interface_seg :: u16
  vbe_interface_off :: u16
  vbe_interface_len :: u16

definition mbi_at :: "mem \<Rightarrow> u32 \<Rightarrow> multiboot_info" where
  "mbi_at m a =
     \<lparr>mbi_flags = m a, mem_lower = m (a + 4), mem_upper = m (a + 8), boot_device = m (a + 12), cmdline = m (a + 16),
      mods_count = m (a + 20), mods_addr = m (a + 24), elf_num = m (a + 28), elf_size = m (a + 32), elf_addr = m (a + 36),
      elf_shndx = m (a + 40), mmap_length = m (a + 44), mmap_addr = m (a + 48), drives_length = m (a + 52),
      drives_addr = m (a + 56), config_table = m (a + 60), boot_loader_name = m (a + 64), apm_table = m (a + 68),
      vbe_control_info = m (a + 72), vbe_mode_info = m (a + 76), vbe_mode = ucast (m (a + 80)),
      vbe_interface_seg = ucast (drop_bit 16 (m (a + 80))), vbe_interface_off = ucast (m (a + 84)),
      vbe_interface_len = ucast (drop_bit 16 (m (a + 84)))\<rparr>"

record multiboot_mmap_entry =
  mm_size :: u32
  mm_addr_low :: u32
  mm_addr_high :: u32
  mm_len_low :: u32
  mm_len_high :: u32
  mm_type :: u32

definition mmap_entry_at :: "mem \<Rightarrow> u32 \<Rightarrow> multiboot_mmap_entry" where
  "mmap_entry_at m a =
     \<lparr>mm_size = m a, mm_addr_low = m (a + 4), mm_addr_high = m (a + 8), mm_len_low = m (a + 12), mm_len_high = m (a + 16),
      mm_type = m (a + 20)\<rparr>"

text \<open>The two fields of \<^verbatim>\<open>Elf32_Shdr\<close> that are read, and its size.\<close>

definition sh_addr :: "mem \<Rightarrow> u32 \<Rightarrow> u32" where "sh_addr m a = m (a + 12)"
definition sh_size :: "mem \<Rightarrow> u32 \<Rightarrow> u32" where "sh_size m a = m (a + 20)"
definition sizeof_Shdr :: u32 where "sizeof_Shdr = 40"

definition MULTIBOOT_BOOTLOADER_MAGIC :: u32 where "MULTIBOOT_BOOTLOADER_MAGIC = 0x2BADB002"

definition CHECK_FLAG :: "u32 \<Rightarrow> nat \<Rightarrow> bool" where
  "CHECK_FLAG flags b \<longleftrightarrow> flags AND push_bit b 1 \<noteq> 0"

section \<open>Reading\<close>

record boot_state =
  bi_mem_size :: u32
  bi_pfa :: PFAllocator

definition free_region :: "multiboot_mmap_entry \<Rightarrow> boot_state \<Rightarrow> boot_state kres" where
  "free_region e s =
     (if mm_type e = 0x01 \<or> mm_type e = 0x03 then
        (let addr_end = mm_addr_low e + mm_len_low e;
             s = (if bi_mem_size s < addr_end then s\<lparr>bi_mem_size := addr_end\<rparr> else s)
         in rbind (addChunk (bi_pfa s) (mm_addr_low e) (mm_addr_low e + mm_len_low e)) (\<lambda>a. Inr (s\<lparr>bi_pfa := a\<rparr>)))
      else Inr s)"

fun mmap_loop :: "nat \<Rightarrow> mem \<Rightarrow> u32 \<Rightarrow> u32 \<Rightarrow> boot_state \<Rightarrow> boot_state kres" where
  "mmap_loop 0 m mmap lim s = Inl Hang"
| "mmap_loop (Suc fuel) m mmap lim s =
     (if mmap < lim then
        rbind (free_region (mmap_entry_at m mmap) s) (\<lambda>s.
          mmap_loop fuel m (mmap + mm_size (mmap_entry_at m mmap) + 4) lim s)
      else Inr s)"

fun section_loop :: "mem \<Rightarrow> u32 \<Rightarrow> nat \<Rightarrow> boot_state \<Rightarrow> boot_state kres" where
  "section_loop m entry 0 s = Inr s"
| "section_loop m entry (Suc n) s =
     rbind (removeChunk (bi_pfa s) (sh_addr m entry) (sh_addr m entry + sh_size m entry)) (\<lambda>a.
       section_loop m (entry + sizeof_Shdr) n (s\<lparr>bi_pfa := a\<rparr>))"

definition mbi_read :: "nat \<Rightarrow> mem \<Rightarrow> u32 \<Rightarrow> u32 \<Rightarrow> boot_state \<Rightarrow> boot_state kres" where
  "mbi_read fuel m addr magic s =
     (if magic \<noteq> MULTIBOOT_BOOTLOADER_MAGIC then Inr s
      else
        (let mbi = mbi_at m addr in
         if CHECK_FLAG (mbi_flags mbi) 4 \<and> CHECK_FLAG (mbi_flags mbi) 5 then Inr s
         else
           rbind (if CHECK_FLAG (mbi_flags mbi) 6
                  then mmap_loop fuel m (mmap_addr mbi) (mmap_addr mbi + mmap_length mbi) (s\<lparr>bi_mem_size := 0\<rparr>)
                  else Inr s) (\<lambda>s.
             if CHECK_FLAG (mbi_flags mbi) 5 then section_loop m (elf_addr mbi) (unat (elf_num mbi)) s
             else Inr s)))"

section \<open>Lists of regions and sections\<close>

text \<open>The entries that a walk from \<open>a\<close> meets before it reaches \<open>lim\<close>, and the sections in the table.\<close>

fun map_at :: "mem \<Rightarrow> u32 \<Rightarrow> u32 \<Rightarrow> multiboot_mmap_entry list \<Rightarrow> bool" where
  "map_at m a lim [] \<longleftrightarrow> \<not> a < lim"
| "map_at m a lim (e # es) \<longleftrightarrow> a < lim \<and> mmap_entry_at m a = e \<and> map_at m (a + mm_size e + 4) lim es"

definition sections_at :: "mem \<Rightarrow> u32 \<Rightarrow> nat \<Rightarrow> (u32 \<times> u32) list" where
  "sections_at m a n = map (\<lambda>i. (sh_addr m (a + of_nat i * sizeof_Shdr), sh_size m (a + of_nat i * sizeof_Shdr))) [0..<n]"

fun free_regions :: "multiboot_mmap_entry list \<Rightarrow> boot_state \<Rightarrow> boot_state kres" where
  "free_regions [] s = Inr s"
| "free_regions (e # es) s = rbind (free_region e s) (free_regions es)"

fun remove_sections :: "(u32 \<times> u32) list \<Rightarrow> boot_state \<Rightarrow> boot_state kres" where
  "remove_sections [] s = Inr s"
| "remove_sections ((b, n) # ss) s =
     rbind (removeChunk (bi_pfa s) b (b + n)) (\<lambda>a. remove_sections ss (s\<lparr>bi_pfa := a\<rparr>))"

lemma mmap_loop_regions: "map_at m a lim es \<Longrightarrow> length es < fuel \<Longrightarrow> mmap_loop fuel m a lim s = free_regions es s"
proof (induction es arbitrary: a fuel s)
  case Nil
  then show ?case by (cases fuel) auto
next
  case (Cons e es)
  then obtain f where f: "fuel = Suc f" "length es < f" by (cases fuel) auto
  have "mmap_loop f m (a + mm_size e + 4) lim = free_regions es" using Cons f by (intro ext) simp
  then show ?case using Cons.prems f by simp
qed

lemma section_loop_sections: "section_loop m a n s = remove_sections (sections_at m a n) s"
proof (induction n arbitrary: a s)
  case (Suc n)
  have "sections_at m a (Suc n) = (sh_addr m a, sh_size m a) # sections_at m (a + sizeof_Shdr) n"
    unfolding sections_at_def upt_conv_Cons [OF zero_less_Suc]
    by (simp add: map_Suc_upt [symmetric] algebra_simps comp_def del: upt_Suc)
  then show ?case using Suc by simp
qed (simp add: sections_at_def)

section \<open>The free memory after the walk\<close>

definition usable :: "multiboot_mmap_entry \<Rightarrow> bool" where
  "usable e \<longleftrightarrow> mm_type e = 1 \<or> mm_type e = 3"

definition region_end :: "multiboot_mmap_entry \<Rightarrow> u32" where
  "region_end e = mm_addr_low e + mm_len_low e"

definition region_pages :: "multiboot_mmap_entry \<Rightarrow> nat set" where
  "region_pages e = (if usable e then {unat (mm_addr_low e) div 4096 ..< unat (region_end e) div 4096} else {})"

text \<open>Usable regions do not wrap around and share no page with each other or with \<open>F\<close>.\<close>

fun regions_ok :: "nat set \<Rightarrow> multiboot_mmap_entry list \<Rightarrow> bool" where
  "regions_ok F [] \<longleftrightarrow> True"
| "regions_ok F (e # es) \<longleftrightarrow>
     (usable e \<longrightarrow> mm_addr_low e \<le> region_end e) \<and> region_pages e \<inter> F = {} \<and> regions_ok (F \<union> region_pages e) es"

definition page_low :: "u32 \<Rightarrow> u32" where "page_low a = a AND NOT (ChunkSize - 1)"
definition page_high :: "u32 \<Rightarrow> u32" where "page_high a = (a + (ChunkSize - 1)) AND NOT (ChunkSize - 1)"

definition region_ext :: "multiboot_mmap_entry \<Rightarrow> extent" where
  "region_ext e = (page_low (mm_addr_low e), (page_low (region_end e) - page_low (mm_addr_low e)) div ChunkSize)"

fun boot_exts :: "multiboot_mmap_entry list \<Rightarrow> extent list \<Rightarrow> extent list" where
  "boot_exts [] xs = xs"
| "boot_exts (e # es) xs = boot_exts es (if usable e then free_insert (region_ext e) xs else xs)"

definition top_of :: "multiboot_mmap_entry list \<Rightarrow> u32 \<Rightarrow> u32" where
  "top_of es n = fold (\<lambda>e n. if usable e then max n (region_end e) else n) es n"

lemma free_insert_length: "length (free_insert x xs) \<le> Suc (length xs)"
  by (induction x xs rule: free_insert.induct) auto

lemma descriptors_exts: "descriptors_left a \<longleftrightarrow> length (free_exts a) + length (used_exts a) < MaxNumSeg"
  by (simp add: descriptors_left_def free_exts_def used_exts_def)

lemma free_regions_spec:
  "pfa_inv (bi_pfa s) \<Longrightarrow> regions_ok (free_frames (bi_pfa s) \<union> used_frames (bi_pfa s)) es \<Longrightarrow>
   length (free_exts (bi_pfa s)) + length (used_exts (bi_pfa s)) + length es < Suc MaxNumSeg \<Longrightarrow>
   \<exists>s'. free_regions es s = Inr s' \<and> pfa_inv (bi_pfa s') \<and>
     free_frames (bi_pfa s') = free_frames (bi_pfa s) \<union> (\<Union>e \<in> set es. region_pages e) \<and>
     used_exts (bi_pfa s') = used_exts (bi_pfa s) \<and> free_exts (bi_pfa s') = boot_exts es (free_exts (bi_pfa s)) \<and>
     length (free_exts (bi_pfa s')) \<le> length (free_exts (bi_pfa s)) + length es \<and> bi_mem_size s' = top_of es (bi_mem_size s)"
proof (induction es arbitrary: s)
  case Nil
  then show ?case by (simp add: top_of_def)
next
  case (Cons e es)
  show ?case
  proof (cases "usable e")
    case False
    then have st: "free_region e s = Inr s" and pg: "region_pages e = {}" by (auto simp: free_region_def usable_def region_pages_def)
    have "top_of (e # es) n = top_of es n" for n using False by (simp add: top_of_def)
    with Cons.IH [OF Cons.prems(1)] Cons.prems st pg False show ?thesis by (auto intro: le_SucI)
  next
    case True
    let ?a = "bi_pfa s" and ?n = "max (bi_mem_size s) (region_end e)"
    have dl: "descriptors_left ?a" using Cons.prems(3) by (simp add: descriptors_exts)
    have pg: "region_pages e = {unat (mm_addr_low e) div 4096 ..< unat (region_end e) div 4096}" using True by (simp add: region_pages_def)
    obtain a' where a': "addChunk ?a (mm_addr_low e) (region_end e) = Inr a'" "pfa_inv a'"
        "free_frames a' = free_frames ?a \<union> region_pages e" "used_exts a' = used_exts ?a"
        "free_exts a' = free_insert (region_ext e) (free_exts ?a)"
      using addChunk_spec [OF Cons.prems(1) dl, of "mm_addr_low e" "region_end e"] Cons.prems(2) True
      unfolding pg by (auto simp: region_ext_def page_low_def pg)
    let ?s = "s\<lparr>bi_mem_size := ?n, bi_pfa := a'\<rparr>"
    have st: "free_region e s = Inr ?s"
      using a'(1) True by (auto simp: free_region_def usable_def Let_def region_end_def max_def)
    have "used_frames a' = used_frames ?a" using a'(4) by (simp add: used_frames_def)
    then have "regions_ok (free_frames (bi_pfa ?s) \<union> used_frames (bi_pfa ?s)) es"
      using Cons.prems(2) a'(3) by (simp add: Un_ac)
    moreover have ln: "length (free_exts (bi_pfa ?s)) \<le> Suc (length (free_exts ?a))" using free_insert_length a'(5) by simp
    then have "length (free_exts (bi_pfa ?s)) + length (used_exts (bi_pfa ?s)) + length es < Suc MaxNumSeg"
      using Cons.prems(3) a'(4) by simp
    ultimately obtain s' where s': "free_regions es ?s = Inr s'" "pfa_inv (bi_pfa s')"
        "free_frames (bi_pfa s') = free_frames a' \<union> (\<Union>e \<in> set es. region_pages e)" "used_exts (bi_pfa s') = used_exts a'"
        "free_exts (bi_pfa s') = boot_exts es (free_exts a')" "length (free_exts (bi_pfa s')) \<le> length (free_exts a') + length es"
        "bi_mem_size s' = top_of es ?n"
      using Cons.IH [of ?s] a'(2) by auto
    have "free_frames (bi_pfa s') = free_frames ?a \<union> (\<Union>e \<in> set (e # es). region_pages e)" unfolding s'(3) a'(3) by auto
    moreover have "free_exts (bi_pfa s') = boot_exts (e # es) (free_exts ?a)" using s'(5) a'(5) True by simp
    moreover have "bi_mem_size s' = top_of (e # es) (bi_mem_size s)" using s'(7) True by (simp add: top_of_def)
    ultimately show ?thesis using s' st a'(4) ln by auto
  qed
qed

text \<open>Sections that \<^verbatim>\<open>removeChunk\<close> can take out of the free extents, one after the other.\<close>

fun sections_safe :: "(u32 \<times> u32) list \<Rightarrow> extent list \<Rightarrow> bool" where
  "sections_safe [] xs \<longleftrightarrow> True"
| "sections_safe ((b, n) # ss) xs \<longleftrightarrow>
     b \<le> b + n \<and> b + n \<le> 0xfffff000 \<and> list_all (cut_safe (page_low b) (page_high (b + n))) xs \<and>
     sections_safe ss (concat (map (cut_ext (page_low b) (page_high (b + n))) xs))"

definition section_pages :: "u32 \<times> u32 \<Rightarrow> nat set" where
  "section_pages x = {unat (fst x) div 4096 ..< (unat (fst x + snd x) + 4095) div 4096}"

lemma length_cuts: "length (concat (map (cut_ext b e) xs)) = length xs + splits b e xs"
  by (induction xs) (use length_cut_ext [of b e] in auto)

lemma remove_sections_spec:
  "pfa_inv (bi_pfa s) \<Longrightarrow> sections_safe ss (free_exts (bi_pfa s)) \<Longrightarrow>
   length (free_exts (bi_pfa s)) + length (used_exts (bi_pfa s)) + length ss < Suc MaxNumSeg \<Longrightarrow>
   \<exists>s'. remove_sections ss s = Inr s' \<and> pfa_inv (bi_pfa s') \<and>
     free_frames (bi_pfa s') = free_frames (bi_pfa s) - (\<Union>x \<in> set ss. section_pages x) \<and>
     used_exts (bi_pfa s') = used_exts (bi_pfa s) \<and> bi_mem_size s' = bi_mem_size s"
proof (induction ss arbitrary: s)
  case (Cons x ss)
  obtain b n where x: "x = (b, n)" by (cases x)
  let ?a = "bi_pfa s" and ?B = "page_low b" and ?E = "page_high (b + n)"
  have dl: "descriptors_left ?a" using Cons.prems(3) by (simp add: descriptors_exts)
  have safe: "b \<le> b + n" "b + n \<le> 0xfffff000" "list_all (cut_safe ?B ?E) (free_exts ?a)"
      "sections_safe ss (concat (map (cut_ext ?B ?E) (free_exts ?a)))" using Cons.prems(2) x by simp_all
  note r = removeChunk_refines [OF Cons.prems(1) dl safe(1,2)]
  obtain a' where a': "removeChunk ?a b (b + n) = Inr a'" "pfa_inv a'" "free_frames a' = free_frames ?a - section_pages x"
      "used_exts a' = used_exts ?a" "free_exts a' = concat (map (cut_ext ?B ?E) (free_exts ?a))"
    using removeChunk_spec [OF Cons.prems(1) dl safe(1,2)] safe(3) x by (auto simp: page_low_def page_high_def section_pages_def)
  have "exts_ok (free_exts ?a)" using Cons.prems(1) by (simp add: pfa_inv_def)
  then have "splits ?B ?E (free_exts ?a) \<le> 1"
    using splits_le_one [OF _ r(2), of "free_exts ?a"] r(4) by (simp add: page_low_def page_high_def)
  then have ln: "length (free_exts a') \<le> Suc (length (free_exts ?a))" unfolding a'(5) length_cuts by simp
  let ?s = "s\<lparr>bi_pfa := a'\<rparr>"
  have "length (free_exts (bi_pfa ?s)) + length (used_exts (bi_pfa ?s)) + length ss < Suc MaxNumSeg"
    using Cons.prems(3) ln a'(4) by simp
  then obtain s' where "remove_sections ss ?s = Inr s'" "pfa_inv (bi_pfa s')"
      "free_frames (bi_pfa s') = free_frames a' - (\<Union>x \<in> set ss. section_pages x)" "used_exts (bi_pfa s') = used_exts a'"
      "bi_mem_size s' = bi_mem_size s"
    using Cons.IH [of ?s] a'(2,5) safe(4) by auto
  then show ?case using a' x by auto
qed simp

section \<open>Properties\<close>

lemma init_exts: "free_exts init_PFAllocator = []" "used_exts init_PFAllocator = []"
  using pfa_wf_lists [of init_PFAllocator "{}" "[]" "[]"]
  by (simp_all add: pfa_wf_def init_PFAllocator_def MaxNumSeg_def free_exts_def used_exts_def)

lemma init_frames: "free_frames init_PFAllocator = {}" "used_frames init_PFAllocator = {}"
  by (simp_all add: free_frames_def used_frames_def init_exts)


text \<open>A boot information at \<open>0x9000\<close>: a map of two regions, and the kernel image from \<open>0x100000\<close> to \<open>0x108000\<close>.\<close>

definition demo_mbi :: "u32 \<Rightarrow> u32 \<Rightarrow> mem" where
  "demo_mbi low len = (\<lambda>_. 0)(0x9000 := 0x60, 0x901c := 1, 0x9024 := 0xa000, 0x902c := 48, 0x9030 := 0xb000,
     0xa00c := 0x100000, 0xa014 := 0x8000,
     0xb000 := 20, 0xb004 := low, 0xb00c := len, 0xb014 := 1, 0xb018 := 20, 0xb01c := 0x100000, 0xb024 := 0x700000, 0xb02c := 1)"

definition demo_map :: "u32 \<Rightarrow> u32 \<Rightarrow> multiboot_mmap_entry list" where
  "demo_map low len =
     [\<lparr>mm_size = 20, mm_addr_low = low, mm_addr_high = 0, mm_len_low = len, mm_len_high = 0, mm_type = 1\<rparr>,
      \<lparr>mm_size = 20, mm_addr_low = 0x100000, mm_addr_high = 0, mm_len_low = 0x700000, mm_len_high = 0, mm_type = 1\<rparr>]"

lemma demo_mbi_fields:
  "mbi_flags (mbi_at (demo_mbi low len) 0x9000) = 0x60" "elf_num (mbi_at (demo_mbi low len) 0x9000) = 1"
  "elf_addr (mbi_at (demo_mbi low len) 0x9000) = 0xa000" "mmap_length (mbi_at (demo_mbi low len) 0x9000) = 48"
  "mmap_addr (mbi_at (demo_mbi low len) 0x9000) = 0xb000"
  "map_at (demo_mbi low len) 0xb000 0xb030 (demo_map low len)" "sections_at (demo_mbi low len) 0xa000 (Suc 0) = [(0x100000, 0x8000)]"
  by (simp_all add: mbi_at_def demo_mbi_def demo_map_def mmap_entry_at_def sections_at_def sh_addr_def sh_size_def sizeof_Shdr_def)

lemma demo_flags: "\<not> CHECK_FLAG 0x60 4" "CHECK_FLAG 0x60 5" "CHECK_FLAG 0x60 6"
  by (simp_all add: CHECK_FLAG_def)

lemma region_pages_demo:
  "region_pages \<lparr>mm_size = 20, mm_addr_low = b, mm_addr_high = 0, mm_len_low = n, mm_len_high = 0, mm_type = 1\<rparr> =
    {unat b div 4096 ..< unat (b + n) div 4096}"
  by (simp add: region_pages_def usable_def region_end_def)


text \<open>
  On the map of a usual machine, with low memory up to \<^verbatim>\<open>0x9fc00\<close> and extended memory from one megabyte on, the
  removal of the kernel image stretches the low region up to the image: the frame of the text screen at \<^verbatim>\<open>0xb8000\<close>, which
  no region of the map contains, is free memory afterwards.
\<close>

theorem mbi_read_frees_video:
  "\<exists>s'. mbi_read 3 (demo_mbi 0 0x9fc00) 0x9000 MULTIBOOT_BOOTLOADER_MAGIC \<lparr>bi_mem_size = 0, bi_pfa = init_PFAllocator\<rparr> = Inr s' \<and>
    0xb8 \<in> free_frames (bi_pfa s') \<and> 0xb8 \<notin> (\<Union>e \<in> set (demo_map 0 0x9fc00). region_pages e)"
proof -
  let ?m = "demo_mbi 0 0x9fc00" and ?es = "demo_map 0 0x9fc00" and ?s = "\<lparr>bi_mem_size = 0, bi_pfa = init_PFAllocator\<rparr>"
  have pg: "(\<Union>e \<in> set ?es. region_pages e) = {0 ..< 0x9f} \<union> {0x100 ..< 0x800}"
    by (simp add: demo_map_def region_pages_demo)
  have "regions_ok {} ?es" by (simp add: demo_map_def region_pages_demo usable_def region_end_def)
  then obtain s1 where s1: "free_regions ?es ?s = Inr s1" "pfa_inv (bi_pfa s1)" "free_exts (bi_pfa s1) = boot_exts ?es []"
      "used_exts (bi_pfa s1) = []"
    using free_regions_spec [of ?s ?es] init_PFAllocator_inv by (auto simp: init_exts init_frames MaxNumSeg_def demo_map_def)
  have ex: "boot_exts ?es [] = [(0, 0x9f), (0x100000, 0x700)]" by code_simp
  have dl: "descriptors_left (bi_pfa s1)" using s1(3,4) by (simp add: descriptors_exts ex MaxNumSeg_def)
  obtain a' where a': "removeChunk (bi_pfa s1) 0x100000 0x108000 = Inr a'"
      "free_exts a' = concat (map (cut_ext (page_low 0x100000) (page_high 0x108000)) (boot_exts ?es []))"
    using removeChunk_refines(1) [OF s1(2) dl, of "0x100000" "0x108000"] s1(3) by (auto simp: page_low_def page_high_def)
  have "free_exts a' = [(0, 0x100), (0x108000, 0x6f8)]" unfolding a'(2) ex by code_simp
  then have "0xb8 \<in> free_frames a'" by (simp add: free_frames_def)
  moreover have "mbi_read 3 ?m 0x9000 MULTIBOOT_BOOTLOADER_MAGIC ?s = Inr (s1\<lparr>bi_pfa := a'\<rparr>)"
    using mmap_loop_regions [OF demo_mbi_fields(6) [of 0 "0x9fc00"], of 3 ?s] s1(1) a'(1)
    by (simp add: mbi_read_def Let_def section_loop_sections demo_mbi_fields demo_flags demo_map_def)
  ultimately show ?thesis unfolding pg by auto
qed

end
