(* ===== verification/Address_Space.thy ===== *)
theory Address_Space
  imports Kernel_Steps VarMem_Correct
begin

unbundle bit_operations_syntax

text \<open>
  The address spaces of processes: \<^verbatim>\<open>mm_struct\<close>, \<^verbatim>\<open>register_stack\<close> and \<^verbatim>\<open>makeSysProc\<close> of \<^verbatim>\<open>src/kernel/Process.cpp\<close>, and
  \<^verbatim>\<open>clone_mm\<close>, \<^verbatim>\<open>copy_process\<close>, \<^verbatim>\<open>setup_stack\<close>, \<^verbatim>\<open>fork\<close> and \<^verbatim>\<open>init_tasks\<close> of \<^verbatim>\<open>src/kernel/task.cpp\<close> on the state of the whole
  machine: the process table, the scheduler and the processor (\<open>mk\<close>), and physical memory with the page frame
  allocator and the paging object (\<open>mvm\<close>).

  The kernel runs with paging on. A pointer that it follows is an address of the running address space, whose directory
  the processor holds in \<open>cpu_cr3\<close>; an access to an address that is not mapped ends in the page fault handler of
  \<^verbatim>\<open>src/kernel/irq.cpp\<close>, which prints and loops for ever. The words of physical memory are read and written at aligned
  addresses; \<open>load8\<close> and \<open>store8\<close> are the bytes in them. The nodes of the list of regions come from the kernel heap and
  the list is kept as the sequence of its entries.
\<close>

section \<open>Memory access\<close>

definition load8 :: "mem \<Rightarrow> u32 \<Rightarrow> u8" where
  "load8 m a = ucast (drop_bit (8 * unat (a AND 3)) (m (a AND NOT 3)))"

definition store8 :: "u32 \<Rightarrow> u8 \<Rightarrow> mem \<Rightarrow> mem" where
  "store8 a b m =
     (let p = a AND NOT 3; k = 8 * unat (a AND 3)
      in m(p := (m p AND NOT (push_bit k 0xff)) OR push_bit k (ucast b)))"

definition mmu :: "mem \<Rightarrow> u32 \<Rightarrow> u32 \<Rightarrow> u32 kres" where
  "mmu m dir va = (case translate m dir va of None \<Rightarrow> Inl Hang | Some pa \<Rightarrow> Inr pa)"

definition vload8 :: "mem \<Rightarrow> u32 \<Rightarrow> u32 \<Rightarrow> u8 kres" where
  "vload8 m dir va = rbind (mmu m dir va) (\<lambda>pa. Inr (load8 m pa))"

definition vstore8 :: "u32 \<Rightarrow> u32 \<Rightarrow> u8 \<Rightarrow> mem \<Rightarrow> mem kres" where
  "vstore8 dir va b m = rbind (mmu m dir va) (\<lambda>pa. Inr (store8 pa b m))"

definition vload32 :: "mem \<Rightarrow> u32 \<Rightarrow> u32 \<Rightarrow> u32 kres" where
  "vload32 m dir va = rbind (mmu m dir va) (\<lambda>pa. Inr (m pa))"

definition vstore32 :: "u32 \<Rightarrow> u32 \<Rightarrow> u32 \<Rightarrow> mem \<Rightarrow> mem kres" where
  "vstore32 dir va w m = rbind (mmu m dir va) (\<lambda>pa. Inr (m(pa := w)))"

text \<open>\<^verbatim>\<open>memcpy\<close> between two addresses of the running address space, byte by byte; and words, for a structure.\<close>

fun vmemcpy :: "u32 \<Rightarrow> u32 \<Rightarrow> u32 \<Rightarrow> nat \<Rightarrow> mem \<Rightarrow> mem kres" where
  "vmemcpy dir d s 0 m = Inr m"
| "vmemcpy dir d s (Suc n) m =
     rbind (vload8 m dir s) (\<lambda>b. rbind (vstore8 dir d b m) (vmemcpy dir (d + 1) (s + 1) n))"

fun vcopy32 :: "u32 \<Rightarrow> u32 \<Rightarrow> u32 \<Rightarrow> nat \<Rightarrow> mem \<Rightarrow> mem kres" where
  "vcopy32 dir d s 0 m = Inr m"
| "vcopy32 dir d s (Suc n) m =
     rbind (vload32 m dir s) (\<lambda>w. rbind (vstore32 dir d w m) (vcopy32 dir (d + 4) (s + 4) n))"

section \<open>Regions\<close>

definition SYSTEM :: u32 where "SYSTEM = 0x1"
definition READABLE :: u32 where "READABLE = 0x2"
definition WRITABLE :: u32 where "WRITABLE = 0x4"

definition mm_init :: "mm_struct \<Rightarrow> mm_struct" where
  "mm_init x = x\<lparr>regions := []\<rparr>"

definition add_region :: "u32 \<Rightarrow> u32 \<Rightarrow> u32 \<Rightarrow> mm_struct \<Rightarrow> mm_struct" where
  "add_region bgn sz flags x = x\<lparr>regions := regions x @ [\<lparr>rflags = flags, rbegin = bgn, rsize = sz\<rparr>]\<rparr>"

definition add_region_copy :: "mm_region \<Rightarrow> mm_struct \<Rightarrow> mm_struct" where
  "add_region_copy r x = x\<lparr>regions := regions x @ [r]\<rparr>"

definition sys_stack_begin_init :: u32 where "sys_stack_begin_init = 0x40000000 - 0x2000"
definition sys_stack_end :: u32 where "sys_stack_end = 0x40000000"
definition user_stack_begin_init :: u32 where "user_stack_begin_init = 0x80000000 - 0x2000"
definition user_stack_end :: u32 where "user_stack_end = 0x80000000"

section \<open>Making a process\<close>

record machine =
  mk :: kernel
  mvm :: vm_state

definition upd_p :: "nat \<Rightarrow> (Proc \<Rightarrow> Proc) \<Rightarrow> machine \<Rightarrow> machine" where
  "upd_p p f M = M\<lparr>mk := (mk M)\<lparr>pManager := upd_proc (pManager (mk M)) p f\<rparr>\<rparr>"

definition cur_proc :: "machine \<Rightarrow> nat \<Rightarrow> Proc" where
  "cur_proc M p = proc (pManager (mk M)) p"

definition alloc_frame :: "machine \<Rightarrow> (u32 \<times> machine) kres" where
  "alloc_frame M = rbind (allocChunk (vpfa (mvm M)) 1) (\<lambda>(r, a). Inr (r, M\<lparr>mvm := (mvm M)\<lparr>vpfa := a\<rparr>\<rparr>))"

definition enable_in :: "u32 \<Rightarrow> u32 \<Rightarrow> u32 \<Rightarrow> u16 \<Rightarrow> vm_state \<Rightarrow> vm_state kres" where
  "enable_in bgn sz pdir ty v =
     rbind (enableSpace (vmem v) (vpfa v) bgn sz pdir ty) (\<lambda>(m, a). Inr (v\<lparr>vmem := m, vpfa := a\<rparr>))"

definition register_stack :: "nat \<Rightarrow> u32 \<Rightarrow> u32 \<Rightarrow> bool \<Rightarrow> machine \<Rightarrow> machine kres" where
  "register_stack pro bgn fin is_user M =
     (let sz = fin - bgn in
      if is_user then
        (let M = upd_p pro (\<lambda>x. x\<lparr>mm := add_region bgn sz (READABLE OR WRITABLE) (mm x)\<rparr>) M in
         rbind (enable_in bgn sz (cr3 (mm (cur_proc M pro))) userpage (mvm M)) (\<lambda>v. Inr (M\<lparr>mvm := v\<rparr>)))
      else
        (let M = upd_p pro (\<lambda>x. x\<lparr>mm := add_region bgn sz (READABLE OR WRITABLE OR SYSTEM) (mm x)\<rparr>) M in
         rbind (enable_in bgn sz (cr3 (mm (cur_proc M pro))) systempage (mvm M)) (\<lambda>v. Inr (M\<lparr>mvm := v\<rparr>))))"

definition makeSysProc :: "machine \<Rightarrow> (nat \<times> machine) kres" where
  "makeSysProc M =
     (let (p, m1) = allocProc (pManager (mk M)); M = M\<lparr>mk := (mk M)\<lparr>pManager := m1\<rparr>\<rparr> in
      rbind (alloc_frame M) (\<lambda>(pdir, M).
      rbind (deref p) (\<lambda>pro.
        (let M = upd_p pro (\<lambda>x. x\<lparr>mm := (mm_init (mm x))\<lparr>cr3 := pdir\<rparr>\<rparr>) M;
             M = upd_p pro (\<lambda>x. x\<lparr>status := TASK_STOPPED, prior := Psys\<rparr>) M;
             M = M\<lparr>mvm := copyKernelDir (mvm M) pdir\<rparr> in
         rbind (register_stack pro sys_stack_begin_init sys_stack_end True M) (\<lambda>M.
         rbind (register_stack pro user_stack_begin_init user_stack_end True M) (\<lambda>M.
         rbind (alloc_frame M) (\<lambda>(stk, M).
           Inr (pro, upd_p pro (\<lambda>x. x\<lparr>kernel_info := (kernel_info x)\<lparr>ki_ss := ucast KDSeg,
             stack_top := stk + 0x1000 - 4, ki_cs := ucast KCSeg, ret_from := kernel2user\<rparr>\<rparr>) M))))))))"

definition init_tasks_mem :: "machine \<Rightarrow> machine kres" where
  "init_tasks_mem M =
     rbind (makeSysProc M) (\<lambda>(pinit, M).
     rbind (makeSysProc M) (\<lambda>(pkernel, M).
       (let M = upd_p pkernel (\<lambda>x. x\<lparr>pid := PID_KERNEL\<rparr>) M;
            M = upd_p pinit (\<lambda>x. x\<lparr>pid := PID_INIT\<rparr>) M in
        rbind (enque (pManager (mk M)) pinit 0) (\<lambda>m.
          (let m = m\<lparr>pCurrent := Some pinit\<rparr>; k = mk M in
           Inr (M\<lparr>mk := k\<lparr>pManager := m, tss := setFrame2TSS (tss k) (kernel_info (proc m pinit)),
                 cpu_cr3 := cr3 (mm (proc m pinit)),
                 timer := reset_quantum (timer k) (int (unat (interval m ! 0))) (of_int (pid (proc m pinit)))\<rparr>\<rparr>))))))"

section \<open>Copying a process\<close>

text \<open>
  The loop that copies a region page by page: the destination is the physical frame of the page in the new directory,
  written through the running address space. The bound of the loop is computed in 32 bits and its counter wraps around.
\<close>

fun copy_pages :: "nat \<Rightarrow> u32 \<Rightarrow> u32 \<Rightarrow> u32 \<Rightarrow> u32 \<Rightarrow> mem \<Rightarrow> mem kres" where
  "copy_pages 0 dir dest lim addr m = Inl Hang"
| "copy_pages (Suc fuel) dir dest lim addr m =
     (if addr \<le> lim then
        rbind (vmemcpy dir (vir2phy m dir addr dest) addr 0x1000 m) (copy_pages fuel dir dest lim (addr + 0x1000))
      else Inr m)"

fun clone_regions :: "nat \<Rightarrow> u32 \<Rightarrow> mm_region list \<Rightarrow> mm_struct \<Rightarrow> vm_state \<Rightarrow> (mm_struct \<times> vm_state) kres" where
  "clone_regions fuel dir [] dest_mm v = Inr (dest_mm, v)"
| "clone_regions fuel dir (p # ps) dest_mm v =
     (let dest_mm = add_region_copy p dest_mm in
      rbind (if rflags p AND SYSTEM \<noteq> 0 then enable_in (rbegin p) (rsize p) (cr3 dest_mm) systempage v
             else enable_in (rbegin p) (rsize p) (cr3 dest_mm) userpage v) (\<lambda>v.
      rbind (copy_pages fuel dir (cr3 dest_mm) (rbegin p + rsize p - 0x1000) (rbegin p) (vmem v)) (\<lambda>m.
        clone_regions fuel dir ps dest_mm (v\<lparr>vmem := m\<rparr>))))"

definition clone_mm :: "nat \<Rightarrow> u32 \<Rightarrow> mm_struct \<Rightarrow> mm_struct \<Rightarrow> vm_state \<Rightarrow> (mm_struct \<times> vm_state) kres" where
  "clone_mm fuel dir src_mm dest_mm v =
     rbind (allocChunk (vpfa v) 1) (\<lambda>(pdir, a).
       (let dest_mm = dest_mm\<lparr>cr3 := pdir\<rparr>; v = copyKernelDir (v\<lparr>vpfa := a\<rparr>) pdir
        in clone_regions fuel dir (regions src_mm) dest_mm v))"

definition copy_process :: "nat \<Rightarrow> nat \<Rightarrow> nat \<Rightarrow> machine \<Rightarrow> machine kres" where
  "copy_process fuel src dest M =
     (let M = upd_p dest (\<lambda>x. x\<lparr>prior := prior (cur_proc M src)\<rparr>) M;
          M = upd_p dest (\<lambda>x. x\<lparr>status := TASK_STOPPED\<rparr>) M;
          M = upd_p dest (\<lambda>x. x\<lparr>mm := mm_init (mm x)\<rparr>) M in
      rbind (clone_mm fuel (cpu_cr3 (mk M)) (mm (cur_proc M src)) (mm (cur_proc M dest)) (mvm M)) (\<lambda>(x', v).
        Inr ((upd_p dest (\<lambda>x. x\<lparr>mm := x'\<rparr>) M)\<lparr>mvm := v\<rparr>)))"

definition setup_stack :: "nat \<Rightarrow> nat \<Rightarrow> machine \<Rightarrow> machine kres" where
  "setup_stack current clone M =
     rbind (alloc_frame M) (\<lambda>(stk, M).
       (let M = upd_p clone (\<lambda>x. x\<lparr>kernel_info := (kernel_info x)\<lparr>stack_top := stk + 0x1000 - 4\<rparr>\<rparr>) M;
            frame_curr = stack_top (kernel_info (cur_proc M current)) - stack_frame_size;
            frame_clone = stack_top (kernel_info (cur_proc M clone)) - stack_frame_size in
        rbind (vcopy32 (cpu_cr3 (mk M)) frame_clone frame_curr 17 (vmem (mvm M))) (\<lambda>m.
          Inr (upd_p clone (\<lambda>x. x\<lparr>kernel_info := (kernel_info x)\<lparr>ki_sp := frame_clone\<rparr>\<rparr>)
            (M\<lparr>mvm := (mvm M)\<lparr>vmem := m\<rparr>\<rparr>)))))"

definition fork :: "nat \<Rightarrow> machine \<Rightarrow> (int \<times> machine) kres" where
  "fork fuel M =
     rbind (deref (pCurrent (pManager (mk M)))) (\<lambda>current.
       (let (p, m1) = allocProc (pManager (mk M)) in
        rbind (deref p) (\<lambda>clone.
          (let (i, m2) = pid_gen m1; M = M\<lparr>mk := (mk M)\<lparr>pManager := m2\<rparr>\<rparr>; M = upd_p clone (\<lambda>x. x\<lparr>pid := i\<rparr>) M in
           rbind (copy_process fuel current clone M) (\<lambda>M.
             (let M = upd_p clone (\<lambda>x. x\<lparr>kernel_info := kernel_info (cur_proc M current)\<rparr>) M;
                  M = upd_p clone (\<lambda>x. x\<lparr>kernel_info := (kernel_info x)\<lparr>ret_from := ret_from_fork\<rparr>\<rparr>) M in
              rbind (setup_stack current clone M) (\<lambda>M.
              rbind (wakeup (mk M) i) (\<lambda>k. Inr (i, M\<lparr>mk := k\<rparr>)))))))))"

text \<open>The new program counter and the result of the child, in the saved registers at the top of the kernel stack.\<close>

definition saved_frame :: "machine \<Rightarrow> nat \<Rightarrow> u32" where
  "saved_frame M p = stack_top (kernel_info (cur_proc M p)) - stack_frame_size"

definition after_exec :: "u32 \<Rightarrow> machine \<Rightarrow> machine kres" where
  "after_exec ret_addr M =
     rbind (deref (pCurrent (pManager (mk M)))) (\<lambda>current.
     rbind (vstore32 (cpu_cr3 (mk M)) (saved_frame M current + 48) ret_addr (vmem (mvm M))) (\<lambda>m.
       Inr (M\<lparr>mvm := (mvm M)\<lparr>vmem := m\<rparr>\<rparr>)))"

definition ret_from_fork_mem :: "machine \<Rightarrow> machine kres" where
  "ret_from_fork_mem M =
     rbind (deref (pCurrent (pManager (mk M)))) (\<lambda>current.
     rbind (vstore32 (cpu_cr3 (mk M)) (saved_frame M current + 44) 0 (vmem (mvm M))) (\<lambda>m.
       Inr (M\<lparr>mvm := (mvm M)\<lparr>vmem := m\<rparr>\<rparr>)))"

end
