(* ===== verification/Elf_Loader.thy ===== *)
theory Elf_Loader
  imports Address_Space FileSystem
begin

unbundle bit_operations_syntax

text \<open>
  Loading a program: \<^verbatim>\<open>src/kernel/elf_loader.cpp\<close> and \<^verbatim>\<open>src/kernel/exec.cpp\<close>, with the structures of
  \<^verbatim>\<open>src/include/os/elf.h\<close> as layouts.

  The file is read through any disk driver, whose state \<open>d\<close> is passed along beside the machine. The headers go to
  variables and to buffers from the heap and are kept as their bytes; a segment goes to its address in the running
  address space, byte by byte.
\<close>

section \<open>Structures\<close>

definition EI_NIDENT :: nat where "EI_NIDENT = 16"

definition Elf32_Ehdr :: layout where
  "Elf32_Ehdr =
     [(''e_ident'', EI_NIDENT), (''e_type'', 2), (''e_machine'', 2), (''e_version'', 4), (''e_entry'', 4), (''e_phoff'', 4),
      (''e_shoff'', 4), (''e_flags'', 4), (''e_ehsize'', 2), (''e_phentsize'', 2), (''e_phnum'', 2), (''e_shentsize'', 2),
      (''e_shnum'', 2), (''e_shstrndx'', 2)]"

definition Elf32_Phdr :: layout where
  "Elf32_Phdr =
     [(''p_type'', 4), (''p_offset'', 4), (''p_vaddr'', 4), (''p_paddr'', 4), (''p_filesz'', 4), (''p_memsz'', 4),
      (''p_flags'', 4), (''p_align'', 4)]"

definition Elf32_Shdr :: layout where
  "Elf32_Shdr =
     [(''sh_name'', 4), (''sh_type'', 4), (''sh_flags'', 4), (''sh_addr'', 4), (''sh_offset'', 4), (''sh_size'', 4),
      (''sh_link'', 4), (''sh_info'', 4), (''sh_addralign'', 4), (''sh_entsize'', 4)]"

definition ELFMAG :: "u8 list" where "ELFMAG = [0x7f, 0x45, 0x4c, 0x46]"
definition ET_EXEC :: u16 where "ET_EXEC = 2"
definition EM_386 :: u16 where "EM_386 = 3"
definition PT_LOAD :: u32 where "PT_LOAD = 1"

text \<open>The identification the header must begin with, as the code puts it together.\<close>

definition x86_32_ident :: "u8 list" where
  "x86_32_ident = ELFMAG @ [1, 1, 1] @ replicate 9 0"

section \<open>The loader\<close>

text \<open>The bytes of a file at an address of the running address space.\<close>

fun vput :: "u32 \<Rightarrow> u32 \<Rightarrow> u8 list \<Rightarrow> mem \<Rightarrow> mem kres" where
  "vput dir a [] m = Inr m"
| "vput dir a (b # bs) m = rbind (vstore8 dir a b m) (vput dir (a + 1) bs)"

definition load_segment :: "'s driver \<Rightarrow> ext2 \<Rightarrow> (nat \<Rightarrow> u8) \<Rightarrow> File \<Rightarrow> u8 list \<Rightarrow> machine \<times> 's \<Rightarrow> (machine \<times> 's) kres" where
  "load_segment rd fs junk file phdr = (\<lambda>(M, d).
     let p_offset = field32 Elf32_Phdr ''p_offset'' phdr; p_vaddr = field32 Elf32_Phdr ''p_vaddr'' phdr;
         p_memsz = field32 Elf32_Phdr ''p_memsz'' phdr in
     rbind (deref (pCurrent (pManager (mk M)))) (\<lambda>current.
     rbind (enable_in p_vaddr p_memsz (cr3 (mm (cur_proc M current))) userpage (mvm M)) (\<lambda>v.
     rbind (File_read rd fs junk p_offset p_memsz file d) (\<lambda>(bytes, d).
     rbind (vput (cpu_cr3 (mk M)) p_vaddr bytes (vmem v)) (\<lambda>m.
       Inr (M\<lparr>mvm := v\<lparr>vmem := m\<rparr>\<rparr>, d))))))"

text \<open>The loop over the program headers, \<open>n\<close> of them left in \<open>phdr\<close>.\<close>

fun load_loop :: "'s driver \<Rightarrow> ext2 \<Rightarrow> (nat \<Rightarrow> u8) \<Rightarrow> File \<Rightarrow> nat \<Rightarrow> u8 list \<Rightarrow> machine \<times> 's \<Rightarrow> (machine \<times> 's) kres" where
  "load_loop rd fs junk file 0 phdr S = Inr S"
| "load_loop rd fs junk file (Suc n) phdr S =
     rbind (if field32 Elf32_Phdr ''p_type'' phdr = PT_LOAD then load_segment rd fs junk file phdr S else Inr S)
       (load_loop rd fs junk file n (drop (layout_size Elf32_Phdr) phdr))"

definition load_elf_executable :: "'s driver \<Rightarrow> ext2 \<Rightarrow> (nat \<Rightarrow> u8) \<Rightarrow> File \<Rightarrow> machine \<times> 's \<Rightarrow> (bool \<times> machine \<times> 's) kres" where
  "load_elf_executable rd fs junk file = (\<lambda>(M, d).
     rbind (File_read rd fs junk 0 (of_nat (layout_size Elf32_Ehdr)) file d) (\<lambda>(header, d).
       if take EI_NIDENT header \<noteq> x86_32_ident then Inr (False, M, d)
       else if field16 Elf32_Ehdr ''e_type'' header \<noteq> ET_EXEC then Inr (False, M, d)
       else if field16 Elf32_Ehdr ''e_machine'' header \<noteq> EM_386 then Inr (False, M, d)
       else
         (let phoff = field32 Elf32_Ehdr ''e_phoff'' header; shoff = field32 Elf32_Ehdr ''e_shoff'' header;
              phnum = field16 Elf32_Ehdr ''e_phnum'' header; shnum = field16 Elf32_Ehdr ''e_shnum'' header in
          rbind (File_read rd fs junk phoff (of_nat (layout_size Elf32_Phdr) * ucast phnum) file d) (\<lambda>(phdr, d).
          rbind (File_read rd fs junk shoff (of_nat (layout_size Elf32_Shdr) * ucast shnum) file d) (\<lambda>(_, d).
          rbind (load_loop rd fs junk file (unat phnum) phdr (M, d)) (\<lambda>(M, d).
          rbind (after_exec (field32 Elf32_Ehdr ''e_entry'' header) M) (\<lambda>M. Inr (True, M, d))))))))"

text \<open>
  \<^verbatim>\<open>exec\<close> calls the loader and ends without a \<^verbatim>\<open>return\<close>: the number its caller gets is not determined and is an
  argument.
\<close>

definition exec :: "'s driver \<Rightarrow> ext2 \<Rightarrow> (nat \<Rightarrow> u8) \<Rightarrow> u32 \<Rightarrow> File \<Rightarrow> machine \<times> 's \<Rightarrow> (u32 \<times> machine \<times> 's) kres" where
  "exec rd fs junk eax file S = rbind (load_elf_executable rd fs junk file S) (\<lambda>(_, M, d). Inr (eax, M, d))"

end
