(* ===== verification/Kernel_Call.thy ===== *)
theory Kernel_Call
  imports Elf_Loader
begin

unbundle bit_operations_syntax

text \<open>
  Interrupt handlers and kernel calls: \<^verbatim>\<open>src/kernel/irq.cpp\<close>, \<^verbatim>\<open>src/include/kernel_call.h\<close>, the table
  \<^verbatim>\<open>intr_func\<close> of \<^verbatim>\<open>src/kernel/KGlobal.cpp\<close>, \<^verbatim>\<open>Irq_notify\<close> of \<^verbatim>\<open>src/include/os/irq.h\<close> and the entry code of
  \<^verbatim>\<open>src/kernel/isr.nas\<close> for the vectors from 0x20 on.

  The state is the machine of \<open>Address_Space\<close> together with the state of the disk driver. The registers that the entry code
  saves lie in memory, at the address \<open>args\<close> that the handler gets, and are read and written there. A message of a process
  is read and written at its address in the running address space, field by field. Lines printed on the
  console and the acknowledgement of the interrupt controller are left out.
\<close>

section \<open>Registers and messages in memory\<close>

definition stack_frame_s :: layout where
  "stack_frame_s =
     [(''gs'', 4), (''fs'', 4), (''es'', 4), (''ds'', 4), (''di'', 4), (''si'', 4), (''bp'', 4), (''st'', 4), (''bx'', 4),
      (''dx'', 4), (''cx'', 4), (''ax'', 4), (''pc'', 4), (''cs'', 4), (''psw'', 4), (''sp'', 4), (''ss'', 4)]"

definition get_reg :: "u32 \<Rightarrow> string \<Rightarrow> machine \<Rightarrow> u32 kres" where
  "get_reg args r M = vload32 (vmem (mvm M)) (cpu_cr3 (mk M)) (args + of_nat (offset_of stack_frame_s r))"

definition set_reg :: "u32 \<Rightarrow> string \<Rightarrow> u32 \<Rightarrow> machine \<Rightarrow> machine kres" where
  "set_reg args r w M =
     rbind (vstore32 (cpu_cr3 (mk M)) (args + of_nat (offset_of stack_frame_s r)) w (vmem (mvm M)))
       (\<lambda>m. Inr (M\<lparr>mvm := (mvm M)\<lparr>vmem := m\<rparr>\<rparr>))"

fun set_regs :: "u32 \<Rightarrow> string list \<Rightarrow> u32 \<Rightarrow> machine \<Rightarrow> machine kres" where
  "set_regs args [] w M = Inr M"
| "set_regs args (r # rs) w M = rbind (set_reg args r w M) (set_regs args rs w)"

fun vget :: "u32 \<Rightarrow> u32 \<Rightarrow> nat \<Rightarrow> mem \<Rightarrow> u8 list kres" where
  "vget dir a 0 m = Inr []"
| "vget dir a (Suc n) m = rbind (vload8 m dir a) (\<lambda>b. rbind (vget dir (a + 1) n m) (\<lambda>bs. Inr (b # bs)))"

text \<open>
  A zero-terminated string as \<^verbatim>\<open>kprintf\<close> reads it before the file is opened; a string without an end is read for ever.
\<close>

fun vstring :: "nat \<Rightarrow> u32 \<Rightarrow> u32 \<Rightarrow> mem \<Rightarrow> u8 list kres" where
  "vstring 0 dir a m = Inl Hang"
| "vstring (Suc n) dir a m =
     rbind (vload8 m dir a) (\<lambda>b. if b = 0 then Inr [0] else rbind (vstring n dir (a + 1) m) (\<lambda>bs. Inr (b # bs)))"

definition message_layout :: layout where
  "message_layout = [(''id'', 4), (''type'', 2), (''isValid'', 1), (''pad'', 1), (''p1'', 4), (''p2'', 4), (''p3'', 4)]"

definition read_message :: "u32 \<Rightarrow> u32 \<Rightarrow> mem \<Rightarrow> Message kres" where
  "read_message dir a m =
     rbind (vget dir a (layout_size message_layout) m) (\<lambda>bs.
       Inr \<lparr>mid = sint (field32 message_layout ''id'' bs), mtype = field16 message_layout ''type'' bs,
            isValid = (bs ! offset_of message_layout ''isValid'' \<noteq> 0), m_p1 = field32 message_layout ''p1'' bs,
            m_p2 = field32 message_layout ''p2'' bs, m_p3 = field32 message_layout ''p3'' bs\<rparr>)"

definition bytes16 :: "u16 \<Rightarrow> u8 list" where
  "bytes16 w = [ucast w, ucast (drop_bit 8 w)]"

definition bytes32 :: "u32 \<Rightarrow> u8 list" where
  "bytes32 w = [ucast w, ucast (drop_bit 8 w), ucast (drop_bit 16 w), ucast (drop_bit 24 w)]"

definition put_field :: "u32 \<Rightarrow> u32 \<Rightarrow> string \<Rightarrow> u8 list \<Rightarrow> mem \<Rightarrow> mem kres" where
  "put_field dir a f bs = vput dir (a + of_nat (offset_of message_layout f)) bs"

definition write_message :: "u32 \<Rightarrow> u32 \<Rightarrow> Message \<Rightarrow> mem \<Rightarrow> mem kres" where
  "write_message dir a mess m =
     rbind (put_field dir a ''id'' (bytes32 (word_of_int (mid mess))) m) (\<lambda>m.
     rbind (put_field dir a ''type'' (bytes16 (mtype mess)) m) (\<lambda>m.
     rbind (put_field dir a ''isValid'' [of_bool (isValid mess)] m) (\<lambda>m.
     rbind (put_field dir a ''p1'' (bytes32 (m_p1 mess)) m) (\<lambda>m.
     rbind (put_field dir a ''p2'' (bytes32 (m_p2 mess)) m) (\<lambda>m.
       put_field dir a ''p3'' (bytes32 (m_p3 mess)) m)))))"

section \<open>Kernel calls\<close>

definition NR_K_EXEC :: u32 where "NR_K_EXEC = 0"
definition NR_K_SEND :: u32 where "NR_K_SEND = 1"
definition NR_K_RECV :: u32 where "NR_K_RECV = 2"
definition NR_K_FORK :: u32 where "NR_K_FORK = 3"
definition priv_user :: u32 where "priv_user = 1"

text \<open>
  Behind the file system: the driver, the mounted file system, the contents of fresh buffers, the fuel of the loops over
  directories, strings and pages, and the number that \<^verbatim>\<open>exec\<close> happens to return.
\<close>

record 's env =
  drv :: "'s driver"
  rootfs :: ext2
  fresh :: "nat \<Rightarrow> u8"
  steps :: nat
  exec_eax :: u32

definition enter_user :: "u32 \<Rightarrow> u32 \<Rightarrow> machine \<Rightarrow> machine kres" where
  "enter_user args pri M =
     (if pri = priv_user then
        rbind (set_regs args [''ss'', ''ds'', ''es'', ''fs'', ''gs''] (ucast UDSeg OR 3) M) (\<lambda>M.
        rbind (set_reg args ''cs'' (ucast UCSeg OR 3) M) (\<lambda>M.
          set_reg args ''sp'' (user_stack_end - 0x10) M))
      else Inr M)"

definition call_exec :: "'s env \<Rightarrow> u32 \<Rightarrow> u32 \<Rightarrow> u32 \<Rightarrow> machine \<times> 's \<Rightarrow> (machine \<times> 's) kres" where
  "call_exec E args filepath pri = (\<lambda>(M, d).
     rbind (vstring (steps E) (cpu_cr3 (mk M)) filepath (vmem (mvm M))) (\<lambda>name.
     rbind (fopen (drv E) (rootfs E) (steps E) (kstring_of name) d) (\<lambda>(file, d).
     rbind (exec (drv E) (rootfs E) (fresh E) (exec_eax E) file (M, d)) (\<lambda>(success, M, d).
     rbind (enter_user args pri M) (\<lambda>M.
     rbind (set_reg args ''ax'' (of_bool (success \<noteq> 0)) M) (\<lambda>M. Inr (M, d)))))))"

text \<open>The message with the id of the caller in it, and the memory after the caller's copy got that id.\<close>

definition own_message :: "u32 \<Rightarrow> machine \<Rightarrow> (Message \<times> machine) kres" where
  "own_message a M =
     rbind (deref (pCurrent (pManager (mk M)))) (\<lambda>current.
     rbind (put_field (cpu_cr3 (mk M)) a ''id'' (bytes32 (word_of_int (pid (cur_proc M current)))) (vmem (mvm M))) (\<lambda>m.
     rbind (read_message (cpu_cr3 (mk M)) a m) (\<lambda>mess. Inr (mess, M\<lparr>mvm := (mvm M)\<lparr>vmem := m\<rparr>\<rparr>))))"

definition call_send :: "u32 \<Rightarrow> u32 \<Rightarrow> machine \<Rightarrow> machine kres" where
  "call_send to a M =
     rbind (own_message a M) (\<lambda>(mess, M).
     rbind (send (mk M) (sint to) mess) (\<lambda>(k, mess').
     rbind (put_field (cpu_cr3 (mk M)) a ''id'' (bytes32 (word_of_int (mid mess'))) (vmem (mvm M))) (\<lambda>m.
       Inr (M\<lparr>mk := k, mvm := (mvm M)\<lparr>vmem := m\<rparr>\<rparr>))))"

definition call_recv :: "u32 \<Rightarrow> u32 \<Rightarrow> machine \<Rightarrow> machine kres" where
  "call_recv from a M =
     rbind (own_message a M) (\<lambda>(mess, M).
     rbind (recv (mk M) (sint from) mess) (\<lambda>(k, mess').
     rbind (write_message (cpu_cr3 (mk M)) a mess' (vmem (mvm M))) (\<lambda>m.
       Inr (M\<lparr>mk := k, mvm := (mvm M)\<lparr>vmem := m\<rparr>\<rparr>))))"

definition call_fork :: "nat \<Rightarrow> u32 \<Rightarrow> machine \<Rightarrow> machine kres" where
  "call_fork fuel args M = rbind (fork fuel M) (\<lambda>(i, M). set_reg args ''ax'' (word_of_int i) M)"

definition kernelCall :: "'s env \<Rightarrow> u32 \<Rightarrow> machine \<times> 's \<Rightarrow> (machine \<times> 's) kres" where
  "kernelCall E args = (\<lambda>(M, d).
     rbind (get_reg args ''ax'' M) (\<lambda>nr.
     rbind (get_reg args ''bx'' M) (\<lambda>uarg1.
     rbind (get_reg args ''cx'' M) (\<lambda>uarg2.
     rbind (get_reg args ''dx'' M) (\<lambda>_.
       if nr = NR_K_EXEC then call_exec E args uarg1 uarg2 (M, d)
       else if nr = NR_K_SEND then rbind (call_send uarg1 uarg2 M) (\<lambda>M. Inr (M, d))
       else if nr = NR_K_RECV then rbind (call_recv uarg1 uarg2 M) (\<lambda>M. Inr (M, d))
       else if nr = NR_K_FORK then rbind (call_fork (steps E) args M) (\<lambda>M. Inr (M, d))
       else Inr (M, d))))))"

section \<open>Interrupts\<close>

datatype handler =
    divide_exception | debuggingInterrupt | outofbundsException | invalidInstruction | noSegmentExeption
  | stackException | generalException | pageFault | ignore | timerHandler_irq | Irq_notify int | kernelCall_irq

text \<open>The table of handlers. The source gives 0xa0 entries; the rest of the 0x100 are null pointers.\<close>

definition intr_func :: "nat \<Rightarrow> handler option" where
  "intr_func v =
     (if v = 0 then Some divide_exception
      else if v = 1 then Some debuggingInterrupt
      else if v = 5 then Some outofbundsException
      else if v = 6 then Some invalidInstruction
      else if v = 0x0b then Some noSegmentExeption
      else if v = 0x0c then Some stackException
      else if v = 0x0d then Some generalException
      else if v = 0x0e then Some pageFault
      else if v = 0x20 then Some timerHandler_irq
      else if v = 0x21 then Some (Irq_notify 1)
      else if v = 0x2e then Some (Irq_notify 14)
      else if v = 0x2f then Some (Irq_notify 15)
      else if v = 0x30 then Some kernelCall_irq
      else if v < 0xa0 then Some ignore
      else None)"

text \<open>A handler: the exceptions and \<^verbatim>\<open>ignore\<close> print and loop for ever.\<close>

definition run_handler :: "'s env \<Rightarrow> u32 \<Rightarrow> handler \<Rightarrow> machine \<times> 's \<Rightarrow> (machine \<times> 's) kres" where
  "run_handler E args h = (\<lambda>(M, d).
     case h of
       timerHandler_irq \<Rightarrow> rbind (timerHandler (mk M)) (\<lambda>k. Inr (M\<lparr>mk := k\<rparr>, d))
     | Irq_notify n \<Rightarrow> rbind (notify (mk M) n) (\<lambda>k. Inr (M\<lparr>mk := k\<rparr>, d))
     | kernelCall_irq \<Rightarrow> kernelCall E args (M, d)
     | _ \<Rightarrow> Inl Hang)"

text \<open>
  The end of \<^verbatim>\<open>schedule\<close>: the function that the process resumes in. \<^verbatim>\<open>kernel2user\<close> is empty, \<^verbatim>\<open>ret_from_fork\<close> clears the saved
  \<^verbatim>\<open>ax\<close>, \<^verbatim>\<open>recv_later\<close> takes the message out of the queue.
\<close>

definition resume :: "sched_end \<Rightarrow> machine \<Rightarrow> machine kres" where
  "resume e M =
     (case e of
        Switched p fn \<Rightarrow>
          (case fn of
             kernel2user \<Rightarrow> Inr M
           | ret_from_fork \<Rightarrow> ret_from_fork_mem M
           | recv_later_fn \<Rightarrow> rbind (recv_later (mk M)) (\<lambda>k. Inr (M\<lparr>mk := k\<rparr>)))
      | _ \<Rightarrow> Inr M)"

text \<open>An interrupt with a vector from 0x20 on: the handler, then the scheduler, then the process that was chosen.\<close>

definition interrupt :: "'s env \<Rightarrow> nat \<Rightarrow> u32 \<Rightarrow> u32 \<Rightarrow> machine \<times> 's \<Rightarrow> (machine \<times> 's) kres" where
  "interrupt E v args ebp S =
     rbind (case intr_func v of None \<Rightarrow> Inl Null_deref | Some h \<Rightarrow> run_handler E args h S) (\<lambda>(M, d).
     rbind (schedule (mk M) ebp) (\<lambda>(k, e).
     rbind (resume e (M\<lparr>mk := k\<rparr>)) (\<lambda>M. Inr (M, d))))"

end
