(* ===== verification/Address_Space_Correct.thy ===== *)
theory Address_Space_Correct
  imports Address_Space VarMem_Map
begin

text \<open>
  What the routines on the whole machine do to the process table and to the page frame allocator: they implement the
  operations on the process table of theory \<open>Kernel_Steps\<close>, with a fresh page directory, a fresh kernel stack and the
  regions of the parent, and keep the invariants of the scheduler and of the allocator.
\<close>

section \<open>Frames\<close>

abbreviation pfa_of :: "machine \<Rightarrow> PFAllocator" where
  "pfa_of M \<equiv> vpfa (mvm M)"

lemma upd_p_simps [simp]:
  "mvm (upd_p p f M) = mvm M" "mk (upd_p p f M) = (mk M)\<lparr>pManager := upd_proc (pManager (mk M)) p f\<rparr>"
  by (simp_all add: upd_p_def)

lemma alloc_frame_spec:
  assumes "pfa_inv (pfa_of M)" and "alloc_frame M = Inr (r, M')"
  shows "pfa_inv (pfa_of M') \<and> page_aligned r \<and> frame_of r \<in> free_frames (pfa_of M) \<and>
    free_frames (pfa_of M') = free_frames (pfa_of M) - {frame_of r} \<and> mk M' = mk M"
proof -
  obtain a where a: "allocChunk (pfa_of M) 1 = Inr (r, a)" and M': "M' = M\<lparr>mvm := (mvm M)\<lparr>vpfa := a\<rparr>\<rparr>"
    using assms(2) by (auto simp: alloc_frame_def rbind_eq_Inr)
  note f = pf.alloc_fresh [OF assms(1) a]
  then show ?thesis using M' by auto
qed

lemma enable_in_spec:
  assumes "pfa_inv (vpfa v)" and "enable_in b sz pdir ty v = Inr v'"
  shows "pfa_inv (vpfa v') \<and> free_frames (vpfa v') \<subseteq> free_frames (vpfa v)"
proof -
  obtain m a where "enableSpace (vmem v) (vpfa v) b sz pdir ty = Inr (m, a)" and v': "v' = v\<lparr>vmem := m, vpfa := a\<rparr>"
    using assms(2) by (auto simp: enable_in_def rbind_eq_Inr)
  then have "pfa_inv a \<and> - free_frames (vpfa v) \<subseteq> - free_frames a"
    using pf.enable_loop_inv [OF assms(1)] by (auto simp: enableSpace_def enableSpace_with_def Let_def)
  then show ?thesis using v' by auto
qed

lemma copyKernelDir_pfa [simp]: "vpfa (copyKernelDir v pdir) = vpfa v"
  by (simp add: copyKernelDir_def Let_def)

section \<open>Copying\<close>

lemma clone_regions_spec:
  "pfa_inv (vpfa v) \<Longrightarrow> clone_regions fuel dir ps x v = Inr (x', v') \<Longrightarrow>
    pfa_inv (vpfa v') \<and> free_frames (vpfa v') \<subseteq> free_frames (vpfa v) \<and> x' = x\<lparr>regions := regions x @ ps\<rparr>"
proof (induction ps arbitrary: x v)
  case (Cons p ps)
  let ?x = "add_region_copy p x"
  obtain v1 m where e: "enable_in (rbegin p) (rsize p) (cr3 ?x) (if rflags p AND SYSTEM \<noteq> 0 then systempage else userpage) v = Inr v1"
      and r: "clone_regions fuel dir ps ?x (v1\<lparr>vmem := m\<rparr>) = Inr (x', v')"
    using Cons.prems(2) by (auto simp: Let_def rbind_eq_Inr split: if_splits)
  have "pfa_inv (vpfa (v1\<lparr>vmem := m\<rparr>))" "free_frames (vpfa v1) \<subseteq> free_frames (vpfa v)"
    using enable_in_spec [OF Cons.prems(1) e] by simp_all
  then show ?case using Cons.IH [OF _ r] by (auto simp: add_region_copy_def)
qed simp

lemma clone_mm_spec:
  assumes "pfa_inv (vpfa v)" and "clone_mm fuel dir src x v = Inr (x', v')"
  shows "pfa_inv (vpfa v') \<and> (\<exists>pdir. x' = x\<lparr>cr3 := pdir, regions := regions x @ regions src\<rparr> \<and> page_aligned pdir \<and>
    frame_of pdir \<in> free_frames (vpfa v) \<and> free_frames (vpfa v') \<subseteq> free_frames (vpfa v) - {frame_of pdir})"
proof -
  obtain pdir a where a: "allocChunk (vpfa v) 1 = Inr (pdir, a)"
      and r: "clone_regions fuel dir (regions src) (x\<lparr>cr3 := pdir\<rparr>) (copyKernelDir (v\<lparr>vpfa := a\<rparr>) pdir) = Inr (x', v')"
    using assms(2) by (auto simp: clone_mm_def Let_def rbind_eq_Inr)
  note f = pf.alloc_fresh [OF assms(1) a]
  have "pfa_inv (vpfa (copyKernelDir (v\<lparr>vpfa := a\<rparr>) pdir))" using f by simp
  from clone_regions_spec [OF this r] f show ?thesis by auto
qed

lemma mm_struct_fields: "x\<lparr>cr3 := a, regions := r\<rparr> = \<lparr>cr3 = a, regions = r\<rparr>" for x :: mm_struct
  by (cases x) simp

lemma copy_process_spec:
  assumes "pfa_inv (pfa_of M)" and "copy_process fuel s d M = Inr M'" and "s \<noteq> d" and "d < length (room (ProcL (pManager (mk M))))"
  shows "pfa_inv (pfa_of M') \<and> (\<exists>pdir. mk M' = (mk M)\<lparr>pManager := upd_proc (pManager (mk M)) d
      (\<lambda>x. x\<lparr>prior := prior (cur_proc M s), status := TASK_STOPPED, mm := \<lparr>cr3 = pdir, regions = regions (mm (cur_proc M s))\<rparr>\<rparr>)\<rparr> \<and>
    page_aligned pdir \<and> frame_of pdir \<in> free_frames (pfa_of M) \<and> free_frames (pfa_of M') \<subseteq> free_frames (pfa_of M) - {frame_of pdir})"
proof -
  let ?m = "pManager (mk M)"
  let ?M = "upd_p d (\<lambda>x. x\<lparr>mm := mm_init (mm x)\<rparr>) (upd_p d (\<lambda>x. x\<lparr>status := TASK_STOPPED\<rparr>)
      (upd_p d (\<lambda>x. x\<lparr>prior := prior (cur_proc M s)\<rparr>) M))"
  have cs: "mm (cur_proc ?M s) = mm (cur_proc M s)" "regions (mm (cur_proc ?M d)) = []"
    using assms(3,4) by (simp_all add: cur_proc_def mm_init_def)
  obtain x' v where c: "clone_mm fuel (cpu_cr3 (mk M)) (mm (cur_proc M s)) (mm (cur_proc ?M d)) (mvm M) = Inr (x', v)"
      and M': "M' = (upd_p d (\<lambda>x. x\<lparr>mm := x'\<rparr>) ?M)\<lparr>mvm := v\<rparr>"
    using assms(2) cs(1) by (auto simp: copy_process_def Let_def rbind_eq_Inr)
  note r = clone_mm_spec [OF assms(1) c]
  then obtain pdir where p: "x' = \<lparr>cr3 = pdir, regions = regions (mm (cur_proc M s))\<rparr>" "page_aligned pdir"
      "frame_of pdir \<in> free_frames (pfa_of M)" "free_frames (vpfa v) \<subseteq> free_frames (pfa_of M) - {frame_of pdir}"
    using cs(2) unfolding mm_struct_fields by auto
  have "mk M' = (mk M)\<lparr>pManager := upd_proc ?m d (\<lambda>x. x\<lparr>prior := prior (cur_proc M s), status := TASK_STOPPED, mm := x'\<rparr>)\<rparr>"
    using M' by (simp add: upd_proc_twice mm_init_def)
  then show ?thesis using r p M' by auto
qed

lemma setup_stack_spec:
  assumes "pfa_inv (pfa_of M)" and "setup_stack c d M = Inr M'" and "d < length (room (ProcL (pManager (mk M))))"
  shows "pfa_inv (pfa_of M') \<and> (\<exists>stk. mk M' = (mk M)\<lparr>pManager := upd_proc (pManager (mk M)) d (\<lambda>x. x\<lparr>kernel_info :=
      (kernel_info x)\<lparr>stack_top := stk + 0x1000 - 4, ki_sp := stk + 0x1000 - 4 - stack_frame_size\<rparr>\<rparr>)\<rparr> \<and>
    page_aligned stk \<and> frame_of stk \<in> free_frames (pfa_of M) \<and> free_frames (pfa_of M') = free_frames (pfa_of M) - {frame_of stk})"
proof -
  obtain stk M1 where a: "alloc_frame M = Inr (stk, M1)" using assms(2) by (auto simp: setup_stack_def rbind_eq_Inr)
  note f = alloc_frame_spec [OF assms(1) a]
  then have mk1: "mk M1 = mk M" by simp
  obtain m where "M' = upd_p d (\<lambda>x. x\<lparr>kernel_info := (kernel_info x)\<lparr>ki_sp := stk + 0x1000 - 4 - stack_frame_size\<rparr>\<rparr>)
      ((upd_p d (\<lambda>x. x\<lparr>kernel_info := (kernel_info x)\<lparr>stack_top := stk + 0x1000 - 4\<rparr>\<rparr>) M1)\<lparr>mvm := (mvm M1)\<lparr>vmem := m\<rparr>\<rparr>)"
    using assms(2,3) a mk1 by (auto simp: setup_stack_def Let_def rbind_eq_Inr cur_proc_def)
  then have "mk M' = (mk M)\<lparr>pManager := upd_proc (pManager (mk M)) d (\<lambda>x. x\<lparr>kernel_info :=
      (kernel_info x)\<lparr>stack_top := stk + 0x1000 - 4, ki_sp := stk + 0x1000 - 4 - stack_frame_size\<rparr>\<rparr>)\<rparr>" "pfa_of M' = pfa_of M1"
    using mk1 by (simp_all add: upd_proc_twice)
  then show ?thesis using f by auto
qed

text \<open>The child of \<^verbatim>\<open>fork\<close> just before it is woken.\<close>

definition fork_child :: "machine \<Rightarrow> nat \<Rightarrow> int \<Rightarrow> PManager \<Rightarrow> machine" where
  "fork_child M p i m2 = upd_p p (\<lambda>x. x\<lparr>pid := i\<rparr>) (M\<lparr>mk := (mk M)\<lparr>pManager := m2\<rparr>\<rparr>)"

definition fork_resume :: "machine \<Rightarrow> nat \<Rightarrow> nat \<Rightarrow> machine" where
  "fork_resume M2 c p = upd_p p (\<lambda>x. x\<lparr>kernel_info := (kernel_info x)\<lparr>ret_from := ret_from_fork\<rparr>\<rparr>)
     (upd_p p (\<lambda>x. x\<lparr>kernel_info := kernel_info (cur_proc M2 c)\<rparr>) M2)"

lemma fork_setup_reached:
  assumes pinv: "pfa_inv (pfa_of M)" and pc: "c \<noteq> p" and p: "p < length (room (ProcL m2))" and m2: "proc m2 c = cur_proc M c"
    and cp: "copy_process fuel c p (fork_child M p i m2) = Inr M2" and st: "setup_stack c p (fork_resume M2 c p) = Inr M4"
  shows "\<exists>pdir stk. mk M4 = (mk M)\<lparr>pManager := fork_setup m2 c p i \<lparr>cr3 = pdir, regions = regions (mm (cur_proc M c))\<rparr> stk\<rparr> \<and>
    pfa_inv (pfa_of M4) \<and> page_aligned pdir \<and> page_aligned stk \<and> frame_of pdir \<noteq> frame_of stk \<and>
    {frame_of pdir, frame_of stk} \<subseteq> free_frames (pfa_of M) - free_frames (pfa_of M4)"
proof -
  let ?M1 = "fork_child M p i m2" and ?M3 = "fork_resume M2 c p"
  have M1: "mvm ?M1 = mvm M" "mk ?M1 = (mk M)\<lparr>pManager := upd_proc m2 p (\<lambda>x. x\<lparr>pid := i\<rparr>)\<rparr>" by (simp_all add: fork_child_def)
  have c1: "cur_proc ?M1 c = cur_proc M c" using pc m2 p by (simp add: cur_proc_def M1)
  have len1: "p < length (room (ProcL (pManager (mk ?M1))))" using p M1 by simp
  obtain pdir where d: "pfa_inv (pfa_of M2)" "mk M2 = (mk ?M1)\<lparr>pManager := upd_proc (pManager (mk ?M1)) p
      (\<lambda>x. x\<lparr>prior := prior (cur_proc M c), status := TASK_STOPPED, mm := \<lparr>cr3 = pdir, regions = regions (mm (cur_proc M c))\<rparr>\<rparr>)\<rparr>"
      "page_aligned pdir" "frame_of pdir \<in> free_frames (pfa_of M)" "free_frames (pfa_of M2) \<subseteq> free_frames (pfa_of M) - {frame_of pdir}"
    using copy_process_spec [OF _ cp pc len1] pinv M1(1) c1 by auto
  have c2: "cur_proc M2 c = cur_proc M c" using pc m2 p by (simp add: cur_proc_def d(2) M1(2))
  have M3: "pfa_of ?M3 = pfa_of M2" "p < length (room (ProcL (pManager (mk ?M3))))" using len1 by (simp_all add: fork_resume_def d(2) M1(2))
  obtain stk where s: "pfa_inv (pfa_of M4)" "mk M4 = (mk ?M3)\<lparr>pManager := upd_proc (pManager (mk ?M3)) p (\<lambda>x. x\<lparr>kernel_info :=
      (kernel_info x)\<lparr>stack_top := stk + 0x1000 - 4, ki_sp := stk + 0x1000 - 4 - stack_frame_size\<rparr>\<rparr>)\<rparr>"
      "page_aligned stk" "frame_of stk \<in> free_frames (pfa_of M2)" "free_frames (pfa_of M4) = free_frames (pfa_of M2) - {frame_of stk}"
    using setup_stack_spec [OF _ st M3(2)] d(1) M3(1) by auto
  have "mk M4 = (mk M)\<lparr>pManager := fork_setup m2 c p i \<lparr>cr3 = pdir, regions = regions (mm (cur_proc M c))\<rparr> stk\<rparr>"
    using pc m2 p unfolding s(2) fork_resume_def fork_setup_def Let_def
    by (simp add: d(2) M1(2) c2 upd_proc_twice)
  moreover have "frame_of pdir \<noteq> frame_of stk" using d(5) s(4) by auto
  ultimately show ?thesis using d s by auto
qed

lemma allocProc_slot:
  assumes "kernel_inv k" and "allocProc (pManager k) = (Some p, m1)" and "pid_gen m1 = (i, m2)"
  shows "p < nr_Proc" and "isFree (ProcL (pManager k)) ! p" and "length (room (ProcL m2)) = nr_Proc" and "proc m2 = proc (pManager k)"
proof -
  let ?m = "pManager k"
  show "p < nr_Proc" "isFree (ProcL ?m) ! p"
    using kernel_inv_alloc(2,3) [OF assms(1,2), of "\<lambda>x. x\<lparr>status := TASK_STOPPED\<rparr>"] by (simp_all add: proc_queues_ok_def)
  obtain l where l: "Lessor_get (ProcL ?m) = (Some p, l)" "m1 = ?m\<lparr>ProcL := l\<rparr>"
    using assms(2) by (auto simp: allocProc_def split: prod.splits)
  show "length (room (ProcL m2)) = nr_Proc" "proc m2 = proc ?m"
    using l(2) Lessor_get_Some [OF l(1)] kernel_len [OF assms(1)] assms(3) by (auto simp: pid_gen_def proc_def fun_eq_iff)
qed

section \<open>The first processes\<close>

lemma register_stack_spec:
  assumes "pfa_inv (pfa_of M)" and "register_stack p bgn fin u M = Inr M'"
  shows "pfa_inv (pfa_of M') \<and> (\<exists>fl. mk M' = (mk M)\<lparr>pManager := upd_proc (pManager (mk M)) p
    (\<lambda>x. x\<lparr>mm := add_region bgn (fin - bgn) fl (mm x)\<rparr>)\<rparr>)"
proof -
  have "pfa_inv (vpfa v) \<and> mk ((upd_p p f M)\<lparr>mvm := v\<rparr>) = (mk M)\<lparr>pManager := upd_proc (pManager (mk M)) p f\<rparr>"
    if "enable_in bgn (fin - bgn) pdir ty (mvm M) = Inr v" for v f pdir ty
    using enable_in_spec [OF assms(1) that] by simp
  then show ?thesis using assms(2) by (cases u) (auto simp: register_stack_def Let_def rbind_eq_Inr)
qed

text \<open>\<^verbatim>\<open>makeSysProc\<close> makes the entry of the process table, with the two stacks as its regions.\<close>

lemma makeSysProc_spec:
  assumes inv: "pfa_inv (pfa_of M)" and run: "makeSysProc M = Inr (p, M')"
  shows "pfa_inv (pfa_of M') \<and> (\<exists>mm' stk m. makeSysProc_table (pManager (mk M)) mm' stk = Inr (p, m) \<and> mk M' = (mk M)\<lparr>pManager := m\<rparr>)"
proof -
  obtain q m1 where a: "allocProc (pManager (mk M)) = (q, m1)" by (cases "allocProc (pManager (mk M))")
  let ?M0 = "M\<lparr>mk := (mk M)\<lparr>pManager := m1\<rparr>\<rparr>"
  obtain pdir M1 where f1: "alloc_frame ?M0 = Inr (pdir, M1)" using run a by (auto simp: makeSysProc_def rbind_eq_Inr)
  have q: "q = Some p" using run a f1 by (cases q) (auto simp: makeSysProc_def rbind_eq_Inr Let_def)
  have i1: "pfa_inv (pfa_of M1)" "mk M1 = (mk M)\<lparr>pManager := m1\<rparr>" using alloc_frame_spec [OF _ f1] inv by simp_all
  let ?M2 = "(upd_p p (\<lambda>x. x\<lparr>status := TASK_STOPPED, prior := Psys\<rparr>) (upd_p p (\<lambda>x. x\<lparr>mm := (mm_init (mm x))\<lparr>cr3 := pdir\<rparr>\<rparr>) M1))
      \<lparr>mvm := copyKernelDir (mvm M1) pdir\<rparr>"
  obtain M3 M4 stk M5 where r: "register_stack p sys_stack_begin_init sys_stack_end True ?M2 = Inr M3"
      "register_stack p user_stack_begin_init user_stack_end True M3 = Inr M4" "alloc_frame M4 = Inr (stk, M5)"
      and M': "M' = upd_p p (\<lambda>x. x\<lparr>kernel_info := (kernel_info x)\<lparr>ki_ss := ucast KDSeg, stack_top := stk + 0x1000 - 4,
        ki_cs := ucast KCSeg, ret_from := kernel2user\<rparr>\<rparr>) M5"
    using run a f1 q by (auto simp: makeSysProc_def rbind_eq_Inr Let_def)
  have i2: "pfa_inv (pfa_of ?M2)" using i1 by simp
  obtain fl1 where i3: "pfa_inv (pfa_of M3)" "mk M3 = (mk ?M2)\<lparr>pManager := upd_proc (pManager (mk ?M2)) p
      (\<lambda>x. x\<lparr>mm := add_region sys_stack_begin_init (sys_stack_end - sys_stack_begin_init) fl1 (mm x)\<rparr>)\<rparr>"
    using register_stack_spec [OF i2 r(1)] by blast
  obtain fl2 where i4: "pfa_inv (pfa_of M4)" "mk M4 = (mk M3)\<lparr>pManager := upd_proc (pManager (mk M3)) p
      (\<lambda>x. x\<lparr>mm := add_region user_stack_begin_init (user_stack_end - user_stack_begin_init) fl2 (mm x)\<rparr>)\<rparr>"
    using register_stack_spec [OF i3(1) r(2)] by blast
  have i5: "pfa_inv (pfa_of M5)" "mk M5 = mk M4" using alloc_frame_spec [OF i4(1) r(3)] by simp_all
  define mm' where "mm' = add_region user_stack_begin_init (user_stack_end - user_stack_begin_init) fl2
      (add_region sys_stack_begin_init (sys_stack_end - sys_stack_begin_init) fl1 \<lparr>cr3 = pdir, regions = []\<rparr>)"
  have "mk M' = (mk M)\<lparr>pManager := upd_proc m1 p (\<lambda>x. x\<lparr>mm := mm', status := TASK_STOPPED, prior := Psys,
          kernel_info := (kernel_info x)\<lparr>ki_ss := ucast KDSeg, stack_top := stk + 0x1000 - 4, ki_cs := ucast KCSeg,
            ret_from := kernel2user\<rparr>\<rparr>)\<rparr>"
  proof -
    have r: "y\<lparr>regions := [], cr3 := pdir\<rparr> = \<lparr>cr3 = pdir, regions = []\<rparr>" for y :: mm_struct by simp
    have e: "x\<lparr>status := TASK_STOPPED, prior := Psys, mm := mm', kernel_info := ki\<rparr> = x\<lparr>mm := mm', status := TASK_STOPPED, prior := Psys, kernel_info := ki\<rparr>"
      for x :: Proc and ki by (rule Proc.equality) simp_all
    show ?thesis
      unfolding M' using i5(2) i4(2) i3(2) i1(2) by (simp add: upd_proc_twice mm_init_def r flip: mm'_def) (simp only: e)
  qed
  then show ?thesis using M' i5(1) a q by (auto simp: makeSysProc_table_def)
qed

lemma makeSysProc_table_slot:
  assumes "makeSysProc_table m mm' stk = Inr (p, m')"
  shows "p < length (isFree (ProcL m))" and "isFree (ProcL m') = (isFree (ProcL m))[p := False]"
proof -
  obtain l where l: "Lessor_get (ProcL m) = (Some p, l)"
    using assms by (auto simp: makeSysProc_table_def allocProc_def rbind_eq_Inr deref_def split: prod.splits option.splits)
  then show "p < length (isFree (ProcL m))" "isFree (ProcL m') = (isFree (ProcL m))[p := False]"
    using assms Lessor_get_Some(1,3) [OF l] by (auto simp: makeSysProc_table_def allocProc_def)
qed

lemma init_tasks_spec:
  assumes inv: "pfa_inv (pfa_of M)" and run: "init_tasks_mem M = Inr M'"
  shows "pfa_inv (pfa_of M') \<and> (\<exists>mm_i stk_i mm_k stk_k. init_tasks (mk M) mm_i stk_i mm_k stk_k = Inr (mk M'))"
proof -
  obtain pinit M1 pkernel M2 where r: "makeSysProc M = Inr (pinit, M1)" "makeSysProc M1 = Inr (pkernel, M2)"
    using run by (auto simp: init_tasks_mem_def rbind_eq_Inr)
  obtain mm_i stk_i m1 where s1: "makeSysProc_table (pManager (mk M)) mm_i stk_i = Inr (pinit, m1)" "mk M1 = (mk M)\<lparr>pManager := m1\<rparr>" "pfa_inv (pfa_of M1)"
    using makeSysProc_spec [OF inv r(1)] by blast
  obtain mm_k stk_k m2 where s2: "makeSysProc_table m1 mm_k stk_k = Inr (pkernel, m2)" "mk M2 = (mk M)\<lparr>pManager := m2\<rparr>" "pfa_inv (pfa_of M2)"
    using makeSysProc_spec [OF s1(3) r(2)] s1(2) by auto
  have "init_tasks (mk M) mm_i stk_i mm_k stk_k = Inr (mk M') \<and> pfa_inv (pfa_of M')"
    using run r s1(1) s2 by (auto simp: init_tasks_mem_def init_tasks_def Let_def rbind_eq_Inr)
  then show ?thesis by blast
qed

text \<open>Enough frames: \<open>n\<close> allocations of one frame in a row succeed. A page takes at most two, one for its table.\<close>

fun can_alloc :: "nat \<Rightarrow> PFAllocator \<Rightarrow> bool" where
  "can_alloc 0 a = True"
| "can_alloc (Suc n) a = (case allocChunk a 1 of Inl _ \<Rightarrow> False | Inr (_, a') \<Rightarrow> can_alloc n a')"

lemma can_allocE:
  assumes "can_alloc (Suc n) a"
  obtains r a' where "allocChunk a 1 = Inr (r, a')" "can_alloc n a'"
  using assms by (auto split: sum.splits prod.splits)

lemma can_alloc_less: "can_alloc (n + k) a \<Longrightarrow> can_alloc n a"
  by (induction n arbitrary: a) (auto split: sum.splits prod.splits)

lemma enable_page_returns:
  assumes "can_alloc (2 + n) a"
  shows "\<exists>m' a'. enable_page (\<lambda>a. allocChunk a 1) m a pdir va ty = Inr (m', a') \<and> can_alloc n a'"
proof -
  obtain r a1 where a1: "allocChunk a 1 = Inr (r, a1)" "can_alloc (Suc n) a1" using can_allocE [of "Suc n" a] assms by auto
  obtain r2 a2 where a2: "allocChunk a1 1 = Inr (r2, a2)" "can_alloc n a2" using can_allocE [OF a1(2)] by blast
  have less: "can_alloc n a1" "can_alloc n a" using can_alloc_less [of n 1 a1] can_alloc_less [of n 2 a] a1(2) assms by (simp_all add: add.commute)
  show ?thesis
    using a1 a2 less by (auto simp: enable_page_def get_table_def Let_def)
qed

lemma enable_loop_returns:
  "can_alloc (2 * n + k) a \<Longrightarrow> \<exists>m' a'. enable_loop (\<lambda>a. allocChunk a 1) n m a pdir va ty = Inr (m', a') \<and> can_alloc k a'"
proof (induction n arbitrary: m a va)
  case (Suc n)
  have "can_alloc (2 + (2 * n + k)) a" using Suc.prems by (simp add: add.assoc)
  from enable_page_returns [OF this] obtain m1 a1 where "enable_page (\<lambda>a. allocChunk a 1) m a pdir va ty = Inr (m1, a1)" "can_alloc (2 * n + k) a1"
    by blast
  then show ?case using Suc.IH [of a1 m1 "va + 0x1000"] by simp
qed simp

lemma enable_in_returns:
  assumes "unat ((page_ceil (bgn + sz) - page_floor bgn) div 0x1000) = n" and "can_alloc (2 * n + k) (vpfa v)"
  shows "\<exists>v'. enable_in bgn sz pdir ty v = Inr v' \<and> can_alloc k (vpfa v')"
  using enable_loop_returns [OF assms(2), of "vmem v" pdir "page_floor bgn" ty] assms(1)
  by (auto simp: enable_in_def enableSpace_def enableSpace_with_def Let_def)

lemma stack_pages:
  "unat ((page_ceil (sys_stack_begin_init + (sys_stack_end - sys_stack_begin_init)) - page_floor sys_stack_begin_init) div 0x1000) = 2"
  "unat ((page_ceil (user_stack_begin_init + (user_stack_end - user_stack_begin_init)) - page_floor user_stack_begin_init) div 0x1000) = 2"
  by (simp_all add: page_ceil_def page_floor_def sys_stack_begin_init_def sys_stack_end_def user_stack_begin_init_def user_stack_end_def)

lemma makeSysProc_returns:
  assumes "can_alloc (10 + k) (pfa_of M)" and "fst (allocProc (pManager (mk M))) \<noteq> None"
  shows "\<exists>p M'. makeSysProc M = Inr (p, M') \<and> can_alloc k (pfa_of M')"
proof -
  obtain p m1 where a: "allocProc (pManager (mk M)) = (Some p, m1)" using assms(2) by (cases "allocProc (pManager (mk M))") auto
  have "can_alloc (Suc (4 + (4 + Suc k))) (pfa_of M)" using assms(1) by (simp add: numeral_eq_Suc)
  then obtain pdir a1 where a1: "allocChunk (pfa_of M) 1 = Inr (pdir, a1)" "can_alloc (4 + (4 + Suc k)) a1" by (rule can_allocE)
  have rs: "\<exists>N'. register_stack p bgn fin True N = Inr N' \<and> can_alloc j (pfa_of N')"
    if "can_alloc (4 + j) (pfa_of N)" "unat ((page_ceil (bgn + (fin - bgn)) - page_floor bgn) div 0x1000) = 2" for j N bgn fin
  proof -
    let ?N = "upd_p p (\<lambda>x. x\<lparr>mm := add_region bgn (fin - bgn) (READABLE OR WRITABLE) (mm x)\<rparr>) N"
    have "can_alloc (2 * 2 + j) (pfa_of N)" using that(1) by simp
    from enable_in_returns [OF that(2) this, of "cr3 (mm (cur_proc ?N p))" userpage] obtain v where
      "enable_in bgn (fin - bgn) (cr3 (mm (cur_proc ?N p))) userpage (mvm N) = Inr v" "can_alloc j (vpfa v)" by blast
    then show ?thesis by (simp add: register_stack_def Let_def)
  qed
  let ?M2 = "(upd_p p (\<lambda>x. x\<lparr>status := TASK_STOPPED, prior := Psys\<rparr>) (upd_p p (\<lambda>x. x\<lparr>mm := (mm_init (mm x))\<lparr>cr3 := pdir\<rparr>\<rparr>)
      (M\<lparr>mk := (mk M)\<lparr>pManager := m1\<rparr>, mvm := (mvm M)\<lparr>vpfa := a1\<rparr>\<rparr>)))
      \<lparr>mvm := copyKernelDir ((mvm M)\<lparr>vpfa := a1\<rparr>) pdir\<rparr>"
  obtain M3 where M3: "register_stack p sys_stack_begin_init sys_stack_end True ?M2 = Inr M3" "can_alloc (4 + Suc k) (pfa_of M3)"
    using rs [of "4 + Suc k" ?M2, OF _ stack_pages(1)] a1(2) by auto
  obtain M4 where M4: "register_stack p user_stack_begin_init user_stack_end True M3 = Inr M4" "can_alloc (Suc k) (pfa_of M4)"
    using rs [OF M3(2) stack_pages(2)] by blast
  obtain stk a5 where a5: "allocChunk (pfa_of M4) 1 = Inr (stk, a5)" "can_alloc k a5" using M4(2) by (rule can_allocE)
  then show ?thesis using a a1(1) M3(1) M4(1) by (simp add: makeSysProc_def alloc_frame_def Let_def)
qed

text \<open>With twenty frames and an empty process table the first two processes are made and one of them is started.\<close>

lemma init_tasks_mem_returns:
  assumes inv: "kernel_inv (mk M)" and free: "isFree (ProcL (pManager (mk M))) = replicate nr_Proc True"
    and pinv: "pfa_inv (pfa_of M)" and frames: "can_alloc 20 (pfa_of M)"
  shows "\<exists>M'. init_tasks_mem M = Inr M'"
proof -
  have nonempty: "fst (allocProc m) \<noteq> None" if "True \<in> set (isFree (ProcL m))" for m
    using that Lessor_get_None [of "ProcL m"] by (auto simp: allocProc_def split: prod.splits)
  have "True \<in> set (isFree (ProcL (pManager (mk M))))" using free by (simp add: nr_Proc_def)
  then obtain p M1 where M1: "makeSysProc M = Inr (p, M1)" "can_alloc 10 (pfa_of M1)"
    using makeSysProc_returns [of 10 M] frames nonempty by auto
  note s1 = makeSysProc_spec [OF pinv M1(1)]
  then obtain mm1 stk1 m1 where t1: "makeSysProc_table (pManager (mk M)) mm1 stk1 = Inr (p, m1)" "mk M1 = (mk M)\<lparr>pManager := m1\<rparr>" by blast
  have f1: "isFree (ProcL m1) = (replicate nr_Proc True)[p := False]" using makeSysProc_table_slot(2) [OF t1(1)] free by simp
  have "isFree (ProcL m1) ! (if p = 0 then 1 else 0)" "(if p = 0 then 1 else 0) < length (isFree (ProcL m1))"
    unfolding f1 by (simp_all add: nr_Proc_def)
  then have "True \<in> set (isFree (ProcL m1))" by (metis (full_types) nth_mem)
  then have "True \<in> set (isFree (ProcL (pManager (mk M1))))" using t1(2) by simp
  then obtain q M2 where M2: "makeSysProc M1 = Inr (q, M2)"
    using makeSysProc_returns [of 0 M1] M1(2) nonempty by auto
  obtain mm2 stk2 m2 where t2: "makeSysProc_table m1 mm2 stk2 = Inr (q, m2)" "mk M2 = (mk M)\<lparr>pManager := m2\<rparr>"
    using makeSysProc_spec [OF _ M2] s1 t1(2) by auto
  obtain k' where "init_tasks (mk M) mm1 stk1 mm2 stk2 = Inr k'" using init_tasks_inv [OF inv free] by blast
  then show ?thesis using M1(1) M2 t1 t2 by (auto simp: init_tasks_mem_def init_tasks_def Let_def rbind_eq_Inr)
qed

section \<open>Properties\<close>

lemma fork_spec:
  assumes inv: "kernel_inv (mk M)" and pinv: "pfa_inv (vpfa (mvm M))" and cur: "pCurrent (pManager (mk M)) = Some c"
    and c: "\<not> isFree (ProcL (pManager (mk M))) ! c" and run: "fork fuel M = Inr (i, M')"
  shows "\<exists>pdir stk. fork_table (mk M) \<lparr>cr3 = pdir, regions = regions (mm (cur_proc M c))\<rparr> stk = Inr (i, mk M') \<and>
    kernel_inv (mk M') \<and> pfa_inv (vpfa (mvm M')) \<and> page_aligned pdir \<and> page_aligned stk \<and> frame_of pdir \<noteq> frame_of stk \<and>
    {frame_of pdir, frame_of stk} \<subseteq> free_frames (vpfa (mvm M)) - free_frames (vpfa (mvm M'))"
proof -
  obtain p m1 where a: "allocProc (pManager (mk M)) = (Some p, m1)"
    using run cur by (cases "allocProc (pManager (mk M))"; cases "fst (allocProc (pManager (mk M)))") (auto simp: fork_def rbind_eq_Inr)
  obtain i2 m2 where g: "pid_gen m1 = (i2, m2)" by (cases "pid_gen m1")
  note p = allocProc_slot [OF inv a g]
  obtain M2 M4 k' where cp: "copy_process fuel c p (fork_child M p i2 m2) = Inr M2" and st: "setup_stack c p (fork_resume M2 c p) = Inr M4"
      and wk: "wakeup (mk M4) i2 = Inr k'" and M': "M' = M4\<lparr>mk := k'\<rparr>" and i: "i = i2"
    using run cur a g by (auto simp: fork_def Let_def rbind_eq_Inr fork_child_def fork_resume_def)
  have "c \<noteq> p" using c p(2) by auto
  then obtain pdir stk where r: "mk M4 = (mk M)\<lparr>pManager := fork_setup m2 c p i2 \<lparr>cr3 = pdir, regions = regions (mm (cur_proc M c))\<rparr> stk\<rparr>"
      "pfa_inv (pfa_of M4)" "page_aligned pdir" "page_aligned stk" "frame_of pdir \<noteq> frame_of stk"
      "{frame_of pdir, frame_of stk} \<subseteq> free_frames (pfa_of M) - free_frames (pfa_of M4)"
    using fork_setup_reached [OF pinv _ _ _ cp st] p(1,3,4) by (auto simp: cur_proc_def)
  have tab: "fork_table (mk M) \<lparr>cr3 = pdir, regions = regions (mm (cur_proc M c))\<rparr> stk = Inr (i, mk M')"
    using cur a g wk M' i r(1) by (simp add: fork_table_def)
  moreover have "kernel_inv (mk M')" using kstep_inv [OF ks_fork [OF tab] inv] .
  ultimately show ?thesis using r M' by auto
qed


text \<open>A memory in which every page of the running address space is the frame 0, and that frame holds one word throughout.\<close>

definition flat_mem :: "nat set \<Rightarrow> mem \<Rightarrow> bool" where
  "flat_mem F m \<longleftrightarrow> (\<forall>a. frame_of a \<notin> F \<longrightarrow> m a = 0x17)"

lemma frame_offset: "frame_of (va AND 0xfff) = 0"
proof -
  have "unat (va AND 0xfff) < 4096"
    using word_and_le1 [of va "0xfff"] by (simp add: word_le_nat_alt le_imp_less_Suc)
  then show ?thesis by (simp add: frame_of_def)
qed

lemma flat_mmu:
  assumes "flat_mem F m" and "page_aligned dir" and "frame_of dir \<notin> F" and "0 \<notin> F"
  shows "mmu m dir va = Inr (va AND 0xfff)"
proof -
  have z: "page_aligned 0" "frame_of 0 = 0" by (simp_all add: page_aligned_def frame_of_def)
  have e: "caddrEntry 0x17 = 0" "isEntryExist 0x17" by (simp_all add: caddrEntry_def isEntryExist_def)
  have "frame_of (dir_slot dir va) \<notin> F" "frame_of (table_slot 0 va) \<notin> F"
    using assms(2,3,4) z by simp_all
  then have "m (dir_slot dir va) = 0x17" "m (table_slot 0 va) = 0x17" using assms(1) unfolding flat_mem_def by blast+
  then show ?thesis by (simp add: mmu_def translate_def Let_def e)
qed

lemma flat_copy:
  assumes "flat_mem F m" and "page_aligned dir" and "frame_of dir \<notin> F" and "0 \<notin> F"
  shows "vcopy32 dir d s n m = Inr m"
proof (induction n arbitrary: d s)
  case (Suc n)
  have v: "m (va AND 0xfff) = 0x17" for va using assms(1,4) frame_offset [of va] unfolding flat_mem_def by metis
  then have "m(d AND 0xfff := 0x17) = m" by (metis fun_upd_triv)
  then show ?case using Suc v by (simp add: vload32_def vstore32_def flat_mmu [OF assms])
qed simp

definition demo_machine :: machine where
  "demo_machine = \<lparr>mk = demo_ipc,
     mvm = \<lparr>vmem = (\<lambda>_. 0x17), vpfa = demo_pfa, kPdir = 0, kPtables = 0, v2ptable = 0, mem_size = 0\<rparr>\<rparr>"

lemma demo_machine_flat:
  assumes "allocChunk demo_pfa 1 = Inr (r, a)"
  shows "flat_mem {frame_of r} (vmem (copyKernelDir (mvm demo_machine) r))" and "frame_of r \<noteq> 0"
proof -
  note f = pf.alloc_fresh [OF demo_inv assms]
  show nz: "frame_of r \<noteq> 0" using f demo_frames(1) by auto
  have z: "page_aligned 0" "frame_of 0 = 0" by (simp_all add: page_aligned_def frame_of_def)
  show "flat_mem {frame_of r} (vmem (copyKernelDir (mvm demo_machine) r))"
    unfolding flat_mem_def using copyKernelDir_mem(1) [of r "mvm demo_machine"] f nz z by (simp add: demo_machine_def)
qed

lemma copy_process_no_regions:
  assumes "regions (mm (cur_proc M s)) = []" and "allocChunk (pfa_of M) 1 = Inr (r, a)"
    and "s \<noteq> d" and "d < length (room (ProcL (pManager (mk M))))"
  shows "\<exists>M'. copy_process fuel s d M = Inr M' \<and> mvm M' = copyKernelDir ((mvm M)\<lparr>vpfa := a\<rparr>) r \<and> cpu_cr3 (mk M') = cpu_cr3 (mk M)"
  using assms by (simp add: copy_process_def Let_def clone_mm_def cur_proc_def)

lemma demo_fork_runs: "\<exists>M'. fork 1 demo_machine = Inr (100, M')"
proof -
  let ?M = demo_machine
  have K: "mk ?M = demo_ipc" "pfa_of ?M = demo_pfa" "cpu_cr3 demo_ipc = 0" "pCurrent (pManager demo_ipc) = Some 0"
    by (simp_all add: demo_machine_def demo_ipc_def demo_pair_def demo_kernel_def demo_pm_run_def demo_pm_def PManager_of_def)
  obtain m1 where a: "allocProc (pManager demo_ipc) = (Some 2, m1)" using demo_fork(2) by blast
  obtain i m2 where g: "pid_gen m1 = (i, m2)" by (cases "pid_gen m1")
  note p = allocProc_slot [OF demo_ipc_inv a g]
  obtain r1 a1 r2 a2 where al: "allocChunk demo_pfa 1 = Inr (r1, a1)" "allocChunk a1 1 = Inr (r2, a2)"
    by (rule demo_allocs) blast
  let ?M1 = "fork_child ?M 2 i m2"
  have M1: "mvm ?M1 = mvm ?M" "cpu_cr3 (mk ?M1) = 0" using K by (simp_all add: fork_child_def)
  have "regions (mm demo_proc) = []" by code_simp
  then have "regions (mm (cur_proc ?M1 0)) = []"
    using p(3,4) demo_fork(4) by (simp add: fork_child_def cur_proc_def nr_Proc_def)
  then obtain M2 where M2: "copy_process 1 0 2 ?M1 = Inr M2" "mvm M2 = copyKernelDir ((mvm ?M)\<lparr>vpfa := a1\<rparr>) r1" "cpu_cr3 (mk M2) = 0"
    using copy_process_no_regions [of ?M1 0 r1 a1 2 1] al M1 K p(3) by (auto simp: fork_child_def nr_Proc_def)
  let ?M3 = "fork_resume M2 0 2"
  have M3: "mvm ?M3 = mvm M2" "cpu_cr3 (mk ?M3) = 0" using M2(3) by (simp_all add: fork_resume_def)
  have fl: "flat_mem {frame_of r1} (vmem (mvm M2))" "frame_of r1 \<noteq> 0"
    using demo_machine_flat [OF al(1)] M2(2) by (simp_all add: copyKernelDir_def Let_def)
  have cp: "vcopy32 0 d s n (vmem (mvm M2)) = Inr (vmem (mvm M2))" for d s n
    by (rule flat_copy [OF fl(1)]) (use fl(2) in \<open>simp_all add: page_aligned_def frame_of_def\<close>)
  have pa: "vpfa (mvm M2) = a1" using M2(2) by simp
  obtain M4 where M4: "setup_stack 0 2 ?M3 = Inr M4"
    using al(2) M3 pa cp by (simp add: setup_stack_def alloc_frame_def Let_def)
  obtain pdir stk where r: "mk M4 = demo_ipc\<lparr>pManager := fork_setup m2 0 2 i \<lparr>cr3 = pdir, regions = regions (mm (cur_proc ?M 0))\<rparr> stk\<rparr>"
    using fork_setup_reached [of ?M 0 2 m2 1 i M2 M4] demo_inv p M2(1) M4 K by (auto simp: cur_proc_def nr_Proc_def)
  obtain k' where "fork_table demo_ipc \<lparr>cr3 = pdir, regions = regions (mm (cur_proc ?M 0))\<rparr> stk = Inr (100, k')"
    using demo_fork(1) by blast
  then have "i = 100" "wakeup (mk M4) i = Inr k'"
    using r a g K by (auto simp: fork_table_def rbind_eq_Inr)
  then show ?thesis
    using K a g M2(1) M4 by (simp add: fork_def Let_def fork_child_def fork_resume_def)
qed


end
