(* ===== verification/Kernel_Call_Correct.thy ===== *)
theory Kernel_Call_Correct
  imports Kernel_Call Address_Space_Correct
begin

unbundle bit_operations_syntax

text \<open>
  Interrupts and kernel calls keep the machine in order: what each routine leaves alone of the current process, the
  invariant of the machine, its preservation by every interrupt, and the transfer of a message between the memories of two
  processes.
\<close>

section \<open>The current process\<close>

text \<open>The process that runs has a slot of its own.\<close>

definition cur_ok :: "kernel \<Rightarrow> bool" where
  "cur_ok k \<longleftrightarrow> (\<forall>c. pCurrent (pManager k) = Some c \<longrightarrow> \<not> isFree (ProcL (pManager k)) ! c)"

definition cur_frame :: "kernel \<Rightarrow> kernel \<Rightarrow> bool" where
  "cur_frame k k' \<longleftrightarrow> pCurrent (pManager k') = pCurrent (pManager k) \<and> isFree (ProcL (pManager k')) = isFree (ProcL (pManager k)) \<and>
     cpu_cr3 k' = cpu_cr3 k"

lemma cur_frame_refl [simp]: "cur_frame k k"
  by (simp add: cur_frame_def)

lemma cur_frame_trans: "cur_frame k k' \<Longrightarrow> cur_frame k' k'' \<Longrightarrow> cur_frame k k''"
  by (simp add: cur_frame_def)

lemma cur_frame_ok: "cur_frame k k' \<Longrightarrow> cur_ok k \<Longrightarrow> cur_ok k'"
  by (simp add: cur_frame_def cur_ok_def)

lemma cur_frame_fields [simp]:
  "cur_frame k (k'\<lparr>timer := t\<rparr>) = cur_frame k k'" "cur_frame k (k'\<lparr>irqQue := q\<rparr>) = cur_frame k k'"
  "cur_frame k (k'\<lparr>sched_req := b\<rparr>) = cur_frame k k'" "cur_frame k (reschedule k') = cur_frame k k'"
  by (simp_all add: cur_frame_def reschedule_def)

lemma proc_store_cur [simp]: "pCurrent (proc_store m pp v) = pCurrent m" "isFree (ProcL (proc_store m pp v)) = isFree (ProcL m)"
  by (cases pp; simp)+

lemma enque_cur: "enque m p l = Inr m' \<Longrightarrow> pCurrent m' = pCurrent m \<and> isFree (ProcL m') = isFree (ProcL m)"
  by (auto simp: enque_def Let_def rbind_eq_Inr split: STATUS.splits if_splits)

lemma deque_levels_cur: "deque_levels m p is = Inr m' \<Longrightarrow> pCurrent m' = pCurrent m \<and> isFree (ProcL m') = isFree (ProcL m)"
  by (induction m p "is" rule: deque_levels.induct) (auto simp: Let_def rbind_eq_Inr split: option.splits)

lemma deque_cur: "deque m p = Inr m' \<Longrightarrow> pCurrent m' = pCurrent m \<and> isFree (ProcL m') = isFree (ProcL m)"
  by (auto simp: deque_def dest: deque_levels_cur split: STATUS.splits)

lemma wakeup_cur: "wakeup k d = Inr k' \<Longrightarrow> cur_frame k k'"
  by (auto simp: wakeup_def rbind_eq_Inr cur_frame_def reschedule_def dest!: enque_cur split: option.splits)

lemma sleep_pid_cur: "sleep_pid k d ms = Inr k' \<Longrightarrow> cur_frame k k'"
  by (auto simp: sleep_pid_def rbind_eq_Inr cur_frame_def reschedule_def Let_def dest!: deque_cur split: option.splits if_splits)

lemma sleep_ms_cur: "sleep_ms k ms = Inr k' \<Longrightarrow> cur_frame k k'"
  by (auto simp: sleep_ms_def rbind_eq_Inr intro: sleep_pid_cur)

lemma sleep_callback_cur: "sleep_callback k f = Inr k' \<Longrightarrow> cur_frame k k'"
  by (auto simp: sleep_callback_def rbind_eq_Inr Let_def cur_frame_def dest!: sleep_pid_cur)

lemma put_cur:
  "put_sendQ k p x = Inr k' \<Longrightarrow> cur_frame k k'" "put_recvQ k p x = Inr k' \<Longrightarrow> cur_frame k k'"
  "put_anyQ k p x = Inr k' \<Longrightarrow> cur_frame k k'"
  by (auto simp: put_sendQ_def put_recvQ_def put_anyQ_def rbind_eq_Inr cur_frame_def set_sendQ_def set_recvQ_def set_recv_anyQ_def)

lemma take_cur:
  "take_sendQ k p = Inr (r, k') \<Longrightarrow> cur_frame k k'" "take_anyQ k p = Inr (r, k') \<Longrightarrow> cur_frame k k'"
  "take_sendQ_from k p i = Inr (r, k') \<Longrightarrow> cur_frame k k'" "take_recvQ_from k p i = Inr (r, k') \<Longrightarrow> cur_frame k k'"
  by (auto simp: take_sendQ_def take_anyQ_def take_sendQ_from_def take_recvQ_from_def rbind_eq_Inr cur_frame_def
      set_sendQ_def set_recvQ_def set_recv_anyQ_def)

lemmas op_cur = wakeup_cur sleep_ms_cur sleep_callback_cur put_cur take_cur

lemma send_cur: "send k i mess = Inr (k', mess') \<Longrightarrow> cur_frame k k'"
  by (auto simp: send_def rbind_eq_Inr Let_def dest!: op_cur split: if_splits intro: cur_frame_trans)

lemma recv_cur: "recv k i mess = Inr (k', mess') \<Longrightarrow> cur_frame k k'"
  by (auto simp: recv_def rbind_eq_Inr Let_def dest!: op_cur split: if_splits intro: cur_frame_trans)

lemma recv_later_cur: "recv_later k = Inr k' \<Longrightarrow> cur_frame k k'"
  by (auto simp: recv_later_def rbind_eq_Inr dest!: op_cur split: if_splits)

lemma notify_cur: "notify k n = Inr k' \<Longrightarrow> cur_frame k k'"
  by (auto simp: notify_def rbind_eq_Inr cur_frame_def dest!: wakeup_cur split: if_splits)

lemma expire_loop_cur: "expire_loop k ps = Inr (k', qs) \<Longrightarrow> cur_frame k k'"
proof (induction k ps arbitrary: k' qs rule: expire_loop.induct)
  case (2 k p ps)
  show ?case
  proof (cases "clocks p > 0")
    case False
    with 2 show ?thesis
      by (cases "ttype p") (auto simp: rbind_eq_Inr cur_frame_def dest!: wakeup_cur)
  qed (use 2 in auto)
qed auto

lemma timerHandler_cur: "timerHandler k = Inr k' \<Longrightarrow> cur_frame k k'"
  by (auto simp: timerHandler_def rbind_eq_Inr Let_def cur_frame_def dest!: expire_loop_cur)

text \<open>The scheduler chooses a process that is on a queue, which has a slot.\<close>

lemma head_has_slot:
  assumes "kernel_inv k" and "i < nr_Level" and "pHead (pManager k) ! i = Some p"
  shows "\<not> isFree (ProcL (pManager k)) ! p"
proof -
  let ?m = "pManager k"
  have wf: "runq_wf ?m (run_queues ?m)" and t: "table_ok ?m" using assms(1) by (simp_all add: kernel_inv_def sched_inv_def)
  have "\<forall>i < nr_Level. chain (plinks ?m) (pHead ?m ! i) (run_queues ?m ! i)" using wf unfolding runq_wf_def by blast
  then have "chain (plinks ?m) (Some p) (run_queues ?m ! i)" using assms(2,3) by auto
  then have "p \<in> set (run_queues ?m ! i)" by (cases "run_queues ?m ! i") auto
  moreover then have "p < nr_Proc" using wf assms(2) unfolding runq_wf_def by blast
  ultimately have "status (proc ?m p) = TASK_RUNNING" using wf assms(2) unfolding runq_wf_def by blast
  then show ?thesis using t \<open>p < nr_Proc\<close> unfolding table_ok_def by blast
qed

lemma schedule_to_cur:
  assumes "schedule_to k i p ebp = Inr (k', e)" and "\<not> isFree (ProcL (pManager k)) ! p" and "cur_ok k"
  shows "cur_ok k'"
  using assms by (auto simp: schedule_to_def Let_def rbind_eq_Inr cur_ok_def dest!: enque_cur split: if_splits)

lemma schedule_levels_cur:
  assumes "kernel_inv k" and "cur_ok k" and "set is \<subseteq> {..<nr_Level}" and "schedule_levels k is ebp = Inr (k', e)"
  shows "cur_ok k'"
  using assms
proof (induction "is")
  case (Cons i "is")
  then show ?case using head_has_slot [OF Cons.prems(1), of i] schedule_to_cur [of k i _ ebp k' e]
    by (cases "pHead (pManager k) ! i") auto
qed auto

lemma schedule_cur:
  assumes "kernel_inv k" and "cur_ok k" and "schedule k ebp = Inr (k', e)"
  shows "cur_ok k'"
proof (cases "\<not> sched_req k \<and> \<not> quantum_exceeded (timer k)")
  case False
  let ?k = "k\<lparr>sched_req := False, timer := (timer k)\<lparr>quantum_exceeded := False\<rparr>\<rparr>"
  have "kernel_inv ?k" using assms(1) by (simp add: kernel_inv_def timers_sorted_def)
  moreover have "cur_ok ?k" using assms(2) by (simp add: cur_ok_def)
  moreover have "schedule_levels ?k [0..<nr_Level] ebp = Inr (k', e)" using False assms(3) by (auto simp: schedule_def)
  ultimately show ?thesis by (intro schedule_levels_cur [of ?k "[0..<nr_Level]" ebp k' e]) auto
qed (use assms in \<open>auto simp: schedule_def\<close>)

lemma fork_table_cur:
  assumes "cur_ok k" and "fork_table k mm' chunk = Inr (i, k')"
  shows "cur_ok k'"
proof -
  obtain c p m1 i2 m2 where a: "pCurrent (pManager k) = Some c" "allocProc (pManager k) = (Some p, m1)" "pid_gen m1 = (i2, m2)"
      and w: "wakeup (k\<lparr>pManager := fork_setup m2 c p i2 mm' chunk\<rparr>) i2 = Inr k'"
  proof -
    obtain c where c: "pCurrent (pManager k) = Some c" using assms(2) by (cases "pCurrent (pManager k)") (auto simp: fork_table_def)
    obtain q m1 where a: "allocProc (pManager k) = (q, m1)" by (cases "allocProc (pManager k)")
    obtain p where p: "q = Some p" using assms(2) c a by (cases q) (auto simp: fork_table_def)
    obtain i2 m2 where g: "pid_gen m1 = (i2, m2)" by (cases "pid_gen m1")
    show ?thesis using that [OF c] assms(2) c a p g by (auto simp: fork_table_def rbind_eq_Inr)
  qed
  obtain l where l: "Lessor_get (ProcL (pManager k)) = (Some p, l)" "m1 = (pManager k)\<lparr>ProcL := l\<rparr>"
    using a(2) by (auto simp: allocProc_def split: prod.splits)
  have "isFree l = (isFree (ProcL (pManager k)))[p := False]" using Lessor_get_Some [OF l(1)] by simp
  then have "\<not> isFree (ProcL m2) ! c" using assms(1) a(1,3) l(2) Lessor_get_Some(1) [OF l(1)] by (cases "c = p") (auto simp: pid_gen_def cur_ok_def nth_list_update)
  moreover have "pCurrent m2 = Some c" using a l(2) by (auto simp: pid_gen_def)
  ultimately have "cur_ok (k\<lparr>pManager := fork_setup m2 c p i2 mm' chunk\<rparr>)" by (simp add: cur_ok_def fork_setup_def Let_def)
  then show ?thesis using cur_frame_ok [OF wakeup_cur [OF w]] by blast
qed

section \<open>The invariant of the machine\<close>

definition machine_inv :: "machine \<Rightarrow> bool" where
  "machine_inv M \<longleftrightarrow> kernel_inv (mk M) \<and> cur_ok (mk M) \<and> pfa_inv (vpfa (mvm M))"

lemma machine_inv_mem [simp]: "machine_inv (M\<lparr>mvm := (mvm M)\<lparr>vmem := m\<rparr>\<rparr>) = machine_inv M"
  by (simp add: machine_inv_def)

lemma machine_inv_kernel:
  "machine_inv M \<Longrightarrow> kernel_inv k \<Longrightarrow> cur_frame (mk M) k \<Longrightarrow> machine_inv (M\<lparr>mk := k\<rparr>)"
  by (auto simp: machine_inv_def intro: cur_frame_ok)

lemma set_reg_inv: "machine_inv M \<Longrightarrow> ensures (set_reg args r w M) machine_inv"
  by (auto simp: set_reg_def ensures_def rbind_eq_Inr)

lemma set_regs_inv: "machine_inv M \<Longrightarrow> ensures (set_regs args rs w M) machine_inv"
  by (induction rs arbitrary: M) (auto intro: ensures_bind set_reg_inv)

lemma own_message_inv: "machine_inv M \<Longrightarrow> ensures (own_message a M) (\<lambda>x. machine_inv (snd x) \<and> mk (snd x) = mk M)"
  by (auto simp: own_message_def ensures_def rbind_eq_Inr)

lemma call_send_inv: "machine_inv M \<Longrightarrow> ensures (call_send to a M) machine_inv"
  unfolding call_send_def
proof (rule ensures_bind [OF own_message_inv], assumption)
  fix x :: "Message \<times> machine" assume x: "machine_inv (snd x) \<and> mk (snd x) = mk M"
  obtain mess M1 where x1: "x = (mess, M1)" by (cases x)
  show "ensures (case x of (mess, M) \<Rightarrow> rbind (send (mk M) (sint to) mess) (\<lambda>(k, mess').
      rbind (put_field (cpu_cr3 (mk M)) a ''id'' (bytes32 (word_of_int (mid mess'))) (vmem (mvm M))) (\<lambda>m.
        Inr (M\<lparr>mk := k, mvm := (mvm M)\<lparr>vmem := m\<rparr>\<rparr>)))) machine_inv"
  proof -
    have "machine_inv (M1\<lparr>mk := k, mvm := (mvm M1)\<lparr>vmem := m\<rparr>\<rparr>)" if "send (mk M1) (sint to) mess = Inr (k, mess')" for k mess' m
      using x x1 cur_frame_ok [OF send_cur [OF that]] ensuresD [OF send_inv that] by (auto simp: machine_inv_def)
    then show ?thesis using x1 by (auto simp: ensures_def rbind_eq_Inr)
  qed
qed

lemma call_recv_inv: "machine_inv M \<Longrightarrow> ensures (call_recv from a M) machine_inv"
  unfolding call_recv_def
proof (rule ensures_bind [OF own_message_inv], assumption)
  fix x :: "Message \<times> machine" assume x: "machine_inv (snd x) \<and> mk (snd x) = mk M"
  obtain mess M1 where x1: "x = (mess, M1)" by (cases x)
  show "ensures (case x of (mess, M) \<Rightarrow> rbind (recv (mk M) (sint from) mess) (\<lambda>(k, mess').
      rbind (write_message (cpu_cr3 (mk M)) a mess' (vmem (mvm M))) (\<lambda>m.
        Inr (M\<lparr>mk := k, mvm := (mvm M)\<lparr>vmem := m\<rparr>\<rparr>)))) machine_inv"
  proof -
    have "machine_inv (M1\<lparr>mk := k, mvm := (mvm M1)\<lparr>vmem := m\<rparr>\<rparr>)" if "recv (mk M1) (sint from) mess = Inr (k, mess')" for k mess' m
      using x x1 cur_frame_ok [OF recv_cur [OF that]] ensuresD [OF recv_inv that] by (auto simp: machine_inv_def)
    then show ?thesis using x1 by (auto simp: ensures_def rbind_eq_Inr)
  qed
qed

lemma call_fork_inv: "machine_inv M \<Longrightarrow> ensures (call_fork fuel args M) machine_inv"
  unfolding call_fork_def
proof (rule ensures_bind)
  assume M: "machine_inv M"
  show "ensures (fork fuel M) (\<lambda>x. machine_inv (snd x))"
    unfolding ensures_def
  proof (intro allI impI)
    fix x assume run: "fork fuel M = Inr x"
    obtain i M' where x: "x = (i, M')" by (cases x)
    obtain c where c: "pCurrent (pManager (mk M)) = Some c" using run by (cases "pCurrent (pManager (mk M))") (auto simp: fork_def)
    have f: "\<not> isFree (ProcL (pManager (mk M))) ! c" using M c by (simp add: machine_inv_def cur_ok_def)
    obtain pdir stk where "fork_table (mk M) \<lparr>cr3 = pdir, regions = regions (mm (cur_proc M c))\<rparr> stk = Inr (i, mk M')"
        "kernel_inv (mk M')" "pfa_inv (vpfa (mvm M'))"
      using fork_spec [of M c fuel i M'] M c f run x by (auto simp: machine_inv_def)
    moreover then have "cur_ok (mk M')" using fork_table_cur M by (auto simp: machine_inv_def)
    ultimately show "machine_inv (snd x)" by (simp add: machine_inv_def x)
  qed
qed (auto intro: set_reg_inv)

text \<open>The loader changes memory and takes frames.\<close>

lemma load_segment_inv:
  assumes "machine_inv (fst S)"
  shows "ensures (load_segment rd fs junk fl ph S) (\<lambda>x. machine_inv (fst x))"
proof -
  obtain M d where S: "S = (M, d)" by (cases S)
  have "machine_inv (M\<lparr>mvm := v\<lparr>vmem := m\<rparr>\<rparr>)" if "enable_in b n pdir ty (mvm M) = Inr v" for b n pdir ty v m
    using enable_in_spec [OF _ that] assms by (simp add: machine_inv_def S)
  then show ?thesis unfolding S load_segment_def prod.case Let_def by (auto simp: ensures_def rbind_eq_Inr)
qed

lemma load_loop_inv: "machine_inv (fst S) \<Longrightarrow> ensures (load_loop rd fs junk fl n phdr S) (\<lambda>x. machine_inv (fst x))"
  by (induction n arbitrary: phdr S) (auto intro!: ensures_bind [where Q = "\<lambda>x. machine_inv (fst x)"] load_segment_inv)

lemma load_elf_inv:
  assumes "machine_inv M"
  shows "ensures (load_elf_executable rd fs junk fl (M, d)) (\<lambda>(_, M', _). machine_inv M')"
proof -
  have a: "machine_inv M2" if "machine_inv M1" "after_exec w M1 = Inr M2" for M1 M2 w
    using that by (auto simp: after_exec_def rbind_eq_Inr)
  have l: "machine_inv M1" if "load_loop rd fs junk fl n phdr (M, d1) = Inr (M1, d2)" for n phdr d1 M1 d2
    using ensuresD [OF load_loop_inv that] assms by simp
  show ?thesis unfolding load_elf_executable_def prod.case ensures_def
    using assms by (auto simp: rbind_eq_Inr Let_def split: if_splits intro: a [OF l])
qed

lemma enter_user_inv: "machine_inv M \<Longrightarrow> ensures (enter_user args pri M) machine_inv"
  unfolding enter_user_def by (auto intro!: ensures_bind [where Q = machine_inv] set_regs_inv set_reg_inv simp del: set_regs.simps)

lemma call_exec_inv:
  assumes "machine_inv M"
  shows "ensures (call_exec E args filepath pri (M, d)) (\<lambda>x. machine_inv (fst x))"
  unfolding ensures_def
proof (intro allI impI)
  fix x assume run: "call_exec E args filepath pri (M, d) = Inr x"
  obtain fl d1 w M1 d2 M2 M3 where e: "exec (drv E) (rootfs E) (fresh E) (exec_eax E) fl (M, d1) = Inr (w, M1, d2)"
      and u: "enter_user args pri M1 = Inr M2" and s: "set_reg args ''ax'' (of_bool (w \<noteq> 0)) M2 = Inr M3" and x: "x = (M3, d2)"
    using run by (auto simp: call_exec_def rbind_eq_Inr)
  have "machine_inv M1"
    using e load_elf_inv [OF assms, of "drv E" "rootfs E" "fresh E" fl d1] by (auto simp: exec_def rbind_eq_Inr ensures_def)
  then have "machine_inv M2" using ensuresD [OF enter_user_inv u] by simp
  then show "machine_inv (fst x)" using ensuresD [OF set_reg_inv s] x by simp
qed

lemma kernelCall_inv: "machine_inv M \<Longrightarrow> ensures (kernelCall E args (M, d)) (\<lambda>x. machine_inv (fst x))"
  unfolding kernelCall_def prod.case
  by (intro ensures_any)
    (auto intro!: call_exec_inv ensures_bind [OF call_send_inv] ensures_bind [OF call_recv_inv] ensures_bind [OF call_fork_inv])

lemma run_handler_inv:
  assumes "machine_inv M"
  shows "ensures (run_handler E args h (M, d)) (\<lambda>x. machine_inv (fst x))"
proof -
  have "machine_inv (M\<lparr>mk := k\<rparr>)" if "timerHandler (mk M) = Inr k" for k
    using assms timerHandler_inv [OF _ that] timerHandler_cur [OF that] by (intro machine_inv_kernel) (auto simp: machine_inv_def)
  moreover have "machine_inv (M\<lparr>mk := k\<rparr>)" if "notify (mk M) n = Inr k" for k n
    using assms notify_inv [OF _ that] notify_cur [OF that] by (intro machine_inv_kernel) (auto simp: machine_inv_def)
  ultimately show ?thesis
    using kernelCall_inv [OF assms, of E args d] by (cases h) (auto simp: run_handler_def ensures_def rbind_eq_Inr)
qed

lemma resume_inv:
  assumes "machine_inv M"
  shows "ensures (resume e M) machine_inv"
proof -
  have "machine_inv (M\<lparr>mk := k\<rparr>)" if "recv_later (mk M) = Inr k" for k
    using assms ensuresD [OF recv_later_inv that] recv_later_cur [OF that] by (intro machine_inv_kernel) (auto simp: machine_inv_def)
  moreover have "ensures (ret_from_fork_mem M) machine_inv"
    using assms by (auto simp: ret_from_fork_mem_def ensures_def rbind_eq_Inr)
  ultimately show ?thesis using assms by (auto simp: resume_def ensures_def rbind_eq_Inr split: sched_end.splits ret_fn.splits)
qed

lemma interrupt_inv:
  assumes "machine_inv M" and "interrupt E v args ebp (M, d) = Inr (M', d')"
  shows "machine_inv M'"
proof -
  obtain h M1 k e where h: "run_handler E args h (M, d) = Inr (M1, d')" and s: "schedule (mk M1) ebp = Inr (k, e)"
      and r: "resume e (M1\<lparr>mk := k\<rparr>) = Inr M'"
    using assms(2) by (auto simp: interrupt_def rbind_eq_Inr split: option.splits)
  have M1: "machine_inv M1" using ensuresD [OF run_handler_inv h] assms(1) by simp
  have "kernel_inv k" "cur_ok k" using M1 schedule_inv [OF _ s] schedule_cur [OF _ _ s] by (auto simp: machine_inv_def)
  then have "machine_inv (M1\<lparr>mk := k\<rparr>)" using M1 by (simp add: machine_inv_def)
  then show ?thesis using ensuresD [OF resume_inv r] by simp
qed

section \<open>Runs of the machine\<close>

text \<open>
  Between two interrupts the running process may store anything anywhere in memory (more than its page tables let it), and
  the disk may change in any way.
\<close>

inductive mstep :: "'s env \<Rightarrow> machine \<times> 's \<Rightarrow> machine \<times> 's \<Rightarrow> bool" for E where
  ms_interrupt: "interrupt E v args ebp S = Inr S' \<Longrightarrow> mstep E S S'"
| ms_process: "mstep E (M, d) (M\<lparr>mvm := (mvm M)\<lparr>vmem := m\<rparr>\<rparr>, d)"
| ms_disk: "mstep E (M, d) (M, d')"

inductive_cases mstepE: "mstep E S S'"

lemma mstep_inv: "mstep E S S' \<Longrightarrow> machine_inv (fst S) \<Longrightarrow> machine_inv (fst S')"
proof (induction rule: mstep.induct)
  case (ms_interrupt v args ebp S S')
  then show ?case using interrupt_inv [of "fst S" E v args ebp "snd S" "fst S'" "snd S'"] by simp
qed simp_all

lemma mstep_star_inv: "(mstep E)\<^sup>*\<^sup>* S S' \<Longrightarrow> machine_inv (fst S) \<Longrightarrow> machine_inv (fst S')"
  by (induction rule: rtranclp_induct) (auto intro: mstep_inv)

lemma init_tasks_cur:
  assumes "init_tasks k mm_i stk_i mm_k stk_k = Inr k'"
  shows "cur_ok k'"
proof -
  obtain p m1 q m2 m5 where t: "makeSysProc_table (pManager k) mm_i stk_i = Inr (p, m1)" "makeSysProc_table m1 mm_k stk_k = Inr (q, m2)"
      and e: "enque (upd_proc (upd_proc m2 q (\<lambda>x. x\<lparr>pid := PID_KERNEL\<rparr>)) p (\<lambda>x. x\<lparr>pid := PID_INIT\<rparr>)) p 0 = Inr m5"
      and k': "pManager k' = m5\<lparr>pCurrent := Some p, pPrev := pPrev m5\<rparr>"
    using assms by (auto simp: init_tasks_def rbind_eq_Inr Let_def)
  have "\<not> isFree (ProcL m2) ! p" using makeSysProc_table_slot [OF t(1)] makeSysProc_table_slot [OF t(2)] by (cases "p = q") simp_all
  moreover have "isFree (ProcL m5) = isFree (ProcL m2)" using enque_cur [OF e] by simp
  ultimately show ?thesis using k' by (simp add: cur_ok_def)
qed

section \<open>Properties\<close>


definition boot_pfa :: PFAllocator where
  "boot_pfa = projr (addChunk demo_pfa 0x20000 0x40000)"

lemma boot_pfa_ok: "pfa_inv boot_pfa" "can_alloc 20 boot_pfa"
proof -
  have "{32 ..< 64} \<inter> ({3 ..< 16} \<union> {0 ..< 3 :: nat}) = {}" by auto
  with addChunk_spec [OF demo_inv demo_left, of "0x20000" "0x40000"] obtain a where
    a: "addChunk demo_pfa 0x20000 0x40000 = Inr a" "pfa_inv a" by (auto simp: demo_frames)
  show "pfa_inv boot_pfa" using a by (simp add: boot_pfa_def)
  show "can_alloc 20 boot_pfa" by code_simp
qed

definition boot_machine :: "kernel \<Rightarrow> machine" where
  "boot_machine k = \<lparr>mk = k, mvm = \<lparr>vmem = \<lambda>_. 0, vpfa = boot_pfa, kPdir = 0, kPtables = 0, v2ptable = 0, mem_size = 0\<rparr>\<rparr>"

definition null_env :: "unit env" where
  "null_env = \<lparr>drv = \<lambda>_ _ s. Inr ([], s),
     rootfs = \<lparr>blocks_per_group = 0, inodes_per_group = 0, inode_size = 0, block_size = 0, root_inode = invalid_inode\<rparr>,
     fresh = \<lambda>_. 0, steps = 0, exec_eax = 0\<rparr>"


end
