(* ===== verification/User_Space.thy ===== *)
theory User_Space
  imports Elf_Loader
begin

unbundle bit_operations_syntax

text \<open>
  Separation of the pages of an address space: which frames hold the directory and its tables, an invariant that keeps the
  pages of a part \<open>V\<close> of the address space apart from them and from each other, its preservation by \<^verbatim>\<open>enableSpace\<close> and by
  stores to those pages, and what can be read after a store.
\<close>

section \<open>Frames of tables and of pages\<close>

definition table_frames :: "mem \<Rightarrow> u32 \<Rightarrow> nat set" where
  "table_frames m pdir = insert (frame_of pdir) {frame_of (m (dir_slot pdir va)) |va. isEntryExist (m (dir_slot pdir va))}"

definition space_ok :: "mem \<Rightarrow> nat set \<Rightarrow> u32 \<Rightarrow> nat set \<Rightarrow> bool" where
  "space_ok m U pdir V \<longleftrightarrow> dir_ok m U pdir \<and>
     (\<forall>x. frame_of x \<in> V \<and> translate m pdir x \<noteq> None \<longrightarrow> target m pdir x \<in> U - table_frames m pdir) \<and>
     (\<forall>x y. frame_of x \<in> V \<and> frame_of y \<in> V \<and> translate m pdir x \<noteq> None \<and> translate m pdir y \<noteq> None \<and>
        target m pdir x = target m pdir y \<longrightarrow> frame_of x = frame_of y)"

lemma space_okD:
  assumes "space_ok m U pdir V"
  shows "dir_ok m U pdir"
    and "frame_of x \<in> V \<Longrightarrow> translate m pdir x \<noteq> None \<Longrightarrow> target m pdir x \<in> U - table_frames m pdir"
    and "frame_of x \<in> V \<Longrightarrow> frame_of y \<in> V \<Longrightarrow> translate m pdir x \<noteq> None \<Longrightarrow> translate m pdir y \<noteq> None \<Longrightarrow>
      target m pdir x = target m pdir y \<Longrightarrow> frame_of x = frame_of y"
  using assms unfolding space_ok_def by blast+

lemma table_frames_in_use: "dir_ok m U pdir \<Longrightarrow> table_frames m pdir \<subseteq> U"
  using dir_okD(2,3) unfolding table_frames_def by fastforce

lemma table_frames_dir [simp]: "frame_of pdir \<in> table_frames m pdir"
  by (simp add: table_frames_def)

lemma table_frames_table: "isEntryExist (m (dir_slot pdir va)) \<Longrightarrow> frame_of (m (dir_slot pdir va)) \<in> table_frames m pdir"
  unfolding table_frames_def by blast

text \<open>The translation and the tables depend on the frames of the tables only.\<close>

lemma same_tables:
  assumes al: "page_aligned pdir" and same: "\<And>p. frame_of p \<in> table_frames m pdir \<Longrightarrow> m' p = m p"
  shows "translate m' pdir = translate m pdir" and "table_frames m' pdir = table_frames m pdir"
    and "dir_ok m' U pdir = dir_ok m U pdir"
proof -
  have d: "m' (dir_slot pdir va) = m (dir_slot pdir va)" for va using same al by simp
  show "table_frames m' pdir = table_frames m pdir" "dir_ok m' U pdir = dir_ok m U pdir"
    by (simp_all add: table_frames_def dir_ok_def d)
  show "translate m' pdir = translate m pdir"
  proof
    fix va
    show "translate m' pdir va = translate m pdir va"
    proof (cases "isEntryExist (m (dir_slot pdir va))")
      case True
      then have "m' (table_slot (caddrEntry (m (dir_slot pdir va))) va) = m (table_slot (caddrEntry (m (dir_slot pdir va))) va)"
        by (intro same) (simp add: table_frames_table)
      then show ?thesis by (simp add: translate_def Let_def d)
    qed (simp add: translate_def Let_def d)
  qed
qed

lemma space_ok_same:
  assumes "space_ok m U pdir V" and "\<And>p. frame_of p \<in> table_frames m pdir \<Longrightarrow> m' p = m p"
  shows "space_ok m' U pdir V" and "translate m' pdir = translate m pdir" and "table_frames m' pdir = table_frames m pdir"
proof -
  have "page_aligned pdir" using space_okD(1) [OF assms(1)] by (simp add: dir_ok_def)
  note s = same_tables [where m = m and m' = m', OF this assms(2)]
  show "translate m' pdir = translate m pdir" "table_frames m' pdir = table_frames m pdir" using s by simp_all
  then show "space_ok m' U pdir V" using assms(1) s(3) by (simp add: space_ok_def target_def)
qed

lemma space_ok_mono: "space_ok m U pdir V \<Longrightarrow> U \<subseteq> U' \<Longrightarrow> space_ok m U' pdir V"
  unfolding space_ok_def dir_ok_def by blast

text \<open>The offset in the page goes through the translation, so that two addresses of \<open>V\<close> are never the same in memory.\<close>

lemma translate_offset:
  assumes "translate m pdir x = Some pa"
  shows "unat pa = 4096 * target m pdir x + unat x mod 4096"
proof -
  obtain f where pa: "pa = caddrEntry f + (x AND 0xfff)" using assms by (auto simp: translate_def Let_def split: if_splits)
  have o: "unat (x AND 0xfff) = unat x mod 4096" by (rule unat_page_off)
  obtain k where k: "unat (caddrEntry f) = 4096 * k" "4096 * k + 4096 \<le> 2 ^ 32" by (rule page_alignedE [OF caddr_aligned(1)])
  have "unat x mod 4096 < 4096" by simp
  then have "unat (caddrEntry f) + unat (x AND 0xfff) < 2 ^ 32" using k unfolding o by linarith
  then have u: "unat pa = 4096 * k + unat x mod 4096" unfolding pa by (simp only: unat_add_exact o k)
  then have "target m pdir x = k" using assms by (simp add: target_def frame_of_def)
  then show ?thesis using u by simp
qed

lemma space_inject:
  assumes "space_ok m U pdir V" and "frame_of x \<in> V" "frame_of y \<in> V" and "translate m pdir x = Some pa" "translate m pdir y = Some pa"
  shows "x = y"
proof -
  have "frame_of x = frame_of y" using space_okD(3) [OF assms(1-3)] assms(4,5) by (simp add: target_def)
  moreover have "unat x mod 4096 = unat y mod 4096"
    using translate_offset [OF assms(4)] translate_offset [OF assms(5)] assms(4,5) by (simp add: target_def)
  ultimately have "unat x = unat y" unfolding frame_of_def by (metis div_mult_mod_eq)
  then show ?thesis by (rule word_unat_eq_iff [THEN iffD2])
qed

section \<open>Bytes of words\<close>

lemma word_align:
  fixes a :: u32
  shows "unat (a AND NOT 3) = unat a div 4 * 4" and "unat (a AND 3) = unat a mod 4"
proof -
  have m: "(3 :: u32) = mask 2" by (simp add: mask_eq_exp_minus_1)
  show "unat (a AND 3) = unat a mod 4" unfolding m by (simp add: unat_and_mask)
  show "unat (a AND NOT 3) = unat a div 4 * 4" unfolding m by (simp add: unat_and_not_mask)
qed

lemma frame_of_align [simp]: "frame_of (a AND NOT 3) = frame_of a"
proof -
  have "unat (a AND NOT 3) div 4096 = unat a div 4096"
    unfolding word_align using div_mult2_eq [of "unat a" 4 1024] div_mult2_eq [of "unat a div 4 * 4" 4 1024] by simp
  then show ?thesis by (simp add: frame_of_def)
qed

lemma byte_of_word:
  fixes w :: u32 and b :: u8
  defines "w' k \<equiv> (w AND NOT (push_bit k 0xff)) OR push_bit k (ucast b)"
  shows "k \<le> 24 \<Longrightarrow> ucast (drop_bit k (w' k)) = b"
    and "k + 8 \<le> j \<or> j + 8 \<le> k \<Longrightarrow> ucast (drop_bit j (w' k)) = (ucast (drop_bit j w) :: u8)"
proof -
  have ff: "bit (0xff :: u32) n \<longleftrightarrow> n < 8" "bit (0xff :: int) n \<longleftrightarrow> n < 8" for n
  proof -
    have "(0xff :: u32) = mask 8" "(0xff :: int) = mask 8" by (simp_all add: mask_eq_exp_minus_1)
    then show "bit (0xff :: u32) n \<longleftrightarrow> n < 8" "bit (0xff :: int) n \<longleftrightarrow> n < 8" by (simp_all only: bit_mask_iff) auto
  qed
  show "ucast (drop_bit k (w' k)) = b" if "k \<le> 24"
    by (rule bit_word_eqI) (use that in \<open>auto simp: w'_def bit_simps ff\<close>)
  have lim: "bit w n \<Longrightarrow> n < 32" "bit b n \<Longrightarrow> n < 8" for n
    using bit_imp_le_length [of w n] bit_imp_le_length [of b n] by simp_all
  show "ucast (drop_bit j (w' k)) = (ucast (drop_bit j w) :: u8)" if "k + 8 \<le> j \<or> j + 8 \<le> k"
    by (rule bit_word_eqI) (use that in \<open>auto simp: w'_def bit_simps ff dest: lim\<close>)
qed

lemma load_store8:
  "load8 (store8 a b m) a = b"
  "a' \<noteq> a \<Longrightarrow> load8 (store8 a b m) a' = load8 m a'"
  "frame_of p \<noteq> frame_of a \<Longrightarrow> store8 a b m p = m p"
proof -
  have k: "8 * unat (a AND 3) \<le> 24" by (simp add: word_align)
  show "load8 (store8 a b m) a = b" using byte_of_word(1) [OF k] by (simp add: load8_def store8_def Let_def)
  show "load8 (store8 a b m) a' = load8 m a'" if "a' \<noteq> a"
  proof (cases "a' AND NOT 3 = a AND NOT 3")
    case True
    then have "unat a' div 4 = unat a div 4" using word_align(1) [of a] word_align(1) [of a'] by simp
    moreover have "unat a' \<noteq> unat a" using that by (simp add: word_unat_eq_iff)
    ultimately have "unat a' mod 4 \<noteq> unat a mod 4" by (metis div_mult_mod_eq)
    then have "8 * unat (a AND 3) + 8 \<le> 8 * unat (a' AND 3) \<or> 8 * unat (a' AND 3) + 8 \<le> 8 * unat (a AND 3)"
      by (simp add: word_align) linarith
    from byte_of_word(2) [OF this] True show ?thesis by (simp add: load8_def store8_def Let_def)
  qed (simp add: load8_def store8_def Let_def)
  show "store8 a b m p = m p" if "frame_of p \<noteq> frame_of a"
    using that frame_of_align [of a] by (auto simp: store8_def Let_def simp del: frame_of_align)
qed

section \<open>Stores to the pages\<close>

text \<open>What a routine may have changed when it has written to addresses \<open>A\<close> of \<open>V\<close> only.\<close>

definition writes_only :: "u32 \<Rightarrow> nat set \<Rightarrow> u32 set \<Rightarrow> mem \<Rightarrow> mem \<Rightarrow> bool" where
  "writes_only pdir V A m m' \<longleftrightarrow> translate m' pdir = translate m pdir \<and> table_frames m' pdir = table_frames m pdir \<and>
     (\<forall>p. frame_of p \<notin> target m pdir ` A \<longrightarrow> m' p = m p) \<and>
     (\<forall>x. frame_of x \<in> V \<and> x \<notin> A \<longrightarrow> vload8 m' pdir x = vload8 m pdir x)"

lemma vload8_translate: "vload8 m pdir x = (case translate m pdir x of None \<Rightarrow> Inl Hang | Some pa \<Rightarrow> Inr (load8 m pa))"
  by (simp add: vload8_def mmu_def split: option.splits)

lemma vstore8_spec:
  assumes ok: "space_ok m U pdir V" and x: "frame_of x \<in> V" "translate m pdir x \<noteq> None"
  obtains m' where "vstore8 pdir x b m = Inr m'" "space_ok m' U pdir V" "writes_only pdir V {x} m m'" "vload8 m' pdir x = Inr b"
proof -
  obtain pa where pa: "translate m pdir x = Some pa" using x(2) by blast
  define m' where "m' = store8 pa b m"
  have fr: "frame_of pa = target m pdir x" by (simp add: target_def pa)
  have other: "m' p = m p" if "frame_of p \<noteq> target m pdir x" for p using that fr load_store8(3) by (simp add: m'_def)
  have "m' p = m p" if "frame_of p \<in> table_frames m pdir" for p
    using that space_okD(2) [OF ok x] by (intro other) auto
  note s = space_ok_same [where m' = m', OF ok this]
  have keep: "vload8 m' pdir y = vload8 m pdir y" if "frame_of y \<in> V" "y \<noteq> x" for y
  proof (cases "translate m pdir y")
    case (Some pb)
    then have "pb \<noteq> pa" using space_inject [OF ok that(1) x(1)] pa that(2) by blast
    then show ?thesis using Some load_store8(2) [of pb pa b m] by (simp add: vload8_translate s(2)) (simp add: m'_def)
  qed (simp add: vload8_translate s(2))
  show ?thesis
  proof (rule that [of m'])
    show "vstore8 pdir x b m = Inr m'" by (simp add: vstore8_def mmu_def pa m'_def)
    show "space_ok m' U pdir V" by (rule s(1))
    show "writes_only pdir V {x} m m'" using s other keep unfolding writes_only_def by simp
    show "vload8 m' pdir x = Inr b" using load_store8(1) [of pa b m] by (simp add: vload8_translate s(2) pa) (simp add: m'_def)
  qed
qed

lemma writes_only_refl [simp]: "writes_only pdir V A m m"
  by (simp add: writes_only_def)

lemma writes_only_trans:
  assumes "writes_only pdir V A m m1" and "writes_only pdir V B m1 m2"
  shows "writes_only pdir V (A \<union> B) m m2"
proof -
  have "target m1 pdir = target m pdir" using assms(1) by (simp add: writes_only_def target_def fun_eq_iff)
  then show ?thesis using assms unfolding writes_only_def by (simp add: image_Un)
qed

text \<open>The addresses of \<open>n\<close> bytes from \<open>a\<close> on.\<close>

definition bytes_of :: "u32 \<Rightarrow> nat \<Rightarrow> u32 set" where
  "bytes_of a n = (\<lambda>i. a + of_nat i) ` {..<n}"

lemma bytes_of_simps: "bytes_of a 0 = {}" "bytes_of a (Suc n) = insert a (bytes_of (a + 1) n)"
  by (auto simp: bytes_of_def lessThan_Suc_eq_insert_0 image_iff algebra_simps)

lemma bytes_of_next: "n < 2 ^ 32 \<Longrightarrow> a \<notin> bytes_of (a + 1) n"
proof
  assume n: "n < 2 ^ 32" and "a \<in> bytes_of (a + 1) n"
  then obtain i where i: "i < n" "a = a + (1 + of_nat i)" by (auto simp: bytes_of_def algebra_simps)
  then have "(of_nat (Suc i) :: u32) = 0" by simp
  moreover have "unat (of_nat (Suc i) :: u32) = Suc i" using i n by (intro unat_small) simp
  ultimately show False by (metis unat_0 nat.distinct(1))
qed

lemma vput_spec:
  assumes "space_ok m U pdir V" and "\<forall>x \<in> bytes_of a (length bs). frame_of x \<in> V \<and> translate m pdir x \<noteq> None"
    and "length bs \<le> 2 ^ 32"
  shows "\<exists>m'. vput pdir a bs m = Inr m' \<and> space_ok m' U pdir V \<and> writes_only pdir V (bytes_of a (length bs)) m m' \<and>
    (\<forall>i < length bs. vload8 m' pdir (a + of_nat i) = Inr (bs ! i))"
  using assms
proof (induction bs arbitrary: a m)
  case (Cons b bs)
  have a: "frame_of a \<in> V" "translate m pdir a \<noteq> None" using Cons.prems(2) by (simp_all add: bytes_of_simps)
  obtain m1 where m1: "vstore8 pdir a b m = Inr m1" "space_ok m1 U pdir V" "writes_only pdir V {a} m m1" "vload8 m1 pdir a = Inr b"
    by (rule vstore8_spec [OF Cons.prems(1) a])
  then have r: "\<forall>x \<in> bytes_of (a + 1) (length bs). frame_of x \<in> V \<and> translate m1 pdir x \<noteq> None"
    using Cons.prems(2) by (simp add: bytes_of_simps writes_only_def)
  have "length bs \<le> 2 ^ 32" using Cons.prems(3) by simp
  from Cons.IH [OF m1(2) r this] obtain m' where m': "vput pdir (a + 1) bs m1 = Inr m'" "space_ok m' U pdir V" "writes_only pdir V (bytes_of (a + 1) (length bs)) m1 m'"
      "\<forall>i < length bs. vload8 m' pdir (a + 1 + of_nat i) = Inr (bs ! i)"
    by blast
  have "writes_only pdir V (bytes_of a (length (b # bs))) m m'"
    using writes_only_trans [OF m1(3) m'(3)] by (simp add: bytes_of_simps)
  moreover have "vload8 m' pdir a = Inr b"
    using m'(3) m1(4) a(1) bytes_of_next [of "length bs" a] Cons.prems(3) by (simp add: writes_only_def)
  then have "vload8 m' pdir (a + of_nat i) = Inr ((b # bs) ! i)" if "i < length (b # bs)" for i
    using that m'(4) by (cases i) (simp_all add: algebra_simps)
  ultimately show ?case using m1(1) m'(1,2) by auto
qed (simp add: bytes_of_simps)

section \<open>Mapping more pages\<close>

text \<open>What \<^verbatim>\<open>enableSpace\<close> leaves alone: the pages of \<open>V\<close> that were mapped, and their contents.\<close>

definition extends :: "u32 \<Rightarrow> mem \<Rightarrow> nat set \<Rightarrow> mem \<Rightarrow> bool" where
  "extends pdir m U m' \<longleftrightarrow> (\<forall>x. translate m pdir x \<noteq> None \<longrightarrow> translate m' pdir x = translate m pdir x) \<and>
     (\<forall>p. frame_of p \<in> U - table_frames m pdir \<longrightarrow> m' p = m p) \<and> table_frames m' pdir \<subseteq> table_frames m pdir \<union> - U"

lemma extends_refl [simp]: "extends pdir m U m"
  by (auto simp: extends_def)

lemma extends_trans:
  assumes "extends pdir m U m1" and "extends pdir m1 U1 m2" and "U \<subseteq> U1"
  shows "extends pdir m U m2"
proof -
  have "m2 p = m p" if "frame_of p \<in> U - table_frames m pdir" for p
  proof -
    have "frame_of p \<in> U1 - table_frames m1 pdir" using that assms(1,3) unfolding extends_def by blast
    then show ?thesis using that assms(1,2) by (simp add: extends_def)
  qed
  moreover have "translate m2 pdir x = translate m pdir x" if "translate m pdir x \<noteq> None" for x
    using that assms(1,2) by (simp add: extends_def)
  moreover have "table_frames m2 pdir \<subseteq> table_frames m pdir \<union> - U" using assms unfolding extends_def by blast
  ultimately show ?thesis by (simp add: extends_def)
qed

context frame_source
begin

lemma get_table_space:
  assumes inv: "fs_inv s" and ok: "space_ok m (in_use s) pdir V" and ty: "odd ty" and g: "get_table alloc m s pdir va ty = Inr (t, m1, s1)"
  shows "space_ok m1 (in_use s1) pdir V \<and> extends pdir m (in_use s) m1"
proof (cases "isEntryExist (m (dir_slot pdir va))")
  case True
  with g ok show ?thesis by (auto simp: get_table_def)
next
  case False
  with g have a: "alloc s = Inr (t, s1)" and m1: "m1 = disableAllEntry (editEntry m (dir_slot pdir va) t ty) t"
    by (auto simp: get_table_def rbind_eq_Inr)
  note d = space_okD(1) [OF ok]
  have pd: "page_aligned pdir" "frame_of pdir \<in> in_use s" using d by (simp_all add: dir_ok_def)
  note f = alloc_fresh [OF inv a]
  note sp = get_table_spec [OF inv d ty g]
  have slot: "m1 (dir_slot pdir x) = (if dir_index x = dir_index va then make_entry t ty else m (dir_slot pdir x))" for x
  proof -
    have "frame_of (dir_slot pdir x) \<noteq> frame_of t" using pd f by auto
    then show ?thesis using pd(1) f by (simp add: m1 editEntry_eq)
  qed
  have "frame_of (make_entry t ty) = frame_of t" using caddr_aligned(2) [of "make_entry t ty"] f by simp
  then have tf: "table_frames m1 pdir \<subseteq> insert (frame_of t) (table_frames m pdir)"
    unfolding table_frames_def slot by auto
  have tr: "translate m1 pdir = translate m pdir" using sp by simp
  have "target m1 pdir x \<in> in_use s1 - table_frames m1 pdir" if "frame_of x \<in> V" "translate m1 pdir x \<noteq> None" for x
    using space_okD(2) [OF ok that(1)] that(2) tr tf f by (auto simp: target_def)
  moreover have "dir_ok m1 (in_use s1) pdir" using sp by simp
  ultimately have "space_ok m1 (in_use s1) pdir V"
    using space_okD(3) [OF ok] unfolding space_ok_def target_def tr by blast
  moreover have "m1 p = m p" if "frame_of p \<in> in_use s - table_frames m pdir" for p
  proof -
    have "frame_of p \<noteq> frame_of t" "p \<noteq> dir_slot pdir va" using that f pd table_frames_dir [of pdir m] by auto
    then show ?thesis using f by (simp add: m1 editEntry_eq)
  qed
  ultimately show ?thesis using tr tf f unfolding extends_def by auto
qed

lemma enable_page_space:
  assumes inv: "fs_inv s" and ok: "space_ok m (in_use s) pdir V" and ty: "odd ty" and run: "enable_page alloc m s pdir va ty = Inr (m', s')"
  shows "space_ok m' (in_use s') pdir V \<and> extends pdir m (in_use s) m'"
proof -
  obtain t m1 s1 where g: "get_table alloc m s pdir va ty = Inr (t, m1, s1)"
    and r: "(if \<not> isEntryExist (m1 (table_slot t va)) then
        rbind (alloc s1) (\<lambda>(s4k, s2). Inr (editEntry m1 (table_slot t va) s4k ty, s2)) else Inr (m1, s1)) = Inr (m', s')"
    using run by (auto simp: enable_page_def rbind_eq_Inr Let_def)
  note sp = get_table_spec [OF inv space_okD(1) [OF ok] ty g] and t = get_table_space [OF inv ok ty g]
  show ?thesis
  proof (cases "isEntryExist (m1 (table_slot t va))")
    case True
    with r t show ?thesis by simp
  next
    case False
    with r obtain f where a: "alloc s1 = Inr (f, s')" and m': "m' = editEntry m1 (table_slot t va) f ty" by (auto simp: rbind_eq_Inr)
    have inv1: "fs_inv s1" and ok1: "space_ok m1 (in_use s1) pdir V" and sub: "in_use s \<subseteq> in_use s1" using sp t by auto
    note f = alloc_fresh [OF inv1 a] and d1 = space_okD(1) [OF ok1]
    have e: "isEntryExist (m1 (dir_slot pdir va))" "table_slot t va = table_slot (caddrEntry (m1 (dir_slot pdir va))) va" using sp by simp_all
    have fr: "frame_of (table_slot t va) = frame_of (m1 (dir_slot pdir va))" unfolding e(2) by simp
    have tab: "frame_of (table_slot t va) \<in> table_frames m1 pdir" unfolding fr using e(1) by (rule table_frames_table)
    have "frame_of (table_slot t va) \<noteq> frame_of pdir" using dir_okD(3) [OF d1 e(1)] fr by simp
    then have "dir_slot pdir x \<noteq> table_slot t va" for x using slots(1) [OF dir_okD(1) [OF d1], of x] by metis
    then have "m' (dir_slot pdir x) = m1 (dir_slot pdir x)" for x by (simp add: m' editEntry_eq)
    then have tf: "table_frames m' pdir = table_frames m1 pdir" by (simp add: table_frames_def)
    have fe: "dir_ok m' (in_use s1) pdir" "translate m' pdir va = Some (f + (va AND 0xfff))"
        "\<And>x. frame_of x \<noteq> frame_of va \<Longrightarrow> translate m' pdir x = translate m1 pdir x"
      using fill_entry [OF d1 e(1) refl, of f ty] f ty unfolding m' e(2) by auto
    have here: "target m' pdir x = frame_of f" if "frame_of x = frame_of va" for x
      using translate_same_page [OF that, of m' pdir] fe(2) f by (simp add: target_def frame_of_offset)
    have else: "target m' pdir x = target m1 pdir x" if "frame_of x \<noteq> frame_of va" for x using fe(3) [OF that] by (simp add: target_def)
    have new: "frame_of f \<notin> table_frames m1 pdir" "frame_of f \<in> in_use s'" "in_use s1 \<subseteq> in_use s'"
      using f table_frames_in_use [OF d1] by auto
    have old: "target m1 pdir x \<in> in_use s1 - table_frames m1 pdir" if "frame_of x \<in> V" "translate m' pdir x \<noteq> None" "frame_of x \<noteq> frame_of va" for x
      using space_okD(2) [OF ok1 that(1)] that(2) fe(3) [OF that(3)] by simp
    have "space_ok m' (in_use s') pdir V"
      unfolding space_ok_def
    proof (intro conjI allI impI)
      show "dir_ok m' (in_use s') pdir" using fe(1) new(3) unfolding dir_ok_def by blast
      fix x assume "frame_of x \<in> V \<and> translate m' pdir x \<noteq> None"
      then show "target m' pdir x \<in> in_use s' - table_frames m' pdir"
        using here else old new unfolding tf by (cases "frame_of x = frame_of va") auto
    next
      fix x y
      assume xy: "frame_of x \<in> V \<and> frame_of y \<in> V \<and> translate m' pdir x \<noteq> None \<and> translate m' pdir y \<noteq> None \<and> target m' pdir x = target m' pdir y"
      have f1: "frame_of f \<notin> in_use s1" using f by simp
      show "frame_of x = frame_of y"
      proof (cases "frame_of x = frame_of va \<or> frame_of y = frame_of va")
        case True
        then show ?thesis using xy here else old f1 by (metis DiffD1)
      next
        case False
        then show ?thesis using xy else fe(3) space_okD(3) [OF ok1, of x y] by simp
      qed
    qed
    moreover have "extends pdir m1 (in_use s1) m'"
    proof -
      have "translate m1 pdir va = None" using False e by (simp add: translate_def Let_def)
      then have "translate m1 pdir x = None" if "frame_of x = frame_of va" for x using translate_same_page [OF that, of m1 pdir] by simp
      then have "translate m' pdir x = translate m1 pdir x" if "translate m1 pdir x \<noteq> None" for x using that fe(3) by metis
      moreover have "m' p = m1 p" if "frame_of p \<in> in_use s1 - table_frames m1 pdir" for p
        using that tab by (auto simp: m' editEntry_eq)
      ultimately show ?thesis using tf unfolding extends_def by blast
    qed
    ultimately show ?thesis using extends_trans [of pdir m "in_use s" m1] t sub by blast
  qed
qed

lemma enable_loop_space:
  assumes "fs_inv s" and "space_ok m (in_use s) pdir V" and "odd ty" and "enable_loop alloc n m s pdir va ty = Inr (m', s')"
  shows "space_ok m' (in_use s') pdir V \<and> extends pdir m (in_use s) m'"
  using assms
proof (induction n arbitrary: m s va)
  case (Suc n)
  then obtain m1 s1 where p: "enable_page alloc m s pdir va ty = Inr (m1, s1)"
    and l: "enable_loop alloc n m1 s1 pdir (va + 0x1000) ty = Inr (m', s')" by (auto simp: rbind_eq_Inr)
  have e: "fs_inv s1" "in_use s \<subseteq> in_use s1" using enable_page_spec [OF Suc.prems(1) space_okD(1) [OF Suc.prems(2)] Suc.prems(3) p] by auto
  note q = enable_page_space [OF Suc.prems(1-3) p]
  from Suc.IH [OF e(1) _ Suc.prems(3) l] q show ?case using extends_trans [of pdir m "in_use s" m1] e(2) by blast
qed auto

end

lemma enableSpace_space:
  assumes "pfa_inv a" and "space_ok m (- free_frames a) pdir V" and "odd ty" and "unat va + unat sz + 4095 < 2 ^ 32"
    and "enableSpace m a va sz pdir ty = Inr (m', a')"
  shows "pfa_inv a'" and "space_ok m' (- free_frames a') pdir V" and "extends pdir m (- free_frames a) m'"
    and "free_frames a' \<subseteq> free_frames a"
    and "\<And>x. unat va \<le> unat x \<Longrightarrow> unat x < unat va + unat sz \<Longrightarrow> translate m' pdir x \<noteq> None"
proof -
  have run: "enable_loop (\<lambda>a. allocChunk a 1) (unat ((page_ceil (va + sz) - page_floor va) div 0x1000)) m a pdir (page_floor va) ty = Inr (m', a')"
    using assms(5) by (simp add: enableSpace_def enableSpace_with_def Let_def)
  note sp = page_span [OF assms(4)]
  show "space_ok m' (- free_frames a') pdir V" "extends pdir m (- free_frames a) m'"
    using pf.enable_loop_space [OF assms(1-3) run] by simp_all
  note l = pf.enable_loop_spec [OF assms(1) space_okD(1) [OF assms(2)] assms(3) sp(1,4) run, unfolded sp(2,3)]
  show "pfa_inv a'" "free_frames a' \<subseteq> free_frames a" using l by auto
  show "translate m' pdir x \<noteq> None" if "unat va \<le> unat x" "unat x < unat va + unat sz" for x
    using l in_span [OF assms(4) that] by blast
qed

end
