(* ===== verification/Elf_Correct.thy ===== *)
theory Elf_Correct
  imports User_Space Disk_Stack
begin

unbundle bit_operations_syntax

text \<open>
  What the loader of \<^verbatim>\<open>src/kernel/elf_loader.cpp\<close> leaves in the address space of a process, over any file whose
  bytes can be read, and then over files on the disk of the ATA driver.
\<close>

section \<open>The image of a program\<close>

definition hdr :: "(nat \<Rightarrow> u8) \<Rightarrow> u8 list" where
  "hdr img = map img [0..<layout_size Elf32_Ehdr]"

definition phdrs :: "nat \<Rightarrow> u8 list \<Rightarrow> u8 list list" where
  "phdrs n bs = map (\<lambda>i. drop (layout_size Elf32_Phdr * i) bs) [0..<n]"

definition program_headers :: "(nat \<Rightarrow> u8) \<Rightarrow> u8 list list" where
  "program_headers img =
     (let off = unat (field32 Elf32_Ehdr ''e_phoff'' (hdr img)); n = unat (field16 Elf32_Ehdr ''e_phnum'' (hdr img))
      in phdrs n (map img [off..<off + layout_size Elf32_Phdr * n]))"

definition is_elf :: "u8 list \<Rightarrow> bool" where
  "is_elf h \<longleftrightarrow> take EI_NIDENT h = x86_32_ident \<and> field16 Elf32_Ehdr ''e_type'' h = ET_EXEC \<and> field16 Elf32_Ehdr ''e_machine'' h = EM_386"

text \<open>The addresses of a segment to be loaded, and the byte of the file that belongs at an address: the last segment wins.\<close>

definition covers :: "u8 list \<Rightarrow> u32 \<Rightarrow> bool" where
  "covers ph x \<longleftrightarrow> field32 Elf32_Phdr ''p_type'' ph = PT_LOAD \<and> unat (field32 Elf32_Phdr ''p_vaddr'' ph) \<le> unat x \<and>
     unat x < unat (field32 Elf32_Phdr ''p_vaddr'' ph) + unat (field32 Elf32_Phdr ''p_memsz'' ph)"

definition seg_byte :: "(nat \<Rightarrow> u8) \<Rightarrow> u8 list \<Rightarrow> u32 \<Rightarrow> u8" where
  "seg_byte img ph x = img (unat (field32 Elf32_Phdr ''p_offset'' ph) + (unat x - unat (field32 Elf32_Phdr ''p_vaddr'' ph)))"

fun loaded :: "(nat \<Rightarrow> u8) \<Rightarrow> u8 list list \<Rightarrow> u32 \<Rightarrow> u8 option" where
  "loaded img [] x = None"
| "loaded img (ph # phs) x =
     (case loaded img phs x of Some b \<Rightarrow> Some b | None \<Rightarrow> if covers ph x then Some (seg_byte img ph x) else None)"

text \<open>A segment that can be read from the file and whose addresses lie in \<open>V\<close>.\<close>

definition seg_ok :: "(u32 \<Rightarrow> u32 \<Rightarrow> bool) \<Rightarrow> nat set \<Rightarrow> u8 list \<Rightarrow> bool" where
  "seg_ok in_file V ph \<longleftrightarrow> (field32 Elf32_Phdr ''p_type'' ph = PT_LOAD \<longrightarrow>
     in_file (field32 Elf32_Phdr ''p_offset'' ph) (field32 Elf32_Phdr ''p_memsz'' ph) \<and>
     unat (field32 Elf32_Phdr ''p_vaddr'' ph) + unat (field32 Elf32_Phdr ''p_memsz'' ph) + 4095 < 2 ^ 32 \<and>
     (\<forall>x. covers ph x \<longrightarrow> frame_of x \<in> V))"

lemma loaded_None: "loaded img phs x = None \<longleftrightarrow> (\<forall>ph \<in> set phs. \<not> covers ph x)"
  by (induction phs) (auto split: option.splits)

lemma phdrs_Suc: "phdrs (Suc n) bs = bs # phdrs n (drop (layout_size Elf32_Phdr) bs)"
proof -
  have "map (\<lambda>i. drop (layout_size Elf32_Phdr * i) bs) (map Suc [0..<n]) =
      map (\<lambda>i. drop (layout_size Elf32_Phdr * i) (drop (layout_size Elf32_Phdr) bs)) [0..<n]"
    by (simp add: add.commute comp_def)
  then show ?thesis unfolding phdrs_def map_Suc_upt by (simp only: upt_conv_Cons [of 0] zero_less_Suc) simp
qed

text \<open>
  A program that the loader accepts: the headers and segments can be read, and the segments lie in \<open>V\<close> and keep off the page
  of the saved registers.
\<close>

definition program_ok :: "(nat \<Rightarrow> u8) \<Rightarrow> (u32 \<Rightarrow> u32 \<Rightarrow> bool) \<Rightarrow> nat set \<Rightarrow> nat \<Rightarrow> bool" where
  "program_ok img in_file V kpage \<longleftrightarrow> in_file 0 (of_nat (layout_size Elf32_Ehdr)) \<and> is_elf (hdr img) \<and>
     in_file (field32 Elf32_Ehdr ''e_phoff'' (hdr img)) (of_nat (layout_size Elf32_Phdr) * ucast (field16 Elf32_Ehdr ''e_phnum'' (hdr img))) \<and>
     in_file (field32 Elf32_Ehdr ''e_shoff'' (hdr img)) (of_nat (layout_size Elf32_Shdr) * ucast (field16 Elf32_Ehdr ''e_shnum'' (hdr img))) \<and>
     (\<forall>ph \<in> set (program_headers img). seg_ok in_file V ph \<and> (\<forall>x. covers ph x \<longrightarrow> frame_of x \<noteq> kpage))"

section \<open>Pages that stay\<close>

lemma extends_vload:
  assumes ok: "space_ok m U pdir V" and ex: "extends pdir m U m'" and x: "frame_of x \<in> V" "translate m pdir x \<noteq> None"
  shows "vload8 m' pdir x = vload8 m pdir x"
proof -
  obtain pa where pa: "translate m pdir x = Some pa" using x(2) by blast
  have "frame_of pa \<in> U - table_frames m pdir" using space_okD(2) [OF ok x] by (simp add: target_def pa)
  then have "m' (pa AND NOT 3) = m (pa AND NOT 3)" using ex frame_of_align [of pa] unfolding extends_def by metis
  moreover have "translate m' pdir x = Some pa" using ex x(2) pa by (simp add: extends_def)
  ultimately show ?thesis by (simp add: vload8_translate pa load8_def)
qed

lemma vstore32_spec:
  assumes ok: "space_ok m U pdir V" and va: "frame_of va \<in> V" "translate m pdir va \<noteq> None"
  obtains m' where "vstore32 pdir va w m = Inr m'" "space_ok m' U pdir V" "translate m' pdir = translate m pdir"
    "vload32 m' pdir va = Inr w" "\<And>x. frame_of x \<in> V \<Longrightarrow> frame_of x \<noteq> frame_of va \<Longrightarrow> vload8 m' pdir x = vload8 m pdir x"
proof -
  obtain pa where pa: "translate m pdir va = Some pa" using va(2) by blast
  define m' where "m' = m(pa := w)"
  have fr: "frame_of pa \<notin> table_frames m pdir" using space_okD(2) [OF ok va] by (simp add: target_def pa)
  have "m' p = m p" if "frame_of p \<in> table_frames m pdir" for p using that fr by (auto simp: m'_def)
  note s = space_ok_same [where m' = m', OF ok this]
  have keep: "vload8 m' pdir x = vload8 m pdir x" if "frame_of x \<in> V" "frame_of x \<noteq> frame_of va" for x
  proof (cases "translate m pdir x")
    case (Some pb)
    have "frame_of pb \<noteq> frame_of pa" using space_okD(3) [OF ok that(1) va(1)] that(2) Some pa by (auto simp: target_def)
    then have "m' (pb AND NOT 3) = m (pb AND NOT 3)" using frame_of_align [of pb] by (metis fun_upd_other m'_def)
    then show ?thesis by (simp add: vload8_translate s(2) Some load8_def)
  qed (simp add: vload8_translate s(2))
  show ?thesis
    by (rule that [of m']) (use s keep in \<open>auto simp: vstore32_def vload32_def mmu_def pa m'_def\<close>)
qed

lemma header_sizes: "layout_size Elf32_Ehdr = 52" "layout_size Elf32_Phdr = 32" "layout_size Elf32_Shdr = 40"
  by (simp_all add: layout_size_def Elf32_Ehdr_def Elf32_Phdr_def Elf32_Shdr_def EI_NIDENT_def)

lemma phdr_bytes: "unat (of_nat (layout_size Elf32_Phdr) * ucast n :: u32) = layout_size Elf32_Phdr * unat n" for n :: u16
proof -
  have lt: "unat n < 2 ^ 16" using unsigned_less [of n] by simp
  then have "unat n < 2 ^ 32" by simp
  then have "unat (ucast n :: u32) = unat n" by (simp only: unsigned_ucast_eq take_bit_nat_eq_self_iff) simp
  with lt show ?thesis unfolding header_sizes by (subst unat_mult_exact) simp_all
qed

lemma segment_bytes:
  assumes ty: "field32 Elf32_Phdr ''p_type'' ph = PT_LOAD"
    and lt: "unat (field32 Elf32_Phdr ''p_vaddr'' ph) + unat (field32 Elf32_Phdr ''p_memsz'' ph) + 4095 < 2 ^ 32"
  shows "x \<in> bytes_of (field32 Elf32_Phdr ''p_vaddr'' ph) (unat (field32 Elf32_Phdr ''p_memsz'' ph)) \<longleftrightarrow> covers ph x"
proof
  let ?va = "field32 Elf32_Phdr ''p_vaddr'' ph" and ?sz = "field32 Elf32_Phdr ''p_memsz'' ph"
  show "covers ph x" if x: "x \<in> bytes_of ?va (unat ?sz)"
  proof -
    obtain i where i: "i < unat ?sz" "x = ?va + of_nat i" using x by (auto simp: bytes_of_def)
    have "unat (of_nat i :: u32) = i" using i(1) lt by (intro unat_small) simp
    then have "unat x = unat ?va + i" using i lt by (simp add: unat_add_exact)
    then show "covers ph x" using i ty by (simp add: covers_def)
  qed
  show "x \<in> bytes_of ?va (unat ?sz)" if c: "covers ph x"
  proof -
    have "x = ?va + of_nat (unat x - unat ?va)"
      using c by (simp add: covers_def word_unat_eq_iff word_le_nat_alt of_nat_diff)
    moreover have "unat x - unat ?va < unat ?sz" using c by (simp add: covers_def) linarith
    ultimately show ?thesis unfolding bytes_of_def by auto
  qed
qed

section \<open>The loader over a readable file\<close>

text \<open>The address space of the current process, which runs.\<close>

definition running_in :: "machine \<Rightarrow> nat \<Rightarrow> u32 \<Rightarrow> nat set \<Rightarrow> bool" where
  "running_in M c pdir V \<longleftrightarrow> pCurrent (pManager (mk M)) = Some c \<and> cr3 (mm (cur_proc M c)) = pdir \<and> cpu_cr3 (mk M) = pdir \<and>
     pfa_inv (vpfa (mvm M)) \<and> space_ok (vmem (mvm M)) (- free_frames (vpfa (mvm M))) pdir V"

definition mapped :: "machine \<Rightarrow> u32 \<Rightarrow> u32 \<Rightarrow> bool" where
  "mapped M pdir x \<longleftrightarrow> translate (vmem (mvm M)) pdir x \<noteq> None"

locale program_file =
  fixes rd :: "'s driver" and fs :: ext2 and junk :: "nat \<Rightarrow> u8" and fl :: File
    and ok :: "'s \<Rightarrow> bool" and img :: "nat \<Rightarrow> u8" and in_file :: "u32 \<Rightarrow> u32 \<Rightarrow> bool"
  assumes read_img: "ok d \<Longrightarrow> in_file a n \<Longrightarrow>
    \<exists>d'. File_read rd fs junk a n fl d = Inr (map img [unat a..<unat a + unat n], d') \<and> ok d'"
begin

lemma load_segment_spec:
  assumes d: "ok d" and run: "running_in M c pdir V" and ph: "seg_ok in_file V ph" "field32 Elf32_Phdr ''p_type'' ph = PT_LOAD"
    and load: "load_segment rd fs junk fl ph (M, d) = Inr (M', d')"
  shows "ok d' \<and> mk M' = mk M \<and> running_in M' c pdir V \<and>
    (\<forall>x. covers ph x \<longrightarrow> vload8 (vmem (mvm M')) pdir x = Inr (seg_byte img ph x)) \<and>
    (\<forall>x. frame_of x \<in> V \<and> mapped M pdir x \<and> \<not> covers ph x \<longrightarrow> vload8 (vmem (mvm M')) pdir x = vload8 (vmem (mvm M)) pdir x) \<and>
    (\<forall>x. mapped M pdir x \<or> covers ph x \<longrightarrow> mapped M' pdir x)"
proof -
  let ?off = "field32 Elf32_Phdr ''p_offset'' ph" and ?va = "field32 Elf32_Phdr ''p_vaddr'' ph" and ?sz = "field32 Elf32_Phdr ''p_memsz'' ph"
  let ?m = "vmem (mvm M)" and ?a = "vpfa (mvm M)"
  have r: "pCurrent (pManager (mk M)) = Some c" "cr3 (mm (cur_proc M c)) = pdir" "cpu_cr3 (mk M) = pdir" "pfa_inv ?a" "space_ok ?m (- free_frames ?a) pdir V"
    using run by (simp_all add: running_in_def)
  have p: "in_file ?off ?sz" "unat ?va + unat ?sz + 4095 < 2 ^ 32" "\<forall>x. covers ph x \<longrightarrow> frame_of x \<in> V" using ph by (simp_all add: seg_ok_def)
  obtain d1 where rdd: "File_read rd fs junk ?off ?sz fl d = Inr (map img [unat ?off..<unat ?off + unat ?sz], d1)" "ok d1"
    using read_img [OF d p(1)] by blast
  let ?bs = "map img [unat ?off..<unat ?off + unat ?sz]"
  obtain m1 a1 m2 where en: "enableSpace ?m ?a ?va ?sz pdir userpage = Inr (m1, a1)" and put: "vput pdir ?va ?bs m1 = Inr m2"
      and M': "M' = M\<lparr>mvm := (mvm M)\<lparr>vmem := m2, vpfa := a1\<rparr>\<rparr>" "d' = d1"
    using load r(1-3) rdd by (auto simp: load_segment_def Let_def enable_in_def rbind_eq_Inr)
  have ty: "odd userpage" by (simp add: userpage_def)
  note e = enableSpace_space [OF r(4,5) ty p(2) en]
  have range: "x \<in> bytes_of ?va (length ?bs) \<longleftrightarrow> covers ph x" for x using segment_bytes [OF ph(2) p(2)] by simp
  have "frame_of x \<in> V \<and> translate m1 pdir x \<noteq> None" if "x \<in> bytes_of ?va (length ?bs)" for x
    using that e(5) [of x] p(3) unfolding range by (auto simp: covers_def)
  moreover have "length ?bs \<le> 2 ^ 32" using p(2) by simp
  ultimately have w: "space_ok m2 (- free_frames a1) pdir V" "writes_only pdir V (bytes_of ?va (length ?bs)) m1 m2"
      "\<And>i. i < length ?bs \<Longrightarrow> vload8 m2 pdir (?va + of_nat i) = Inr (?bs ! i)"
    using vput_spec [OF e(2), of ?va ?bs] put by auto
  have tr: "translate m2 pdir = translate m1 pdir" using w(2) by (simp add: writes_only_def)
  have "vload8 m2 pdir x = Inr (seg_byte img ph x)" if "covers ph x" for x
  proof -
    have "x \<in> bytes_of ?va (length ?bs)" using that range by simp
    then obtain i where i: "i < length ?bs" "x = ?va + of_nat i" by (auto simp: bytes_of_def)
    have "unat (of_nat i :: u32) = i" using i(1) p(2) by (intro unat_small) simp
    then have "unat x - unat ?va = i" using i p(2) by (simp add: unat_add_exact)
    then show ?thesis using w(3) [OF i(1)] i by (simp add: seg_byte_def)
  qed
  moreover have "vload8 m2 pdir x = vload8 ?m pdir x" if "frame_of x \<in> V" "translate ?m pdir x \<noteq> None" "\<not> covers ph x" for x
    using that w(2) range extends_vload [OF r(5) e(3) that(1,2)] by (simp add: writes_only_def)
  moreover have "translate m2 pdir x \<noteq> None" if "translate ?m pdir x \<noteq> None \<or> covers ph x" for x
    using that e(3) e(5) [of x] unfolding tr by (auto simp: extends_def covers_def)
  ultimately show ?thesis using rdd(2) M' r w(1) e(1) by (simp add: running_in_def mapped_def cur_proc_def)
qed

lemma load_loop_spec:
  assumes "ok d" and "running_in M c pdir V" and "\<forall>ph \<in> set (phdrs n bs). seg_ok in_file V ph"
    and "load_loop rd fs junk fl n bs (M, d) = Inr (M', d')"
  shows "ok d' \<and> mk M' = mk M \<and> running_in M' c pdir V \<and>
    (\<forall>x b. loaded img (phdrs n bs) x = Some b \<longrightarrow> vload8 (vmem (mvm M')) pdir x = Inr b) \<and>
    (\<forall>x. frame_of x \<in> V \<and> mapped M pdir x \<and> loaded img (phdrs n bs) x = None \<longrightarrow>
      vload8 (vmem (mvm M')) pdir x = vload8 (vmem (mvm M)) pdir x) \<and>
    (\<forall>x. mapped M pdir x \<or> loaded img (phdrs n bs) x \<noteq> None \<longrightarrow> mapped M' pdir x)"
  using assms
proof (induction n arbitrary: bs M d)
  case 0
  then show ?case by (simp add: phdrs_def)
next
  case (Suc n)
  let ?L = "field32 Elf32_Phdr ''p_type'' bs = PT_LOAD" and ?rest = "drop (layout_size Elf32_Phdr) bs"
  obtain M1 d1 where s1: "(if ?L then load_segment rd fs junk fl bs (M, d) else Inr (M, d)) = Inr (M1, d1)"
    and l: "load_loop rd fs junk fl n ?rest (M1, d1) = Inr (M', d')"
    using Suc.prems(4) by (auto simp: rbind_eq_Inr)
  have sg: "seg_ok in_file V bs" "\<forall>ph \<in> set (phdrs n ?rest). seg_ok in_file V ph" using Suc.prems(3) by (simp_all add: phdrs_Suc)
  have one: "ok d1 \<and> mk M1 = mk M \<and> running_in M1 c pdir V \<and>
      (\<forall>x. covers bs x \<longrightarrow> vload8 (vmem (mvm M1)) pdir x = Inr (seg_byte img bs x)) \<and>
      (\<forall>x. frame_of x \<in> V \<and> mapped M pdir x \<and> \<not> covers bs x \<longrightarrow> vload8 (vmem (mvm M1)) pdir x = vload8 (vmem (mvm M)) pdir x) \<and>
      (\<forall>x. mapped M pdir x \<or> covers bs x \<longrightarrow> mapped M1 pdir x)"
  proof (cases ?L)
    case True
    then show ?thesis using load_segment_spec [OF Suc.prems(1,2) sg(1)] s1 by simp
  next
    case False
    then show ?thesis using s1 Suc.prems(1,2) by (simp add: covers_def)
  qed
  then have h: "ok d1" "running_in M1 c pdir V" by simp_all
  have inV: "frame_of x \<in> V" if "covers bs x" for x using that sg(1) by (auto simp: seg_ok_def covers_def)
  show ?case
    using Suc.IH [OF h sg(2) l] one inV unfolding phdrs_Suc
    by (auto split: option.splits if_splits)
qed

lemma read_header:
  assumes "ok d" and "in_file 0 (of_nat (layout_size Elf32_Ehdr))"
  shows "\<exists>d'. File_read rd fs junk 0 (of_nat (layout_size Elf32_Ehdr)) fl d = Inr (hdr img, d') \<and> ok d'"
  using read_img [OF assms] by (simp add: hdr_def header_sizes)

lemma load_elf_spec:
  assumes "ok d" and run: "running_in M c pdir V" and prog: "program_ok img in_file V (frame_of (saved_frame M c + 48))"
    and pc: "frame_of (saved_frame M c + 48) \<in> V" "mapped M pdir (saved_frame M c + 48)"
    and load: "load_elf_executable rd fs junk fl (M, d) = Inr (r, M', d')"
  shows "r \<and> ok d' \<and> mk M' = mk M \<and> running_in M' c pdir V \<and>
    (\<forall>x b. loaded img (program_headers img) x = Some b \<longrightarrow> vload8 (vmem (mvm M')) pdir x = Inr b) \<and>
    (\<forall>x. frame_of x \<in> V - {frame_of (saved_frame M c + 48)} \<and> mapped M pdir x \<and> loaded img (program_headers img) x = None \<longrightarrow>
      vload8 (vmem (mvm M')) pdir x = vload8 (vmem (mvm M)) pdir x) \<and>
    vload32 (vmem (mvm M')) pdir (saved_frame M c + 48) = Inr (field32 Elf32_Ehdr ''e_entry'' (hdr img))"
proof -
  let ?h = "hdr img" and ?pc = "saved_frame M c + 48"
  let ?n = "field16 Elf32_Ehdr ''e_phnum'' (hdr img)" and ?off = "field32 Elf32_Ehdr ''e_phoff'' (hdr img)"
  let ?bs = "map img [unat ?off..<unat ?off + layout_size Elf32_Phdr * unat ?n]"
  have p: "in_file 0 (of_nat (layout_size Elf32_Ehdr))" "is_elf ?h" "in_file ?off (of_nat (layout_size Elf32_Phdr) * ucast ?n)"
      "in_file (field32 Elf32_Ehdr ''e_shoff'' ?h) (of_nat (layout_size Elf32_Shdr) * ucast (field16 Elf32_Ehdr ''e_shnum'' ?h))"
      "\<forall>ph \<in> set (program_headers img). seg_ok in_file V ph" "\<And>x. loaded img (program_headers img) x \<noteq> None \<Longrightarrow> frame_of x \<noteq> frame_of ?pc"
    using prog by (auto simp: program_ok_def loaded_None)
  have phs: "program_headers img = phdrs (unat ?n) ?bs" by (simp add: program_headers_def Let_def)
  obtain d1 where d1: "File_read rd fs junk 0 (of_nat (layout_size Elf32_Ehdr)) fl d = Inr (?h, d1)" "ok d1" using read_header [OF assms(1) p(1)] by blast
  have u: "unat (of_nat (layout_size Elf32_Phdr) * ucast ?n :: u32) = layout_size Elf32_Phdr * unat ?n" by (rule phdr_bytes)
  obtain d2 where d2: "File_read rd fs junk ?off (of_nat (layout_size Elf32_Phdr) * ucast ?n) fl d1 = Inr (?bs, d2)" "ok d2"
    using read_img [OF d1(2) p(3)] unfolding u by blast
  obtain sh d3 where d3: "File_read rd fs junk (field32 Elf32_Ehdr ''e_shoff'' ?h)
      (of_nat (layout_size Elf32_Shdr) * ucast (field16 Elf32_Ehdr ''e_shnum'' ?h)) fl d2 = Inr (sh, d3)" "ok d3"
    using read_img [OF d2(2) p(4)] by blast
  obtain M1 where l: "load_loop rd fs junk fl (unat ?n) ?bs (M, d3) = Inr (M1, d')" and ae: "after_exec (field32 Elf32_Ehdr ''e_entry'' ?h) M1 = Inr M'" and r: "r"
    using load d1(1) d2(1) d3(1) p(2) by (auto simp: load_elf_executable_def is_elf_def Let_def rbind_eq_Inr)
  have sg: "\<forall>ph \<in> set (phdrs (unat ?n) ?bs). seg_ok in_file V ph" using p(5) phs by simp
  note s = load_loop_spec [OF d3(2) run sg l, folded phs]
  have m1: "mk M1 = mk M" "running_in M1 c pdir V" "mapped M1 pdir ?pc" using s pc(2) by simp_all
  then have R: "pCurrent (pManager (mk M1)) = Some c" "cpu_cr3 (mk M1) = pdir" "saved_frame M1 c = saved_frame M c"
    using run by (simp_all add: running_in_def saved_frame_def cur_proc_def)
  have ok1: "space_ok (vmem (mvm M1)) (- free_frames (vpfa (mvm M1))) pdir V" using m1(2) by (simp add: running_in_def)
  obtain m2 where m2: "vstore32 pdir ?pc (field32 Elf32_Ehdr ''e_entry'' ?h) (vmem (mvm M1)) = Inr m2" "space_ok m2 (- free_frames (vpfa (mvm M1))) pdir V"
      "vload32 m2 pdir ?pc = Inr (field32 Elf32_Ehdr ''e_entry'' ?h)"
      "\<And>x. frame_of x \<in> V \<Longrightarrow> frame_of x \<noteq> frame_of ?pc \<Longrightarrow> vload8 m2 pdir x = vload8 (vmem (mvm M1)) pdir x"
    using vstore32_spec [OF ok1 pc(1)] m1(3) unfolding mapped_def by metis
  then have M': "M' = M1\<lparr>mvm := (mvm M1)\<lparr>vmem := m2\<rparr>\<rparr>" using ae R by (simp add: after_exec_def)
  have inV: "frame_of x \<in> V" if "loaded img (program_headers img) x = Some b" for x b
  proof -
    have "\<exists>ph \<in> set (program_headers img). covers ph x" using that loaded_None [of img "program_headers img" x] by force
    then show ?thesis using p(5) by (auto simp: seg_ok_def covers_def)
  qed
  have "running_in M' c pdir V" using m1 M' m2(2) by (simp add: running_in_def cur_proc_def)
  then show ?thesis using s r m1(1) m2(3,4) M' inV p(6) by auto
qed

lemma load_segment_returns:
  assumes d: "ok d" and run: "running_in M c pdir V" and ph: "seg_ok in_file V ph" "field32 Elf32_Phdr ''p_type'' ph = PT_LOAD"
    and en: "enableSpace (vmem (mvm M)) (vpfa (mvm M)) (field32 Elf32_Phdr ''p_vaddr'' ph) (field32 Elf32_Phdr ''p_memsz'' ph) pdir userpage = Inr (m1, a1)"
  shows "\<exists>M' d'. load_segment rd fs junk fl ph (M, d) = Inr (M', d')"
proof -
  let ?off = "field32 Elf32_Phdr ''p_offset'' ph" and ?va = "field32 Elf32_Phdr ''p_vaddr'' ph" and ?sz = "field32 Elf32_Phdr ''p_memsz'' ph"
  have r: "pCurrent (pManager (mk M)) = Some c" "cr3 (mm (cur_proc M c)) = pdir" "cpu_cr3 (mk M) = pdir"
      "pfa_inv (vpfa (mvm M))" "space_ok (vmem (mvm M)) (- free_frames (vpfa (mvm M))) pdir V"
    using run by (simp_all add: running_in_def)
  have p: "in_file ?off ?sz" "unat ?va + unat ?sz + 4095 < 2 ^ 32" "\<forall>x. covers ph x \<longrightarrow> frame_of x \<in> V" using ph by (simp_all add: seg_ok_def)
  obtain d1 where rdd: "File_read rd fs junk ?off ?sz fl d = Inr (map img [unat ?off..<unat ?off + unat ?sz], d1)"
    using read_img [OF d p(1)] by blast
  have "odd userpage" by (simp add: userpage_def)
  note e = enableSpace_space [OF r(4,5) this p(2) en]
  have "frame_of x \<in> V \<and> translate m1 pdir x \<noteq> None" if "x \<in> bytes_of ?va (unat ?sz)" for x
    using that segment_bytes [OF ph(2) p(2)] p(3) e(5) [of x] by (auto simp: covers_def)
  then obtain m2 where "vput pdir ?va (map img [unat ?off..<unat ?off + unat ?sz]) m1 = Inr m2"
    using vput_spec [OF e(2), of ?va "map img [unat ?off..<unat ?off + unat ?sz]"] p(2) by auto
  then show ?thesis using r(1-3) rdd en by (simp add: load_segment_def Let_def enable_in_def)
qed

lemma load_elf_returns:
  assumes "ok d" and run: "running_in M c pdir V" and prog: "program_ok img in_file V (frame_of (saved_frame M c + 48))"
    and pc: "frame_of (saved_frame M c + 48) \<in> V" "mapped M pdir (saved_frame M c + 48)"
    and one: "program_headers img = [ph]" "field32 Elf32_Phdr ''p_type'' ph = PT_LOAD"
    and en: "enableSpace (vmem (mvm M)) (vpfa (mvm M)) (field32 Elf32_Phdr ''p_vaddr'' ph) (field32 Elf32_Phdr ''p_memsz'' ph) pdir userpage = Inr (m1, a1)"
  shows "\<exists>M' d'. load_elf_executable rd fs junk fl (M, d) = Inr (True, M', d')"
proof -
  let ?h = "hdr img" and ?n = "field16 Elf32_Ehdr ''e_phnum'' (hdr img)" and ?off = "field32 Elf32_Ehdr ''e_phoff'' (hdr img)"
  let ?bs = "map img [unat ?off..<unat ?off + layout_size Elf32_Phdr * unat ?n]"
  have p: "in_file 0 (of_nat (layout_size Elf32_Ehdr))" "is_elf ?h" "in_file ?off (of_nat (layout_size Elf32_Phdr) * ucast ?n)"
      "in_file (field32 Elf32_Ehdr ''e_shoff'' ?h) (of_nat (layout_size Elf32_Shdr) * ucast (field16 Elf32_Ehdr ''e_shnum'' ?h))"
      "seg_ok in_file V ph"
    using prog one by (auto simp: program_ok_def)
  have n: "unat ?n = Suc 0" "ph = ?bs"
  proof -
    have e: "phdrs (unat ?n) ?bs = [ph]" using one(1) by (simp add: program_headers_def Let_def)
    then have "length (phdrs (unat ?n) ?bs) = 1" by (simp only: list.size)
    then show "unat ?n = Suc 0" by (simp add: phdrs_def)
    then show "ph = ?bs" using e by (simp add: phdrs_def)
  qed
  obtain d1 where d1: "File_read rd fs junk 0 (of_nat (layout_size Elf32_Ehdr)) fl d = Inr (?h, d1)" "ok d1" using read_header [OF assms(1) p(1)] by blast
  obtain d2 where d2: "File_read rd fs junk ?off (of_nat (layout_size Elf32_Phdr) * ucast ?n) fl d1 = Inr (?bs, d2)" "ok d2"
    using read_img [OF d1(2) p(3)] unfolding phdr_bytes by blast
  obtain sh d3 where d3: "File_read rd fs junk (field32 Elf32_Ehdr ''e_shoff'' ?h)
      (of_nat (layout_size Elf32_Shdr) * ucast (field16 Elf32_Ehdr ''e_shnum'' ?h)) fl d2 = Inr (sh, d3)" "ok d3"
    using read_img [OF d2(2) p(4)] by blast
  obtain M1 d4 where ls: "load_segment rd fs junk fl ph (M, d3) = Inr (M1, d4)"
    using load_segment_returns [OF d3(2) run p(5) one(2) en] by blast
  then have l: "load_loop rd fs junk fl (unat ?n) ?bs (M, d3) = Inr (M1, d4)" using one(2) n by simp
  note s = load_segment_spec [OF d3(2) run p(5) one(2) ls]
  have R: "pCurrent (pManager (mk M1)) = Some c" "cpu_cr3 (mk M1) = pdir" "saved_frame M1 c = saved_frame M c" "mapped M1 pdir (saved_frame M c + 48)"
    using s run pc(2) by (simp_all add: running_in_def saved_frame_def cur_proc_def)
  then obtain M2 where "after_exec (field32 Elf32_Ehdr ''e_entry'' ?h) M1 = Inr M2"
    by (auto simp: after_exec_def vstore32_def mmu_def mapped_def)
  then show ?thesis using d1(1) d2(1) d3(1) p(2) l by (simp add: load_elf_executable_def is_elf_def Let_def)
qed

lemma load_elf_rejects_spec:
  assumes "ok d" and "in_file 0 (of_nat (layout_size Elf32_Ehdr))" and "\<not> is_elf (hdr img)"
  shows "\<exists>d'. load_elf_executable rd fs junk fl (M, d) = Inr (False, M, d') \<and> ok d'"
  using read_header [OF assms(1,2)] assms(3) by (auto simp: load_elf_executable_def is_elf_def)

end

section \<open>Programs on the disk\<close>

text \<open>A range that \<^verbatim>\<open>File::read\<close> gets right: larger than a block or inside one, in blocks that belong to the file as a whole.\<close>

definition readable_range :: "(nat \<Rightarrow> u8) \<Rightarrow> ext2 \<Rightarrow> nat \<Rightarrow> ext2_inode \<Rightarrow> u32 \<Rightarrow> u32 \<Rightarrow> bool" where
  "readable_range ct fs sectors node a n \<longleftrightarrow> unat n < 2 ^ 31 \<and> unat a + unat n < 2 ^ 32 \<and>
     (unat n > unat (block_size fs) \<or> unat a mod unat (block_size fs) + unat n \<le> unat (block_size fs)) \<and>
     (\<forall>k. unat a div unat (block_size fs) \<le> k \<and> k * unat (block_size fs) \<le> unat a + unat n \<longrightarrow> readable ct fs (512 * sectors) node k)"

definition on_disk :: "nat \<Rightarrow> u32 \<Rightarrow> nat \<Rightarrow> ext2 \<Rightarrow> File \<Rightarrow> 'd ata \<Rightarrow> bool" where
  "on_disk fuel buf sectors fs fl d \<longleftrightarrow> ata_ok fuel buf sectors d \<and> fs_ok fs \<and> inode_ok (finode fl) \<and> is_valid fl"

interpretation ata_file: program_file "ata_rd (hd_bus ct) fuel 0 buf" fs junk fl "on_disk fuel buf sectors fs fl"
    "file_byte ct fs (finode fl)" "readable_range ct fs sectors (finode fl)"
  for ct fuel buf fs junk fl sectors
proof unfold_locales
  fix d :: "hd ata" and a n
  assume d: "on_disk fuel buf sectors fs fl d" and r: "readable_range ct fs sectors (finode fl) a n"
  show "\<exists>d'. File_read (ata_rd (hd_bus ct) fuel 0 buf) fs junk a n fl d = Inr (map (file_byte ct fs (finode fl)) [unat a..<unat a + unat n], d') \<and>
      on_disk fuel buf sectors fs fl d'"
    using File_read_spec [of fuel buf sectors d fs fl n a ct junk] d r unfolding on_disk_def readable_range_def file_bytes_def by blast
qed



section \<open>A program of four bytes\<close>

definition elf_demo :: "u8 list" where
  "elf_demo =
     [0x7f, 0x45, 0x4c, 0x46, 1, 1, 1, 0, 0, 0, 0, 0, 0, 0, 0, 0,
      2, 0, 3, 0, 1, 0, 0, 0, 0, 1, 0, 0x40, 52, 0, 0, 0, 0, 0, 0, 0, 0, 0, 0, 0, 52, 0, 32, 0, 1, 0, 40, 0, 0, 0, 0, 0,
      1, 0, 0, 0, 0, 0, 0, 0, 0, 1, 0, 0x40, 0, 0, 0, 0, 4, 0, 0, 0, 4, 0, 0, 0, 5, 0, 0, 0, 0, 0, 0, 0]"

definition elf_disk :: "nat \<Rightarrow> u8" where
  "elf_disk i = (if 0x8a00 \<le> i \<and> i < 0x8a00 + 84 then elf_demo ! (i - 0x8a00) else 0)"

lemma elf_bytes:
  assumes "i < 84"
  shows "file_byte elf_disk demo_fs demo_node i = elf_demo ! i"
proof -
  have "file_block elf_disk demo_fs demo_node 0 = 3" using demo_readable(2) [of 0 elf_disk] by simp
  then have "file_byte elf_disk demo_fs demo_node i = disk_bytes elf_disk 0x8a00 1024 ! i"
    using assms by (simp add: file_byte_def demo_fs_ok(3) block_data_def block_addr_def)
  also have "\<dots> = elf_disk (0x8a00 + i)" unfolding disk_bytes_def using assms by (subst nth_map_upt) simp_all
  finally show ?thesis using assms by (simp add: elf_disk_def)
qed

abbreviation "elf_img \<equiv> file_byte elf_disk demo_fs demo_node"

lemma map_upt_slice:
  assumes "b \<le> length xs" and "\<And>i. i < b \<Longrightarrow> f i = xs ! i"
  shows "map f [a..<b] = drop a (take b xs)"
  using assms by (intro nth_equalityI) simp_all

lemma elf_hdr: "hdr elf_img = take 52 elf_demo" "map elf_img [52..<84] = drop 52 elf_demo"
proof -
  have l: "length elf_demo = 84" by (simp add: elf_demo_def)
  show "hdr elf_img = take 52 elf_demo"
    unfolding hdr_def header_sizes using map_upt_slice [of 52 elf_demo elf_img 0] elf_bytes l by simp
  show "map elf_img [52..<84] = drop 52 elf_demo"
    using map_upt_slice [of 84 elf_demo elf_img 52] elf_bytes l by simp
qed

lemma elf_ident: "x86_32_ident = [0x7f, 0x45, 0x4c, 0x46, 1, 1, 1, 0, 0, 0, 0, 0, 0, 0, 0, 0]"
  by (simp add: x86_32_ident_def ELFMAG_def numeral_eq_Suc)

lemma elf_fields:
  "is_elf (hdr elf_img)" "field16 Elf32_Ehdr ''e_phnum'' (hdr elf_img) = 1" "field16 Elf32_Ehdr ''e_shnum'' (hdr elf_img) = 0"
  "field32 Elf32_Ehdr ''e_phoff'' (hdr elf_img) = 52" "field32 Elf32_Ehdr ''e_shoff'' (hdr elf_img) = 0"
  "field32 Elf32_Ehdr ''e_entry'' (hdr elf_img) = 0x40000100"
  unfolding elf_hdr
  by (simp_all add: is_elf_def elf_demo_def Elf32_Ehdr_def EI_NIDENT_def elf_ident ET_EXEC_def EM_386_def
      field16_def field32_def le_at_def)

lemma elf_segment:
  "program_headers elf_img = [drop 52 elf_demo]"
  "field32 Elf32_Phdr ''p_type'' (drop 52 elf_demo) = PT_LOAD" "field32 Elf32_Phdr ''p_offset'' (drop 52 elf_demo) = 0"
  "field32 Elf32_Phdr ''p_vaddr'' (drop 52 elf_demo) = 0x40000100" "field32 Elf32_Phdr ''p_memsz'' (drop 52 elf_demo) = 4"
proof -
  show "program_headers elf_img = [drop 52 elf_demo]"
    using elf_hdr(2) by (simp add: program_headers_def Let_def elf_fields phdrs_def header_sizes del: upt_conv_Cons upt_rec_numeral)
  show "field32 Elf32_Phdr ''p_type'' (drop 52 elf_demo) = PT_LOAD" "field32 Elf32_Phdr ''p_offset'' (drop 52 elf_demo) = 0"
    "field32 Elf32_Phdr ''p_vaddr'' (drop 52 elf_demo) = 0x40000100" "field32 Elf32_Phdr ''p_memsz'' (drop 52 elf_demo) = 4"
    by (simp_all add: elf_demo_def Elf32_Phdr_def PT_LOAD_def field32_def le_at_def)
qed

text \<open>A machine whose directory, in frame 0, maps the page of the saved registers only, through a table in frame 1 to frame 2.\<close>

definition elf_mem :: mem where
  "elf_mem = (\<lambda>_. 0)(0xffc := 0x1017, 0x1ffc := 0x2017)"

definition elf_machine :: machine where
  "elf_machine = \<lparr>mk = demo_ipc,
     mvm = \<lparr>vmem = elf_mem, vpfa = demo_pfa, kPdir = 0, kPtables = 0, v2ptable = 0, mem_size = 0\<rparr>\<rparr>"

lemma elf_mem_dir: "elf_mem (dir_slot 0 x) = (if dir_index x = 1023 then 0x1017 else 0)"
proof -
  have f: "frame_of (dir_slot 0 x) = 0" by (subst slots(1)) (simp_all add: page_aligned_def frame_of_def)
  have "frame_of 0x1ffc = 1" by (simp add: frame_of_def)
  with f have n: "dir_slot 0 x \<noteq> 0x1ffc" by (metis zero_neq_one)
  have al: "page_aligned 0" by (simp add: page_aligned_def)
  have top: "dir_slot 0 0xffffffff = 0xffc" "dir_index 0xffffffff = 1023" by (simp_all add: dir_slot_eq dir_index_def)
  have "dir_slot 0 x = 0xffc \<longleftrightarrow> dir_index x = 1023" using slots_inject(1) [OF al, of x "0xffffffff"] top by simp
  then show ?thesis using n by (simp add: elf_mem_def)
qed

lemma elf_mem_table: "elf_mem (table_slot 0x1000 x) = (if table_index x = 1023 then 0x2017 else 0)"
proof -
  have f: "frame_of (table_slot 0x1000 x) = 1" by (subst slots(2)) (simp_all add: page_aligned_def frame_of_def)
  have "frame_of 0xffc = 0" by (simp add: frame_of_def)
  with f have n: "table_slot 0x1000 x \<noteq> 0xffc" by (metis zero_neq_one)
  have al: "page_aligned 0x1000" by (simp add: page_aligned_def)
  have top: "table_slot 0x1000 0xffffffff = 0x1ffc" "table_index 0xffffffff = 1023" by (simp_all add: table_slot_eq table_index_def)
  have "table_slot 0x1000 x = 0x1ffc \<longleftrightarrow> table_index x = 1023" using slots_inject(2) [OF al, of x "0xffffffff"] top by simp
  then show ?thesis using n by (simp add: elf_mem_def)
qed

lemma elf_translate:
  "translate elf_mem 0 x = (if dir_index x = 1023 \<and> table_index x = 1023 then Some (0x2000 + (x AND 0xfff)) else None)"
proof -
  have e: "caddrEntry 0x1017 = 0x1000" "caddrEntry 0x2017 = 0x2000" "isEntryExist 0x1017" "isEntryExist 0x2017"
    by (simp_all add: caddrEntry_def isEntryExist_def)
  show ?thesis by (simp add: translate_def Let_def elf_mem_dir e elf_mem_table)
qed

lemma elf_dir:
  "isEntryExist (elf_mem (dir_slot 0 x)) \<longleftrightarrow> dir_index x = 1023" "dir_index x = 1023 \<Longrightarrow> frame_of (elf_mem (dir_slot 0 x)) = 1"
  by (simp_all add: elf_mem_dir isEntryExist_def frame_of_def)

lemma elf_table_frames: "table_frames elf_mem 0 \<subseteq> {0, 1}"
  unfolding table_frames_def elf_dir(1) using elf_dir(2) by (auto simp: frame_of_def [of 0])

lemma elf_space: "space_ok elf_mem (- free_frames demo_pfa) 0 V"
proof -
  have "dir_ok elf_mem (- free_frames demo_pfa) 0"
    unfolding dir_ok_def elf_dir(1) using elf_dir(2) by (simp add: demo_frames page_aligned_def frame_of_def [of 0])
  moreover have "target elf_mem 0 x = 2" if "translate elf_mem 0 x \<noteq> None" for x
  proof -
    have "page_aligned 0x2000" by (simp add: page_aligned_def)
    then show ?thesis using that by (simp add: target_def elf_translate frame_of_offset split: if_splits) (simp add: frame_of_def)
  qed
  moreover have "frame_of x = frame_of y" if "translate elf_mem 0 x \<noteq> None" "translate elf_mem 0 y \<noteq> None" for x y
    using that by (simp add: elf_translate same_page split: if_splits)
  ultimately show ?thesis using elf_table_frames unfolding space_ok_def by (auto simp: demo_frames)
qed

lemma elf_running: "running_in elf_machine 0 0 V" "saved_frame elf_machine 0 = 0xffffffbc" "mapped elf_machine 0 0xffffffec"
proof -
  have p: "proc (pManager demo_ipc) 0 = demo_proc\<lparr>pid := 7, prior := Psys, status := TASK_RUNNING\<rparr>" by (rule demo_fork(4))
  have z: "cr3 (mm demo_proc) = 0" "stack_top (kernel_info demo_proc) = 0" by code_simp+
  have k: "cpu_cr3 demo_ipc = 0" "pCurrent (pManager demo_ipc) = Some 0"
    by (simp_all add: demo_ipc_def demo_pair_def demo_kernel_def demo_pm_run_def demo_pm_def PManager_of_def)
  show "running_in elf_machine 0 0 V"
    using p z k demo_inv elf_space by (simp add: running_in_def elf_machine_def cur_proc_def)
  show "saved_frame elf_machine 0 = 0xffffffbc"
    using p z by (simp add: saved_frame_def elf_machine_def cur_proc_def stack_frame_size_def)
  show "mapped elf_machine 0 0xffffffec" by (simp add: mapped_def elf_machine_def elf_translate dir_index_def table_index_def)
qed

lemma elf_range:
  assumes "unat a + unat n < 1024"
  shows "readable_range ct demo_fs 256 demo_node a n"
proof -
  have "readable ct demo_fs (512 * 256) demo_node k" if "k * 1024 \<le> unat a + unat n" for k
  proof -
    have "k = 0" using that assms by (cases k) simp_all
    then show ?thesis using demo_readable(1) [of k ct] by simp
  qed
  then show ?thesis using assms unfolding readable_range_def demo_fs_ok(3) by simp
qed

lemma elf_covers: "covers (drop 52 elf_demo) x \<longleftrightarrow> 0x40000100 \<le> unat x \<and> unat x < 0x40000104"
  by (simp add: covers_def elf_segment)

lemma elf_program: "program_ok elf_img (readable_range elf_disk demo_fs 256 demo_node) {0x40000, 0xfffff} 0xfffff"
proof -
  have f: "frame_of x = 0x40000" if "covers (drop 52 elf_demo) x" for x
    unfolding frame_of_def using that unfolding elf_covers by (intro div_nat_eqI) simp_all
  then have "seg_ok (readable_range elf_disk demo_fs 256 demo_node) {0x40000, 0xfffff} (drop 52 elf_demo)"
    unfolding seg_ok_def elf_segment using elf_range [of 0 4 elf_disk] by simp
  then show ?thesis
    unfolding program_ok_def elf_fields elf_segment header_sizes
    using elf_range [of 0 52 elf_disk] elf_range [of 52 32 elf_disk] elf_range [of 0 0 elf_disk] elf_fields(1) f by simp
qed

lemma elf_enable: "\<exists>m1 a1. enableSpace elf_mem demo_pfa 0x40000100 4 0 userpage = Inr (m1, a1)"
proof -
  obtain r1 a1 r2 a2 where a: "allocChunk demo_pfa 1 = Inr (r1, a1)" "allocChunk a1 1 = Inr (r2, a2)" by (rule demo_allocs) blast
  have al: "page_aligned r1" using pf.alloc_fresh [OF demo_inv a(1)] by simp
  have n: "(page_ceil (0x40000100 + 4) - page_floor 0x40000100) div 0x1000 = 1" by (simp add: page_ceil_def page_floor_def)
  have "\<not> isEntryExist (elf_mem (dir_slot 0 (page_floor 0x40000100)))"
    unfolding elf_mem_dir by (simp add: dir_index_def page_floor_def)
  then show ?thesis using a al n by (simp add: enableSpace_def enableSpace_with_def Let_def enable_page_def get_table_def)
qed



end
