(* ===== verification/User_Library.thy ===== *)
theory User_Library
  imports Kernel_Call
begin

unbundle bit_operations_syntax

text \<open>
  The library of a user program: the stubs of \<^verbatim>\<open>src/user/grue.cpp\<close> that the C library calls, with the global \<^verbatim>\<open>errno\<close> and the
  end of the heap, and the registers that \<^verbatim>\<open>src/user/syscall.cpp\<close> and
  \<^verbatim>\<open>src/kernel/syscall.cpp\<close> load for a kernel call. The address \<^verbatim>\<open>end\<close> that the linker
  gives and the stack pointer are arguments.
\<close>

section \<open>Operations\<close>

record ulib =
  errno :: int
  heap_end :: u32

definition ENOENT :: int where "ENOENT = 2"
definition ECHILD :: int where "ECHILD = 10"
definition EAGAIN :: int where "EAGAIN = 11"
definition ENOMEM :: int where "ENOMEM = 12"
definition EINVAL :: int where "EINVAL = 22"
definition EMLINK :: int where "EMLINK = 31"

definition u_execve :: "ulib \<Rightarrow> int \<times> ulib" where "u_execve u = (-1, u\<lparr>errno := ENOMEM\<rparr>)"
definition u_fork :: "ulib \<Rightarrow> int \<times> ulib" where "u_fork u = (-1, u\<lparr>errno := EAGAIN\<rparr>)"
definition u_kill :: "int \<Rightarrow> int \<Rightarrow> ulib \<Rightarrow> int \<times> ulib" where "u_kill p sig u = (-1, u\<lparr>errno := EINVAL\<rparr>)"
definition u_link :: "ulib \<Rightarrow> int \<times> ulib" where "u_link u = (-1, u\<lparr>errno := EMLINK\<rparr>)"
definition u_unlink :: "ulib \<Rightarrow> int \<times> ulib" where "u_unlink u = (-1, u\<lparr>errno := ENOENT\<rparr>)"
definition u_wait :: "ulib \<Rightarrow> int \<times> ulib" where "u_wait u = (-1, u\<lparr>errno := ECHILD\<rparr>)"

definition u_close :: "int \<Rightarrow> int" where "u_close fl = -1"
definition u_getpid :: int where "u_getpid = 1"
definition u_isatty :: "int \<Rightarrow> int" where "u_isatty fl = 1"
definition u_lseek :: "int \<Rightarrow> int \<Rightarrow> int \<Rightarrow> int" where "u_lseek fl ptr dir = 0"
definition u_open :: "u32 \<Rightarrow> int \<Rightarrow> int \<Rightarrow> int" where "u_open name flags mode = -1"
definition u_read :: "int \<Rightarrow> u32 \<Rightarrow> int \<Rightarrow> int" where "u_read fl ptr len = 0"
definition u_times :: "u32 \<Rightarrow> int" where "u_times buf = -1"

record ustat =
  st_mode :: u32

definition S_IFCHR :: u32 where "S_IFCHR = 0x2000"
definition u_fstat :: "int \<Rightarrow> 'z ustat_scheme \<Rightarrow> int \<times> 'z ustat_scheme" where "u_fstat fl st = (0, st\<lparr>st_mode := S_IFCHR\<rparr>)"
definition u_stat :: "u32 \<Rightarrow> 'z ustat_scheme \<Rightarrow> int \<times> 'z ustat_scheme" where "u_stat name st = (0, st\<lparr>st_mode := S_IFCHR\<rparr>)"

definition sbrk :: "u32 \<Rightarrow> u32 \<Rightarrow> int \<Rightarrow> ulib \<Rightarrow> (u32 \<times> ulib) kres" where
  "sbrk end_sym stack_ptr incr u =
     (let u = (if heap_end u = 0 then u\<lparr>heap_end := end_sym\<rparr> else u); prev_heap_end = heap_end u in
      if heap_end u + word_of_int incr > stack_ptr then Inl Hang
      else Inr (prev_heap_end, u\<lparr>heap_end := heap_end u + word_of_int incr\<rparr>))"

text \<open>The registers at the instruction \<^verbatim>\<open>int $0x30\<close>.\<close>

definition kernel_call_asm :: "u32 \<Rightarrow> u32 \<Rightarrow> u32 \<Rightarrow> u32 \<Rightarrow> (string \<times> u32) list" where
  "kernel_call_asm nr arg1 arg2 arg3 = [(''dx'', arg3), (''cx'', arg2), (''bx'', arg1), (''ax'', nr)]"

definition sys_send :: "int \<Rightarrow> u32 \<Rightarrow> (string \<times> u32) list" where
  "sys_send to message = kernel_call_asm NR_K_SEND (word_of_int to) message 0"

definition sys_recv :: "int \<Rightarrow> u32 \<Rightarrow> (string \<times> u32) list" where
  "sys_recv from message = kernel_call_asm NR_K_RECV (word_of_int from) message 0"

text \<open>The wrappers that only the kernel's own processes have, \<^verbatim>\<open>src/kernel/syscall.cpp\<close>.\<close>

definition sys_exec :: "u32 \<Rightarrow> u32 \<Rightarrow> (string \<times> u32) list" where
  "sys_exec filepath p = kernel_call_asm NR_K_EXEC filepath p 0"

definition sys_fork :: "(string \<times> u32) list" where
  "sys_fork = kernel_call_asm NR_K_FORK 0 0 0"

text \<open>The registers that the entry code has saved for the handler.\<close>

definition saved_regs :: "u32 \<Rightarrow> (string \<times> u32) list \<Rightarrow> machine \<Rightarrow> bool" where
  "saved_regs args rs M \<longleftrightarrow> (\<forall>(r, w) \<in> set rs. get_reg args r M = Inr w)"

text \<open>\<^verbatim>\<open>write\<close> sends a message of its own to the first process and returns 0, whatever it was asked to write.\<close>

definition u_write :: "u32 \<Rightarrow> int \<times> (string \<times> u32) list" where
  "u_write message = (0, sys_send PID_INIT message)"

section \<open>The heap of a program\<close>

fun sbrks :: "u32 \<Rightarrow> u32 \<Rightarrow> nat list \<Rightarrow> ulib \<Rightarrow> (u32 list \<times> ulib) kres" where
  "sbrks e sp [] u = Inr ([], u)"
| "sbrks e sp (n # ns) u = rbind (sbrk e sp (int n) u) (\<lambda>(a, u). rbind (sbrks e sp ns u) (\<lambda>(as, u). Inr (a # as, u)))"

text \<open>Blocks of the given sizes side by side from \<open>a\<close> on.\<close>

fun side_by_side :: "nat \<Rightarrow> nat list \<Rightarrow> nat list" where
  "side_by_side a [] = []"
| "side_by_side a (n # ns) = a # side_by_side (a + n) ns"

lemma sbrk_grows:
  assumes "unat h + n < 2 ^ 32" and "h = (if heap_end u = 0 then e else heap_end u)"
  shows "sbrk e sp (int n) u = (if unat h + n \<le> unat sp then Inr (h, u\<lparr>heap_end := h + of_nat n\<rparr>) else Inl Hang)"
    and "unat (h + of_nat n) = unat h + n"
proof -
  have "unat (of_nat n :: u32) = n" using assms(1) by (intro unat_small) simp
  then show s: "unat (h + of_nat n) = unat h + n" using assms(1) by (simp add: unat_plus_if_size word_size)
  then have "h + of_nat n > sp \<longleftrightarrow> unat sp < unat h + n" by (simp add: word_less_nat_alt)
  then show "sbrk e sp (int n) u = (if unat h + n \<le> unat sp then Inr (h, u\<lparr>heap_end := h + of_nat n\<rparr>) else Inl Hang)"
    using assms(2) by (auto simp: sbrk_def Let_def)
qed

lemma sbrks_from:
  "heap_end u \<noteq> 0 \<Longrightarrow> unat (heap_end u) + sum_list ns < 2 ^ 32 \<Longrightarrow>
   sbrks e sp ns u = (if ns \<noteq> [] \<and> unat sp < unat (heap_end u) + sum_list ns then Inl Hang
     else Inr (map of_nat (side_by_side (unat (heap_end u)) ns), u\<lparr>heap_end := heap_end u + of_nat (sum_list ns)\<rparr>))"
proof (induction ns arbitrary: u)
  case (Cons n ns)
  let ?h = "heap_end u" let ?u = "u\<lparr>heap_end := ?h + of_nat n\<rparr>"
  have lt: "unat ?h + n < 2 ^ 32" using Cons.prems(2) by simp
  note g = sbrk_grows(1) [OF lt, where u = u and e = e and sp = sp] sbrk_grows(2) [OF lt, where u = u and e = e]
  have h: "unat (?h + of_nat n) = unat ?h + n" using g(2) Cons.prems(1) by simp
  moreover have "unat ?h \<noteq> 0" using Cons.prems(1) by (simp add: unat_eq_0)
  ultimately have "unat (?h + of_nat n) \<noteq> 0" by simp
  then have nz: "heap_end ?u \<noteq> 0" by (auto simp: unat_eq_0)
  have "unat (heap_end ?u) + sum_list ns < 2 ^ 32" using Cons.prems(2) h by simp
  note IH = Cons.IH [OF nz this]
  show ?case using g(1) Cons.prems(1) IH h by (auto simp: algebra_simps)
qed simp

text \<open>
  C40. The heap of a program: a sequence of calls of \<^verbatim>\<open>sbrk\<close> from the start of the program returns blocks of the sizes asked
  for, side by side from the end of the program on and in the order of the calls, as long as they end below the stack
  pointer; otherwise one of them does not return.
\<close>

theorem sbrk_blocks:
  assumes "heap_end u = 0" and "e \<noteq> 0" and "ns \<noteq> []" and "unat e + sum_list ns < 2 ^ 32"
  shows "sbrks e sp ns u = (if unat e + sum_list ns \<le> unat sp
     then Inr (map of_nat (side_by_side (unat e) ns), u\<lparr>heap_end := e + of_nat (sum_list ns)\<rparr>) else Inl Hang)"
proof -
  have "sbrk e sp (int n) u = sbrk e sp (int n) (u\<lparr>heap_end := e\<rparr>)" for n using assms(1,2) by (simp add: sbrk_def)
  then have "sbrks e sp ns u = sbrks e sp ns (u\<lparr>heap_end := e\<rparr>)" using assms(3) by (cases ns) simp_all
  then show ?thesis using sbrks_from [of "u\<lparr>heap_end := e\<rparr>" ns e sp] assms by auto
qed

theorem sbrk_blocks_witness:
  "sbrks 0x40001000 0x60000000 [16, 0, 100] \<lparr>errno = 0, heap_end = 0\<rparr> =
     Inr ([0x40001000, 0x40001010, 0x40001010], \<lparr>errno = 0, heap_end = 0x40001074\<rparr>)"
  using sbrk_blocks [of "\<lparr>errno = 0, heap_end = 0\<rparr>" "0x40001000" "[16, 0, 100]" "0x60000000"] by simp

end
