(* ===== verification/Ipc_Memory.thy ===== *)
theory Ipc_Memory
  imports Kernel_Call_Correct Elf_Correct User_Library
begin

unbundle bit_operations_syntax

text \<open>
  Kernel calls for message passing, with the message in the memory of the calling process: a message written field by field is
  read back unchanged, and the calls do on the kernel objects what \<^verbatim>\<open>Ipc::send\<close> and \<^verbatim>\<open>Ipc::recv\<close> do.
\<close>

section \<open>Bytes of words\<close>

lemma digits256: "n mod 256 + 256 * (n div 256 mod 256 + 256 * (n div 65536 mod 256 + 256 * (n div 16777216 mod 256))) = n mod 2 ^ 32"
  for n :: nat
proof -
  have "n mod 2 ^ 32 = n mod (256 * (256 * (256 * 256)))" by simp
  also have "\<dots> = 256 * (n div 256 mod (256 * (256 * 256))) + n mod 256" by (rule mod_mult2_eq)
  also have "n div 256 mod (256 * (256 * 256)) = 256 * (n div 256 div 256 mod (256 * 256)) + n div 256 mod 256" by (rule mod_mult2_eq)
  also have "n div 256 div 256 mod (256 * 256) = 256 * (n div 256 div 256 div 256 mod 256) + n div 256 div 256 mod 256" by (rule mod_mult2_eq)
  also have "n div 256 div 256 = n div 65536" by (simp add: div_mult2_eq [symmetric])
  also have "n div 65536 div 256 = n div 16777216" by (simp add: div_mult2_eq [symmetric])
  finally show ?thesis by simp
qed

lemma bytes_read:
  "of_nat (le_nat (bytes32 w)) = w" "of_nat (le_nat (bytes16 v)) = v" "length (bytes32 w) = 4" "length (bytes16 v) = 2"
proof -
  have lt: "unat w < 2 ^ 32" "unat v < 2 ^ 16" using unsigned_less [of w] unsigned_less [of v] by simp_all
  have "unat v mod 256 + 256 * (unat v div 256 mod 256) = unat v" using lt(2) by (simp add: less_mult_imp_div_less)
  then have "le_nat (bytes16 v) = unat v" by (simp add: bytes16_def unat_byte0 drop_bit_eq_div unat_div)
  moreover have "le_nat (bytes32 w) = unat w"
    using digits256 [of "unat w"] lt(1) by (simp add: bytes32_def unat_byte0 drop_bit_eq_div unat_div)
  ultimately have "le_nat (bytes32 w) = unat w" "le_nat (bytes16 v) = unat v" by simp_all
  then show "of_nat (le_nat (bytes32 w)) = w" "of_nat (le_nat (bytes16 v)) = v" by simp_all
qed (simp_all add: bytes32_def bytes16_def)

section \<open>Messages in memory\<close>

lemma vput_append: "vput dir a (xs @ ys) m = rbind (vput dir a xs m) (vput dir (a + of_nat (length xs)) ys)"
proof (induction xs arbitrary: a m)
  case (Cons x xs)
  have "vput dir (a + 1) (xs @ ys) = (\<lambda>m. rbind (vput dir (a + 1) xs m) (vput dir (a + 1 + of_nat (length xs)) ys))"
    using Cons.IH [of "a + 1"] by (rule ext)
  then show ?case by (simp add: rbind_assoc algebra_simps)
qed simp

lemma vget_bytes:
  "(\<And>i. i < length bs \<Longrightarrow> vload8 m dir (a + of_nat i) = Inr (bs ! i)) \<Longrightarrow> vget dir a (length bs) m = Inr bs"
proof (induction bs arbitrary: a)
  case (Cons b bs)
  have "vload8 m dir (a + 1 + of_nat i) = Inr (bs ! i)" if "i < length bs" for i
    using Cons.prems [of "Suc i"] that by (simp add: algebra_simps)
  then show ?case using Cons.prems [of 0] Cons.IH [of "a + 1"] by simp
qed simp

text \<open>The bytes of a message, with the byte of padding behind \<^verbatim>\<open>isValid\<close>.\<close>

definition message_bytes :: "Message \<Rightarrow> u8 \<Rightarrow> u8 list" where
  "message_bytes x pad = (bytes32 (word_of_int (mid x)) @ bytes16 (mtype x) @ [of_bool (isValid x)]) @ [pad] @
     (bytes32 (m_p1 x) @ bytes32 (m_p2 x) @ bytes32 (m_p3 x))"

definition int32 :: "int \<Rightarrow> int" where
  "int32 i = sint (word_of_int i :: u32)"

lemma message_offsets:
  "offset_of message_layout ''id'' = 0" "offset_of message_layout ''type'' = 4" "offset_of message_layout ''isValid'' = 6"
  "offset_of message_layout ''p1'' = 8" "offset_of message_layout ''p2'' = 12" "offset_of message_layout ''p3'' = 16"
  "layout_size message_layout = 20"
  by (simp_all add: message_layout_def layout_size_def)

lemma message_bytes_read:
  assumes "vget dir a 20 m = Inr (message_bytes x pad)"
  shows "read_message dir a m = Inr (x\<lparr>mid := int32 (mid x)\<rparr>)"
proof -
  note l = bytes_read(3,4)
  have "field32 message_layout ''id'' (message_bytes x pad) = word_of_int (mid x)" "field16 message_layout ''type'' (message_bytes x pad) = mtype x"
    "message_bytes x pad ! 6 = of_bool (isValid x)" "field32 message_layout ''p1'' (message_bytes x pad) = m_p1 x"
    "field32 message_layout ''p2'' (message_bytes x pad) = m_p2 x" "field32 message_layout ''p3'' (message_bytes x pad) = m_p3 x"
    by (simp_all add: field32_def field16_def message_offsets le_at_def message_bytes_def nth_append l bytes_read(1,2))
  then show ?thesis using assms by (simp add: read_message_def message_offsets int32_def)
qed

lemma write_message_puts:
  "write_message dir a x m =
     rbind (vput dir a (bytes32 (word_of_int (mid x)) @ bytes16 (mtype x) @ [of_bool (isValid x)]) m)
       (vput dir (a + 8) (bytes32 (m_p1 x) @ bytes32 (m_p2 x) @ bytes32 (m_p3 x)))"
  unfolding write_message_def put_field_def message_offsets vput_append rbind_assoc by (simp add: bytes_read(3,4) algebra_simps)

text \<open>A message that the process at hand can reach.\<close>

definition reachable_message :: "mem \<Rightarrow> nat set \<Rightarrow> u32 \<Rightarrow> nat set \<Rightarrow> u32 \<Rightarrow> bool" where
  "reachable_message m U dir V a \<longleftrightarrow> space_ok m U dir V \<and> (\<forall>x \<in> bytes_of a 20. frame_of x \<in> V \<and> translate m dir x \<noteq> None)"

lemma bytes_of_sub: "k + n \<le> N \<Longrightarrow> bytes_of (a + of_nat k) n \<subseteq> bytes_of a N"
proof
  fix x assume "k + n \<le> N" "x \<in> bytes_of (a + of_nat k) n"
  then obtain i where "i < n" "x = a + of_nat (k + i)" "k + i < N" by (auto simp: bytes_of_def algebra_simps)
  then show "x \<in> bytes_of a N" unfolding bytes_of_def by blast
qed

lemma bytes_of_apart:
  assumes "i < 2 ^ 32" "k + n \<le> 2 ^ 32" "i < k \<or> k + n \<le> i"
  shows "a + of_nat i \<notin> bytes_of (a + of_nat k) n"
proof
  assume "a + of_nat i \<in> bytes_of (a + of_nat k) n"
  then obtain j where j: "j < n" "of_nat i = (of_nat (k + j) :: u32)" by (auto simp: bytes_of_def algebra_simps)
  have "unat (of_nat i :: u32) = i" "unat (of_nat (k + j) :: u32) = k + j" using assms j(1) by (intro unat_small; simp)+
  then show False using j assms(3) by auto
qed

lemma writes_only_mono: "writes_only pdir V A m m' \<Longrightarrow> A \<subseteq> B \<Longrightarrow> writes_only pdir V B m m'"
  unfolding writes_only_def by blast

text \<open>A store of some of the bytes of a message.\<close>

lemma put_part:
  assumes ok: "reachable_message m U dir V a" and "k + length bs \<le> 20"
  shows "\<exists>m'. vput dir (a + of_nat k) bs m = Inr m' \<and> reachable_message m' U dir V a \<and> writes_only dir V (bytes_of a 20) m m' \<and>
    (\<forall>i < 20. vload8 m' dir (a + of_nat i) = (if k \<le> i \<and> i < k + length bs then Inr (bs ! (i - k)) else vload8 m dir (a + of_nat i)))"
proof -
  have in20: "\<forall>x \<in> bytes_of a 20. frame_of x \<in> V \<and> translate m dir x \<noteq> None" and sp: "space_ok m U dir V"
    using ok by (simp_all add: reachable_message_def)
  have "\<forall>x \<in> bytes_of (a + of_nat k) (length bs). frame_of x \<in> V \<and> translate m dir x \<noteq> None"
    using in20 bytes_of_sub [OF assms(2), of a] by blast
  moreover have "length bs \<le> 2 ^ 32" using assms(2) by simp
  ultimately obtain m' where m': "vput dir (a + of_nat k) bs m = Inr m'" "space_ok m' U dir V" "writes_only dir V (bytes_of (a + of_nat k) (length bs)) m m'"
      "\<And>i. i < length bs \<Longrightarrow> vload8 m' dir (a + of_nat k + of_nat i) = Inr (bs ! i)"
    using vput_spec [OF sp, of "a + of_nat k" bs] by blast
  have tr: "translate m' dir = translate m dir" using m'(3) by (simp add: writes_only_def)
  have "vload8 m' dir (a + of_nat i) = (if k \<le> i \<and> i < k + length bs then Inr (bs ! (i - k)) else vload8 m dir (a + of_nat i))" if "i < 20" for i
  proof (cases "k \<le> i \<and> i < k + length bs")
    case True
    then have "a + of_nat i = a + of_nat k + of_nat (i - k)" by (simp add: of_nat_diff)
    moreover have "i - k < length bs" using True by auto
    ultimately show ?thesis using True m'(4) [of "i - k"] by simp
  next
    case False
    have "a + of_nat i \<in> bytes_of a 20" using that unfolding bytes_of_def by blast
    moreover have "a + of_nat i \<notin> bytes_of (a + of_nat k) (length bs)" using False that assms(2) by (intro bytes_of_apart) auto
    ultimately show ?thesis using False in20 m'(3) by (auto simp: writes_only_def)
  qed
  moreover have "writes_only dir V (bytes_of a 20) m m'" by (rule writes_only_mono [OF m'(3) bytes_of_sub [OF assms(2)]])
  ultimately show ?thesis using m'(1,2) tr in20 by (simp add: reachable_message_def)
qed

lemma reachable_bytes:
  assumes "reachable_message m U dir V a"
  obtains bs where "length bs = 20" "\<And>i. i < 20 \<Longrightarrow> vload8 m dir (a + of_nat i) = Inr (bs ! i)"
proof -
  have "\<exists>b. vload8 m dir (a + of_nat i) = Inr b" if "i < 20" for i
  proof -
    have "a + of_nat i \<in> bytes_of a 20" using that unfolding bytes_of_def by blast
    then show ?thesis using assms by (auto simp: reachable_message_def vload8_translate split: option.splits)
  qed
  then obtain f where "\<And>i. i < 20 \<Longrightarrow> vload8 m dir (a + of_nat i) = Inr (f i)" by metis
  then show ?thesis using that [of "map f [0..<20]"] by simp
qed

lemma write_message_spec:
  assumes ok: "reachable_message m U dir V a"
  shows "\<exists>m'. write_message dir a x m = Inr m' \<and> reachable_message m' U dir V a \<and> writes_only dir V (bytes_of a 20) m m' \<and>
    read_message dir a m' = Inr (x\<lparr>mid := int32 (mid x)\<rparr>)"
proof -
  let ?A = "bytes32 (word_of_int (mid x)) @ bytes16 (mtype x) @ [of_bool (isValid x)]" and ?B = "bytes32 (m_p1 x) @ bytes32 (m_p2 x) @ bytes32 (m_p3 x)"
  have len: "length ?A = 7" "length ?B = 12" by (simp_all add: bytes_read(3,4))
  obtain bs where bs: "length bs = 20" "\<And>i. i < 20 \<Longrightarrow> vload8 m dir (a + of_nat i) = Inr (bs ! i)" using reachable_bytes [OF ok] by blast
  obtain m1 where m1: "vput dir a ?A m = Inr m1" "reachable_message m1 U dir V a" "writes_only dir V (bytes_of a 20) m m1"
      "\<And>i. i < 20 \<Longrightarrow> vload8 m1 dir (a + of_nat i) = (if i < 7 then Inr (?A ! i) else Inr (bs ! i))"
    using put_part [OF ok, of 0 ?A] unfolding len using bs(2) by auto
  obtain m2 where m2: "vput dir (a + 8) ?B m1 = Inr m2" "reachable_message m2 U dir V a" "writes_only dir V (bytes_of a 20) m1 m2"
      "\<And>i. i < 20 \<Longrightarrow> vload8 m2 dir (a + of_nat i) = (if 8 \<le> i then Inr (?B ! (i - 8)) else vload8 m1 dir (a + of_nat i))"
    using put_part [OF m1(2), of 8 ?B] unfolding len by auto
  have mb: "message_bytes x (bs ! 7) = ?A @ [bs ! 7] @ ?B" by (simp add: message_bytes_def)
  have "vload8 m2 dir (a + of_nat i) = Inr (message_bytes x (bs ! 7) ! i)" if "i < 20" for i
  proof -
    consider "i < 7" | "i = 7" | "8 \<le> i" by linarith
    then show ?thesis
      unfolding mb using m2(4) [OF that] m1(4) [OF that] len by cases (simp_all add: nth_append del: append_assoc)
  qed
  moreover have "length (message_bytes x (bs ! 7)) = 20" unfolding mb using len by simp
  ultimately have "vget dir a 20 m2 = Inr (message_bytes x (bs ! 7))"
    using vget_bytes [of "message_bytes x (bs ! 7)" m2 dir a] by (simp only:)
  from message_bytes_read [OF this] show ?thesis
    using m1(1) m2(1,2) writes_only_trans [OF m1(3) m2(3)] unfolding write_message_puts by simp
qed

text \<open>The id alone replaced.\<close>

lemma put_id_spec:
  assumes ok: "reachable_message m U dir V a" and mess: "read_message dir a m = Inr mess"
  shows "\<exists>m'. put_field dir a ''id'' (bytes32 (word_of_int i)) m = Inr m' \<and> reachable_message m' U dir V a \<and>
    writes_only dir V (bytes_of a 20) m m' \<and> read_message dir a m' = Inr (mess\<lparr>mid := int32 i\<rparr>)"
proof -
  let ?w = "bytes32 (word_of_int i)"
  obtain bs where bs: "length bs = 20" "\<And>i. i < 20 \<Longrightarrow> vload8 m dir (a + of_nat i) = Inr (bs ! i)" using reachable_bytes [OF ok] by blast
  obtain m' where m': "vput dir a ?w m = Inr m'" "reachable_message m' U dir V a" "writes_only dir V (bytes_of a 20) m m'"
      "\<And>i. i < 20 \<Longrightarrow> vload8 m' dir (a + of_nat i) = (if i < 4 then Inr (?w ! i) else Inr (bs ! i))"
    using put_part [OF ok, of 0 ?w] bs(2) by (auto simp: bytes_read(3))
  let ?bs = "?w @ drop 4 bs"
  have "vload8 m' dir (a + of_nat i) = Inr (?bs ! i)" if "i < length ?bs" for i
    using that m'(4) [of i] bs(1) by (simp add: nth_append bytes_read(3))
  from vget_bytes [OF this] have g': "vget dir a 20 m' = Inr ?bs" using bs(1) by (simp add: bytes_read(3))
  have g: "vget dir a 20 m = Inr bs" using vget_bytes [of bs m dir a] bs by simp
  have "field32 message_layout ''id'' ?bs = word_of_int i" "field16 message_layout ''type'' ?bs = field16 message_layout ''type'' bs"
    "?bs ! 6 = bs ! 6" "field32 message_layout ''p1'' ?bs = field32 message_layout ''p1'' bs"
    "field32 message_layout ''p2'' ?bs = field32 message_layout ''p2'' bs" "field32 message_layout ''p3'' ?bs = field32 message_layout ''p3'' bs"
    using bs(1) by (simp_all add: field32_def field16_def message_offsets le_at_def nth_append bytes_read(1,3))
  then have "read_message dir a m' = Inr (mess\<lparr>mid := int32 i\<rparr>)"
    using mess g g' by (auto simp: read_message_def message_offsets int32_def)
  then show ?thesis using m' by (simp add: put_field_def message_offsets)
qed

section \<open>The kernel calls\<close>

definition with_mem :: "machine \<Rightarrow> mem \<Rightarrow> machine" where
  "with_mem M m = M\<lparr>mvm := (mvm M)\<lparr>vmem := m\<rparr>\<rparr>"

lemma with_mem_simps [simp]:
  "mk (with_mem M m) = mk M" "vmem (mvm (with_mem M m)) = m" "cur_proc (with_mem M m) = cur_proc M" "with_mem (with_mem M m) m' = with_mem M m'"
  by (simp_all add: with_mem_def cur_proc_def fun_eq_iff)

definition calls :: "u32 \<Rightarrow> u32 \<Rightarrow> u32 \<Rightarrow> u32 \<Rightarrow> machine \<Rightarrow> bool" where
  "calls args nr uarg1 uarg2 M \<longleftrightarrow> get_reg args ''ax'' M = Inr nr \<and> get_reg args ''bx'' M = Inr uarg1 \<and> get_reg args ''cx'' M = Inr uarg2 \<and>
     (\<exists>x. get_reg args ''dx'' M = Inr x)"

text \<open>The current process \<open>p\<close> names a message of its memory.\<close>

definition has_message :: "machine \<Rightarrow> nat \<Rightarrow> nat set \<Rightarrow> nat set \<Rightarrow> u32 \<Rightarrow> Message \<Rightarrow> bool" where
  "has_message M p U V a mess \<longleftrightarrow> pCurrent (pManager (mk M)) = Some p \<and>
     reachable_message (vmem (mvm M)) U (cpu_cr3 (mk M)) V a \<and> read_message (cpu_cr3 (mk M)) a (vmem (mvm M)) = Inr mess"

lemma own_message_spec:
  assumes "has_message M p U V a mess"
  defines "x \<equiv> mess\<lparr>mid := int32 (pid (cur_proc M p))\<rparr>"
  shows "\<exists>m'. own_message a M = Inr (x, with_mem M m') \<and> reachable_message m' U (cpu_cr3 (mk M)) V a \<and>
    writes_only (cpu_cr3 (mk M)) V (bytes_of a 20) (vmem (mvm M)) m' \<and> read_message (cpu_cr3 (mk M)) a m' = Inr x"
  using put_id_spec [of "vmem (mvm M)" U "cpu_cr3 (mk M)" V a mess "pid (cur_proc M p)"] assms(1)
  by (auto simp: own_message_def has_message_def x_def with_mem_def)

lemma kernelCall_send_spec:
  assumes "calls args NR_K_SEND to a M" and "has_message M p U V a mess"
    and "send (mk M) (sint to) (mess\<lparr>mid := int32 (pid (cur_proc M p))\<rparr>) = Inr (k, mess')"
  shows "\<exists>m'. kernelCall E args (M, d) = Inr ((with_mem M m')\<lparr>mk := k\<rparr>, d) \<and>
    writes_only (cpu_cr3 (mk M)) V (bytes_of a 20) (vmem (mvm M)) m' \<and>
    read_message (cpu_cr3 (mk M)) a m' = Inr (mess\<lparr>mid := int32 (mid mess')\<rparr>)"
proof -
  obtain m1 where m1: "own_message a M = Inr (mess\<lparr>mid := int32 (pid (cur_proc M p))\<rparr>, with_mem M m1)"
      "reachable_message m1 U (cpu_cr3 (mk M)) V a" "writes_only (cpu_cr3 (mk M)) V (bytes_of a 20) (vmem (mvm M)) m1"
      "read_message (cpu_cr3 (mk M)) a m1 = Inr (mess\<lparr>mid := int32 (pid (cur_proc M p))\<rparr>)"
    using own_message_spec [OF assms(2)] by blast
  obtain m2 where m2: "put_field (cpu_cr3 (mk M)) a ''id'' (bytes32 (word_of_int (mid mess'))) m1 = Inr m2"
      "writes_only (cpu_cr3 (mk M)) V (bytes_of a 20) m1 m2" "read_message (cpu_cr3 (mk M)) a m2 = Inr (mess\<lparr>mid := int32 (mid mess')\<rparr>)"
    using put_id_spec [OF m1(2,4), of "mid mess'"] by auto
  have "call_send to a M = Inr ((with_mem M m2)\<lparr>mk := k\<rparr>)"
    using m1(1) m2(1) assms(3) by (simp add: call_send_def) (simp add: with_mem_def)
  then have "kernelCall E args (M, d) = Inr ((with_mem M m2)\<lparr>mk := k\<rparr>, d)"
    using assms(1) by (auto simp: kernelCall_def calls_def NR_K_EXEC_def NR_K_SEND_def)
  then show ?thesis using m2(3) writes_only_trans [OF m1(3) m2(2)] by auto
qed

lemma kernelCall_recv_spec:
  assumes "calls args NR_K_RECV from a M" and "has_message M p U V a mess"
    and "recv (mk M) (sint from) (mess\<lparr>mid := int32 (pid (cur_proc M p))\<rparr>) = Inr (k, mess')"
  shows "\<exists>m'. kernelCall E args (M, d) = Inr ((with_mem M m')\<lparr>mk := k\<rparr>, d) \<and>
    writes_only (cpu_cr3 (mk M)) V (bytes_of a 20) (vmem (mvm M)) m' \<and>
    read_message (cpu_cr3 (mk M)) a m' = Inr (mess'\<lparr>mid := int32 (mid mess')\<rparr>)"
proof -
  obtain m1 where m1: "own_message a M = Inr (mess\<lparr>mid := int32 (pid (cur_proc M p))\<rparr>, with_mem M m1)"
      "reachable_message m1 U (cpu_cr3 (mk M)) V a" "writes_only (cpu_cr3 (mk M)) V (bytes_of a 20) (vmem (mvm M)) m1"
    using own_message_spec [OF assms(2)] by blast
  obtain m2 where m2: "write_message (cpu_cr3 (mk M)) a mess' m1 = Inr m2"
      "writes_only (cpu_cr3 (mk M)) V (bytes_of a 20) m1 m2" "read_message (cpu_cr3 (mk M)) a m2 = Inr (mess'\<lparr>mid := int32 (mid mess')\<rparr>)"
    using write_message_spec [OF m1(2), of mess'] by auto
  have "call_recv from a M = Inr ((with_mem M m2)\<lparr>mk := k\<rparr>)"
    using m1(1) m2(1) assms(3) by (simp add: call_recv_def) (simp add: with_mem_def)
  then have "kernelCall E args (M, d) = Inr ((with_mem M m2)\<lparr>mk := k\<rparr>, d)"
    using assms(1) by (auto simp: kernelCall_def calls_def NR_K_EXEC_def NR_K_SEND_def NR_K_RECV_def)
  then show ?thesis using m2(3) writes_only_trans [OF m1(3) m2(2)] by auto
qed

lemma int32_sint [simp]: "int32 (sint w) = sint w" for w :: u32
  by (simp add: int32_def)

text \<open>The sending process can send, and the receiving process does not wait for it.\<close>

definition can_send :: "kernel \<Rightarrow> nat \<Rightarrow> int \<Rightarrow> nat \<Rightarrow> bool" where
  "can_send k s R r \<longleftrightarrow> kernel_inv k \<and> pCurrent (pManager k) = Some s \<and> s < nr_Proc \<and> status (proc (pManager k) s) = TASK_RUNNING \<and>
     unat (prior (proc (pManager k) s)) < nr_Level \<and> getProc (pManager k) (pid (proc (pManager k) s)) = Some s \<and>
     pid (proc (pManager k) s) \<noteq> PID_ANY \<and> getProc (pManager k) R = Some r \<and> r \<noteq> s \<and>
     (\<forall>x \<in> set (que_list (recvQ (proc (pManager k) s))). mid x \<noteq> R) \<and> que_list (recv_anyQ (proc (pManager k) r)) = [] \<and>
     length (que_list (sendQ (proc (pManager k) r))) < nrMessage"

lemma message_words:
  assumes "can_send (mk M) s (sint to) r" and "calls args NR_K_SEND to a M" and "has_message M s U V a mess" and "isValid mess"
    and "sint from = pid (cur_proc M s)"
  shows "\<exists>M1. kernelCall E args (M, d) = Inr (M1, d) \<and> kernel_inv (mk M1) \<and> status (cur_proc M1 s) = TASK_STOPPED \<and>
    writes_only (cpu_cr3 (mk M)) V (bytes_of a 20) (vmem (mvm M)) (vmem (mvm M1)) \<and>
    (\<forall>M2 args2 U2 V2 b m0. kernel_inv (mk M2) \<and> pManager (mk M2) = (pManager (mk M1))\<lparr>pCurrent := Some r, pPrev := Some s\<rparr> \<and>
       calls args2 NR_K_RECV from b M2 \<and> has_message M2 r U2 V2 b m0 \<longrightarrow>
       (\<exists>M3. kernelCall E args2 (M2, d) = Inr (M3, d) \<and> status (cur_proc M3 s) = TASK_RUNNING \<and>
          writes_only (cpu_cr3 (mk M2)) V2 (bytes_of b 20) (vmem (mvm M2)) (vmem (mvm M3)) \<and>
          read_message (cpu_cr3 (mk M2)) b (vmem (mvm M3)) = Inr (mess\<lparr>mid := sint from\<rparr>)))"
proof -
  let ?k = "mk M" and ?S = "sint from"
  note c = assms(1) [unfolded can_send_def]
  have S: "pid (proc (pManager ?k) s) = ?S" using assms(5) by (simp add: cur_proc_def)
  have r: "r < nr_Proc" using getProc_Some(1) [of "pManager ?k" "sint to" r] kernel_len [of ?k] c by simp
  have ex: "\<exists>k1. send ?k (sint to) (mess\<lparr>mid := ?S\<rparr>) = Inr (k1, mess\<lparr>mid := ?S\<rparr>) \<and> kernel_inv k1 \<and>
      status (proc (pManager k1) s) = TASK_STOPPED \<and>
      que_list (sendQ (proc (pManager k1) r)) = mess\<lparr>mid := ?S\<rparr> # que_list (sendQ (proc (pManager ?k) r)) \<and>
      (\<forall>d. getProc (pManager k1) d = getProc (pManager ?k) d) \<and> prior (proc (pManager k1) s) = prior (proc (pManager ?k) s)"
    using send_blocks [of ?k s "sint to" r "mess\<lparr>mid := ?S\<rparr>"] c S by simp
  then obtain k1 where k1: "send ?k (sint to) (mess\<lparr>mid := ?S\<rparr>) = Inr (k1, mess\<lparr>mid := ?S\<rparr>)" "kernel_inv k1"
      "status (proc (pManager k1) s) = TASK_STOPPED"
      "que_list (sendQ (proc (pManager k1) r)) = mess\<lparr>mid := ?S\<rparr> # que_list (sendQ (proc (pManager ?k) r))"
      "getProc (pManager k1) ?S = Some s" "prior (proc (pManager k1) s) = prior (proc (pManager ?k) s)"
    using c S by auto
  obtain m1 where m1: "kernelCall E args (M, d) = Inr ((with_mem M m1)\<lparr>mk := k1\<rparr>, d)"
      "writes_only (cpu_cr3 ?k) V (bytes_of a 20) (vmem (mvm M)) m1"
    using kernelCall_send_spec [OF assms(2,3), of k1 "mess\<lparr>mid := ?S\<rparr>" E d] k1(1) assms(5) [symmetric] by auto
  let ?M1 = "(with_mem M m1)\<lparr>mk := k1\<rparr>"
  have "\<exists>M3. kernelCall E args2 (M2, d) = Inr (M3, d) \<and> status (cur_proc M3 s) = TASK_RUNNING \<and>
      writes_only (cpu_cr3 (mk M2)) V2 (bytes_of b 20) (vmem (mvm M2)) (vmem (mvm M3)) \<and>
      read_message (cpu_cr3 (mk M2)) b (vmem (mvm M3)) = Inr (mess\<lparr>mid := ?S\<rparr>)"
    if M2: "kernel_inv (mk M2)" "pManager (mk M2) = (pManager k1)\<lparr>pCurrent := Some r, pPrev := Some s\<rparr>"
      "calls args2 NR_K_RECV from b M2" "has_message M2 r U2 V2 b m0" for M2 args2 U2 V2 b m0
  proof -
    obtain k3 where k3: "recv (mk M2) ?S (m0\<lparr>mid := int32 (pid (cur_proc M2 r))\<rparr>) = Inr (k3, mess\<lparr>mid := ?S\<rparr>)"
        "status (proc (pManager k3) s) = TASK_RUNNING"
      using recv_takes [OF M2(1), of r ?S "mess\<lparr>mid := ?S\<rparr>" "que_list (sendQ (proc (pManager ?k) r))" s] c S k1 r assms(4) M2(2) by auto
    from kernelCall_recv_spec [OF M2(3,4) k3(1), of E d] k3(2) show ?thesis by (auto simp: cur_proc_def)
  qed
  then show ?thesis using m1 k1(2,3) by (intro exI [of _ ?M1]) (auto simp: cur_proc_def)
qed

lemma saved_calls:
  "saved_regs args (sys_send to a) M \<Longrightarrow> calls args NR_K_SEND (word_of_int to) a M"
  "saved_regs args (sys_recv from a) M \<Longrightarrow> calls args NR_K_RECV (word_of_int from) a M"
  by (auto simp: saved_regs_def sys_send_def sys_recv_def kernel_call_asm_def calls_def)

section \<open>An example\<close>

text \<open>Two calls and two messages in the page of \<open>elf_mem\<close>: process 7 sends to process 8, which receives.\<close>

definition ipc_mem :: mem where
  "ipc_mem = elf_mem(0x212c := 1, 0x2120 := 8, 0x2128 := 0xfffff300, 0x2308 := 42, 0x2304 := 0x10000,
     0x222c := 2, 0x2220 := 7, 0x2228 := 0xfffff400)"

lemma ipc_space:
  "space_ok ipc_mem (- free_frames demo_pfa) 0 V"
  "translate ipc_mem 0 x = (if dir_index x = 1023 \<and> table_index x = 1023 then Some (0x2000 + (x AND 0xfff)) else None)"
proof -
  have same: "ipc_mem p = elf_mem p" if "frame_of p \<in> table_frames elf_mem 0" for p
    using that elf_table_frames by (auto simp: ipc_mem_def frame_of_def)
  show "space_ok ipc_mem (- free_frames demo_pfa) 0 V" by (rule space_ok_same(1) [OF elf_space same])
  show "translate ipc_mem 0 x = (if dir_index x = 1023 \<and> table_index x = 1023 then Some (0x2000 + (x AND 0xfff)) else None)"
    using space_ok_same(2) [OF elf_space same] by (simp add: elf_translate)
qed

lemma ipc_load:
  assumes "dir_index x = 1023" and "table_index x = 1023"
  shows "vload8 ipc_mem 0 x = Inr (load8 ipc_mem (0x2000 + (x AND 0xfff)))" "vload32 ipc_mem 0 x = Inr (ipc_mem (0x2000 + (x AND 0xfff)))"
  using assms by (simp_all add: vload8_translate vload32_def mmu_def ipc_space(2))

lemma vget_numeral:
  "vget dir a (numeral n) m = rbind (vload8 m dir a) (\<lambda>b. rbind (vget dir (a + 1) (pred_numeral n) m) (\<lambda>bs. Inr (b # bs)))"
  by (simp add: numeral_eq_Suc)

lemma bytes_of_numeral: "bytes_of a (numeral n) = insert a (bytes_of (a + 1) (pred_numeral n))"
  by (simp add: numeral_eq_Suc bytes_of_simps)

lemma ipc_bytes:
  "vget 0 0xfffff300 20 ipc_mem = Inr [0, 0, 0, 0, 0, 0, 1, 0, 42, 0, 0, 0, 0, 0, 0, 0, 0, 0, 0, 0]"
  "vget 0 0xfffff400 20 ipc_mem = Inr [0, 0, 0, 0, 0, 0, 0, 0, 0, 0, 0, 0, 0, 0, 0, 0, 0, 0, 0, 0]"
  by (simp_all add: vget_numeral ipc_load dir_index_def table_index_def) (simp_all add: load8_def ipc_mem_def elf_mem_def)

lemma ipc_messages:
  "reachable_message ipc_mem (- free_frames demo_pfa) 0 UNIV 0xfffff300" "reachable_message ipc_mem (- free_frames demo_pfa) 0 UNIV 0xfffff400"
  "read_message 0 0xfffff300 ipc_mem = Inr ((Message_id 0)\<lparr>m_p1 := 42\<rparr>)" "read_message 0 0xfffff400 ipc_mem = Inr invMessage"
proof -
  show "reachable_message ipc_mem (- free_frames demo_pfa) 0 UNIV 0xfffff300" "reachable_message ipc_mem (- free_frames demo_pfa) 0 UNIV 0xfffff400"
    by (simp_all add: reachable_message_def ipc_space bytes_of_numeral bytes_of_simps dir_index_def table_index_def)
  show "read_message 0 0xfffff300 ipc_mem = Inr ((Message_id 0)\<lparr>m_p1 := 42\<rparr>)" "read_message 0 0xfffff400 ipc_mem = Inr invMessage"
    by (simp_all add: read_message_def message_offsets ipc_bytes field32_def field16_def le_at_def Message_id_def invMessage_def)
qed

lemma ipc_regs:
  "cpu_cr3 (mk M) = 0 \<Longrightarrow> saved_regs 0xfffff100 (sys_send 8 0xfffff300) (with_mem M ipc_mem)"
  "cpu_cr3 (mk M) = 0 \<Longrightarrow> saved_regs 0xfffff200 (sys_recv 7 0xfffff400) (with_mem M ipc_mem)"
  by (simp_all add: saved_regs_def sys_send_def sys_recv_def kernel_call_asm_def get_reg_def stack_frame_s_def ipc_load dir_index_def table_index_def)
    (simp_all add: ipc_mem_def elf_mem_def NR_K_SEND_def NR_K_RECV_def)

lemma ipc_can_send: "can_send demo_ipc 0 8 1" "cpu_cr3 demo_ipc = 0" "pid (proc (pManager demo_ipc) 0) = 7" "pCurrent (pManager demo_ipc) = Some 0"
proof -
  have p0: "proc (pManager demo_ipc) 0 = demo_proc\<lparr>pid := 7, prior := Psys, status := TASK_RUNNING\<rparr>" by (rule demo_fork(4))
  have p1: "proc (pManager demo_ipc) (Suc 0) = demo_proc\<lparr>pid := 8, prior := Psys, status := TASK_STOPPED\<rparr>"
    using demo_pair_lists(3) by (simp add: demo_ipc_def)
  show c: "pCurrent (pManager demo_ipc) = Some 0" using demo_pair_lists(5) by (simp add: demo_ipc_def)
  show "cpu_cr3 demo_ipc = 0" by (simp add: demo_ipc_def demo_kernel_def)
  show "pid (proc (pManager demo_ipc) 0) = 7" using p0 by simp
  have "getProc (pManager demo_ipc) 7 = Some 0" "getProc (pManager demo_ipc) 8 = Some 1" using demo_ipc_lookup by (simp_all add: demo_ipc_def)
  then show "can_send demo_ipc 0 8 1"
    using demo_ipc_inv c p0 p1 demo_proc_queues by (simp add: can_send_def Psys_def nr_Level_def nr_Proc_def PID_ANY_def nrMessage_def)
qed

end
