(* ===== verification/Keyboard.thy ===== *)
theory Keyboard
  imports Port_IO
begin

unbundle bit_operations_syntax

text \<open>
  The keyboard controller, \<^verbatim>\<open>src/include/os/init_KBC.h\<close>: every byte sent to it waits until the controller is ready. The wait
  has no bound in the source; the model gives it fuel and not getting ready in time is the error \<open>Hang\<close>.
\<close>

section \<open>Operations\<close>

definition PORT_KEYDAT :: u16 where "PORT_KEYDAT = 0x60"
definition PORT_KEYCMD :: u16 where "PORT_KEYCMD = 0x64"
definition PORT_KEYSTA :: u16 where "PORT_KEYSTA = 0x64"
definition KEYSTA_SEND_NOTREADY :: u8 where "KEYSTA_SEND_NOTREADY = 0x02"
definition KEYCMD_WRITE_MODE :: u8 where "KEYCMD_WRITE_MODE = 0x60"
definition KBC_MODE :: u8 where "KBC_MODE = 0x47"
definition KEYCMD_SENDTO_MOUSE :: u8 where "KEYCMD_SENDTO_MOUSE = 0xd4"
definition MOUSECMD_ENABLE :: u8 where "MOUSECMD_ENABLE = 0xf4"

fun wait_KBC_sendready :: "('d, 'y) bus_scheme \<Rightarrow> nat \<Rightarrow> ('d, 'z) io_scheme \<Rightarrow> ('d, 'z) io_scheme kres" where
  "wait_KBC_sendready P 0 s = Inl Hang"
| "wait_KBC_sendready P (Suc n) s =
     (let (v, s) = inb P PORT_KEYSTA s in if v AND KEYSTA_SEND_NOTREADY = 0 then Inr s else wait_KBC_sendready P n s)"

definition init_keyboard :: "('d, 'y) bus_scheme \<Rightarrow> nat \<Rightarrow> ('d, 'z) io_scheme \<Rightarrow> ('d, 'z) io_scheme kres" where
  "init_keyboard P n s =
     rbind (wait_KBC_sendready P n s) (\<lambda>s.
     rbind (wait_KBC_sendready P n (outb P PORT_KEYCMD KEYCMD_WRITE_MODE s)) (\<lambda>s.
       Inr (outb P PORT_KEYDAT KBC_MODE s)))"

definition init_mouse :: "('d, 'y) bus_scheme \<Rightarrow> nat \<Rightarrow> ('d, 'z) io_scheme \<Rightarrow> ('d, 'z) io_scheme kres" where
  "init_mouse P n s =
     rbind (wait_KBC_sendready P n s) (\<lambda>s.
     rbind (wait_KBC_sendready P n (outb P PORT_KEYCMD KEYCMD_SENDTO_MOUSE s)) (\<lambda>s.
       Inr (outb P PORT_KEYDAT MOUSECMD_ENABLE s)))"

definition init_mouse_keyboard :: "('d, 'y) bus_scheme \<Rightarrow> nat \<Rightarrow> ('d, 'z) io_scheme \<Rightarrow> ('d, 'z) io_scheme kres" where
  "init_mouse_keyboard P n s = rbind (init_keyboard P n s) (init_mouse P n)"

section \<open>The bytes sent\<close>

text \<open>A byte may be sent only right after a status byte without the busy bit; \<open>b\<close> says whether the last access was one.\<close>

fun polite :: "bool \<Rightarrow> access list \<Rightarrow> bool" where
  "polite b [] = True"
| "polite b (In8 p v # as) = polite (p = PORT_KEYSTA \<and> v AND KEYSTA_SEND_NOTREADY = 0) as"
| "polite b (Out8 p v # as) = (b \<and> polite False as)"
| "polite b (_ # as) = False"

fun sent :: "access list \<Rightarrow> (u16 \<times> u8) list" where
  "sent [] = []"
| "sent (Out8 p v # as) = (p, v) # sent as"
| "sent (_ # as) = sent as"

text \<open>The controller gets ready within \<open>n\<close> reads of its status.\<close>

fun ready_within :: "('d, 'y) bus_scheme \<Rightarrow> nat \<Rightarrow> 'd \<Rightarrow> bool" where
  "ready_within P 0 d = False"
| "ready_within P (Suc n) d = (let (v, d') = b_inb P PORT_KEYSTA d in v AND KEYSTA_SEND_NOTREADY = 0 \<or> ready_within P n d')"

lemma sent_append [simp]: "sent (xs @ ys) = sent xs @ sent ys"
  by (induction xs rule: sent.induct) simp_all

lemma wait_returns:
  "ready_within P n (dev s) \<Longrightarrow>
     \<exists>s' as. wait_KBC_sendready P n s = Inr s' \<and> trace s' = trace s @ as \<and> sent as = [] \<and> (\<forall>b bs. polite b (as @ bs) = polite True bs)"
proof (induction n arbitrary: s)
  case (Suc n)
  obtain v d where v: "b_inb P PORT_KEYSTA (dev s) = (v, d)" by (cases "b_inb P PORT_KEYSTA (dev s)")
  let ?s = "s\<lparr>dev := d, trace := trace s @ [In8 PORT_KEYSTA v]\<rparr>"
  have i: "inb P PORT_KEYSTA s = (v, ?s)" by (simp add: inb_def v)
  show ?case
  proof (cases "v AND KEYSTA_SEND_NOTREADY = 0")
    case True
    then show ?thesis by (intro exI [of _ ?s] exI [of _ "[In8 PORT_KEYSTA v]"]) (simp add: i)
  next
    case False
    then have "ready_within P n (dev ?s)" using Suc.prems by (simp add: v)
    from Suc.IH [OF this] obtain s' as where as: "wait_KBC_sendready P n ?s = Inr s'" "trace s' = trace ?s @ as" "sent as = []"
        "\<forall>b bs. polite b (as @ bs) = polite True bs" by blast
    show ?thesis by (intro exI [of _ s'] exI [of _ "In8 PORT_KEYSTA v # as"]) (simp add: i False as)
  qed
qed simp

text \<open>
  C39. Whatever the controller does, as long as it gets ready again and again within a bounded number of polls, the
  initialisation of keyboard and mouse returns; it has sent exactly the four bytes of the two commands, in order and to the
  right ports, and no byte while the controller reported that it was busy.
\<close>

theorem init_mouse_keyboard_returns:
  assumes "\<forall>d. ready_within P n d"
  shows "\<exists>s' as. init_mouse_keyboard P n s = Inr s' \<and> trace s' = trace s @ as \<and> polite False as \<and>
    sent as = [(0x64, 0x60), (0x60, 0x47), (0x64, 0xd4), (0x60, 0xf4)]"
proof -
  have step: "\<exists>s' as. wait_KBC_sendready P n s = Inr s' \<and> trace s' = trace s @ as \<and> sent as = [] \<and> (\<forall>b bs. polite b (as @ bs) = polite True bs)" for s
    using wait_returns assms by blast
  let ?o1 = "outb P PORT_KEYCMD KEYCMD_WRITE_MODE" and ?o2 = "outb P PORT_KEYDAT KBC_MODE"
  let ?o3 = "outb P PORT_KEYCMD KEYCMD_SENDTO_MOUSE" and ?o4 = "outb P PORT_KEYDAT MOUSECMD_ENABLE"
  obtain s1 a1 where 1: "wait_KBC_sendready P n s = Inr s1" "trace s1 = trace s @ a1" "sent a1 = []"
      "\<And>b bs. polite b (a1 @ bs) = polite True bs" using step [of s] by blast
  obtain s2 a2 where 2: "wait_KBC_sendready P n (?o1 s1) = Inr s2" "trace s2 = trace (?o1 s1) @ a2" "sent a2 = []"
      "\<And>b bs. polite b (a2 @ bs) = polite True bs" using step [of "?o1 s1"] by blast
  obtain s3 a3 where 3: "wait_KBC_sendready P n (?o2 s2) = Inr s3" "trace s3 = trace (?o2 s2) @ a3" "sent a3 = []"
      "\<And>b bs. polite b (a3 @ bs) = polite True bs" using step [of "?o2 s2"] by blast
  obtain s4 a4 where 4: "wait_KBC_sendready P n (?o3 s3) = Inr s4" "trace s4 = trace (?o3 s3) @ a4" "sent a4 = []"
      "\<And>b bs. polite b (a4 @ bs) = polite True bs" using step [of "?o3 s3"] by blast
  let ?as = "a1 @ [Out8 PORT_KEYCMD KEYCMD_WRITE_MODE] @ a2 @ [Out8 PORT_KEYDAT KBC_MODE] @
    a3 @ [Out8 PORT_KEYCMD KEYCMD_SENDTO_MOUSE] @ a4 @ [Out8 PORT_KEYDAT MOUSECMD_ENABLE]"
  have "init_mouse_keyboard P n s = Inr (?o4 s4)"
    using 1(1) 2(1) 3(1) 4(1) by (simp add: init_mouse_keyboard_def init_keyboard_def init_mouse_def)
  moreover have "trace (?o4 s4) = trace s @ ?as" using 1(2) 2(2) 3(2) 4(2) by simp
  moreover have "polite False ?as" using 1(4) 2(4) 3(4) 4(4) by simp
  moreover have "sent ?as = [(0x64, 0x60), (0x60, 0x47), (0x64, 0xd4), (0x60, 0xf4)]"
    using 1(3) 2(3) 3(3) 4(3) by (simp add: PORT_KEYCMD_def PORT_KEYDAT_def KEYCMD_WRITE_MODE_def KBC_MODE_def KEYCMD_SENDTO_MOUSE_def MOUSECMD_ENABLE_def)
  ultimately show ?thesis by blast
qed

text \<open>A controller that is busy for one poll after every byte.\<close>

definition kbc_bus :: "bool bus" where
  "kbc_bus = \<lparr>b_inb = \<lambda>_ busy. (if busy then 2 else 0, False), b_inw = \<lambda>_ d. (0, d), b_inl = \<lambda>_ d. (0, d),
     b_outb = \<lambda>_ _ _. True, b_outw = \<lambda>_ _ d. d, b_delay = \<lambda>_ d. d\<rparr>"

theorem init_mouse_keyboard_returns_witness:
  "(\<forall>d. ready_within kbc_bus 2 d) \<and>
   (\<exists>s' as. init_mouse_keyboard kbc_bus 2 \<lparr>dev = True, trace = []\<rparr> = Inr s' \<and> trace s' = as \<and> polite False as \<and>
      sent as = [(0x64, 0x60), (0x60, 0x47), (0x64, 0xd4), (0x60, 0xf4)])"
proof -
  have r: "\<forall>d. ready_within kbc_bus 2 d" by (simp add: kbc_bus_def numeral_eq_Suc KEYSTA_SEND_NOTREADY_def)
  from init_mouse_keyboard_returns [OF this, of "\<lparr>dev = True, trace = []\<rparr>"] r show ?thesis by auto
qed

end
